(* ===== verification/Meshbox_Prelude.thy ===== *)
theory Meshbox_Prelude
  imports Main "HOL-Library.Word"
begin

text \<open>
  Shared vocabulary of the development: the machine types of the Go sources, the conversions
  between \<^verbatim>\<open>*big.Int\<close> and the fixed-width integers, results of fallible functions, and the
  generic lemmas the component theories rely on.
\<close>

section \<open>Types\<close>

type_synonym byte = "8 word"
type_synonym u64 = "64 word"
type_synonym address = "160 word" \<comment> \<open>\<^verbatim>\<open>common.Address\<close>: 20 bytes\<close>
type_synonym hash = "256 word" \<comment> \<open>\<^verbatim>\<open>common.Hash\<close>: 32 bytes\<close>

text \<open>
  A Go function that returns \<^verbatim>\<open>(value, error)\<close> is modelled by a sum: \<open>Inr v\<close> is a normal
  return, \<open>Inl (Err e)\<close> a returned error and \<open>Inl (Panic msg)\<close> a run-time panic.
\<close>

datatype 'e fault = Panic string | Err 'e

type_synonym ('e, 'a) result = "'e fault + 'a"

definition and_then :: "('e, 'a) result \<Rightarrow> ('a \<Rightarrow> ('e, 'b) result) \<Rightarrow> ('e, 'b) result" where
  "and_then r f = (case r of Inl e \<Rightarrow> Inl e | Inr v \<Rightarrow> f v)"

named_theorems go_int \<open>conversions between Go integers\<close>
named_theorems result_simps \<open>rewriting of fallible computations\<close>

lemma and_then_simps [simp, result_simps]:
  "and_then (Inl e) f = Inl e" "and_then (Inr v) f = f v"
  by (simp_all add: and_then_def)

lemma and_then_Inr_iff [result_simps]:
  "and_then r f = Inr w \<longleftrightarrow> (\<exists>v. r = Inr v \<and> f v = Inr w)"
  by (cases r) auto

lemma and_then_assoc [result_simps]:
  "and_then (and_then r f) g = and_then r (\<lambda>v. and_then (f v) g)"
  by (cases r) auto

section \<open>Integers\<close>

text \<open>
  \<^verbatim>\<open>math/big\<close>: \<^verbatim>\<open>x.Uint64()\<close> is the low 64 bits of the magnitude of \<open>x\<close>;
  \<^verbatim>\<open>x.Int64()\<close> is those bits read as a signed number, negated when \<open>x\<close> is negative.
  A Go \<^verbatim>\<open>int64\<close> is an \<open>int\<close> in the range of \<open>i64\<close>, its arithmetic is wrapped by \<open>i64\<close>.
\<close>

definition i64 :: "int \<Rightarrow> int" where
  "i64 x = signed_take_bit 63 x"

definition big_Uint64 :: "int \<Rightarrow> u64" where
  "big_Uint64 x = word_of_int \<bar>x\<bar>"

definition big_Int64 :: "int \<Rightarrow> int" where
  "big_Int64 x = (if x < 0 then i64 (- i64 \<bar>x\<bar>) else i64 \<bar>x\<bar>)"

text \<open>Go's \<^verbatim>\<open>%\<close> truncates towards zero.\<close>

definition go_rem :: "int \<Rightarrow> int \<Rightarrow> int" where
  "go_rem a b = sgn a * (\<bar>a\<bar> mod \<bar>b\<bar>)"

text \<open>
  Dereferencing a \<^verbatim>\<open>*big.Int\<close>. It is applied to pointers the code has set or has tested;
  dereferencing nil would panic.
\<close>

definition deref :: "int option \<Rightarrow> int" where
  "deref p = (case p of None \<Rightarrow> 0 | Some n \<Rightarrow> n)"

lemma deref_Some [simp]: "deref (Some n) = n"
  by (simp add: deref_def)

lemma i64_id [simp, go_int]: "0 \<le> x \<Longrightarrow> x < 2 ^ 63 \<Longrightarrow> i64 x = x"
  by (simp add: i64_def signed_take_bit_int_eq_self)

lemma big_Int64_id [simp, go_int]: "0 \<le> x \<Longrightarrow> x < 2 ^ 63 \<Longrightarrow> big_Int64 x = x"
  by (simp add: big_Int64_def)

lemma uint_big_Uint64 [go_int]: "uint (big_Uint64 x) = \<bar>x\<bar> mod 2 ^ 64"
  by (simp add: big_Uint64_def uint_word_of_int)

lemma uint_big_Uint64_id [simp, go_int]:
  "0 \<le> x \<Longrightarrow> x < 2 ^ 64 \<Longrightarrow> uint (big_Uint64 x) = x"
  by (simp add: uint_big_Uint64)

lemma go_rem_pos [simp, go_int]: "0 \<le> a \<Longrightarrow> 0 < b \<Longrightarrow> go_rem a b = a mod b"
  by (cases "a = 0") (simp_all add: go_rem_def)

lemma go_rem_bounds: "0 \<le> a \<Longrightarrow> 0 < b \<Longrightarrow> 0 \<le> go_rem a b \<and> go_rem a b < b"
  by simp

section \<open>Sorting\<close>

text \<open>
  \<^verbatim>\<open>sort.Sort\<close> runs an insertion sort on slices of at most six elements: every element is moved
  left past the elements it is less than. The prefix sorted so far is kept reversed.
\<close>

fun insert_back :: "('a \<Rightarrow> 'a \<Rightarrow> bool) \<Rightarrow> 'a \<Rightarrow> 'a list \<Rightarrow> 'a list" where
  "insert_back lt x [] = [x]"
| "insert_back lt x (y # ys) = (if lt x y then y # insert_back lt x ys else x # y # ys)"

definition insertionSort :: "('a \<Rightarrow> 'a \<Rightarrow> bool) \<Rightarrow> 'a list \<Rightarrow> 'a list" where
  "insertionSort lt xs = rev (fold (insert_back lt) xs [])"

lemma set_insert_back [simp]: "set (insert_back lt x ys) = insert x (set ys)"
  by (induction ys) auto

lemma length_insert_back [simp]: "length (insert_back lt x ys) = Suc (length ys)"
  by (induction ys) auto

lemma set_fold_insert_back: "set (fold (insert_back lt) xs ys) = set xs \<union> set ys"
  by (induction xs arbitrary: ys) auto

lemma set_insertionSort [simp]: "set (insertionSort lt xs) = set xs"
  by (simp add: insertionSort_def set_fold_insert_back)

lemma length_insertionSort [simp]: "length (insertionSort lt xs) = length xs"
proof -
  have "length (fold (insert_back lt) xs ys) = length xs + length ys" for ys
    by (induction xs arbitrary: ys) auto
  then show ?thesis by (simp add: insertionSort_def)
qed

text \<open>With \<open>lt x y \<longleftrightarrow> key y < key x\<close> the result is in descending order of the key.\<close>

lemma sorted_insert_back:
  fixes key :: "'a \<Rightarrow> 'b::linorder"
  assumes "sorted (map key ys)"
  shows "sorted (map key (insert_back (\<lambda>a b. key a > key b) x ys))"
  using assms by (induction ys) (auto simp: not_less intro: order_trans less_imp_le)

lemma sorted_insertionSort:
  fixes key :: "'a \<Rightarrow> 'b::linorder"
  shows "sorted (rev (map key (insertionSort (\<lambda>a b. key a > key b) xs)))"
proof -
  have "sorted (map key ys) \<Longrightarrow> sorted (map key (fold (insert_back (\<lambda>a b. key a > key b)) xs ys))" for ys
    by (induction xs arbitrary: ys) (auto intro: sorted_insert_back)
  from this[of "[]"] show ?thesis
    by (simp add: insertionSort_def rev_map)
qed

text \<open>Sorting a sorted slice changes nothing.\<close>

lemma insert_back_ge:
  fixes key :: "'a \<Rightarrow> 'b::linorder"
  assumes "\<forall>y \<in> set ys. key x \<le> key y"
  shows "insert_back (\<lambda>a b. key a > key b) x ys = x # ys"
  using assms by (cases ys) auto

lemma insertionSort_sorted:
  fixes key :: "'a \<Rightarrow> 'b::linorder"
  assumes "sorted (rev (map key xs))"
  shows "insertionSort (\<lambda>a b. key a > key b) xs = xs"
proof -
  have "sorted (rev (map key xs)) \<Longrightarrow> \<forall>x \<in> set xs. \<forall>y \<in> set ys. key x \<le> key y \<Longrightarrow>
      fold (insert_back (\<lambda>a b. key a > key b)) xs ys = rev xs @ ys" for ys
  proof (induction xs arbitrary: ys)
    case (Cons x xs)
    then show ?case
      by (auto simp: insert_back_ge sorted_append intro!: Cons.IH)
  qed simp
  from this[of "[]"] assms show ?thesis by (simp add: insertionSort_def)
qed

lemma find_sorted_desc:
  fixes key :: "'a \<Rightarrow> 'b::linorder"
  assumes "sorted (rev (map key xs))" "find (\<lambda>c. key c \<le> n) xs = Some c" "d \<in> set xs" "key d \<le> n"
  shows "key d \<le> key c"
  using assms by (induction xs) (auto simp: sorted_append split: if_splits)

section \<open>Stateful computations\<close>

text \<open>
  A method that reads and writes the state of its component and may fail is a function from the
  state to a result and the state it leaves behind. A panic and an error keep the writes made
  before them, as in the code.
\<close>

type_synonym ('s, 'e, 'a) go = "'s \<Rightarrow> ('e, 'a) result \<times> 's"

definition returnM :: "'a \<Rightarrow> ('s, 'e, 'a) go" where
  "returnM v s = (Inr v, s)"

definition errM :: "'e \<Rightarrow> ('s, 'e, 'a) go" where
  "errM e s = (Inl (Err e), s)"

definition panicM :: "string \<Rightarrow> ('s, 'e, 'a) go" where
  "panicM msg s = (Inl (Panic msg), s)"

definition bindM :: "('s, 'e, 'a) go \<Rightarrow> ('a \<Rightarrow> ('s, 'e, 'b) go) \<Rightarrow> ('s, 'e, 'b) go" where
  "bindM m k s = (case m s of (Inl e, s') \<Rightarrow> (Inl e, s') | (Inr v, s') \<Rightarrow> k v s')"

definition liftM :: "('e, 'a) result \<Rightarrow> ('s, 'e, 'a) go" where
  "liftM r s = (r, s)"

definition readM :: "('s \<Rightarrow> 'a) \<Rightarrow> ('s, 'e, 'a) go" where
  "readM f s = (Inr (f s), s)"

definition modifyM :: "('s \<Rightarrow> 's) \<Rightarrow> ('s, 'e, unit) go" where
  "modifyM f s = (Inr (), f s)"

text \<open>\<^verbatim>\<open>v, err := f()\<close> where the caller goes on when \<open>err\<close> is set.\<close>

definition attemptM :: "('s, 'e, 'a) go \<Rightarrow> ('s, 'e, 'a option) go" where
  "attemptM m s = (case m s of
     (Inl (Panic msg), s') \<Rightarrow> (Inl (Panic msg), s')
   | (Inl (Err e), s') \<Rightarrow> (Inr None, s')
   | (Inr v, s') \<Rightarrow> (Inr (Some v), s'))"

text \<open>Using a \<^verbatim>\<open>*big.Int\<close> that may be nil: a nil pointer panics.\<close>

definition on_big :: "int option \<Rightarrow> (int \<Rightarrow> ('s, 'e, 'a) go) \<Rightarrow> ('s, 'e, 'a) go" where
  "on_big p k = (case p of None \<Rightarrow> panicM ''invalid memory address or nil pointer dereference'' | Some n \<Rightarrow> k n)"

lemma go_simps [simp, result_simps]:
  "returnM v s = (Inr v, s)" "errM e s = (Inl (Err e), s)" "panicM msg s = (Inl (Panic msg), s)"
  "liftM r s = (r, s)" "readM f s = (Inr (f s), s)" "modifyM g s = (Inr (), g s)"
  by (simp_all add: returnM_def errM_def panicM_def liftM_def readM_def modifyM_def)

lemma bindM_simps [simp, result_simps]:
  "bindM (returnM v) k = k v" "bindM (errM e) k = errM e" "bindM (panicM msg) k = panicM msg"
  by (simp_all add: bindM_def fun_eq_iff)

lemma bindM_run [simp]:
  "m s = (Inr v, s') \<Longrightarrow> bindM m k s = k v s'"
  "m s = (Inl e, s') \<Longrightarrow> bindM m k s = (Inl e, s')"
  by (simp_all add: bindM_def)

lemma bindM_Inr_iff [result_simps]:
  "bindM m k s = (Inr w, s'') \<longleftrightarrow> (\<exists>v s'. m s = (Inr v, s') \<and> k v s' = (Inr w, s''))"
  by (auto simp: bindM_def split: prod.splits sum.splits)

lemma on_big_simps [simp, result_simps]:
  "on_big (Some n) k = k n"
  "on_big None k = panicM ''invalid memory address or nil pointer dereference''"
  by (simp_all add: on_big_def)

lemma on_big_Inr_iff [result_simps]:
  "on_big p k s = (Inr w, s') \<longleftrightarrow> (\<exists>n. p = Some n \<and> k n s = (Inr w, s'))"
  by (cases p) simp_all

section \<open>Searching a slice\<close>

text \<open>The first position of an element: a \<^verbatim>\<open>range\<close> loop that returns at the first match.\<close>

fun index_of :: "'a \<Rightarrow> 'a list \<Rightarrow> nat option" where
  "index_of x [] = None"
| "index_of x (y # ys) = (if x = y then Some 0 else map_option Suc (index_of x ys))"

lemma index_of_None: "index_of x xs = None \<longleftrightarrow> x \<notin> set xs"
  by (induction xs) auto

lemma index_of_notin [simp]: "x \<notin> set xs \<Longrightarrow> index_of x xs = None"
  by (simp add: index_of_None)

lemma index_of_SomeD: "index_of x xs = Some i \<Longrightarrow> i < length xs \<and> xs ! i = x"
  by (induction xs arbitrary: i) (auto split: if_splits)

lemma index_of_first: "index_of x xs = Some i \<Longrightarrow> j < i \<Longrightarrow> xs ! j \<noteq> x"
proof (induction xs arbitrary: i j)
  case (Cons y ys)
  then show ?case by (cases j) (auto split: if_splits)
qed simp

lemma index_of_nth: "distinct xs \<Longrightarrow> i < length xs \<Longrightarrow> index_of (xs ! i) xs = Some i"
proof (induction xs arbitrary: i)
  case (Cons y ys)
  then show ?case by (cases i) auto
qed simp

lemma index_of_mem: "x \<in> set xs \<Longrightarrow> \<exists>i. index_of x xs = Some i"
  by (cases "index_of x xs") (simp_all add: index_of_None)

lemma index_of_split: "x \<notin> set us \<Longrightarrow> index_of x (us @ x # vs) = Some (length us)"
  by (induction us) auto

lemma index_of_inj: "index_of x xs = Some i \<Longrightarrow> index_of y xs = Some i \<Longrightarrow> x = y"
  using index_of_SomeD by metis

section \<open>Bytes\<close>

text \<open>Big-endian numbers: \<^verbatim>\<open>SetBytes\<close> and \<^verbatim>\<open>Bytes\<close> of \<^verbatim>\<open>big.Int\<close>.\<close>

definition be_int :: "byte list \<Rightarrow> int" where
  "be_int bs = foldl (\<lambda>acc b. acc * 256 + uint b) 0 bs"

fun be_bytes_nat :: "nat \<Rightarrow> byte list" where
  "be_bytes_nat n = (if n = 0 then [] else be_bytes_nat (n div 256) @ [word_of_nat n])"

declare be_bytes_nat.simps [simp del]

definition big_Bytes :: "int \<Rightarrow> byte list" where
  "big_Bytes n = be_bytes_nat (nat \<bar>n\<bar>)"

text \<open>
  \<^verbatim>\<open>copy(address[:], bs)\<close> fills an address from the left; \<^verbatim>\<open>BytesToAddress\<close> keeps the last 20
  bytes and pads on the left.
\<close>

definition copy_address :: "byte list \<Rightarrow> address" where
  "copy_address bs = word_of_int (be_int (take 20 (bs @ replicate 20 0)))"

definition BytesToAddress :: "byte list \<Rightarrow> address" where
  "BytesToAddress bs = word_of_int (be_int (drop (length bs - 20) bs))"

lemma be_int_append: "be_int (xs @ [b]) = be_int xs * 256 + uint b"
  by (simp add: be_int_def)

lemma be_int_be_bytes_nat: "be_int (be_bytes_nat n) = int n"
proof (induction n rule: be_bytes_nat.induct)
  case (1 n)
  show ?case
  proof (cases "n = 0")
    case False
    have "uint (word_of_nat n :: byte) = int n mod 256"
      by (simp add: unsigned_of_nat take_bit_eq_mod of_nat_mod)
    moreover have "int (n div 256) * 256 + int n mod 256 = int n"
      by (simp add: zdiv_int)
    ultimately show ?thesis
      using 1 False by (simp add: be_bytes_nat.simps[of n] be_int_append)
  qed (simp add: be_bytes_nat.simps be_int_def)
qed

lemma be_int_big_Bytes [simp]: "0 \<le> n \<Longrightarrow> be_int (big_Bytes n) = n"
  by (simp add: big_Bytes_def be_int_be_bytes_nat)

end
