(* ===== verification/Chain_Params.thy ===== *)
theory Chain_Params
  imports Meshbox_Prelude
begin

text \<open>
  Package \<^verbatim>\<open>params\<close>: the chain configurations of \<^verbatim>\<open>params/config.go\<close>, the fork predicates, the
  compatibility check of two configurations, and the network and chief-contract selection of
  \<^verbatim>\<open>params/consensus_params.go\<close>. \<^verbatim>\<open>os.Getenv\<close> is a parameter \<open>getenv\<close>; the package variable
  \<^verbatim>\<open>chiefInfoList\<close>, which two functions share as their cache and \<^verbatim>\<open>sort.Sort\<close> reorders in place,
  is the state \<open>chief_cache\<close> threaded through every function that reads or fills it.
\<close>

section \<open>Chain configurations (params/config.go)\<close>

record CliqueConfig =
  Period :: u64
  Epoch :: u64

record TribeConfig =
  Period :: u64

record ChainConfig =
  ChainId :: "int option"
  HomesteadBlock :: "int option"
  DAOForkBlock :: "int option"
  DAOForkSupport :: bool
  EIP150Block :: "int option"
  EIP150Hash :: hash
  EIP155Block :: "int option"
  EIP158Block :: "int option"
  ByzantiumBlock :: "int option"
  Ethash :: "unit option"
  Clique :: "CliqueConfig option"
  Tribe :: "TribeConfig option"
  Chief002Block :: "int option"
  Chief002Address :: address
  Chief003Block :: "int option"
  Chief003Address :: address
  Chief004Block :: "int option"
  Chief004Address :: address
  Chief005Block :: "int option"
  Chief005Address :: address
  Chief006Block :: "int option"
  Chief006Address :: address
  Chief007Block :: "int option"
  Chief007Address :: address
  Chief100Block :: "int option"
  Chief100Address :: address
  ChiefBaseAddress :: address
  PocAddress :: address
  SIP001Block :: "int option"
  SIP002Block :: "int option"
  SIP003Block :: "int option"
  Meshbox001Block :: "int option"
  Meshbox001Address :: address
  Meshbox002Block :: "int option"
  Meshbox002Address :: address
  Anmap001Block :: "int option"
  Anmap001Address :: address
  Sip004Block :: "int option"

text \<open>The zero value of the struct: fields a Go literal does not mention.\<close>

definition ChainConfig_zero :: ChainConfig where
  "ChainConfig_zero = \<lparr>
     ChainId = None, HomesteadBlock = None, DAOForkBlock = None, DAOForkSupport = False,
     EIP150Block = None, EIP150Hash = 0, EIP155Block = None, EIP158Block = None,
     ByzantiumBlock = None, Ethash = None, Clique = None, Tribe = None,
     Chief002Block = None, Chief002Address = 0, Chief003Block = None, Chief003Address = 0,
     Chief004Block = None, Chief004Address = 0, Chief005Block = None, Chief005Address = 0,
     Chief006Block = None, Chief006Address = 0, Chief007Block = None, Chief007Address = 0,
     Chief100Block = None, Chief100Address = 0, ChiefBaseAddress = 0, PocAddress = 0,
     SIP001Block = None, SIP002Block = None, SIP003Block = None,
     Meshbox001Block = None, Meshbox001Address = 0, Meshbox002Block = None, Meshbox002Address = 0,
     Anmap001Block = None, Anmap001Address = 0, Sip004Block = None\<rparr>"

definition MainnetChainConfig :: ChainConfig where
  "MainnetChainConfig = ChainConfig_zero\<lparr>
     ChainId := Some 20180430, HomesteadBlock := Some 0, DAOForkBlock := None,
     DAOForkSupport := False, EIP150Block := Some 0, EIP150Hash := 0, EIP155Block := Some 0,
     EIP158Block := Some 0, ByzantiumBlock := Some 0,
     Chief005Block := Some 2, Chief005Address := 0xf0d2ad4e0d25cfea98e9640329993bbc52396abd,
     Chief006Block := Some 595888, Chief006Address := 0xba7f507d5aab3e931312512c234fbeb85cbd9dce,
     Meshbox001Block := Some 1870333, Meshbox001Address := 0xf0ced0b1ce8738eeac06fdca51e0ff398328634b,
     Anmap001Block := Some 2686801, Anmap001Address := 0x23fb7fa0f6f88ce56b70ac3d671315f5baf84bb9,
     SIP001Block := Some 0, SIP002Block := Some 588888, SIP003Block := Some 808888,
     ChiefBaseAddress := 0xe1c749f45ee14180853e552d3349cc58972cd082,
     PocAddress := 0xb9b4ece952c8005f009801e5ec78e116f528c1d0,
     Chief100Block := Some 2823366, Chief100Address := 0x890eb8566550e7337c7788ff971a3996860c51b5,
     Tribe := Some \<lparr>TribeConfig.Period = 0\<rparr>, Sip004Block := Some 8360000\<rparr>"

definition TestnetChainConfig :: ChainConfig where
  "TestnetChainConfig = ChainConfig_zero\<lparr>
     ChainId := Some 3, HomesteadBlock := Some 0, DAOForkBlock := None, DAOForkSupport := True,
     EIP150Block := Some 0, EIP150Hash := 0, EIP155Block := Some 0, EIP158Block := Some 0,
     ByzantiumBlock := Some 62678,
     Chief002Block := Some 2, Chief002Address := 0x9ec55c1dafd4a487e41da33e344aef86da41ab82,
     Chief003Block := Some 113772, Chief003Address := 0xac28e532b3fac82554fc7b0b8b62549deeeb33a9,
     Chief004Block := Some 120305, Chief004Address := 0xe242e2bcf5b0da6518320210fab0a27458bc0674,
     Chief005Block := Some 176244, Chief005Address := 0xe90da8175922925dfb40e6505b508f1042e807aa,
     Chief006Block := Some 595710, Chief006Address := 0x53cb83888e6d28cf7ec168308c65172001f441aa,
     Meshbox001Block := Some 1976666, Meshbox001Address := 0x0f15e1e44322b2946215705d2ed60cba899f0b38,
     Anmap001Block := Some 1310056, Anmap001Address := 0x7449931e38dd938d2e8558eda9fe225acf4d14e6,
     SIP001Block := Some 176222, SIP002Block := Some 525233, SIP003Block := Some 917013,
     ChiefBaseAddress := 0xeb97d5201a79717675c03e80ef3ed0c00ec777fc,
     PocAddress := 0xe3d5627f6f854481b23da37cea623411bf090881,
     Chief100Block := Some 1310056, Chief100Address := 0x695249d987d10bcccda9bcaa3090db8565c317d1,
     Tribe := Some \<lparr>TribeConfig.Period = 0\<rparr>, Sip004Block := Some 5530000\<rparr>"

definition DevnetChainConfig :: ChainConfig where
  "DevnetChainConfig = ChainConfig_zero\<lparr>
     ChainId := Some 4, HomesteadBlock := Some 0, DAOForkBlock := None, DAOForkSupport := False,
     EIP150Block := Some 0, EIP150Hash := 0, EIP155Block := Some 0, EIP158Block := Some 0,
     ByzantiumBlock := Some 0,
     Chief007Block := Some 3, Chief007Address := 0x57d2bcd8d702999daf240793919675c90b12a17a,
     Meshbox002Block := Some 6, Meshbox002Address := 0x7880adce4504fd39645aabb3efb53824d9b0c21b,
     Anmap001Block := Some 6, Anmap001Address := 0x143084accd6472ad502b59c3197f9ed5f797b966,
     ChiefBaseAddress := 0xf096d7f8ae3cd0a85e593accac5e7bc38a756111,
     PocAddress := 0x48e0f07faf58bc6e713d5c6373ce4f2a8b5c359a,
     Chief100Block := Some 63, Chief100Address := 0x21c5dc409138205291d6a7ef2dbb1701ac02ff96,
     SIP001Block := Some 0, SIP002Block := Some 1, SIP003Block := Some 3,
     Tribe := Some \<lparr>TribeConfig.Period = 3\<rparr>, Sip004Block := Some 4\<rparr>"

definition AllEthashProtocolChanges :: ChainConfig where
  "AllEthashProtocolChanges = ChainConfig_zero\<lparr>
     ChainId := Some 1337, HomesteadBlock := Some 0, DAOForkBlock := None, DAOForkSupport := False,
     EIP150Block := Some 0, EIP150Hash := 0, EIP155Block := Some 0, EIP158Block := Some 0,
     ByzantiumBlock := Some 0, Ethash := Some (), Clique := None, Tribe := None\<rparr>"

definition AllCliqueProtocolChanges :: ChainConfig where
  "AllCliqueProtocolChanges = ChainConfig_zero\<lparr>
     ChainId := Some 1337, HomesteadBlock := Some 0, DAOForkBlock := None, DAOForkSupport := False,
     EIP150Block := Some 0, EIP150Hash := 0, EIP155Block := Some 0, EIP158Block := Some 0,
     ByzantiumBlock := Some 0, Ethash := None,
     Clique := Some \<lparr>CliqueConfig.Period = 0, Epoch = 30000\<rparr>, Tribe := None\<rparr>"

definition TestChainConfig :: ChainConfig where
  "TestChainConfig = ChainConfig_zero\<lparr>
     ChainId := Some 1, HomesteadBlock := Some 0, DAOForkBlock := None, DAOForkSupport := False,
     EIP150Block := Some 0, EIP150Hash := 0, EIP155Block := Some 0, EIP158Block := Some 0,
     ByzantiumBlock := Some 0, Ethash := Some (), Clique := None, Tribe := None\<rparr>"

subsection \<open>Fork predicates\<close>

definition isForked :: "int option \<Rightarrow> int option \<Rightarrow> bool" where
  "isForked s head = (case (s, head) of (Some s', Some h) \<Rightarrow> s' \<le> h | _ \<Rightarrow> False)"

definition configNumEqual :: "int option \<Rightarrow> int option \<Rightarrow> bool" where
  "configNumEqual x y = (case x of None \<Rightarrow> y = None
     | Some a \<Rightarrow> (case y of None \<Rightarrow> False | Some b \<Rightarrow> a = b))"

definition isForkIncompatible :: "int option \<Rightarrow> int option \<Rightarrow> int option \<Rightarrow> bool" where
  "isForkIncompatible s1 s2 head =
     ((isForked s1 head \<or> isForked s2 head) \<and> \<not> configNumEqual s1 s2)"

definition IsHomestead :: "ChainConfig \<Rightarrow> int option \<Rightarrow> bool" where
  "IsHomestead c num = isForked (HomesteadBlock c) num"

definition IsDAOFork :: "ChainConfig \<Rightarrow> int option \<Rightarrow> bool" where
  "IsDAOFork c num = isForked (DAOForkBlock c) num"

definition IsEIP150 :: "ChainConfig \<Rightarrow> int option \<Rightarrow> bool" where
  "IsEIP150 c num = isForked (EIP150Block c) num"

definition IsEIP155 :: "ChainConfig \<Rightarrow> int option \<Rightarrow> bool" where
  "IsEIP155 c num = isForked (EIP155Block c) num"

definition IsEIP158 :: "ChainConfig \<Rightarrow> int option \<Rightarrow> bool" where
  "IsEIP158 c num = isForked (EIP158Block c) num"

definition IsByzantium :: "ChainConfig \<Rightarrow> int option \<Rightarrow> bool" where
  "IsByzantium c num = isForked (ByzantiumBlock c) num"

definition IsSip004 :: "ChainConfig \<Rightarrow> int option \<Rightarrow> bool" where
  "IsSip004 c num = isForked (Sip004Block c) num"

record GasTable =
  gt_ExtcodeSize :: u64
  gt_ExtcodeCopy :: u64
  gt_Balance :: u64
  gt_SLoad :: u64
  gt_Calls :: u64
  gt_Suicide :: u64
  gt_ExpByte :: u64
  gt_CreateBySuicide :: u64

definition GasTableHomestead :: GasTable where
  "GasTableHomestead = \<lparr>gt_ExtcodeSize = 20, gt_ExtcodeCopy = 20, gt_Balance = 20, gt_SLoad = 50,
     gt_Calls = 40, gt_Suicide = 0, gt_ExpByte = 10, gt_CreateBySuicide = 0\<rparr>"

definition GasTableEIP150 :: GasTable where
  "GasTableEIP150 = \<lparr>gt_ExtcodeSize = 700, gt_ExtcodeCopy = 700, gt_Balance = 400, gt_SLoad = 200,
     gt_Calls = 700, gt_Suicide = 5000, gt_ExpByte = 10, gt_CreateBySuicide = 25000\<rparr>"

definition GasTableEIP158 :: GasTable where
  "GasTableEIP158 = \<lparr>gt_ExtcodeSize = 700, gt_ExtcodeCopy = 700, gt_Balance = 400, gt_SLoad = 200,
     gt_Calls = 700, gt_Suicide = 5000, gt_ExpByte = 50, gt_CreateBySuicide = 25000\<rparr>"

definition GasTable_at :: "ChainConfig \<Rightarrow> int option \<Rightarrow> GasTable" where
  "GasTable_at c num =
     (if num = None then GasTableHomestead
      else if IsEIP158 c num then GasTableEIP158
      else if IsEIP150 c num then GasTableEIP150
      else GasTableHomestead)"

record Rules =
  r_ChainId :: int
  r_IsHomestead :: bool
  r_IsEIP150 :: bool
  r_IsEIP155 :: bool
  r_IsEIP158 :: bool
  r_IsByzantium :: bool
  r_IsSip004 :: bool

definition Rules_at :: "ChainConfig \<Rightarrow> int option \<Rightarrow> Rules" where
  "Rules_at c num = \<lparr>
     r_ChainId = (case ChainId c of None \<Rightarrow> 0 | Some i \<Rightarrow> i),
     r_IsHomestead = IsHomestead c num, r_IsEIP150 = IsEIP150 c num,
     r_IsEIP155 = IsEIP155 c num, r_IsEIP158 = IsEIP158 c num,
     r_IsByzantium = IsByzantium c num, r_IsSip004 = IsSip004 c num\<rparr>"

subsection \<open>Compatibility of a stored and a new configuration\<close>

record ConfigCompatError =
  What :: string
  StoredConfig :: "int option"
  NewConfig :: "int option"
  RewindTo :: u64

definition newCompatError :: "string \<Rightarrow> int option \<Rightarrow> int option \<Rightarrow> ConfigCompatError" where
  "newCompatError what storedblock newblock =
     (let rew = (case storedblock of None \<Rightarrow> newblock
                 | Some s \<Rightarrow> (case newblock of None \<Rightarrow> storedblock
                     | Some n \<Rightarrow> if s < n then storedblock else newblock))
      in \<lparr>What = what, StoredConfig = storedblock, NewConfig = newblock,
          RewindTo = (case rew of None \<Rightarrow> 0
                      | Some r \<Rightarrow> if r > 0 then big_Uint64 r - 1 else 0)\<rparr>)"

definition checkCompatible ::
  "ChainConfig \<Rightarrow> ChainConfig \<Rightarrow> int \<Rightarrow> ConfigCompatError option" where
  "checkCompatible c newcfg h =
     (let head = Some h in
      if isForkIncompatible (HomesteadBlock c) (HomesteadBlock newcfg) head then
        Some (newCompatError ''Homestead fork block'' (HomesteadBlock c) (HomesteadBlock newcfg))
      else if isForkIncompatible (DAOForkBlock c) (DAOForkBlock newcfg) head then
        Some (newCompatError ''DAO fork block'' (DAOForkBlock c) (DAOForkBlock newcfg))
      else if IsDAOFork c head \<and> DAOForkSupport c \<noteq> DAOForkSupport newcfg then
        Some (newCompatError ''DAO fork support flag'' (DAOForkBlock c) (DAOForkBlock newcfg))
      else if isForkIncompatible (EIP150Block c) (EIP150Block newcfg) head then
        Some (newCompatError ''EIP150 fork block'' (EIP150Block c) (EIP150Block newcfg))
      else if isForkIncompatible (EIP155Block c) (EIP155Block newcfg) head then
        Some (newCompatError ''EIP155 fork block'' (EIP155Block c) (EIP155Block newcfg))
      else if isForkIncompatible (EIP158Block c) (EIP158Block newcfg) head then
        Some (newCompatError ''EIP158 fork block'' (EIP158Block c) (EIP158Block newcfg))
      else if IsEIP158 c head \<and> \<not> configNumEqual (ChainId c) (ChainId newcfg) then
        Some (newCompatError ''EIP158 chain ID'' (EIP158Block c) (EIP158Block newcfg))
      else if isForkIncompatible (ByzantiumBlock c) (ByzantiumBlock newcfg) head then
        Some (newCompatError ''Byzantium fork block'' (ByzantiumBlock c) (ByzantiumBlock newcfg))
      else None)"

text \<open>
  The block a conflict rewinds to lies below the head at which it was found; this is what makes
  the search loop of \<^verbatim>\<open>CheckCompatible\<close> stop.
\<close>

definition min_fork :: "int option \<Rightarrow> int option \<Rightarrow> int option" where
  "min_fork s n = (case s of None \<Rightarrow> n | Some a \<Rightarrow> (case n of None \<Rightarrow> s | Some b \<Rightarrow> Some (min a b)))"

lemma RewindTo_newCompatError:
  "RewindTo (newCompatError w s n) =
     (case min_fork s n of None \<Rightarrow> 0 | Some r \<Rightarrow> if r > 0 then big_Uint64 r - 1 else 0)"
  by (auto simp: newCompatError_def min_fork_def min_def Let_def split: option.splits)

lemma uint_big_Uint64_pred_le:
  assumes "0 < r"
  shows "uint (big_Uint64 r - 1) \<le> r - 1"
proof -
  have "uint (big_Uint64 r - 1) = (r - 1) mod 2 ^ 64"
    using assms by (simp add: big_Uint64_def uint_word_ariths uint_word_of_int mod_simps)
  moreover have "(r - 1) mod 2 ^ 64 \<le> r - 1"
    using assms by (intro zmod_le_nonneg_dividend) simp
  ultimately show ?thesis by simp
qed

lemma isForkIncompatible_min_fork:
  assumes "isForkIncompatible s n (Some h)"
  obtains m where "min_fork s n = Some m" "m \<le> h"
  using assms
  by (auto simp: isForkIncompatible_def isForked_def configNumEqual_def min_fork_def
           split: option.splits)

lemma forked_min_fork:
  assumes "isForked s (Some h)"
  obtains m where "min_fork s n = Some m" "m \<le> h"
  using assms by (cases n) (auto simp: isForked_def min_fork_def split: option.splits)

lemma RewindTo_less_head:
  assumes "min_fork s n = Some m" "m \<le> h" "RewindTo (newCompatError w s n) \<noteq> 0"
  shows "uint (RewindTo (newCompatError w s n)) < h"
proof -
  from assms(1,3) have "0 < m"
    by (auto simp: RewindTo_newCompatError split: if_splits)
  then show ?thesis
    using assms(1,2) uint_big_Uint64_pred_le[of m] by (simp add: RewindTo_newCompatError)
qed

lemma checkCompatible_RewindTo:
  assumes "checkCompatible c newcfg h = Some err" "RewindTo err \<noteq> 0"
  shows "uint (RewindTo err) < h"
proof -
  have "\<exists>w s n. err = newCompatError w s n \<and> (isForkIncompatible s n (Some h) \<or> isForked s (Some h))"
    using assms(1)
    by (auto simp: checkCompatible_def Let_def IsDAOFork_def IsEIP158_def split: if_splits)
  then obtain w s n where err: "err = newCompatError w s n"
    and inc: "isForkIncompatible s n (Some h) \<or> isForked s (Some h)" by blast
  from inc obtain m where "min_fork s n = Some m" "m \<le> h"
    by (meson isForkIncompatible_min_fork forked_min_fork)
  then show ?thesis
    using assms(2) unfolding err by (rule RewindTo_less_head)
qed

text \<open>The loop of \<^verbatim>\<open>CheckCompatible\<close>; \<open>lasterr\<close> is the conflict of the previous round.\<close>

function CheckCompatible_loop ::
  "ChainConfig \<Rightarrow> ChainConfig \<Rightarrow> int \<Rightarrow> ConfigCompatError option \<Rightarrow> ConfigCompatError option" where
  "CheckCompatible_loop c newcfg bhead lasterr =
     (case checkCompatible c newcfg bhead of
        None \<Rightarrow> lasterr
      | Some err \<Rightarrow>
          if (case lasterr of None \<Rightarrow> False | Some l \<Rightarrow> RewindTo err = RewindTo l) then lasterr
          else CheckCompatible_loop c newcfg (uint (RewindTo err)) (Some err))"
  by pat_completeness auto
termination
proof (relation "measure (\<lambda>(c, newcfg, bhead, lasterr).
         2 * nat bhead + (case lasterr of Some l \<Rightarrow> if RewindTo l = 0 then 0 else 1 | None \<Rightarrow> 1))",
       goal_cases)
  case (2 c newcfg bhead lasterr err)
  show ?case
  proof (cases "RewindTo err = 0")
    case True
    with 2 show ?thesis by (auto split: option.splits)
  next
    case False
    with 2(1) have "uint (RewindTo err) < bhead"
      by (rule checkCompatible_RewindTo)
    then have "nat (uint (RewindTo err)) < nat bhead"
      by (subst nat_less_eq_zless) simp_all
    with False show ?thesis by (simp split: option.split)
  qed
qed simp

declare CheckCompatible_loop.simps [simp del]

definition CheckCompatible ::
  "ChainConfig \<Rightarrow> ChainConfig \<Rightarrow> u64 \<Rightarrow> ConfigCompatError option" where
  "CheckCompatible c newcfg height = CheckCompatible_loop c newcfg (uint height) None"

section \<open>Network selection and protocol contracts (params/consensus\_params.go)\<close>

type_synonym environment = "string \<Rightarrow> string" \<comment> \<open>\<^verbatim>\<open>os.Getenv\<close>\<close>

definition IsTestnet :: "environment \<Rightarrow> bool" where
  "IsTestnet getenv = (getenv ''TESTNET'' = ''1'')"

definition IsDevnet :: "environment \<Rightarrow> bool" where
  "IsDevnet getenv = (getenv ''DEVNET'' = ''1'')"

text \<open>The condition \<^verbatim>\<open>n != nil && n.Cmp(big.NewInt(0)) > 0 && n.Cmp(num) <= 0\<close>.\<close>

definition started :: "int option \<Rightarrow> int \<Rightarrow> bool" where
  "started n num = (case n of None \<Rightarrow> False | Some b \<Rightarrow> b > 0 \<and> b \<le> num)"

definition ChainID :: "environment \<Rightarrow> int option" where
  "ChainID getenv =
     (if IsTestnet getenv then ChainId TestnetChainConfig
      else if IsDevnet getenv then ChainId DevnetChainConfig
      else ChainId MainnetChainConfig)"

definition AnmapInfo :: "environment \<Rightarrow> int \<Rightarrow> string \<Rightarrow> int option \<times> address" where
  "AnmapInfo getenv num vsn =
     (if IsTestnet getenv then
        let n = Anmap001Block TestnetChainConfig
        in (n, if started n num then Anmap001Address TestnetChainConfig else 0)
      else if IsDevnet getenv then
        let n = Anmap001Block DevnetChainConfig
        in (n, if started n num then Anmap001Address DevnetChainConfig else 0)
      else
        let n = Anmap001Block MainnetChainConfig
        in (n, if started n num then Anmap001Address MainnetChainConfig else 0))"

definition MeshboxVsn :: "environment \<Rightarrow> int \<Rightarrow> (string, string) result" where
  "MeshboxVsn getenv num =
     (if IsTestnet getenv then
        if started (Meshbox002Block TestnetChainConfig) num then Inr ''0.0.2''
        else if started (Meshbox001Block TestnetChainConfig) num then Inr ''0.0.1''
        else Inl (Err ''meshbox_service_not_started'')
      else if IsDevnet getenv then
        if started (Meshbox002Block DevnetChainConfig) num then Inr ''0.0.2''
        else if started (Meshbox001Block DevnetChainConfig) num then Inr ''0.0.1''
        else Inl (Err ''meshbox_service_not_started'')
      else
        if started (Meshbox002Block MainnetChainConfig) num then Inr ''0.0.2''
        else if started (Meshbox001Block MainnetChainConfig) num then Inr ''0.0.1''
        else Inl (Err ''meshbox_service_not_started''))"

definition POCInfo :: "environment \<Rightarrow> address" where
  "POCInfo getenv =
     (if IsTestnet getenv then PocAddress TestnetChainConfig
      else if IsDevnet getenv then PocAddress DevnetChainConfig
      else PocAddress MainnetChainConfig)"

definition MeshboxInfo :: "environment \<Rightarrow> int \<Rightarrow> string \<Rightarrow> int option \<times> address" where
  "MeshboxInfo getenv num vsn =
     (if vsn = ''0.0.1'' then
        if IsTestnet getenv then
          let n = Meshbox001Block TestnetChainConfig
          in (n, if started n num then Meshbox001Address TestnetChainConfig else 0)
        else if IsDevnet getenv then
          let n = Meshbox001Block DevnetChainConfig
          in (n, if started n num then Meshbox001Address DevnetChainConfig else 0)
        else
          let n = Meshbox001Block MainnetChainConfig
          in (n, if started n num then Meshbox001Address MainnetChainConfig else 0)
      else if vsn = ''0.0.2'' then
        if IsTestnet getenv then
          let n = Meshbox002Block TestnetChainConfig
          in (n, if started n num then Meshbox002Address TestnetChainConfig else 0)
        else if IsDevnet getenv then
          let n = Meshbox002Block DevnetChainConfig
          in (n, if started n num then Meshbox002Address DevnetChainConfig else 0)
        else
          let n = Meshbox002Block MainnetChainConfig
          in (n, if started n num then Meshbox002Address MainnetChainConfig else 0)
      else (None, 0))"

definition IsSIP001Block :: "environment \<Rightarrow> int \<Rightarrow> bool" where
  "IsSIP001Block getenv num =
     (if IsTestnet getenv then deref (SIP001Block TestnetChainConfig) \<le> num
      else if IsDevnet getenv then deref (SIP001Block DevnetChainConfig) \<le> num
      else deref (SIP001Block MainnetChainConfig) \<le> num)"

definition IsSIP002Block :: "environment \<Rightarrow> int \<Rightarrow> bool" where
  "IsSIP002Block getenv num =
     (if IsTestnet getenv then
        deref (SIP002Block TestnetChainConfig) > 0 \<and> deref (SIP002Block TestnetChainConfig) \<le> num
      else if IsDevnet getenv then deref (SIP002Block DevnetChainConfig) \<le> num
      else
        deref (SIP002Block MainnetChainConfig) > 0 \<and> deref (SIP002Block MainnetChainConfig) \<le> num)"

definition IsSIP003Block :: "environment \<Rightarrow> int \<Rightarrow> bool" where
  "IsSIP003Block getenv num =
     (if IsTestnet getenv then
        deref (SIP003Block TestnetChainConfig) > 0 \<and> deref (SIP003Block TestnetChainConfig) \<le> num
      else if IsDevnet getenv then deref (SIP003Block DevnetChainConfig) \<le> num
      else
        deref (SIP003Block MainnetChainConfig) > 0 \<and> deref (SIP003Block MainnetChainConfig) \<le> num)"

definition IsSIP100Block :: "environment \<Rightarrow> int \<Rightarrow> bool" where
  "IsSIP100Block getenv num =
     (if IsTestnet getenv then started (Chief100Block TestnetChainConfig) num
      else if IsDevnet getenv then started (Chief100Block DevnetChainConfig) num
      else started (Chief100Block MainnetChainConfig) num)"

definition IsReadyMeshbox :: "environment \<Rightarrow> int \<Rightarrow> bool" where
  "IsReadyMeshbox getenv num =
     (let n2 = (if IsTestnet getenv then Meshbox002Block TestnetChainConfig
                else if IsDevnet getenv then Meshbox002Block DevnetChainConfig
                else Meshbox002Block MainnetChainConfig);
          n1 = (if IsTestnet getenv then Meshbox001Block TestnetChainConfig
                else if IsDevnet getenv then Meshbox001Block DevnetChainConfig
                else Meshbox001Block MainnetChainConfig)
      in started n2 num \<or> started n1 num)"

definition IsReadyAnmap :: "environment \<Rightarrow> int \<Rightarrow> bool" where
  "IsReadyAnmap getenv num =
     started (if IsTestnet getenv then Anmap001Block TestnetChainConfig
              else if IsDevnet getenv then Anmap001Block DevnetChainConfig
              else Anmap001Block MainnetChainConfig) num"

subsection \<open>The chief contracts and their shared list\<close>

record ChiefInfo =
  StartNumber :: "int option"
  PocStartNumber :: "int option"
  Version :: string
  Addr :: address
  PocAddr :: address
  BaseAddr :: address

type_synonym ChiefInfoList = "ChiefInfo list"

text \<open>The package variable \<^verbatim>\<open>chiefInfoList\<close>; \<open>None\<close> is its initial nil.\<close>

type_synonym chief_cache = "ChiefInfoList option"

definition newChiefInfoWithPocBase ::
  "int option \<Rightarrow> string \<Rightarrow> address \<Rightarrow> address \<Rightarrow> address \<Rightarrow> ChiefInfo" where
  "newChiefInfoWithPocBase num vsn addr pocAddr baseAddr =
     \<lparr>StartNumber = num, PocStartNumber = None, Version = vsn, Addr = addr, PocAddr = pocAddr,
      BaseAddr = baseAddr\<rparr>"

definition newChiefInfo :: "int option \<Rightarrow> string \<Rightarrow> address \<Rightarrow> ChiefInfo" where
  "newChiefInfo num vsn addr = newChiefInfoWithPocBase num vsn addr 0 0"

text \<open>The literal lists of the two builders.\<close>

definition beforechief100_literal :: "environment \<Rightarrow> ChiefInfoList" where
  "beforechief100_literal getenv =
     (if IsTestnet getenv then
       [newChiefInfo (Chief002Block TestnetChainConfig) ''0.0.2'' (Chief002Address TestnetChainConfig),
        newChiefInfo (Chief003Block TestnetChainConfig) ''0.0.3'' (Chief003Address TestnetChainConfig),
        newChiefInfo (Chief004Block TestnetChainConfig) ''0.0.4'' (Chief004Address TestnetChainConfig),
        newChiefInfo (Chief005Block TestnetChainConfig) ''0.0.5'' (Chief005Address TestnetChainConfig),
        newChiefInfo (Chief006Block TestnetChainConfig) ''0.0.6'' (Chief006Address TestnetChainConfig)]
      else if IsDevnet getenv then
       [newChiefInfo (Chief007Block DevnetChainConfig) ''0.0.7'' (Chief007Address DevnetChainConfig)]
      else
       [newChiefInfo (Chief005Block MainnetChainConfig) ''0.0.5'' (Chief005Address MainnetChainConfig),
        newChiefInfo (Chief006Block MainnetChainConfig) ''0.0.6'' (Chief006Address MainnetChainConfig)])"

definition chief_literal :: "environment \<Rightarrow> ChiefInfoList" where
  "chief_literal getenv =
     (if IsTestnet getenv then
       [newChiefInfo (Chief002Block TestnetChainConfig) ''0.0.2'' (Chief002Address TestnetChainConfig),
        newChiefInfo (Chief003Block TestnetChainConfig) ''0.0.3'' (Chief003Address TestnetChainConfig),
        newChiefInfo (Chief004Block TestnetChainConfig) ''0.0.4'' (Chief004Address TestnetChainConfig),
        newChiefInfo (Chief005Block TestnetChainConfig) ''0.0.5'' (Chief005Address TestnetChainConfig),
        newChiefInfo (Chief006Block TestnetChainConfig) ''0.0.6'' (Chief006Address TestnetChainConfig),
        newChiefInfoWithPocBase (Chief100Block TestnetChainConfig) ''1.0.0''
          (Chief100Address TestnetChainConfig) (PocAddress TestnetChainConfig)
          (ChiefBaseAddress TestnetChainConfig)]
      else if IsDevnet getenv then
       [newChiefInfo (Chief007Block DevnetChainConfig) ''0.0.7'' (Chief007Address DevnetChainConfig),
        newChiefInfoWithPocBase (Chief100Block DevnetChainConfig) ''1.0.0''
          (Chief100Address DevnetChainConfig) (PocAddress DevnetChainConfig)
          (ChiefBaseAddress DevnetChainConfig)]
      else
       [newChiefInfo (Chief005Block MainnetChainConfig) ''0.0.5'' (Chief005Address MainnetChainConfig),
        newChiefInfo (Chief006Block MainnetChainConfig) ''0.0.6'' (Chief006Address MainnetChainConfig),
        newChiefInfoWithPocBase (Chief100Block MainnetChainConfig) ''1.0.0''
          (Chief100Address MainnetChainConfig) (PocAddress MainnetChainConfig)
          (ChiefBaseAddress MainnetChainConfig)])"

definition beforechief100AddressList ::
  "environment \<Rightarrow> chief_cache \<Rightarrow> ChiefInfoList \<times> chief_cache" where
  "beforechief100AddressList getenv cache =
     (case cache of Some list \<Rightarrow> (list, cache)
      | None \<Rightarrow> (beforechief100_literal getenv, Some (beforechief100_literal getenv)))"

definition chiefAddressList ::
  "environment \<Rightarrow> chief_cache \<Rightarrow> ChiefInfoList \<times> chief_cache" where
  "chiefAddressList getenv cache =
     (case cache of Some list \<Rightarrow> (list, cache)
      | None \<Rightarrow> (chief_literal getenv, Some (chief_literal getenv)))"

definition GetChiefInfoByVsn ::
  "environment \<Rightarrow> chief_cache \<Rightarrow> string \<Rightarrow> ChiefInfo option \<times> chief_cache" where
  "GetChiefInfoByVsn getenv cache vsn =
     (let (list, cache') = chiefAddressList getenv cache
      in (find (\<lambda>ci. big_Int64 (deref (StartNumber ci)) > 0 \<and> Version ci = vsn) list, cache'))"

text \<open>
  \<^verbatim>\<open>getChiefInfo\<close> sorts the slice it is given in place, by descending start number; the second
  component is the slice afterwards.
\<close>

definition start_key :: "ChiefInfo \<Rightarrow> int" where
  "start_key ci = big_Int64 (deref (StartNumber ci))"

definition getChiefInfo :: "ChiefInfoList \<Rightarrow> int \<Rightarrow> ChiefInfo option \<times> ChiefInfoList" where
  "getChiefInfo list blockNumber =
     (let sorted_list = insertionSort (\<lambda>p q. start_key p > start_key q) list
      in (find (\<lambda>c. start_key c \<le> big_Int64 blockNumber) sorted_list, sorted_list))"

text \<open>The slice \<^verbatim>\<open>GetChiefInfo\<close> passes is the package variable itself, so the variable is sorted.\<close>

definition GetChiefInfo ::
  "environment \<Rightarrow> chief_cache \<Rightarrow> int option \<Rightarrow> ChiefInfo option \<times> chief_cache" where
  "GetChiefInfo getenv cache blockNumber =
     (case blockNumber of
        None \<Rightarrow> (None, cache)
      | Some n \<Rightarrow>
          if n > 0 then
            let (list, _) = chiefAddressList getenv cache;
                (ci, list') = getChiefInfo list n
            in (ci, Some list')
          else (None, cache))"

definition IsBeforeChief100block ::
  "environment \<Rightarrow> chief_cache \<Rightarrow> int \<Rightarrow> bool \<times> chief_cache" where
  "IsBeforeChief100block getenv cache blockNumber =
     (let (list, cache') = beforechief100AddressList getenv cache
      in (\<exists>ci \<in> set list. deref (StartNumber ci) = blockNumber, cache'))"

definition IsChiefUpdate :: "byte list \<Rightarrow> bool" where
  "IsChiefUpdate data = (if length data < 4 then False else take 4 data = [28, 27, 135, 114])"

definition chiefCalledMap :: "address \<rightharpoonup> address" where
  "chiefCalledMap = Map.empty(
     Chief100Address TestnetChainConfig \<mapsto> ChiefBaseAddress TestnetChainConfig,
     ChiefBaseAddress TestnetChainConfig \<mapsto> PocAddress TestnetChainConfig,
     Chief100Address MainnetChainConfig \<mapsto> ChiefBaseAddress MainnetChainConfig,
     ChiefBaseAddress MainnetChainConfig \<mapsto> PocAddress MainnetChainConfig,
     Chief100Address DevnetChainConfig \<mapsto> ChiefBaseAddress DevnetChainConfig,
     ChiefBaseAddress DevnetChainConfig \<mapsto> PocAddress DevnetChainConfig)"

definition IsChiefCalled :: "address \<Rightarrow> address \<Rightarrow> bool" where
  "IsChiefCalled from to = (chiefCalledMap from = Some to)"

definition isChiefAddress :: "ChiefInfoList \<Rightarrow> address \<Rightarrow> bool" where
  "isChiefAddress list addr =
     (if addr = 0 then False else (\<exists>ci \<in> set list. Addr ci = addr))"

definition IsChiefAddress :: "environment \<Rightarrow> chief_cache \<Rightarrow> address \<Rightarrow> bool \<times> chief_cache" where
  "IsChiefAddress getenv cache addr =
     (let (list, cache') = chiefAddressList getenv cache in (isChiefAddress list addr, cache'))"

definition isChiefAddressOnBlock ::
  "environment \<Rightarrow> int \<Rightarrow> ChiefInfoList \<Rightarrow> address \<Rightarrow> bool" where
  "isChiefAddressOnBlock getenv number list addr =
     (if addr = 0 then False
      else if IsSIP100Block getenv number then
        (\<exists>ci \<in> set list. Addr ci = addr \<and> Version ci = ''1.0.0'')
      else (\<exists>ci \<in> set list. Addr ci = addr))"

definition IsChiefAddressOnBlock ::
  "environment \<Rightarrow> chief_cache \<Rightarrow> int \<Rightarrow> address \<Rightarrow> bool \<times> chief_cache" where
  "IsChiefAddressOnBlock getenv cache number addr =
     (let (list, cache') = chiefAddressList getenv cache
      in (isChiefAddressOnBlock getenv number list addr, cache'))"

definition TribePeriod :: "environment \<Rightarrow> u64" where
  "TribePeriod getenv =
     (let period = (\<lambda>cfg. case Tribe cfg of None \<Rightarrow> 0 | Some t \<Rightarrow> TribeConfig.Period t)
      in if IsTestnet getenv \<and> period TestnetChainConfig > 0 then period TestnetChainConfig
         else if IsDevnet getenv \<and> period DevnetChainConfig > 0 then period DevnetChainConfig
         else if period MainnetChainConfig > 0 then period MainnetChainConfig
         else 14)"

section \<open>Properties\<close>

subsection \<open>Fork predicates and the compatibility check\<close>

lemma isForked_mono:
  "isForked s (Some h) \<Longrightarrow> h \<le> h' \<Longrightarrow> isForked s (Some h')"
  by (auto simp: isForked_def split: option.splits)

lemma CheckCompatible_loop_None:
  "checkCompatible c newcfg bhead = None \<Longrightarrow> CheckCompatible_loop c newcfg bhead lasterr = lasterr"
  by (subst CheckCompatible_loop.simps) simp

lemma CheckCompatible_loop_stop:
  "checkCompatible c newcfg bhead = Some err \<Longrightarrow> RewindTo err = RewindTo l \<Longrightarrow>
   CheckCompatible_loop c newcfg bhead (Some l) = Some l"
  by (subst CheckCompatible_loop.simps) simp

lemma CheckCompatible_loop_first:
  "checkCompatible c newcfg bhead = Some err \<Longrightarrow>
   CheckCompatible_loop c newcfg bhead None = CheckCompatible_loop c newcfg (uint (RewindTo err)) (Some err)"
  by (subst CheckCompatible_loop.simps) simp

lemma CheckCompatible_loop_Some:
  "\<exists>e. CheckCompatible_loop c newcfg bhead (Some l) = Some e"
proof (induction c newcfg bhead "Some l" arbitrary: l rule: CheckCompatible_loop.induct)
  case (1 c newcfg bhead)
  show ?case
  proof (cases "checkCompatible c newcfg bhead")
    case None
    then show ?thesis by (simp add: CheckCompatible_loop_None)
  next
    case (Some err)
    show ?thesis
    proof (cases "RewindTo err = RewindTo l")
      case True
      with Some show ?thesis by (simp add: CheckCompatible_loop_stop)
    next
      case False
      with 1 Some have "\<exists>e. CheckCompatible_loop c newcfg (uint (RewindTo err)) (Some err) = Some e"
        by simp
      with Some False show ?thesis by (subst CheckCompatible_loop.simps) simp
    qed
  qed
qed

lemma CheckCompatible_loop_result:
  assumes "CheckCompatible_loop c newcfg bhead lasterr = Some e"
    and "\<And>l. lasterr = Some l \<Longrightarrow> bhead = uint (RewindTo l)"
  shows "RewindTo e = 0 \<or> checkCompatible c newcfg (uint (RewindTo e)) = None"
  using assms
proof (induction c newcfg bhead lasterr rule: CheckCompatible_loop.induct)
  case (1 c newcfg bhead lasterr)
  show ?case
  proof (cases "checkCompatible c newcfg bhead")
    case None
    with "1.prems"(1) have "lasterr = Some e"
      by (simp add: CheckCompatible_loop_None)
    with "1.prems"(2) None show ?thesis by metis
  next
    case (Some err)
    show ?thesis
    proof (cases "case lasterr of None \<Rightarrow> False | Some l \<Rightarrow> RewindTo err = RewindTo l")
      case True
      then obtain l where l: "lasterr = Some l" "RewindTo err = RewindTo l"
        by (auto split: option.splits)
      with "1.prems"(1) Some have "e = l"
        by (simp add: CheckCompatible_loop_stop)
      with l "1.prems"(2) checkCompatible_RewindTo [OF Some] show ?thesis by fastforce
    next
      case False
      with "1.prems"(1) Some
      have "CheckCompatible_loop c newcfg (uint (RewindTo err)) (Some err) = Some e"
        by (subst (asm) CheckCompatible_loop.simps) simp
      from "1.IH" [OF Some False this] show ?thesis by simp
    qed
  qed
qed

text \<open>
  C14: \<^verbatim>\<open>CheckCompatible\<close> finds the lowest conflict. Its search always ends; it reports nothing
  exactly when the two configurations agree on every fork already passed at the current height;
  and after rewinding the chain to the reported block no conflict is left, unless the conflict
  reaches down to the genesis block.
\<close>

theorem CheckCompatible_lowest_conflict:
  "(CheckCompatible c newcfg height = None \<longleftrightarrow> checkCompatible c newcfg (uint height) = None) \<and>
   (\<forall>e. CheckCompatible c newcfg height = Some e \<longrightarrow>
        RewindTo e = 0 \<or> checkCompatible c newcfg (uint (RewindTo e)) = None)"
proof (intro conjI allI impI)
  show "CheckCompatible c newcfg height = None \<longleftrightarrow> checkCompatible c newcfg (uint height) = None"
    unfolding CheckCompatible_def
    using CheckCompatible_loop_Some
    by (cases "checkCompatible c newcfg (uint height)")
       (simp_all add: CheckCompatible_loop_None CheckCompatible_loop_first)
next
  fix e
  assume "CheckCompatible c newcfg height = Some e"
  then show "RewindTo e = 0 \<or> checkCompatible c newcfg (uint (RewindTo e)) = None"
    unfolding CheckCompatible_def by (rule CheckCompatible_loop_result) simp
qed

theorem CheckCompatible_lowest_conflict_witness:
  "CheckCompatible MainnetChainConfig (MainnetChainConfig\<lparr>ByzantiumBlock := Some 100\<rparr>) 500
     = Some \<lparr>What = ''Byzantium fork block'', StoredConfig = Some 0, NewConfig = Some 100, RewindTo = 0\<rparr> \<and>
   CheckCompatible TestnetChainConfig (TestnetChainConfig\<lparr>ByzantiumBlock := Some 100\<rparr>) 500
     = Some \<lparr>What = ''Byzantium fork block'', StoredConfig = Some 62678, NewConfig = Some 100, RewindTo = 99\<rparr> \<and>
   checkCompatible TestnetChainConfig (TestnetChainConfig\<lparr>ByzantiumBlock := Some 100\<rparr>) 99 = None"
proof -
  let ?t = "TestnetChainConfig\<lparr>ByzantiumBlock := Some 100\<rparr>"
  let ?m = "MainnetChainConfig\<lparr>ByzantiumBlock := Some 100\<rparr>"
  let ?et = "\<lparr>What = ''Byzantium fork block'', StoredConfig = Some 62678, NewConfig = Some 100, RewindTo = 99\<rparr>"
  let ?em = "\<lparr>What = ''Byzantium fork block'', StoredConfig = Some 0, NewConfig = Some 100, RewindTo = 0\<rparr>"
  note defs = checkCompatible_def isForkIncompatible_def isForked_def configNumEqual_def
    IsDAOFork_def IsEIP158_def newCompatError_def big_Uint64_def
  have t1: "checkCompatible TestnetChainConfig ?t 500 = Some ?et"
    by (simp add: defs TestnetChainConfig_def ChainConfig_zero_def)
  have t2: "checkCompatible TestnetChainConfig ?t 99 = None"
    by (simp add: defs TestnetChainConfig_def ChainConfig_zero_def)
  have m1: "checkCompatible MainnetChainConfig ?m 500 = Some ?em"
       and m2: "checkCompatible MainnetChainConfig ?m 0 = Some ?em"
    by (simp_all add: defs MainnetChainConfig_def ChainConfig_zero_def)
  have t: "CheckCompatible TestnetChainConfig ?t 500 = Some ?et"
    using t1 t2 by (simp add: CheckCompatible_def CheckCompatible_loop_first CheckCompatible_loop_None)
  have m: "CheckCompatible MainnetChainConfig ?m 500 = Some ?em"
    using m1 m2 by (simp add: CheckCompatible_def CheckCompatible_loop_first CheckCompatible_loop_stop)
  from CheckCompatible_lowest_conflict [of TestnetChainConfig ?t 500]
  show ?thesis using t m by simp
qed


subsection \<open>The chief contract in force\<close>

text \<open>
  The cache is in order when it is still empty or holds, in some order, the list that
  \<^verbatim>\<open>chiefAddressList\<close> builds.
\<close>

definition chief_cache_ok :: "environment \<Rightarrow> chief_cache \<Rightarrow> bool" where
  "chief_cache_ok getenv cache =
     (case cache of None \<Rightarrow> True | Some list \<Rightarrow> set list = set (chief_literal getenv))"

lemmas config_defs = MainnetChainConfig_def TestnetChainConfig_def DevnetChainConfig_def
  ChainConfig_zero_def

lemma config_forks [simp]:
  "Chief100Block MainnetChainConfig = Some 2823366"
  "Chief100Block TestnetChainConfig = Some 1310056"
  "Chief100Block DevnetChainConfig = Some 63"
  "Chief002Block TestnetChainConfig = Some 2"
  "Chief003Block TestnetChainConfig = Some 113772"
  "Chief004Block TestnetChainConfig = Some 120305"
  "Chief005Block TestnetChainConfig = Some 176244"
  "Chief006Block TestnetChainConfig = Some 595710"
  "Chief005Block MainnetChainConfig = Some 2"
  "Chief006Block MainnetChainConfig = Some 595888"
  "Chief007Block DevnetChainConfig = Some 3"
  "SIP001Block MainnetChainConfig = Some 0"
  "SIP001Block TestnetChainConfig = Some 176222"
  "SIP001Block DevnetChainConfig = Some 0"
  "SIP002Block MainnetChainConfig = Some 588888"
  "SIP002Block TestnetChainConfig = Some 525233"
  "SIP002Block DevnetChainConfig = Some 1"
  "SIP003Block MainnetChainConfig = Some 808888"
  "SIP003Block TestnetChainConfig = Some 917013"
  "SIP003Block DevnetChainConfig = Some 3"
  "Sip004Block MainnetChainConfig = Some 8360000"
  "Sip004Block TestnetChainConfig = Some 5530000"
  "Sip004Block DevnetChainConfig = Some 4"
  by (simp_all add: config_defs)

lemma ChiefInfo_sel [simp]:
  "StartNumber (newChiefInfoWithPocBase n v a p b) = n" "Version (newChiefInfoWithPocBase n v a p b) = v"
  "Addr (newChiefInfoWithPocBase n v a p b) = a"
  "StartNumber (newChiefInfo n v a) = n" "Version (newChiefInfo n v a) = v" "Addr (newChiefInfo n v a) = a"
  by (simp_all add: newChiefInfo_def newChiefInfoWithPocBase_def)

lemma chief_literal_start_range:
  assumes "ci \<in> set (chief_literal getenv)"
  shows "0 < deref (StartNumber ci) \<and> deref (StartNumber ci) < 2 ^ 63"
  using assms
  by (auto simp: chief_literal_def split: if_splits)

lemma start_key_literal:
  "ci \<in> set (chief_literal getenv) \<Longrightarrow> start_key ci = deref (StartNumber ci)"
  using chief_literal_start_range [of ci getenv] by (simp add: start_key_def)

lemma chiefAddressList_ok:
  assumes "chief_cache_ok getenv cache" "chiefAddressList getenv cache = (list, cache')"
  shows "set list = set (chief_literal getenv)" "cache' = Some list"
  using assms by (auto simp: chiefAddressList_def chief_cache_ok_def split: option.splits)

lemma set_getChiefInfo: "getChiefInfo list n = (ci, list') \<Longrightarrow> set list' = set list"
  by (auto simp: getChiefInfo_def Let_def)

lemma GetChiefInfo_ok:
  assumes "chief_cache_ok getenv cache" "GetChiefInfo getenv cache num = (ci, cache')"
  shows "chief_cache_ok getenv cache'"
proof (cases num)
  case (Some n)
  obtain l c where l: "chiefAddressList getenv cache = (l, c)" by fastforce
  obtain ci' l' where g: "getChiefInfo l n = (ci', l')" by fastforce
  have "set l' = set (chief_literal getenv)"
    using chiefAddressList_ok(1) [OF assms(1) l] set_getChiefInfo [OF g] by simp
  with assms Some l g show ?thesis
    by (auto simp: GetChiefInfo_def Let_def chief_cache_ok_def split: if_splits)
qed (use assms in \<open>simp add: GetChiefInfo_def\<close>)

lemma getChiefInfo_Some:
  assumes "getChiefInfo list n = (Some c, list')"
  shows "c \<in> set list" "start_key c \<le> big_Int64 n"
    "\<And>d. d \<in> set list \<Longrightarrow> start_key d \<le> big_Int64 n \<Longrightarrow> start_key d \<le> start_key c"
proof -
  let ?s = "insertionSort (\<lambda>p q. start_key p > start_key q) list"
  from assms have f: "find (\<lambda>c. start_key c \<le> big_Int64 n) ?s = Some c"
    by (auto simp: getChiefInfo_def Let_def)
  then have "c \<in> set ?s" "start_key c \<le> big_Int64 n"
    unfolding find_Some_iff by (metis nth_mem)+
  then show "c \<in> set list" "start_key c \<le> big_Int64 n" by simp_all
  show "start_key d \<le> start_key c" if "d \<in> set list" "start_key d \<le> big_Int64 n" for d
    using find_sorted_desc [OF sorted_insertionSort f, of d] that by simp
qed

lemma getChiefInfo_None:
  "getChiefInfo list n = (None, list') \<Longrightarrow> d \<in> set list \<Longrightarrow> start_key d > big_Int64 n"
  by (auto simp: getChiefInfo_def Let_def find_None_iff)

lemma GetChiefInfo_spec:
  assumes "chief_cache_ok getenv cache" "0 < n" "n < 2 ^ 63"
    and "GetChiefInfo getenv cache (Some n) = (res, cache')"
  shows "chief_cache_ok getenv cache' \<and>
    (case res of
       None \<Rightarrow> \<forall>d \<in> set (chief_literal getenv). deref (StartNumber d) > n
     | Some c \<Rightarrow> c \<in> set (chief_literal getenv) \<and> deref (StartNumber c) \<le> n \<and>
         (\<forall>d \<in> set (chief_literal getenv).
            deref (StartNumber d) \<le> n \<longrightarrow> deref (StartNumber d) \<le> deref (StartNumber c)))"
proof -
  obtain l c where l: "chiefAddressList getenv cache = (l, c)" by fastforce
  have set_l: "set l = set (chief_literal getenv)"
    using chiefAddressList_ok(1) [OF assms(1) l] .
  obtain l' where g: "getChiefInfo l n = (res, l')"
    using assms(2,4) l by (auto simp: GetChiefInfo_def Let_def split: prod.splits)
  have "big_Int64 n = n" using assms(2,3) by simp
  note key = start_key_literal this
  have "case res of
       None \<Rightarrow> \<forall>d \<in> set (chief_literal getenv). deref (StartNumber d) > n
     | Some c \<Rightarrow> c \<in> set (chief_literal getenv) \<and> deref (StartNumber c) \<le> n \<and>
         (\<forall>d \<in> set (chief_literal getenv).
            deref (StartNumber d) \<le> n \<longrightarrow> deref (StartNumber d) \<le> deref (StartNumber c))"
  proof (cases res)
    case None
    then show ?thesis using getChiefInfo_None [of l n l'] g set_l by (simp add: key)
  next
    case (Some c)
    with g have "getChiefInfo l n = (Some c, l')" by simp
    note spec = getChiefInfo_Some [OF this]
    from spec(1) set_l have c: "c \<in> set (chief_literal getenv)" by simp
    moreover have "deref (StartNumber c) \<le> n"
      using spec(2) c by (simp add: key)
    moreover have "deref (StartNumber d) \<le> deref (StartNumber c)"
      if "d \<in> set (chief_literal getenv)" "deref (StartNumber d) \<le> n" for d
      using spec(3) [of d] that c set_l by (simp add: key)
    ultimately show ?thesis using Some by simp
  qed
  with GetChiefInfo_ok [OF assms(1,4)] show ?thesis by simp
qed

text \<open>
  C16: the chief contract in force. As long as the shared list was first filled by
  \<^verbatim>\<open>chiefAddressList\<close>, \<^verbatim>\<open>GetChiefInfo\<close> returns, for a block number above zero, the configured
  contract with the greatest start number that is not above the block, and nothing only when all
  of them start later; the call keeps the list usable for the next one.
\<close>

theorem GetChiefInfo_in_force:
  assumes "chief_cache_ok getenv cache" "0 < n" "n < 2 ^ 63"
    and "GetChiefInfo getenv cache (Some n) = (res, cache')"
  shows "chief_cache_ok getenv cache' \<and>
    (case res of
       None \<Rightarrow> \<forall>d \<in> set (chief_literal getenv). deref (StartNumber d) > n
     | Some c \<Rightarrow> c \<in> set (chief_literal getenv) \<and> deref (StartNumber c) \<le> n \<and>
         (\<forall>d \<in> set (chief_literal getenv).
            deref (StartNumber d) \<le> n \<longrightarrow> deref (StartNumber d) \<le> deref (StartNumber c)))"
  using assms by (rule GetChiefInfo_spec)

theorem GetChiefInfo_in_force_witness:
  "fst (GetChiefInfo (\<lambda>_. '''') None (Some 3000000)) =
     Some (newChiefInfoWithPocBase (Some 2823366) ''1.0.0'' 0x890eb8566550e7337c7788ff971a3996860c51b5
             0xb9b4ece952c8005f009801e5ec78e116f528c1d0 0xe1c749f45ee14180853e552d3349cc58972cd082) \<and>
   chief_cache_ok (\<lambda>_. '''') (snd (GetChiefInfo (\<lambda>_. '''') None (Some 3000000)))"
proof -
  have v: "fst (GetChiefInfo (\<lambda>_. '''') None (Some 3000000)) =
     Some (newChiefInfoWithPocBase (Some 2823366) ''1.0.0'' 0x890eb8566550e7337c7788ff971a3996860c51b5
             0xb9b4ece952c8005f009801e5ec78e116f528c1d0 0xe1c749f45ee14180853e552d3349cc58972cd082)"
    by (simp add: GetChiefInfo_def chiefAddressList_def getChiefInfo_def chief_literal_def
         insertionSort_def start_key_def IsTestnet_def IsDevnet_def)
       (simp add: config_defs)
  obtain r c where rc: "GetChiefInfo (\<lambda>_. '''') None (Some 3000000) = (r, c)" by fastforce
  have "chief_cache_ok (\<lambda>_. '''') None" by (simp add: chief_cache_ok_def)
  from GetChiefInfo_in_force [OF this _ _ rc] rc v show ?thesis by simp
qed

definition chief100_start :: "environment \<Rightarrow> int" where
  "chief100_start getenv =
     (if IsTestnet getenv then 1310056 else if IsDevnet getenv then 63 else 2823366)"

lemma IsSIP100Block_start: "IsSIP100Block getenv n \<longleftrightarrow> chief100_start getenv \<le> n"
  by (simp add: IsSIP100Block_def chief100_start_def started_def)

lemma chief_literal_version:
  assumes "d \<in> set (chief_literal getenv)"
  shows "Version d = ''1.0.0'' \<longleftrightarrow> chief100_start getenv \<le> deref (StartNumber d)"
  using assms by (auto simp: chief_literal_def chief100_start_def split: if_splits)

lemma chief_literal_chief100:
  obtains e where "e \<in> set (chief_literal getenv)" "deref (StartNumber e) = chief100_start getenv"
proof -
  have "\<exists>e \<in> set (chief_literal getenv). deref (StartNumber e) = chief100_start getenv"
    by (simp add: chief_literal_def chief100_start_def)
  then show ?thesis using that by blast
qed

lemma IsSIP100Block_version:
  assumes "chief_cache_ok getenv cache" "0 < n" "n < 2 ^ 63"
  shows "IsSIP100Block getenv n \<longleftrightarrow>
    (\<exists>c. fst (GetChiefInfo getenv cache (Some n)) = Some c \<and> Version c = ''1.0.0'')"
proof -
  obtain r cache' where rc: "GetChiefInfo getenv cache (Some n) = (r, cache')" by fastforce
  from GetChiefInfo_spec [OF assms rc] have spec:
    "case r of
       None \<Rightarrow> \<forall>d \<in> set (chief_literal getenv). deref (StartNumber d) > n
     | Some c \<Rightarrow> c \<in> set (chief_literal getenv) \<and> deref (StartNumber c) \<le> n \<and>
         (\<forall>d \<in> set (chief_literal getenv).
            deref (StartNumber d) \<le> n \<longrightarrow> deref (StartNumber d) \<le> deref (StartNumber c))"
    by simp
  obtain e where e: "e \<in> set (chief_literal getenv)" "deref (StartNumber e) = chief100_start getenv"
    by (rule chief_literal_chief100)
  show ?thesis
  proof (cases r)
    case None
    with spec e rc show ?thesis by (auto simp: IsSIP100Block_start)
  next
    case (Some c)
    with spec have c: "c \<in> set (chief_literal getenv)" "deref (StartNumber c) \<le> n"
      and max: "chief100_start getenv \<le> n \<Longrightarrow> chief100_start getenv \<le> deref (StartNumber c)"
      using e by auto
    have "Version c = ''1.0.0'' \<longleftrightarrow> chief100_start getenv \<le> n"
      using chief_literal_version [OF c(1)] c(2) max by auto
    with Some rc show ?thesis by (simp add: IsSIP100Block_start)
  qed
qed

lemma chief_literal_start_le:
  "d \<in> set (chief_literal getenv) \<Longrightarrow> deref (StartNumber d) \<le> chief100_start getenv"
  by (auto simp: chief_literal_def chief100_start_def split: if_splits)

lemma IsSIP002Block_chief100: "chief100_start getenv \<le> n \<Longrightarrow> IsSIP002Block getenv n"
  by (auto simp: IsSIP002Block_def chief100_start_def started_def split: if_splits)

lemma chief100_start_bounds: "3 < chief100_start getenv" "chief100_start getenv < 2 ^ 63"
  by (simp_all add: chief100_start_def)

text \<open>
  C17: one fork, two tests. From an ordered list, the version \<^verbatim>\<open>1.0.0\<close> is in force exactly from
  the block at which \<^verbatim>\<open>IsSIP100Block\<close> switches, on each of the three networks, so that the code
  that tests the version and the code that tests the block number agree.
\<close>

theorem IsSIP100Block_iff_version:
  assumes "chief_cache_ok getenv cache" "0 < n" "n < 2 ^ 63"
  shows "IsSIP100Block getenv n \<longleftrightarrow>
    (\<exists>c. fst (GetChiefInfo getenv cache (Some n)) = Some c \<and> Version c = ''1.0.0'')"
  using assms by (rule IsSIP100Block_version)

theorem IsSIP100Block_iff_version_witness:
  "IsSIP100Block (\<lambda>_. '''') 2823366 \<and>
   (\<exists>c. fst (GetChiefInfo (\<lambda>_. '''') None (Some 2823366)) = Some c \<and> Version c = ''1.0.0'')"
proof -
  have a: "chief_cache_ok (\<lambda>_. '''') None" by (simp add: chief_cache_ok_def)
  have b: "IsSIP100Block (\<lambda>_. '''') 2823366"
    by (simp add: IsSIP100Block_def started_def IsTestnet_def IsDevnet_def)
  from IsSIP100Block_iff_version [OF a, of 2823366] b show ?thesis by simp
qed

text \<open>
  C18: the two list builders share one cache. If \<^verbatim>\<open>IsBeforeChief100block\<close> is the first function to
  run, the cache is filled with the old contracts and \<^verbatim>\<open>GetChiefInfo\<close> never selects version
  \<^verbatim>\<open>1.0.0\<close>, at any block. If \<^verbatim>\<open>GetChiefInfo\<close> runs first, \<^verbatim>\<open>IsBeforeChief100block\<close> answers yes at
  the block of the \<^verbatim>\<open>1.0.0\<close> fork, although its list is meant to stop before that version.
\<close>

theorem chief_cache_order_dependent:
  "''1.0.0'' \<notin> Version ` set_option
     (fst (GetChiefInfo getenv (snd (IsBeforeChief100block getenv None m)) (Some n))) \<and>
   fst (IsBeforeChief100block getenv (snd (GetChiefInfo getenv None (Some 1)))
          (chief100_start getenv)) \<and>
   \<not> fst (IsBeforeChief100block getenv None (chief100_start getenv))"
proof (intro conjI)
  have vs: "Version ci \<noteq> ''1.0.0''" if "ci \<in> set (beforechief100_literal getenv)" for ci
    using that by (auto simp: beforechief100_literal_def split: if_splits)
  let ?l = "beforechief100_literal getenv"
  have c: "snd (IsBeforeChief100block getenv None m) = Some ?l"
    by (simp add: IsBeforeChief100block_def beforechief100AddressList_def)
  show "''1.0.0'' \<notin> Version ` set_option
     (fst (GetChiefInfo getenv (snd (IsBeforeChief100block getenv None m)) (Some n)))"
  proof -
    obtain r l' where g: "getChiefInfo ?l n = (r, l')" by fastforce
    have res: "fst (GetChiefInfo getenv (Some ?l) (Some n)) = (if n > 0 then r else None)"
      using g by (simp add: GetChiefInfo_def chiefAddressList_def)
    have "Version ci \<noteq> ''1.0.0''" if "r = Some ci" for ci
      using vs getChiefInfo_Some(1) [of ?l n ci l'] g that by blast
    then show ?thesis unfolding c res by (cases r) auto
  qed
  obtain r l' where g: "getChiefInfo (chief_literal getenv) 1 = (r, l')" by fastforce
  from set_getChiefInfo [OF g] have l': "set l' = set (chief_literal getenv)" .
  have "snd (GetChiefInfo getenv None (Some 1)) = Some l'"
    using g by (simp add: GetChiefInfo_def chiefAddressList_def)
  moreover obtain e where "e \<in> set l'" "deref (StartNumber e) = chief100_start getenv"
    using l' by (metis chief_literal_chief100)
  ultimately show "fst (IsBeforeChief100block getenv (snd (GetChiefInfo getenv None (Some 1))) (chief100_start getenv))"
    by (auto simp: IsBeforeChief100block_def beforechief100AddressList_def)
  show "\<not> fst (IsBeforeChief100block getenv None (chief100_start getenv))"
    by (simp add: IsBeforeChief100block_def beforechief100AddressList_def
        beforechief100_literal_def chief100_start_def)
qed

end
