(* ===== verification/RLP.thy ===== *)
theory RLP
  imports Meshbox_Prelude
begin

unbundle bit_operations_syntax

text \<open>
  Recursive length prefix encoding (\<^verbatim>\<open>rlp/encode.go\<close>, \<^verbatim>\<open>rlp/raw.go\<close>). The encoder does not build
  nested byte strings: \<^verbatim>\<open>encbuf\<close> collects the string data of the whole value in one buffer and the
  list headers, with their positions, in another, and \<^verbatim>\<open>toBytes\<close> and \<^verbatim>\<open>toWriter\<close> interleave the
  two. The theory proves that this produces the textbook recursive encoding \<open>rlp_enc\<close>, and that the
  slicing reader of \<^verbatim>\<open>raw.go\<close> inverts it and accepts nothing but canonical encodings.
\<close>

section \<open>Integers and headers\<close>

definition putint :: "u64 \<Rightarrow> byte list" where
  "putint i =
    (if i < 2 ^ 8 then [ucast i]
     else if i < 2 ^ 16 then [ucast (drop_bit 8 i), ucast i]
     else if i < 2 ^ 24 then [ucast (drop_bit 16 i), ucast (drop_bit 8 i), ucast i]
     else if i < 2 ^ 32 then
       [ucast (drop_bit 24 i), ucast (drop_bit 16 i), ucast (drop_bit 8 i), ucast i]
     else if i < 2 ^ 40 then
       [ucast (drop_bit 32 i), ucast (drop_bit 24 i), ucast (drop_bit 16 i), ucast (drop_bit 8 i), ucast i]
     else if i < 2 ^ 48 then
       [ucast (drop_bit 40 i), ucast (drop_bit 32 i), ucast (drop_bit 24 i), ucast (drop_bit 16 i),
        ucast (drop_bit 8 i), ucast i]
     else if i < 2 ^ 56 then
       [ucast (drop_bit 48 i), ucast (drop_bit 40 i), ucast (drop_bit 32 i), ucast (drop_bit 24 i),
        ucast (drop_bit 16 i), ucast (drop_bit 8 i), ucast i]
     else
       [ucast (drop_bit 56 i), ucast (drop_bit 48 i), ucast (drop_bit 40 i), ucast (drop_bit 32 i),
        ucast (drop_bit 24 i), ucast (drop_bit 16 i), ucast (drop_bit 8 i), ucast i])"

function intsize :: "u64 \<Rightarrow> nat" where
  "intsize i = (let j = drop_bit 8 i in if j = 0 then 1 else Suc (intsize j))"
  by auto

lemma unat_drop_bit_8: "unat (drop_bit 8 (i :: u64)) = unat i div 256"
  by (simp add: drop_bit_eq_div unat_div)

termination intsize
proof (relation "measure unat")
  show "wf (measure (unat :: u64 \<Rightarrow> nat))" by simp
  fix i j :: u64 assume "j = drop_bit 8 i" "j \<noteq> 0"
  then show "(j, i) \<in> measure unat"
    by (auto simp: unat_drop_bit_8 unat_eq_0 intro!: div_less_dividend gr_zeroI)
qed

declare intsize.simps [simp del]

definition headsize :: "u64 \<Rightarrow> nat" where
  "headsize sz = (if sz < 56 then 1 else 1 + intsize sz)"

definition puthead :: "byte \<Rightarrow> byte \<Rightarrow> u64 \<Rightarrow> byte list" where
  "puthead smalltag largetag sz =
    (if sz < 56 then [smalltag + ucast sz]
     else (largetag + word_of_nat (length (putint sz))) # putint sz)"

definition ListSize :: "u64 \<Rightarrow> u64" where
  "ListSize contentSize = word_of_nat (headsize contentSize) + contentSize"

section \<open>The encoder\<close>

text \<open>
  The values the reflection-based writers distinguish. Structs and slices are lists; a slice field
  tagged \<^verbatim>\<open>tail\<close> contributes its elements to the enclosing list.
\<close>

datatype rlp_value =
    RUint u64 | RBool bool | RBig "int option" | RBytes "byte list" | RRaw "byte list"
  | RList "rlp_value list" | RTail "rlp_value list" | RNilInterface | RNilStruct

datatype rlp_encode_error = NegativeBigInt

record listhead =
  offset :: nat
  hsize :: nat

record encbuf =
  str :: "byte list"
  lheads :: "listhead list"
  lhsize :: nat

definition encbuf_reset :: encbuf where
  "encbuf_reset = \<lparr>str = [], lheads = [], lhsize = 0\<rparr>"

definition encbuf_size :: "encbuf \<Rightarrow> nat" where
  "encbuf_size w = length (str w) + lhsize w"

definition emit :: "byte list \<Rightarrow> encbuf \<Rightarrow> encbuf" where
  "emit bs w = w\<lparr>str := str w @ bs\<rparr>"

definition encodeStringHeader :: "nat \<Rightarrow> encbuf \<Rightarrow> encbuf" where
  "encodeStringHeader sz w =
    (if sz < 56 then emit [0x80 + word_of_nat sz] w
     else emit ((0xB7 + word_of_nat (length (putint (word_of_nat sz)))) # putint (word_of_nat sz)) w)"

definition encodeString :: "byte list \<Rightarrow> encbuf \<Rightarrow> encbuf" where
  "encodeString b w =
    (if length b = 1 \<and> hd b \<le> 0x7F then emit [hd b] w
     else emit b (encodeStringHeader (length b) w))"

text \<open>\<^verbatim>\<open>list\<close> returns a pointer to the new header: its index in \<open>lheads\<close>.\<close>

definition list_begin :: "encbuf \<Rightarrow> nat \<times> encbuf" where
  "list_begin w = (length (lheads w),
    w\<lparr>lheads := lheads w @ [\<lparr>offset = length (str w), hsize = lhsize w\<rparr>]\<rparr>)"

definition listEnd :: "nat \<Rightarrow> encbuf \<Rightarrow> encbuf" where
  "listEnd i w =
    (let lh = lheads w ! i; sz = encbuf_size w - offset lh - hsize lh in
     w\<lparr>lheads := (lheads w)[i := lh\<lparr>hsize := sz\<rparr>],
       lhsize := lhsize w + (if sz < 56 then 1 else 1 + intsize (word_of_nat sz))\<rparr>)"

definition writeUint :: "u64 \<Rightarrow> encbuf \<Rightarrow> encbuf" where
  "writeUint i w =
    (if i = 0 then emit [0x80] w
     else if i < 128 then emit [ucast i] w
     else emit ((0x80 + word_of_nat (length (putint i))) # putint i) w)"

definition writeBigInt :: "int \<Rightarrow> encbuf \<Rightarrow> (rlp_encode_error, encbuf) result" where
  "writeBigInt i w =
    (if i < 0 then Inl (Err NegativeBigInt)
     else if i = 0 then Inr (emit [0x80] w)
     else Inr (encodeString (big_Bytes i) w))"

text \<open>A failing element aborts the whole encoding; the buffer is then discarded.\<close>

fun rlp_write :: "rlp_value \<Rightarrow> encbuf \<Rightarrow> (rlp_encode_error, encbuf) result"
and rlp_writes :: "rlp_value list \<Rightarrow> encbuf \<Rightarrow> (rlp_encode_error, encbuf) result" where
  "rlp_write (RUint i) w = Inr (writeUint i w)"
| "rlp_write (RBool b) w = Inr (emit [if b then 0x01 else 0x80] w)"
| "rlp_write (RBig None) w = Inr (emit [0x80] w)"
| "rlp_write (RBig (Some i)) w = writeBigInt i w"
| "rlp_write (RBytes b) w = Inr (encodeString b w)"
| "rlp_write (RRaw b) w = Inr (emit b w)"
| "rlp_write (RList vs) w =
    (case list_begin w of (lh, w1) \<Rightarrow> and_then (rlp_writes vs w1) (\<lambda>w2. Inr (listEnd lh w2)))"
| "rlp_write (RTail vs) w = rlp_writes vs w"
| "rlp_write RNilInterface w = Inr (emit [0xC0] w)"
| "rlp_write RNilStruct w = (case list_begin w of (lh, w1) \<Rightarrow> Inr (listEnd lh w1))"
| "rlp_writes [] w = Inr w"
| "rlp_writes (v # vs) w = and_then (rlp_write v w) (rlp_writes vs)"

definition listhead_encode :: "listhead \<Rightarrow> byte list" where
  "listhead_encode h = puthead 0xC0 0xF7 (word_of_nat (hsize h))"

text \<open>
  \<^verbatim>\<open>toBytes\<close> fills a buffer of the announced size: \<^verbatim>\<open>copy\<close> stops at the end of the buffer, writing a
  header past the end would panic.
\<close>

definition copy_into :: "byte list \<Rightarrow> nat \<Rightarrow> byte list \<Rightarrow> byte list" where
  "copy_into out pos src =
    (let n = min (length out - pos) (length src) in take pos out @ take n src @ drop (pos + n) out)"

fun toBytes_loop ::
  "byte list \<Rightarrow> byte list \<Rightarrow> nat \<Rightarrow> nat \<Rightarrow> listhead list \<Rightarrow> (rlp_encode_error, byte list) result" where
  "toBytes_loop s out strpos pos [] = Inr (copy_into out pos (drop strpos s))"
| "toBytes_loop s out strpos pos (head # hs) =
    (let src = drop strpos (take (offset head) s);
         n = min (length out - pos) (length src);
         out1 = copy_into out pos src;
         enc = listhead_encode head in
     if length out < pos + n + length enc then Inl (Panic ''index out of range'')
     else toBytes_loop s (copy_into out1 (pos + n) enc) (strpos + n) (pos + n + length enc) hs)"

definition toBytes :: "encbuf \<Rightarrow> (rlp_encode_error, byte list) result" where
  "toBytes w = toBytes_loop (str w) (replicate (encbuf_size w) 0) 0 0 (lheads w)"

text \<open>\<^verbatim>\<open>toWriter\<close> on a writer that accepts everything (a hash): the bytes written.\<close>

fun toWriter_loop :: "byte list \<Rightarrow> nat \<Rightarrow> listhead list \<Rightarrow> byte list" where
  "toWriter_loop s strpos [] = drop strpos s"
| "toWriter_loop s strpos (head # hs) =
    drop strpos (take (offset head) s) @ listhead_encode head
      @ toWriter_loop s (max strpos (offset head)) hs"

definition toWriter :: "encbuf \<Rightarrow> byte list" where
  "toWriter w = toWriter_loop (str w) 0 (lheads w)"

definition EncodeToBytes :: "rlp_value \<Rightarrow> (rlp_encode_error, byte list) result" where
  "EncodeToBytes v = and_then (rlp_write v encbuf_reset) toBytes"

definition Encode :: "rlp_value \<Rightarrow> (rlp_encode_error, byte list) result" where
  "Encode v = and_then (rlp_write v encbuf_reset) (\<lambda>w. Inr (toWriter w))"

section \<open>The slicing reader\<close>

datatype Kind = Byte | String | List

datatype rlp_error =
    UnexpectedEOF | ErrCanonSize | ErrValueTooLarge | ErrExpectedString | ErrExpectedList
  | EOL | io_EOF | ErrCanonInt | ErrElemTooLarge | ErrMoreThanOneValue
  | errNotInList | errNotAtEOL | errUintOverflow | decodeErr string

definition be_or :: "byte list \<Rightarrow> u64" where
  "be_or bs = foldl (\<lambda>s b. push_bit 8 s OR ucast b) 0 bs"

definition readSize :: "byte list \<Rightarrow> byte \<Rightarrow> (rlp_error, u64) result" where
  "readSize b slen =
    (if unat slen > length b then Inl (Err UnexpectedEOF)
     else let s = be_or (take (unat slen) b) in
       if s < 56 \<or> hd b = 0 then Inl (Err ErrCanonSize) else Inr s)"

definition readKind :: "byte list \<Rightarrow> (rlp_error, Kind \<times> u64 \<times> u64) result" where
  "readKind buf =
    (case buf of [] \<Rightarrow> Inl (Err UnexpectedEOF)
     | b # bs \<Rightarrow>
       and_then
        (if b < 0x80 then Inr (Byte, 0, 1)
         else if b < 0xB8 then
           let contentsize = ucast (b - 0x80) in
           if contentsize = 1 \<and> length buf > 1 \<and> hd bs < 128 then Inl (Err ErrCanonSize)
           else Inr (String, 1, contentsize)
         else if b < 0xC0 then
           and_then (readSize bs (b - 0xB7)) (\<lambda>contentsize. Inr (String, ucast (b - 0xB7) + 1, contentsize))
         else if b < 0xF8 then Inr (List, 1, ucast (b - 0xC0))
         else and_then (readSize bs (b - 0xF7)) (\<lambda>contentsize. Inr (List, ucast (b - 0xF7) + 1, contentsize)))
        (\<lambda>(k, tagsize, contentsize).
           if contentsize > word_of_nat (length buf) - tagsize then Inl (Err ErrValueTooLarge)
           else Inr (k, tagsize, contentsize)))"

definition Split :: "byte list \<Rightarrow> (rlp_error, Kind \<times> byte list \<times> byte list) result" where
  "Split b = and_then (readKind b) (\<lambda>(k, ts, cs).
     Inr (k, drop (unat ts) (take (unat (ts + cs)) b), drop (unat (ts + cs)) b))"

definition SplitString :: "byte list \<Rightarrow> (rlp_error, byte list \<times> byte list) result" where
  "SplitString b = and_then (Split b) (\<lambda>(k, content, rest).
     if k = List then Inl (Err ErrExpectedString) else Inr (content, rest))"

definition SplitList :: "byte list \<Rightarrow> (rlp_error, byte list \<times> byte list) result" where
  "SplitList b = and_then (Split b) (\<lambda>(k, content, rest).
     if k \<noteq> List then Inl (Err ErrExpectedList) else Inr (content, rest))"

text \<open>
  Every accepted value takes at least one byte, so the length of the slice bounds the number of
  rounds of \<^verbatim>\<open>CountValues\<close>.
\<close>

fun CountValues_loop :: "nat \<Rightarrow> byte list \<Rightarrow> nat \<Rightarrow> (rlp_error, nat) result option" where
  "CountValues_loop 0 b i = (if b = [] then Some (Inr i) else None)"
| "CountValues_loop (Suc fuel) b i =
    (if b = [] then Some (Inr i)
     else case readKind b of
       Inl e \<Rightarrow> Some (Inl e)
     | Inr (k, tagsize, sz) \<Rightarrow> CountValues_loop fuel (drop (unat (tagsize + sz)) b) (i + 1))"

definition CountValues :: "byte list \<Rightarrow> (rlp_error, nat) result option" where
  "CountValues b = CountValues_loop (length b) b 0"

section \<open>Big-endian integers\<close>

lemma ucast_drop_bit_nat: "(ucast (drop_bit k (i :: u64)) :: byte) = word_of_nat (unat i div 2 ^ k)"
proof -
  have "unat i div 2 ^ k = unat (drop_bit k i)" by (subst unat_drop_bit_eq) (simp add: drop_bit_eq_div)
  then show ?thesis by (simp only: of_nat_unat)
qed

lemma ucast_u64_nat: "(ucast (i :: u64) :: byte) = word_of_nat (unat i)"
  by simp

lemma be_bytes_nat_small: "0 < n \<Longrightarrow> n < 256 \<Longrightarrow> be_bytes_nat n = [word_of_nat n]"
  by (simp add: be_bytes_nat.simps[of n] be_bytes_nat.simps[of 0])

lemma be_bytes_nat_step: "256 \<le> n \<Longrightarrow> be_bytes_nat n = be_bytes_nat (n div 256) @ [word_of_nat n]"
  by (simp add: be_bytes_nat.simps[of n])

lemma putint_be_bytes:
  assumes "i \<noteq> 0" shows "putint i = be_bytes_nat (unat i)"
proof -
  define n where "n = unat i"
  have lt: "i < 2 ^ 8 \<longleftrightarrow> n < 2 ^ 8" "i < 2 ^ 16 \<longleftrightarrow> n < 2 ^ 16" "i < 2 ^ 24 \<longleftrightarrow> n < 2 ^ 24"
    "i < 2 ^ 32 \<longleftrightarrow> n < 2 ^ 32" "i < 2 ^ 40 \<longleftrightarrow> n < 2 ^ 40" "i < 2 ^ 48 \<longleftrightarrow> n < 2 ^ 48"
    "i < 2 ^ 56 \<longleftrightarrow> n < 2 ^ 56"
    by (simp_all add: word_less_nat_alt n_def)
  have n: "0 < n" "n < 2 ^ 64"
    using assms unsigned_less[of i, where 'a=nat] by (simp_all add: n_def unat_gt_0)
  show ?thesis
    unfolding putint_def ucast_drop_bit_nat ucast_u64_nat[of i] n_def[symmetric] lt
    using n
    by (simp add: be_bytes_nat_small be_bytes_nat_step div_mult2_eq[symmetric]
        less_mult_imp_div_less div_le_mono del: of_nat_div)
qed

lemma be_bytes_nat_snoc: "0 < n \<Longrightarrow> be_bytes_nat n = be_bytes_nat (n div 256) @ [word_of_nat n]"
  by (simp add: be_bytes_nat.simps[of n])

lemma intsize_be_bytes: "intsize i = (if i = 0 then 1 else length (be_bytes_nat (unat i)))"
proof (induction i rule: intsize.induct)
  case (1 i)
  show ?case
  proof (cases "drop_bit 8 i = 0")
    case True
    then have "unat i div 256 = 0" by (simp flip: unat_drop_bit_8)
    then show ?thesis
      using True by (auto simp: intsize.simps[of i] be_bytes_nat_small unat_gt_0)
  next
    case False
    then have "i \<noteq> 0" by auto
    moreover have "intsize (drop_bit 8 i) = length (be_bytes_nat (unat i div 256))"
      using 1[OF refl False] False by (simp add: unat_drop_bit_8)
    ultimately show ?thesis
      using False by (simp add: intsize.simps[of i] be_bytes_nat_snoc[of "unat i"] unat_gt_0)
  qed
qed

lemma length_putint [simp]: "length (putint i) = intsize i"
  by (cases "i = 0") (simp_all add: intsize_be_bytes putint_be_bytes, simp add: putint_def)

lemma length_puthead [simp]: "length (puthead s l sz) = headsize sz"
  by (simp add: puthead_def headsize_def)

lemma intsize_bounds: "1 \<le> intsize i" "intsize i \<le> 8"
proof -
  have "1 \<le> length (putint i) \<and> length (putint i) \<le> 8" unfolding putint_def by simp
  then show "1 \<le> intsize i" "intsize i \<le> 8" by simp_all
qed

section \<open>The reference encoding\<close>

text \<open>The recursive definition: a string or a list is its header followed by its content.\<close>

definition enc_str :: "byte list \<Rightarrow> byte list" where
  "enc_str b = (if length b = 1 \<and> hd b \<le> 0x7F then b else puthead 0x80 0xB7 (word_of_nat (length b)) @ b)"

definition enc_list :: "byte list \<Rightarrow> byte list" where
  "enc_list c = puthead 0xC0 0xF7 (word_of_nat (length c)) @ c"

fun rlp_enc :: "rlp_value \<Rightarrow> byte list" where
  "rlp_enc (RUint i) = enc_str (be_bytes_nat (unat i))"
| "rlp_enc (RBool b) = enc_str (if b then [1] else [])"
| "rlp_enc (RBig i) = enc_str (big_Bytes (deref i))"
| "rlp_enc (RBytes b) = enc_str b"
| "rlp_enc (RRaw b) = b"
| "rlp_enc (RList vs) = enc_list (concat (map rlp_enc vs))"
| "rlp_enc (RTail vs) = concat (map rlp_enc vs)"
| "rlp_enc RNilInterface = enc_list []"
| "rlp_enc RNilStruct = enc_list []"

fun rlp_encodable :: "rlp_value \<Rightarrow> bool" where
  "rlp_encodable (RBig (Some i)) = (0 \<le> i)"
| "rlp_encodable (RList vs) = list_all rlp_encodable vs"
| "rlp_encodable (RTail vs) = list_all rlp_encodable vs"
| "rlp_encodable _ = True"

section \<open>The encoder writes the reference encoding\<close>

fun weave :: "nat \<Rightarrow> listhead list \<Rightarrow> byte list \<Rightarrow> byte list" where
  "weave p [] s = s"
| "weave p (h # hs) s =
    take (offset h - p) s @ listhead_encode h @ weave (offset h) hs (drop (offset h - p) s)"

fun heads_ok :: "nat \<Rightarrow> listhead list \<Rightarrow> nat \<Rightarrow> bool" where
  "heads_ok p [] e = (p \<le> e)"
| "heads_ok p (h # hs) e = (p \<le> offset h \<and> heads_ok (offset h) hs e)"

definition heads_size :: "listhead list \<Rightarrow> nat" where
  "heads_size hs = (\<Sum>h\<leftarrow>hs. length (listhead_encode h))"

lemma heads_size_simps [simp]:
  "heads_size [] = 0" "heads_size (h # hs) = length (listhead_encode h) + heads_size hs"
  "heads_size (hs @ hs') = heads_size hs + heads_size hs'"
  by (simp_all add: heads_size_def)

lemma heads_ok_le: "heads_ok p hs e \<Longrightarrow> p \<le> e"
  by (induction hs arbitrary: p) (auto intro: order_trans)

lemma heads_ok_append: "heads_ok p hs e \<Longrightarrow> heads_ok e hs' e' \<Longrightarrow> heads_ok p (hs @ hs') e'"
proof (induction hs arbitrary: p)
  case Nil
  then show ?case by (cases hs') auto
qed simp

lemma weave_skip: "heads_ok (p + length s1) hs e \<Longrightarrow> weave p hs (s1 @ s2) = s1 @ weave (p + length s1) hs s2"
proof (cases hs)
  case (Cons h hs')
  assume "heads_ok (p + length s1) hs e"
  then have "offset h - p = length s1 + (offset h - (p + length s1))" using Cons by simp
  then show ?thesis using Cons by simp
qed simp

lemma weave_append:
  assumes "heads_ok p hs1 (p + length s1)" "heads_ok (p + length s1) hs2 e"
  shows "weave p (hs1 @ hs2) (s1 @ s2) = weave p hs1 s1 @ weave (p + length s1) hs2 s2"
  using assms
proof (induction hs1 arbitrary: p s1)
  case Nil
  then show ?case by (simp add: weave_skip)
next
  case (Cons h hs1)
  let ?d = "offset h - p"
  have le: "p \<le> offset h" "offset h \<le> p + length s1"
    using Cons.prems heads_ok_le by auto
  then have eq: "offset h + length (drop ?d s1) = p + length s1" by simp
  have "weave (offset h) (hs1 @ hs2) (drop ?d s1 @ s2)
      = weave (offset h) hs1 (drop ?d s1) @ weave (p + length s1) hs2 s2"
    using Cons.IH[of "offset h" "drop ?d s1"] Cons.prems unfolding eq by simp
  with le show ?case by simp
qed

lemma length_weave: "heads_ok p hs (p + length s) \<Longrightarrow> length (weave p hs s) = length s + heads_size hs"
proof (induction hs arbitrary: p s)
  case (Cons h hs)
  have le: "p \<le> offset h" "offset h \<le> p + length s"
    using Cons.prems heads_ok_le by auto
  then have eq: "offset h + length (drop (offset h - p) s) = p + length s" by simp
  have "length (weave (offset h) hs (drop (offset h - p) s)) = length (drop (offset h - p) s) + heads_size hs"
    using Cons.IH[of "offset h" "drop (offset h - p) s"] Cons.prems unfolding eq by simp
  with le show ?case by simp
qed simp

text \<open>Every writer appends string data and completed headers whose interleaving is the encoding.\<close>

definition writes_to :: "(encbuf \<Rightarrow> (rlp_encode_error, encbuf) result) \<Rightarrow> byte list \<Rightarrow> bool" where
  "writes_to f bs \<longleftrightarrow> (\<forall>w. \<exists>s hs.
     f w = Inr \<lparr>str = str w @ s, lheads = lheads w @ hs, lhsize = lhsize w + heads_size hs\<rparr> \<and>
     heads_ok (length (str w)) hs (length (str w) + length s) \<and>
     weave (length (str w)) hs s = bs)"

lemma writes_to_emit: "writes_to (\<lambda>w. Inr (emit bs w)) bs"
  unfolding writes_to_def
  by (rule allI, rule exI[of _ bs], rule exI[of _ "[]"]) (simp add: emit_def)

lemma writes_to_seq:
  assumes "writes_to f bs" "writes_to g cs"
  shows "writes_to (\<lambda>w. and_then (f w) g) (bs @ cs)"
  unfolding writes_to_def
proof
  fix w :: encbuf
  obtain s hs where f: "f w = Inr \<lparr>str = str w @ s, lheads = lheads w @ hs, lhsize = lhsize w + heads_size hs\<rparr>"
    "heads_ok (length (str w)) hs (length (str w) + length s)" "weave (length (str w)) hs s = bs"
    using assms(1) unfolding writes_to_def by blast
  let ?w = "\<lparr>str = str w @ s, lheads = lheads w @ hs, lhsize = lhsize w + heads_size hs\<rparr>"
  obtain s' hs' where g: "g ?w = Inr \<lparr>str = str ?w @ s', lheads = lheads ?w @ hs', lhsize = lhsize ?w + heads_size hs'\<rparr>"
    "heads_ok (length (str ?w)) hs' (length (str ?w) + length s')" "weave (length (str ?w)) hs' s' = cs"
    using assms(2) unfolding writes_to_def by blast
  show "\<exists>s hs. and_then (f w) g = Inr \<lparr>str = str w @ s, lheads = lheads w @ hs, lhsize = lhsize w + heads_size hs\<rparr> \<and>
      heads_ok (length (str w)) hs (length (str w) + length s) \<and> weave (length (str w)) hs s = bs @ cs"
    using f g by (intro exI[of _ "s @ s'"] exI[of _ "hs @ hs'"])
      (auto simp: weave_append add.assoc intro: heads_ok_append)
qed

lemma word_of_nat_less_56: "n < 2 ^ 64 \<Longrightarrow> (word_of_nat n :: u64) < 56 \<longleftrightarrow> n < 56"
  by (simp add: word_less_nat_alt unsigned_of_nat take_bit_nat_eq_self)

lemma writes_to_list:
  assumes g: "writes_to g cs" and len: "length cs < 2 ^ 64"
  shows "writes_to (\<lambda>w. case list_begin w of (lh, w1) \<Rightarrow> and_then (g w1) (\<lambda>w2. Inr (listEnd lh w2))) (enc_list cs)"
  unfolding writes_to_def
proof
  fix w :: encbuf
  let ?h = "\<lparr>offset = length (str w), hsize = lhsize w\<rparr>"
  let ?w = "w\<lparr>lheads := lheads w @ [?h]\<rparr>"
  obtain s hs where 1: "g ?w = Inr \<lparr>str = str ?w @ s, lheads = lheads ?w @ hs, lhsize = lhsize ?w + heads_size hs\<rparr>"
    "heads_ok (length (str ?w)) hs (length (str ?w) + length s)" "weave (length (str ?w)) hs s = cs"
    using g unfolding writes_to_def by blast
  let ?h' = "?h\<lparr>hsize := length cs\<rparr>"
  have sz: "length s + heads_size hs = length cs"
    using 1 length_weave[of "length (str w)" hs s] by simp
  have hs: "heads_size [?h'] = (if length cs < 56 then 1 else 1 + intsize (word_of_nat (length cs)))"
    using len by (simp add: listhead_encode_def headsize_def word_of_nat_less_56)
  show "\<exists>s hs. (case list_begin w of (lh, w1) \<Rightarrow> and_then (g w1) (\<lambda>w2. Inr (listEnd lh w2)))
      = Inr \<lparr>str = str w @ s, lheads = lheads w @ hs, lhsize = lhsize w + heads_size hs\<rparr> \<and>
      heads_ok (length (str w)) hs (length (str w) + length s) \<and> weave (length (str w)) hs s = enc_list cs"
    using 1 hs sz by (intro exI[of _ s] exI[of _ "?h' # hs"])
      (auto simp: list_begin_def listEnd_def encbuf_size_def Let_def nth_append list_update_append
        listhead_encode_def enc_list_def add_ac)
qed


lemma emit_emit [simp]: "emit b (emit a w) = emit (a @ b) w"
  by (simp add: emit_def)

lemma ucast_of_nat_u64: "n < 2 ^ 64 \<Longrightarrow> (ucast (word_of_nat n :: u64) :: byte) = word_of_nat n"
  by (simp add: ucast_u64_nat unsigned_of_nat take_bit_nat_eq_self del: of_nat_unat)

lemma encodeStringHeader_enc:
  "n < 2 ^ 64 \<Longrightarrow> encodeStringHeader n w = emit (puthead 0x80 0xB7 (word_of_nat n)) w"
  by (simp add: encodeStringHeader_def puthead_def word_of_nat_less_56 ucast_of_nat_u64)

lemma encodeString_enc: "length b < 2 ^ 64 \<Longrightarrow> encodeString b w = emit (enc_str b) w"
  by (auto simp: encodeString_def encodeStringHeader_enc enc_str_def length_Suc_conv)

lemma enc_str_multi: "length b \<noteq> 1 \<or> hd b > 0x7F \<Longrightarrow> length b < 56 \<Longrightarrow>
  enc_str b = (0x80 + word_of_nat (length b)) # b"
  by (auto simp: enc_str_def puthead_def word_of_nat_less_56 ucast_of_nat_u64 not_le)

lemma unat_ucast_byte: "unat i < 256 \<Longrightarrow> unat (ucast (i :: u64) :: byte) = unat i"
  by (simp add: ucast_u64_nat unsigned_of_nat take_bit_nat_eq_self del: of_nat_unat)

lemma writeUint_enc: "writeUint i w = emit (enc_str (be_bytes_nat (unat i))) w"
proof -
  have p: "be_bytes_nat (unat i) = putint i" if "i \<noteq> 0" using that by (simp add: putint_be_bytes)
  consider "i = 0" | "i \<noteq> 0" "i < 128" | "128 \<le> i" "i < 256" | "256 \<le> i" by force
  then show ?thesis
  proof cases
    case 1
    then show ?thesis by (simp add: writeUint_def enc_str_def be_bytes_nat.simps puthead_def)
  next
    case 2
    then have "putint i = [ucast i]" "(ucast i :: byte) \<le> 0x7F"
      by (simp_all add: putint_def word_less_nat_alt word_le_nat_alt unat_ucast_byte)
    with 2 p show ?thesis by (simp add: writeUint_def enc_str_def)
  next
    case 3
    then have "putint i = [ucast i]" "0x7F < (ucast i :: byte)" "i \<noteq> 0" "\<not> i < 128"
      by (auto simp: putint_def word_less_nat_alt word_le_nat_alt unat_ucast_byte)
    with p show ?thesis by (simp add: writeUint_def enc_str_multi)
  next
    case 4
    then have "\<not> i < 128" "i \<noteq> 0" "\<not> i < 2 ^ 8" by (auto simp: word_less_nat_alt word_le_nat_alt)
    moreover from this have "length (putint i) \<noteq> 1" by (simp add: putint_def)
    ultimately show ?thesis
      using p intsize_bounds(2)[of i] by (simp add: writeUint_def enc_str_multi del: One_nat_def)
  qed
qed

lemma writes_to_cong: "writes_to f bs \<Longrightarrow> (\<And>w. f w = g w) \<Longrightarrow> writes_to g bs"
  by (simp add: writes_to_def)

lemma enc_str_length: "length b \<le> length (enc_str b)"
  by (simp add: enc_str_def)

lemma writes_to_nil: "writes_to Inr []"
  unfolding writes_to_def
  by (rule allI, rule exI[of _ "[]"], rule exI[of _ "[]"]) simp

lemma writes_to_writes:
  "(\<And>v. v \<in> set vs \<Longrightarrow> writes_to (rlp_write v) (rlp_enc v)) \<Longrightarrow>
   writes_to (rlp_writes vs) (concat (map rlp_enc vs))"
proof (induction vs)
  case Nil
  show ?case by (simp, rule writes_to_cong[OF writes_to_nil]) simp
next
  case (Cons v vs)
  show ?case
    using writes_to_seq[OF Cons.prems[of v] Cons.IH] Cons.prems
    by (auto elim!: writes_to_cong)
qed

lemma length_concat_member: "v \<in> set vs \<Longrightarrow> length (f v) \<le> length (concat (map f vs))"
  by (induction vs) auto

lemma writes_to_rlp:
  "rlp_encodable v \<Longrightarrow> length (rlp_enc v) < 2 ^ 64 \<Longrightarrow> writes_to (rlp_write v) (rlp_enc v)"
proof (induction v)
  case (RUint i)
  show ?case by (rule writes_to_cong[OF writes_to_emit]) (simp add: writeUint_enc)
next
  case (RBool b)
  show ?case by (rule writes_to_cong[OF writes_to_emit]) (simp add: enc_str_def puthead_def)
next
  case (RBig i)
  show ?case
  proof (rule writes_to_cong[OF writes_to_emit])
    fix w
    have "length (big_Bytes (deref i)) < 2 ^ 64"
      using RBig.prems(2) enc_str_length[of "big_Bytes (deref i)"] by simp
    moreover have "big_Bytes 0 = []" by (simp add: big_Bytes_def be_bytes_nat.simps)
    ultimately show "Inr (emit (rlp_enc (RBig i)) w) = rlp_write (RBig i) w"
      using RBig.prems(1) by (cases i) (auto simp: writeBigInt_def encodeString_enc enc_str_def puthead_def deref_def)
  qed
next
  case (RBytes b)
  show ?case
    using RBytes.prems enc_str_length[of b]
    by (intro writes_to_cong[OF writes_to_emit]) (simp add: encodeString_enc)
next
  case (RRaw b)
  show ?case by (rule writes_to_cong[OF writes_to_emit]) simp
next
  case (RList vs)
  have len: "length (concat (map rlp_enc vs)) < 2 ^ 64"
    using RList.prems by (simp add: enc_list_def)
  have "writes_to (rlp_write v) (rlp_enc v)" if "v \<in> set vs" for v
    using that RList length_concat_member[OF that, of rlp_enc] len by (simp add: list_all_iff)
  then have "writes_to (rlp_writes vs) (concat (map rlp_enc vs))" by (rule writes_to_writes)
  then show ?case
    using writes_to_list[OF _ len] by simp
next
  case (RTail vs)
  have "writes_to (rlp_write v) (rlp_enc v)" if "v \<in> set vs" for v
    using that RTail length_concat_member[OF that, of rlp_enc] by (simp add: list_all_iff)
  then show ?case using writes_to_writes[of vs] by simp
next
  case RNilInterface
  show ?case by (rule writes_to_cong[OF writes_to_emit]) (simp add: enc_list_def puthead_def)
next
  case RNilStruct
  show ?case
    by (simp, rule writes_to_cong[OF writes_to_list[OF writes_to_nil]]) simp_all
qed

lemma toWriter_loop_weave:
  "heads_ok p hs (length s) \<Longrightarrow> toWriter_loop s p hs = weave p hs (drop p s)"
proof (induction hs arbitrary: p)
  case (Cons h hs)
  then have "p \<le> offset h" "offset h \<le> length s"
    using heads_ok_le by auto
  then show ?case using Cons by (simp add: max_def drop_take)
qed simp

lemma copy_into_append: "length src = length m \<Longrightarrow> copy_into (a @ m @ b) (length a) src = a @ src @ b"
  by (simp add: copy_into_def)

lemma split_three: "length xs = i + (j + k) \<Longrightarrow> \<exists>a b c. xs = a @ b @ c \<and> length a = i \<and> length b = j \<and> length c = k"
  by (rule exI[of _ "take i xs"], rule exI[of _ "take j (drop i xs)"], rule exI[of _ "drop j (drop i xs)"])
     (simp only: append_take_drop_id, simp)

lemma toBytes_loop_weave:
  "heads_ok p hs (length s) \<Longrightarrow> length free = length (weave p hs (drop p s)) \<Longrightarrow>
   toBytes_loop s (written @ free) p (length written) hs = Inr (written @ weave p hs (drop p s))"
proof (induction hs arbitrary: p written free)
  case Nil
  then show ?case by (simp add: copy_into_def)
next
  case (Cons h hs)
  let ?src = "drop p (take (offset h) s)" and ?enc = "listhead_encode h"
  let ?rest = "weave (offset h) hs (drop (offset h) s)"
  have le: "p \<le> offset h" "offset h \<le> length s"
    using Cons.prems heads_ok_le by auto
  then have w: "weave p (h # hs) (drop p s) = ?src @ ?enc @ ?rest" and sp: "p + length ?src = offset h"
    by (simp_all add: drop_take)
  have "length free = length ?src + (length ?enc + length ?rest)"
    using Cons.prems(2) unfolding w by simp
  then obtain f1 f2 f3 where f: "free = f1 @ f2 @ f3" "length f1 = length ?src" "length f2 = length ?enc"
      "length f3 = length ?rest"
    using split_three by blast
  have c1: "copy_into (written @ f1 @ (f2 @ f3)) (length written) ?src = written @ ?src @ (f2 @ f3)"
    using f by (intro copy_into_append) simp
  have c2: "copy_into ((written @ ?src) @ f2 @ f3) (length (written @ ?src)) ?enc = (written @ ?src) @ ?enc @ f3"
    using f by (intro copy_into_append) simp
  have n: "min (length (written @ f1 @ (f2 @ f3)) - length written) (length ?src) = length ?src"
    using f by simp
  have fits: "\<not> length (written @ f1 @ (f2 @ f3)) < length written + length ?src + length ?enc"
    using f by simp
  have "toBytes_loop s (written @ free) p (length written) (h # hs)
      = toBytes_loop s ((written @ ?src @ ?enc) @ f3) (offset h) (length (written @ ?src @ ?enc)) hs"
    unfolding f(1) toBytes_loop.simps Let_def n sp c1 if_not_P[OF fits]
    using c2 by (simp add: add.assoc del: length_drop length_take)
  also have "\<dots> = Inr ((written @ ?src @ ?enc) @ ?rest)"
    using Cons.prems(1) f by (intro Cons.IH) simp_all
  finally show ?case unfolding w by simp
qed

lemma encoded_buffer:
  assumes "rlp_encodable v" "length (rlp_enc v) < 2 ^ 64"
  obtains w where "rlp_write v encbuf_reset = Inr w" "heads_ok 0 (lheads w) (length (str w))"
    "weave 0 (lheads w) (str w) = rlp_enc v" "encbuf_size w = length (rlp_enc v)"
proof -
  obtain s hs where 1: "rlp_write v encbuf_reset = Inr \<lparr>str = str encbuf_reset @ s,
      lheads = lheads encbuf_reset @ hs, lhsize = lhsize encbuf_reset + heads_size hs\<rparr>"
    "heads_ok (length (str encbuf_reset)) hs (length (str encbuf_reset) + length s)"
    "weave (length (str encbuf_reset)) hs s = rlp_enc v"
    using writes_to_rlp[OF assms] unfolding writes_to_def by blast
  then have "length (rlp_enc v) = length s + heads_size hs"
    using length_weave[of 0 hs s] by (simp add: encbuf_reset_def)
  with 1 that show thesis by (simp add: encbuf_reset_def encbuf_size_def)
qed

lemma EncodeToBytes_enc:
  assumes "rlp_encodable v" "length (rlp_enc v) < 2 ^ 64"
  shows "EncodeToBytes v = Inr (rlp_enc v)" "Encode v = Inr (rlp_enc v)"
proof -
  obtain w where w: "rlp_write v encbuf_reset = Inr w" "heads_ok 0 (lheads w) (length (str w))"
    "weave 0 (lheads w) (str w) = rlp_enc v" "encbuf_size w = length (rlp_enc v)"
    using encoded_buffer[OF assms] .
  show "EncodeToBytes v = Inr (rlp_enc v)"
    using w toBytes_loop_weave[of 0 "lheads w" "str w" "replicate (encbuf_size w) 0" "[]"]
    by (simp add: EncodeToBytes_def toBytes_def)
  show "Encode v = Inr (rlp_enc v)"
    using w by (simp add: Encode_def toWriter_def toWriter_loop_weave)
qed

lemma rlp_writes_outcome:
  assumes "\<And>v w. v \<in> set vs \<Longrightarrow>
    if rlp_encodable v then \<exists>w'. rlp_write v w = Inr w' else rlp_write v w = Inl (Err NegativeBigInt)"
  shows "if list_all rlp_encodable vs then \<exists>w'. rlp_writes vs w = Inr w'
    else rlp_writes vs w = Inl (Err NegativeBigInt)"
  using assms
proof (induction vs arbitrary: w)
  case (Cons v vs)
  show ?case
  proof (cases "rlp_encodable v")
    case True
    with Cons.prems[of v w] obtain w' where "rlp_write v w = Inr w'" by auto
    with Cons.IH[of w'] Cons.prems True show ?thesis by simp
  next
    case False
    with Cons.prems[of v w] show ?thesis by simp
  qed
qed simp

lemma rlp_write_outcome:
  "if rlp_encodable v then \<exists>w'. rlp_write v w = Inr w' else rlp_write v w = Inl (Err NegativeBigInt)"
proof (induction v arbitrary: w)
  case (RBig i)
  then show ?case by (cases i) (auto simp: writeBigInt_def)
next
  case (RList vs)
  let ?w = "snd (list_begin w)"
  have "if list_all rlp_encodable vs then \<exists>w'. rlp_writes vs ?w = Inr w'
    else rlp_writes vs ?w = Inl (Err NegativeBigInt)"
    by (rule rlp_writes_outcome) (rule RList)
  then show ?case by (cases "list_all rlp_encodable vs") (auto simp: list_begin_def)
next
  case (RTail vs)
  have "if list_all rlp_encodable vs then \<exists>w'. rlp_writes vs w = Inr w'
    else rlp_writes vs w = Inl (Err NegativeBigInt)"
    by (rule rlp_writes_outcome) (rule RTail)
  then show ?case by simp
qed (simp_all add: list_begin_def)

lemma Encode_not_encodable:
  assumes "\<not> rlp_encodable v"
  shows "EncodeToBytes v = Inl (Err NegativeBigInt)" "Encode v = Inl (Err NegativeBigInt)"
  using rlp_write_outcome[of v encbuf_reset] assms by (simp_all add: EncodeToBytes_def Encode_def)

section \<open>The reader accepts exactly the canonical encodings\<close>

lemma be_int_nonneg [simp]: "0 \<le> be_int bs"
  by (induction bs rule: rev_induct) (simp_all add: be_int_append, simp add: be_int_def)

lemma be_int_Nil [simp]: "be_int [] = 0"
  by (simp add: be_int_def)

lemma be_int_bound: "be_int bs < 256 ^ length bs"
proof (induction bs rule: rev_induct)
  case (snoc b bs)
  have "uint b < 256" using uint_lt2p[of b] by simp
  with snoc show ?case by (simp add: be_int_append)
qed simp

lemma be_int_pos: "bs \<noteq> [] \<Longrightarrow> hd bs \<noteq> 0 \<Longrightarrow> 0 < be_int bs"
proof (induction bs rule: rev_induct)
  case (snoc b bs)
  show ?case
  proof (cases "bs = []")
    case True
    with snoc.prems show ?thesis by (simp add: be_int_def order_less_le uint_0_iff)
  next
    case False
    with snoc have "0 < be_int bs" by simp
    moreover have "0 \<le> uint b" by simp
    ultimately show ?thesis by (simp add: be_int_append add_pos_nonneg)
  qed
qed simp

lemma be_bytes_be_int: "bs \<noteq> [] \<Longrightarrow> hd bs \<noteq> 0 \<Longrightarrow> be_bytes_nat (nat (be_int bs)) = bs"
proof (induction bs rule: rev_induct)
  case (snoc b bs)
  have b: "uint b < 256" "0 \<le> uint b" using uint_lt2p[of b] by simp_all
  have pos: "0 < nat (be_int (bs @ [b]))" using be_int_pos[OF snoc.prems] by simp
  have div: "nat (be_int (bs @ [b])) div 256 = nat (be_int bs)"
    using unsigned_less[of b, where 'a=nat] by (simp add: be_int_append nat_add_distrib nat_mult_distrib)
  have w: "word_of_nat (nat (be_int (bs @ [b]))) = b"
  proof -
    have "uint (word_of_int (be_int bs * 256 + uint b) :: byte) = uint b"
      unfolding uint_word_of_int using b by simp
    then have "word_of_int (be_int bs * 256 + uint b) = b" by (simp only: word_uint_eq_iff)
    then show ?thesis by (subst of_nat_nat[OF be_int_nonneg]) (simp only: be_int_append)
  qed
  show ?case
  proof (cases "bs = []")
    case True
    with b pos div w show ?thesis by (simp add: be_bytes_nat_snoc be_bytes_nat.simps[of 0])
  next
    case False
    with snoc pos div w show ?thesis by (simp add: be_bytes_nat_snoc)
  qed
qed simp

lemma be_or_snoc: "uint (be_or bs) < 2 ^ 56 \<Longrightarrow> uint (be_or (bs @ [b])) = uint (be_or bs) * 256 + uint b"
proof -
  assume lt: "uint (be_or bs) < 2 ^ 56"
  let ?s = "be_or bs"
  have "push_bit 8 ?s OR ucast b = push_bit 8 ?s + ucast b"
    by (rule disjunctive_add[symmetric]) (auto simp: bit_simps dest: bit_imp_le_length)
  moreover have "uint (push_bit 8 ?s) = uint ?s * 256"
    using lt by (simp add: push_bit_eq_mult uint_word_ariths)
  moreover have "uint (ucast b :: u64) = uint b"
    using uint_lt2p[of b] by (simp add: unsigned_ucast_eq take_bit_int_eq_self)
  ultimately show ?thesis
    using lt uint_lt2p[of b] by (simp add: be_or_def uint_plus_if')
qed

lemma uint_be_or: "length bs \<le> 8 \<Longrightarrow> uint (be_or bs) = be_int bs"
proof (induction bs rule: rev_induct)
  case (snoc b bs)
  then have "be_int bs < 256 ^ 7"
    using be_int_bound[of bs] power_increasing[of "length bs" 7 "256::int"] by simp
  with snoc show ?case by (simp add: be_or_snoc be_int_append)
qed (simp add: be_or_def)

lemma hd_be_bytes_nat: "0 < n \<Longrightarrow> hd (be_bytes_nat n) \<noteq> 0 \<and> be_bytes_nat n \<noteq> []"
proof (induction n rule: be_bytes_nat.induct)
  case (1 n)
  show ?case
  proof (cases "n < 256")
    case True
    then have "unat (word_of_nat n :: byte) = n" by (simp add: unsigned_of_nat take_bit_nat_eq_self)
    with 1 True show ?thesis by (auto simp: be_bytes_nat_small)
  next
    case False
    with 1 show ?thesis by (simp add: be_bytes_nat_step div_greater_zero_iff)
  qed
qed

lemma unat_be_or: "length bs \<le> 8 \<Longrightarrow> unat (be_or bs) = nat (be_int bs)"
  by (simp flip: uint_be_or)

lemma readSize_canonical:
  assumes "readSize b k = Inr s" "1 \<le> unat k" "unat k \<le> 8"
  shows "take (unat k) b = putint s" "56 \<le> s" "unat k = intsize s"
proof -
  let ?bs = "take (unat k) b"
  have len: "unat k \<le> length b" and s: "s = be_or ?bs" "56 \<le> s" and hd: "hd b \<noteq> 0"
    using assms(1) by (auto simp: readSize_def Let_def split: if_splits)
  have "b \<noteq> []" using len assms(2) by auto
  then have bs: "?bs \<noteq> []" "hd ?bs \<noteq> 0" using hd assms(2) by (auto simp: hd_take)
  have "s \<noteq> 0" using s(2) by (auto simp: word_le_nat_alt)
  moreover have "unat s = nat (be_int ?bs)"
    using assms(3) s(1) by (simp add: unat_be_or)
  ultimately show *: "?bs = putint s"
    using be_bytes_be_int[OF bs] by (simp add: putint_be_bytes)
  show "unat k = intsize s"
    using arg_cong[OF *, of length] len by simp
  show "56 \<le> s" by (rule s)
qed

lemma readSize_putint:
  assumes "56 \<le> s" shows "readSize (putint s @ r) (word_of_nat (intsize s)) = Inr s"
proof -
  have s: "s \<noteq> 0" using assms by (auto simp: word_le_nat_alt)
  have k: "unat (word_of_nat (intsize s) :: byte) = intsize s"
    using intsize_bounds(2)[of s] by (simp add: unsigned_of_nat take_bit_nat_eq_self)
  have "uint (be_or (putint s)) = uint s"
    using intsize_bounds(2)[of s] s
    by (simp add: uint_be_or) (simp add: putint_be_bytes be_int_be_bytes_nat)
  then have "be_or (putint s) = s" by (simp only: word_uint_eq_iff)
  moreover have "hd (putint s @ r) \<noteq> 0"
    using s hd_be_bytes_nat[of "unat s"] by (simp add: putint_be_bytes unat_gt_0)
  ultimately show ?thesis
    using assms k by (simp add: readSize_def)
qed

lemma unat_tag:
  "n < 128 \<Longrightarrow> unat (0x80 + word_of_nat n :: byte) = 0x80 + n"
  "n < 73 \<Longrightarrow> unat (0xB7 + word_of_nat n :: byte) = 0xB7 + n"
  "n < 64 \<Longrightarrow> unat (0xC0 + word_of_nat n :: byte) = 0xC0 + n"
  "n < 9 \<Longrightarrow> unat (0xF7 + word_of_nat n :: byte) = 0xF7 + n"
  by (simp_all add: unat_word_ariths unsigned_of_nat take_bit_nat_eq_self)

lemma ucast_byte_nat: "n < 256 \<Longrightarrow> (ucast (word_of_nat n :: byte) :: u64) = word_of_nat n"
  by (simp add: word_unat_eq_iff unsigned_ucast_eq unsigned_of_nat take_bit_nat_eq_self)

lemma unat_u64_of_nat: "n < 2 ^ 64 \<Longrightarrow> unat (word_of_nat n :: u64) = n"
  by (simp add: unsigned_of_nat take_bit_nat_eq_self)

lemma single_byte_less: "(b :: byte) \<le> 0x7F \<longleftrightarrow> b < 0x80"
  by (simp add: word_le_nat_alt word_less_nat_alt) linarith


lemma readKind_fits:
  assumes "length bs < 2 ^ 64" "t + n \<le> length bs"
  shows "\<not> (word_of_nat n :: u64) > word_of_nat (length bs) - word_of_nat t"
proof -
  have eq: "(word_of_nat (length bs) - word_of_nat t :: u64) = word_of_nat (length bs - t)"
    using assms by (simp add: of_nat_diff)
  show ?thesis
    unfolding eq using assms by (simp add: word_less_nat_alt unat_u64_of_nat not_less del: of_nat_diff)
qed

definition single :: "byte list \<Rightarrow> bool" where
  "single c \<longleftrightarrow> length c = 1 \<and> hd c \<le> 0x7F"

lemma readKind_single:
  assumes "single c" "length (c @ r) < 2 ^ 64" shows "readKind (c @ r) = Inr (Byte, 0, 1)"
proof -
  obtain b where c: "c = [b]" "b < 0x80"
    using assms(1) by (auto simp: single_def length_Suc_conv single_byte_less)
  then show ?thesis
    using readKind_fits[of "b # r" 0 1] assms(2) by (simp add: readKind_def)
qed

lemma readKind_short_string:
  assumes "\<not> single c" "length c < 56" "length (puthead 0x80 0xB7 (word_of_nat (length c)) @ c @ r) < 2 ^ 64"
  shows "readKind (puthead 0x80 0xB7 (word_of_nat (length c)) @ c @ r) = Inr (String, 1, word_of_nat (length c))"
proof -
  let ?t = "0x80 + word_of_nat (length c) :: byte"
  have head: "puthead 0x80 0xB7 (word_of_nat (length c)) = [?t]"
    using assms(2) by (simp add: puthead_def word_of_nat_less_56 ucast_of_nat_u64)
  have t: "unat ?t = 0x80 + length c" using assms(2) by (simp add: unat_tag)
  have "\<not> ?t < 0x80" "?t < 0xB8" using assms(2) t by (simp_all add: word_less_nat_alt)
  moreover have "(ucast (?t - 0x80) :: u64) = word_of_nat (length c)"
    using assms(2) by (simp add: ucast_byte_nat)
  moreover have "\<not> ((word_of_nat (length c) :: u64) = 1 \<and> hd (c @ r) < 128)"
  proof
    assume *: "(word_of_nat (length c) :: u64) = 1 \<and> hd (c @ r) < 128"
    then have "length c = 1"
      using assms(2) unat_u64_of_nat[of "length c"] by simp
    with * assms(1) show False by (auto simp: single_def length_Suc_conv single_byte_less)
  qed
  ultimately show ?thesis
    using readKind_fits[of "?t # c @ r" 1 "length c"] assms(3) unfolding head
    by (auto simp: readKind_def Let_def)
qed


lemma puthead_long:
  assumes "56 \<le> n" "n < 2 ^ 64"
  shows "puthead st lt (word_of_nat n) = (lt + word_of_nat (intsize (word_of_nat n))) # putint (word_of_nat n)"
    "(56 :: u64) \<le> word_of_nat n" "headsize (word_of_nat n) = intsize (word_of_nat n) + 1"
  using assms by (simp_all add: puthead_def headsize_def word_of_nat_less_56 not_less[symmetric])

lemma readKind_long:
  assumes "56 \<le> length c" "length (puthead st lt (word_of_nat (length c)) @ c @ r) < 2 ^ 64"
    and tag: "lt = 0xB7 \<and> k = String \<or> lt = 0xF7 \<and> k = List"
  shows "readKind (puthead st lt (word_of_nat (length c)) @ c @ r)
    = Inr (k, word_of_nat (headsize (word_of_nat (length c))), word_of_nat (length c))"
proof -
  let ?n = "word_of_nat (length c) :: u64"
  let ?i = "intsize ?n"
  have len: "length c < 2 ^ 64" using assms(2) by simp
  note h = puthead_long[OF assms(1) len]
  have i: "1 \<le> ?i" "?i \<le> 8" by (rule intsize_bounds)+
  have fits: "\<not> ?n > word_of_nat (length ((lt + word_of_nat ?i) # putint ?n @ c @ r)) - word_of_nat (?i + 1)"
    using assms(2) h by (intro readKind_fits) simp_all
  have i8: "(ucast (word_of_nat ?i :: byte) :: u64) + 1 = word_of_nat (?i + 1)"
    using i by (simp add: ucast_byte_nat)
  have rs: "readSize (putint ?n @ c @ r) (word_of_nat ?i) = Inr ?n"
    by (rule readSize_putint) (rule h)
  from tag show ?thesis
  proof
    assume k: "lt = 0xB7 \<and> k = String"
    have "unat (0xB7 + word_of_nat ?i :: byte) = 0xB7 + ?i" using i by (simp add: unat_tag)
    then have "\<not> (0xB7 + word_of_nat ?i :: byte) < 0x80" "\<not> (0xB7 + word_of_nat ?i :: byte) < 0xB8"
      "(0xB7 + word_of_nat ?i :: byte) < 0xC0"
      using i by (simp_all add: word_less_nat_alt)
    then show ?thesis
      using k fits rs i8 h by (simp add: readKind_def)
  next
    assume k: "lt = 0xF7 \<and> k = List"
    have "unat (0xF7 + word_of_nat ?i :: byte) = 0xF7 + ?i" using i by (simp add: unat_tag)
    then have "\<not> (0xF7 + word_of_nat ?i :: byte) < 0x80" "\<not> (0xF7 + word_of_nat ?i :: byte) < 0xB8"
      "\<not> (0xF7 + word_of_nat ?i :: byte) < 0xC0" "\<not> (0xF7 + word_of_nat ?i :: byte) < 0xF8"
      using i by (simp_all add: word_less_nat_alt)
    then show ?thesis
      using k fits rs i8 h by (simp add: readKind_def)
  qed
qed

lemma readKind_short_list:
  assumes "length c < 56" "length (puthead 0xC0 0xF7 (word_of_nat (length c)) @ c @ r) < 2 ^ 64"
  shows "readKind (puthead 0xC0 0xF7 (word_of_nat (length c)) @ c @ r) = Inr (List, 1, word_of_nat (length c))"
proof -
  let ?t = "0xC0 + word_of_nat (length c) :: byte"
  have head: "puthead 0xC0 0xF7 (word_of_nat (length c)) = [?t]"
    using assms(1) by (simp add: puthead_def word_of_nat_less_56 ucast_of_nat_u64)
  have t: "unat ?t = 0xC0 + length c" using assms(1) by (simp add: unat_tag)
  have "\<not> ?t < 0x80" "\<not> ?t < 0xB8" "\<not> ?t < 0xC0" "?t < 0xF8"
    using assms(1) t by (simp_all add: word_less_nat_alt)
  moreover have "(ucast (?t - 0xC0) :: u64) = word_of_nat (length c)"
    using assms(1) by (simp add: ucast_byte_nat)
  ultimately show ?thesis
    using readKind_fits[of "?t # c @ r" 1 "length c"] assms(2) unfolding head
    by (auto simp: readKind_def Let_def)
qed

text \<open>The encoding of a value of the given kind.\<close>

definition enc_kind :: "Kind \<Rightarrow> byte list \<Rightarrow> byte list" where
  "enc_kind k c = (case k of List \<Rightarrow> enc_list c | _ \<Rightarrow> enc_str c)"

definition kind_ok :: "Kind \<Rightarrow> byte list \<Rightarrow> bool" where
  "kind_ok k c = (case k of Byte \<Rightarrow> single c | String \<Rightarrow> \<not> single c | List \<Rightarrow> True)"

lemma readKind_enc:
  assumes "kind_ok k c" "length (enc_kind k c @ r) < 2 ^ 64"
  shows "readKind (enc_kind k c @ r)
    = Inr (k, word_of_nat (length (enc_kind k c) - length c), word_of_nat (length c))"
proof (cases k)
  case Byte
  with assms readKind_single[of c r] show ?thesis
    by (auto simp: enc_kind_def kind_ok_def enc_str_def single_def)
next
  case String
  then have c: "\<not> single c" "enc_kind k c = puthead 0x80 0xB7 (word_of_nat (length c)) @ c"
    using assms by (auto simp: enc_kind_def kind_ok_def enc_str_def single_def)
  show ?thesis
  proof (cases "length c < 56")
    case True
    with c assms(2) readKind_short_string[of c r] String show ?thesis
      by (simp add: headsize_def word_of_nat_less_56)
  next
    case False
    with c assms(2) readKind_long[of c "0x80" "0xB7" r String] String show ?thesis by simp
  qed
next
  case List
  then have c: "enc_kind k c = puthead 0xC0 0xF7 (word_of_nat (length c)) @ c"
    by (simp add: enc_kind_def enc_list_def)
  show ?thesis
  proof (cases "length c < 56")
    case True
    with c assms(2) readKind_short_list[of c r] List show ?thesis
      by (simp add: headsize_def word_of_nat_less_56)
  next
    case False
    with c assms(2) readKind_long[of c "0xC0" "0xF7" r List] List show ?thesis by simp
  qed
qed

lemma enc_kind_length: "length c \<le> length (enc_kind k c)"
  by (auto simp: enc_kind_def enc_list_def enc_str_def split: Kind.split)

lemma enc_kind_suffix: "drop (length (enc_kind k c) - length c) (enc_kind k c) = c"
  by (auto simp: enc_kind_def enc_list_def enc_str_def split: Kind.split)

lemma Split_enc:
  assumes "kind_ok k c" "length (enc_kind k c @ r) < 2 ^ 64"
  shows "Split (enc_kind k c @ r) = Inr (k, c, r)"
proof -
  let ?e = "enc_kind k c"
  have "word_of_nat (length ?e - length c) + word_of_nat (length c) = (word_of_nat (length ?e) :: u64)"
    using enc_kind_length[of c k] by (simp flip: of_nat_add)
  moreover have "unat (word_of_nat (length ?e) :: u64) = length ?e"
    "unat (word_of_nat (length ?e - length c) :: u64) = length ?e - length c"
    using assms(2) by (simp_all add: unat_u64_of_nat del: of_nat_diff)
  ultimately show ?thesis
    using readKind_enc[OF assms] enc_kind_suffix[of k c] by (simp add: Split_def)
qed

lemma fits_nat:
  assumes "length b < 2 ^ 64" "unat ts \<le> length b" "\<not> (cs :: u64) > word_of_nat (length b) - ts"
  shows "unat ts + unat cs \<le> length b"
proof -
  have eq: "(word_of_nat (length b) - ts :: u64) = word_of_nat (length b - unat ts)"
    using assms(2) by (simp add: of_nat_diff)
  have "unat cs \<le> length b - unat ts"
    using assms(3) assms(1) unfolding eq by (simp add: word_less_nat_alt unat_u64_of_nat not_less del: of_nat_diff)
  with assms(2) show ?thesis by simp
qed

lemma enc_parts:
  assumes "take t b = puthead st lt (word_of_nat n)" "t + n \<le> length b" "t \<le> length b"
  shows "b = puthead st lt (word_of_nat (length (take n (drop t b)))) @ take n (drop t b) @ drop (t + n) b"
proof -
  have "length (take n (drop t b)) = n" using assms by simp
  moreover have "b = take t b @ take n (drop t b) @ drop (t + n) b"
    by (metis append_take_drop_id drop_drop add.commute)
  ultimately show ?thesis using assms(1) by simp
qed

lemma readKind_cases:
  assumes "readKind b = Inr (k, ts, cs)"
  obtains
    (single) x bs where "b = x # bs" "x < 0x80" "k = Byte" "ts = 0" "cs = 1"
  | (string) x bs where "b = x # bs" "\<not> x < 0x80" "x < 0xB8" "k = String" "ts = 1" "cs = ucast (x - 0x80)"
      "\<not> (cs = 1 \<and> bs \<noteq> [] \<and> hd bs < 128)"
  | (long_string) x bs where "b = x # bs" "\<not> x < 0xB8" "x < 0xC0" "k = String" "ts = ucast (x - 0xB7) + 1"
      "readSize bs (x - 0xB7) = Inr cs"
  | (list) x bs where "b = x # bs" "\<not> x < 0xC0" "x < 0xF8" "k = List" "ts = 1" "cs = ucast (x - 0xC0)"
  | (long_list) x bs where "b = x # bs" "\<not> x < 0xF8" "k = List" "ts = ucast (x - 0xF7) + 1"
      "readSize bs (x - 0xF7) = Inr cs"
  using assms unfolding readKind_def
  by (cases b) (auto simp: and_then_def Let_def split: if_splits sum.splits)

lemma readKind_bound: "readKind b = Inr (k, ts, cs) \<Longrightarrow> \<not> cs > word_of_nat (length b) - ts"
  unfolding readKind_def
  by (auto simp: and_then_def Let_def split: if_splits sum.splits list.splits)

lemma tag_sub:
  assumes "\<not> (x :: byte) < word_of_nat lo" "lo < 256"
  shows "unat (x - word_of_nat lo) = unat x - lo"
proof -
  have "lo \<le> unat x" using assms by (simp add: word_less_nat_alt unsigned_of_nat take_bit_nat_eq_self not_less)
  then show ?thesis using assms by (subst unat_sub) (simp_all add: word_le_nat_alt unsigned_of_nat take_bit_nat_eq_self)
qed


lemma long_head:
  assumes "readSize bs k = Inr cs" "1 \<le> unat k" "unat k \<le> 8"
  shows "unat (ucast k + 1 :: u64) = unat k + 1" "take (unat k + 1) (x # bs) = x # putint cs"
    "unat k \<le> length bs" "puthead st lt cs = (lt + k) # putint cs" "56 \<le> unat cs"
proof -
  note c = readSize_canonical[OF assms]
  show "unat (ucast k + 1 :: u64) = unat k + 1"
    using assms(3) by (simp add: unat_word_ariths unsigned_ucast_eq take_bit_nat_eq_self)
  show "take (unat k + 1) (x # bs) = x # putint cs" using c by simp
  show "unat k \<le> length bs" using assms(1) by (auto simp: readSize_def split: if_splits)
  have "word_of_nat (intsize cs) = k" using c(3) by (metis of_nat_unat ucast_id)
  with c show "puthead st lt cs = (lt + k) # putint cs" by (simp add: puthead_def not_less[symmetric])
  show "56 \<le> unat cs" using c(2) by (simp add: word_le_nat_alt)
qed

lemma short_head:
  assumes "unat d < 56"
  shows "puthead st lt (ucast (d :: byte)) = [st + d]" "unat (ucast d :: u64) = unat d"
proof -
  show u: "unat (ucast d :: u64) = unat d"
    using assms by (simp add: unsigned_ucast_eq take_bit_nat_eq_self)
  have "(ucast (ucast d :: u64) :: byte) = d" by (simp only: ucast_u64_nat u of_nat_unat ucast_id)
  then show "puthead st lt (ucast d) = [st + d]"
    using assms u by (simp add: puthead_def word_less_nat_alt)
qed

lemma enc_kind_String: "\<not> single c \<Longrightarrow> enc_kind String c = puthead 0x80 0xB7 (word_of_nat (length c)) @ c"
  by (auto simp: enc_kind_def enc_str_def single_def)

lemma canonical_string:
  assumes "take (unat ts) b = puthead 0x80 0xB7 (cs :: u64)" "unat ts + unat cs \<le> length b"
    "\<not> single (take (unat cs) (drop (unat ts) b))"
  shows "b = enc_kind String (take (unat cs) (drop (unat ts) b)) @ drop (unat ts + unat cs) b"
    "kind_ok String (take (unat cs) (drop (unat ts) b))"
proof -
  show "b = enc_kind String (take (unat cs) (drop (unat ts) b)) @ drop (unat ts + unat cs) b"
    unfolding enc_kind_String[OF assms(3)] append_assoc using assms by (intro enc_parts) simp_all
qed (simp add: kind_ok_def assms)

lemma canonical_list:
  assumes "take (unat ts) b = puthead 0xC0 0xF7 (cs :: u64)" "unat ts + unat cs \<le> length b"
  shows "b = enc_kind List (take (unat cs) (drop (unat ts) b)) @ drop (unat ts + unat cs) b"
    "kind_ok List (take (unat cs) (drop (unat ts) b))"
  using enc_parts[of "unat ts" b "0xC0" "0xF7" "unat cs"] assms
  by (simp_all add: enc_kind_def enc_list_def kind_ok_def)

lemma readKind_canonical:
  assumes "readKind b = Inr (k, ts, cs)" "length b < 2 ^ 64"
  shows "b = enc_kind k (take (unat cs) (drop (unat ts) b)) @ drop (unat ts + unat cs) b \<and>
    kind_ok k (take (unat cs) (drop (unat ts) b)) \<and> unat ts + unat cs \<le> length b \<and> 1 \<le> unat ts + unat cs"
proof -
  have fits: "unat ts + unat cs \<le> length b" if "unat ts \<le> length b"
    by (rule fits_nat[OF assms(2) that readKind_bound[OF assms(1)]])
  show ?thesis
    using assms(1)
  proof (cases rule: readKind_cases)
    case (single x bs)
    then show ?thesis
      by (simp add: enc_kind_def enc_str_def kind_ok_def single_def single_byte_less)
  next
    case (string x bs)
    have d: "unat (x - 0x80) = unat x - 128" using tag_sub[of x 128] string by simp
    then have small: "unat (x - 0x80) < 56" using string by (simp add: word_less_nat_alt)
    note h = short_head[OF small]
    have f: "unat ts + unat cs \<le> length b" using string by (intro fits) simp
    have "\<not> single (take (unat cs) bs)"
    proof
      assume s: "single (take (unat cs) bs)"
      then have "unat cs = 1" "bs \<noteq> []" using f string by (auto simp: single_def)
      moreover from this have "cs = 1" by (simp add: word_unat_eq_iff)
      ultimately show False using s string by (cases bs) (auto simp: single_def single_byte_less)
    qed
    then have ns: "\<not> single (take (unat cs) (drop (unat ts) b))" using string by simp
    have hd: "take (unat ts) b = puthead 0x80 0xB7 cs" using string h by simp
    show ?thesis
      unfolding string(4) using string(5) by (intro conjI canonical_string[OF hd f ns] f) simp
  next
    case (long_string x bs)
    have "unat (x - 0xB7) = unat x - 183"
      using tag_sub[of x 183] long_string by (simp add: word_less_nat_alt)
    then have k: "1 \<le> unat (x - 0xB7)" "unat (x - 0xB7) \<le> 8"
      using long_string by (auto simp: word_less_nat_alt)
    note h = long_head[OF long_string(6) k]
    have f: "unat ts + unat cs \<le> length b" using long_string h by (intro fits) simp
    have ns: "\<not> single (take (unat cs) (drop (unat ts) b))" using f h(5) by (auto simp: single_def)
    have hd: "take (unat ts) b = puthead 0x80 0xB7 cs" using long_string h by simp
    show ?thesis
      unfolding long_string(4) using h(5) by (intro conjI canonical_string[OF hd f ns] f) simp
  next
    case (list x bs)
    have d: "unat (x - 0xC0) = unat x - 192" using tag_sub[of x 192] list by simp
    then have small: "unat (x - 0xC0) < 56" using list by (simp add: word_less_nat_alt)
    note h = short_head[OF small]
    have f: "unat ts + unat cs \<le> length b" using list by (intro fits) simp
    have hd: "take (unat ts) b = puthead 0xC0 0xF7 cs" using list h by simp
    show ?thesis
      unfolding list(4) using list(5) by (intro conjI canonical_list[OF hd f] f) simp
  next
    case (long_list x bs)
    have "unat (x - 0xF7) = unat x - 247"
      using tag_sub[of x 247] long_list by (simp add: word_less_nat_alt)
    then have k: "1 \<le> unat (x - 0xF7)" "unat (x - 0xF7) \<le> 8"
      using long_list unsigned_less[of x, where 'a=nat] by (auto simp: word_less_nat_alt)
    note h = long_head[OF long_list(5) k]
    have f: "unat ts + unat cs \<le> length b" using long_list h by (intro fits) simp
    have hd: "take (unat ts) b = puthead 0xC0 0xF7 cs" using long_list h by simp
    show ?thesis
      unfolding long_list(3) using h(5) by (intro conjI canonical_list[OF hd f] f) simp
  qed
qed

lemma Split_canonical:
  assumes "Split b = Inr (k, c, r)" "length b < 2 ^ 64"
  shows "b = enc_kind k c @ r \<and> kind_ok k c"
proof -
  obtain ts cs where rk: "readKind b = Inr (k, ts, cs)"
    and c: "c = drop (unat ts) (take (unat (ts + cs)) b)" "r = drop (unat (ts + cs)) b"
    using assms(1) by (auto simp: Split_def result_simps)
  note can = readKind_canonical[OF rk assms(2)]
  then have "unat (ts + cs) = unat ts + unat cs"
    using assms(2) by (subst unat_add_lem[symmetric]) simp
  with c have "c = take (unat cs) (drop (unat ts) b)" "r = drop (unat ts + unat cs) b"
    by (simp_all add: drop_take)
  with can show ?thesis by simp
qed

section \<open>Properties\<close>


fun is_item :: "rlp_value \<Rightarrow> bool" where
  "is_item (RRaw b) = False"
| "is_item (RTail vs) = False"
| "is_item _ = True"

lemma enc_str_kind: "enc_str c = enc_kind (if single c then Byte else String) c"
  "kind_ok (if single c then Byte else String) c"
  by (simp_all add: enc_kind_def kind_ok_def)

lemma item_kind: "is_item v \<Longrightarrow> \<exists>k c. rlp_enc v = enc_kind k c \<and> kind_ok k c"
proof -
  have s: "\<exists>k c. enc_str b = enc_kind k c \<and> kind_ok k c" for b
    using enc_str_kind by blast
  have l: "\<exists>k c. enc_list b = enc_kind k c \<and> kind_ok k c" for b
    by (rule exI[of _ List]) (auto simp: enc_kind_def kind_ok_def)
  assume "is_item v" then show ?thesis
    by (cases v) (simp_all only: rlp_enc.simps is_item.simps s l)
qed

lemma enc_kind_nonempty: "kind_ok k c \<Longrightarrow> enc_kind k c \<noteq> []"
  by (auto simp: enc_kind_def kind_ok_def enc_list_def enc_str_def puthead_def single_def split: Kind.splits)

lemma CountValues_loop_items:
  "list_all is_item vs \<Longrightarrow> length (concat (map rlp_enc vs)) < 2 ^ 64 \<Longrightarrow>
   length (concat (map rlp_enc vs)) \<le> fuel \<Longrightarrow>
   CountValues_loop fuel (concat (map rlp_enc vs)) i = Some (Inr (i + length vs))"
proof (induction vs arbitrary: fuel i)
  case Nil
  then show ?case by (cases fuel) simp_all
next
  case (Cons v vs)
  obtain k c where v: "rlp_enc v = enc_kind k c" "kind_ok k c"
    using Cons.prems(1) item_kind[of v] by auto
  let ?r = "concat (map rlp_enc vs)"
  have ne: "enc_kind k c \<noteq> []" using v by (simp add: enc_kind_nonempty)
  have len: "length (enc_kind k c @ ?r) < 2 ^ 64" using Cons.prems(2) v by simp
  have rk: "readKind (enc_kind k c @ ?r)
    = Inr (k, word_of_nat (length (enc_kind k c) - length c), word_of_nat (length c))"
    by (rule readKind_enc[OF v(2) len])
  have "word_of_nat (length (enc_kind k c) - length c) + word_of_nat (length c)
      = (word_of_nat (length (enc_kind k c)) :: u64)"
    using enc_kind_length[of c k] by (simp flip: of_nat_add)
  then have n: "unat (word_of_nat (length (enc_kind k c) - length c) + word_of_nat (length c) :: u64)
      = length (enc_kind k c)"
    using len by (simp add: unat_u64_of_nat)
  obtain f where f: "fuel = Suc f" "length ?r \<le> f"
    using Cons.prems(3) v ne by (cases fuel; cases "enc_kind k c") auto
  have "CountValues_loop f ?r (i + 1) = Some (Inr (i + 1 + length vs))"
    using Cons.prems f len by (intro Cons.IH) auto
  with ne rk n f v show ?case by simp
qed



text \<open>
  C5: \<^verbatim>\<open>Split\<close> returns kind, content and rest of a slice exactly when the slice is the canonical
  encoding of that content followed by that rest. So decoding inverts encoding, and no value has a
  second accepted encoding (non-minimal sizes and single bytes with a header are refused).\<close>

theorem Split_iff_canonical:
  assumes "length b < 2 ^ 64"
  shows "Split b = Inr (k, c, r) \<longleftrightarrow> b = enc_kind k c @ r \<and> kind_ok k c"
  using Split_canonical[OF _ assms] Split_enc[of k c r] assms by blast

theorem Split_iff_canonical_witness:
  "Split [0x83, 1, 2, 3, 9] = Inr (String, [1, 2, 3], [9])"
  using Split_iff_canonical[of "[0x83, 1, 2, 3, 9]" String "[1, 2, 3]" "[9]"]
  by (simp add: enc_kind_def enc_str_def puthead_def kind_ok_def single_def)

text \<open>
  C25: \<^verbatim>\<open>CountValues\<close> terminates on the concatenation of encoded values and returns their number.\<close>

theorem CountValues_encoded:
  assumes "list_all is_item vs" "length (concat (map rlp_enc vs)) < 2 ^ 64"
  shows "CountValues (concat (map rlp_enc vs)) = Some (Inr (length vs))"
  using CountValues_loop_items[OF assms, of _ 0] by (simp add: CountValues_def)

theorem CountValues_encoded_witness:
  "CountValues [0x82, 4, 0, 0xC1, 0x7F] = Some (Inr 2)"
proof -
  have "concat (map rlp_enc [RUint 1024, RList [RUint 127]]) = [0x82, 4, 0, 0xC1, 0x7F]"
    by (simp add: enc_list_def enc_str_def puthead_def be_bytes_nat.simps big_Bytes_def)
  then show ?thesis
    using CountValues_encoded[of "[RUint 1024, RList [RUint 127]]"] by simp
qed

end
