(* ===== verification/Block_Types.thy ===== *)
theory Block_Types
  imports Chain_Params RLP
begin

text \<open>
  Headers, blocks and transactions (\<^verbatim>\<open>core/types\<close>): their RLP hashes, header copying, and the
  transaction signers. The elliptic curve library and the hash function are a parameter
  (\<open>crypto_lib\<close>); \<open>crypto_ok\<close> states what the code relies on.
\<close>

section \<open>The cryptographic primitives\<close>

type_synonym PrivateKey = "256 word"

record crypto_lib =
  Keccak256 :: "byte list \<Rightarrow> hash"
  Ecrecover :: "hash \<Rightarrow> byte list \<Rightarrow> byte list option"
  crypto_Sign :: "hash \<Rightarrow> PrivateKey \<Rightarrow> byte list option"
  FromECDSAPub :: "PrivateKey \<Rightarrow> byte list" \<comment> \<open>uncompressed public key of a private key\<close>

text \<open>\<^verbatim>\<open>copy(addr[:], crypto.Keccak256(pub[1:])[12:])\<close>: the low 20 bytes of the hash.\<close>

definition pubkey_address :: "crypto_lib \<Rightarrow> byte list \<Rightarrow> address" where
  "pubkey_address K pub = ucast (Keccak256 K (tl pub))"

definition PubkeyToAddress :: "crypto_lib \<Rightarrow> PrivateKey \<Rightarrow> address" where
  "PubkeyToAddress K key = pubkey_address K (FromECDSAPub K key)"

definition secp256k1_N :: int where
  "secp256k1_N = 0xfffffffffffffffffffffffffffffffebaaedce6af48a03bbfd25e8cd0364141"

definition secp256k1_halfN :: int where
  "secp256k1_halfN = secp256k1_N div 2"

definition ValidateSignatureValues :: "byte \<Rightarrow> int \<Rightarrow> int \<Rightarrow> bool \<Rightarrow> bool" where
  "ValidateSignatureValues v r s homestead =
    (if r < 1 \<or> s < 1 then False
     else if homestead \<and> s > secp256k1_halfN then False
     else r < secp256k1_N \<and> s < secp256k1_N \<and> (v = 0 \<or> v = 1))"

text \<open>
  What signing with the library gives: 65 bytes \<open>R || S || V\<close> with \<open>S\<close> in the lower half, from which
  the public key of the signer is recovered.
\<close>

definition crypto_ok :: "crypto_lib \<Rightarrow> bool" where
  "crypto_ok K \<longleftrightarrow> (\<forall>h key sig. crypto_Sign K h key = Some sig \<longrightarrow>
     length sig = 65 \<and> ValidateSignatureValues (sig ! 64) (be_int (take 32 sig)) (be_int (take 32 (drop 32 sig))) True \<and>
     Ecrecover K h sig = Some (FromECDSAPub K key) \<and>
     FromECDSAPub K key \<noteq> [] \<and> hd (FromECDSAPub K key) = 4)"

section \<open>Headers and blocks\<close>

text \<open>Big-endian bytes of a fixed-size array.\<close>

definition array_bytes :: "nat \<Rightarrow> 'a::len word \<Rightarrow> byte list" where
  "array_bytes n w = map (\<lambda>i. ucast (drop_bit (8 * i) w)) (rev [0..<n])"

record Header =
  ParentHash :: hash
  UncleHash :: hash
  Coinbase :: address
  Root :: hash
  TxHash :: hash
  ReceiptHash :: hash
  Bloom :: "2048 word"
  Difficulty :: "int option"
  Number :: "int option"
  GasLimit :: "int option"
  GasUsed :: "int option"
  Time :: "int option"
  Extra :: "byte list"
  MixDigest :: hash
  Nonce :: u64

definition header_rlp :: "Header \<Rightarrow> byte list \<Rightarrow> rlp_value" where
  "header_rlp h extra = RList
    [RBytes (array_bytes 32 (ParentHash h)), RBytes (array_bytes 32 (UncleHash h)),
     RBytes (array_bytes 20 (Coinbase h)), RBytes (array_bytes 32 (Root h)),
     RBytes (array_bytes 32 (TxHash h)), RBytes (array_bytes 32 (ReceiptHash h)),
     RBytes (array_bytes 256 (Bloom h)), RBig (Difficulty h), RBig (Number h), RBig (GasLimit h),
     RBig (GasUsed h), RBig (Time h), RBytes extra, RBytes (array_bytes 32 (MixDigest h)),
     RBytes (array_bytes 8 (Nonce h))]"

text \<open>\<^verbatim>\<open>rlpHash\<close> ignores an encoding error: nothing has then been written to the hash.\<close>

definition rlpHash :: "crypto_lib \<Rightarrow> rlp_value \<Rightarrow> hash" where
  "rlpHash K v = Keccak256 K (case Encode v of Inl e \<Rightarrow> [] | Inr bs \<Rightarrow> bs)"

definition Header_Hash :: "crypto_lib \<Rightarrow> Header \<Rightarrow> hash" where
  "Header_Hash K h = rlpHash K (header_rlp h (Extra h))"

definition CalcUncleHash :: "crypto_lib \<Rightarrow> Header list \<Rightarrow> hash" where
  "CalcUncleHash K uncles = rlpHash K (RList (map (\<lambda>h. header_rlp h (Extra h)) uncles))"

definition CopyHeader :: "Header \<Rightarrow> Header" where
  "CopyHeader h = h\<lparr>Time := Some (deref (Time h)), Difficulty := Some (deref (Difficulty h)),
     Number := Some (deref (Number h)), GasLimit := Some (deref (GasLimit h)),
     GasUsed := Some (deref (GasUsed h))\<rparr>"

record txdata =
  AccountNonce :: u64
  Price :: int
  TxGasLimit :: int
  Recipient :: "address option"
  Amount :: int
  Payload :: "byte list"
  tx_V :: int
  tx_R :: int
  tx_S :: int

type_synonym Transaction = txdata

record Block =
  header :: Header
  uncles :: "Header list"
  transactions :: "Transaction list"

definition Block_Header :: "Block \<Rightarrow> Header" where
  "Block_Header b = CopyHeader (header b)"

definition Block_Hash :: "crypto_lib \<Rightarrow> Block \<Rightarrow> hash" where
  "Block_Hash K b = Header_Hash K (header b)"

definition WithSeal :: "Block \<Rightarrow> Header \<Rightarrow> Block" where
  "WithSeal b h = \<lparr>header = h, uncles = uncles b, transactions = transactions b\<rparr>"

section \<open>Transactions\<close>

definition newTransaction ::
  "u64 \<Rightarrow> address option \<Rightarrow> int \<Rightarrow> int \<Rightarrow> int \<Rightarrow> byte list \<Rightarrow> Transaction" where
  "newTransaction nonce to amount gasLimit gasPrice data =
    \<lparr>AccountNonce = nonce, Price = gasPrice, TxGasLimit = gasLimit, Recipient = to, Amount = amount,
     Payload = data, tx_V = 0, tx_R = 0, tx_S = 0\<rparr>"

definition Cost :: "Transaction \<Rightarrow> int" where
  "Cost tx = Price tx * TxGasLimit tx + Amount tx"

text \<open>\<^verbatim>\<open>V.BitLen() <= n\<close>\<close>

definition bitlen_le :: "int \<Rightarrow> nat \<Rightarrow> bool" where
  "bitlen_le x n \<longleftrightarrow> \<bar>x\<bar> < 2 ^ n"

definition isProtectedV :: "int \<Rightarrow> bool" where
  "isProtectedV V =
    (if bitlen_le V 8 then let v = big_Uint64 V in v \<noteq> 27 \<and> v \<noteq> 28 else True)"

definition deriveChainId :: "int \<Rightarrow> int" where
  "deriveChainId v =
    (if bitlen_le v 64 then
       let w = big_Uint64 v in if w = 27 \<or> w = 28 then 0 else uint ((w - 35) div 2)
     else (v - 35) div 2)"

datatype TxSigner = EIP155Signer int | HomesteadSigner | FrontierSigner

definition NewEIP155Signer :: "int option \<Rightarrow> TxSigner" where
  "NewEIP155Signer chainId = EIP155Signer (deref chainId)"

definition MakeSigner :: "ChainConfig \<Rightarrow> int option \<Rightarrow> TxSigner" where
  "MakeSigner config blockNumber =
    (if IsEIP155 config blockNumber then NewEIP155Signer (ChainId config)
     else if IsHomestead config blockNumber then HomesteadSigner
     else FrontierSigner)"

definition deriveSigner :: "int \<Rightarrow> TxSigner" where
  "deriveSigner V =
    (if V \<noteq> 0 \<and> isProtectedV V then NewEIP155Signer (Some (deriveChainId V)) else HomesteadSigner)"

text \<open>A nil recipient is encoded as the empty string.\<close>

definition recipient_rlp :: "address option \<Rightarrow> rlp_value" where
  "recipient_rlp to = (case to of None \<Rightarrow> RBytes [] | Some a \<Rightarrow> RBytes (array_bytes 20 a))"

definition tx_sign_rlp :: "Transaction \<Rightarrow> rlp_value list" where
  "tx_sign_rlp tx = [RUint (AccountNonce tx), RBig (Some (Price tx)), RBig (Some (TxGasLimit tx)),
     recipient_rlp (Recipient tx), RBig (Some (Amount tx)), RBytes (Payload tx)]"

definition Signer_Hash :: "crypto_lib \<Rightarrow> TxSigner \<Rightarrow> Transaction \<Rightarrow> hash" where
  "Signer_Hash K s tx =
    (case s of
       EIP155Signer chainId \<Rightarrow> rlpHash K (RList (tx_sign_rlp tx @ [RBig (Some chainId), RUint 0, RUint 0]))
     | _ \<Rightarrow> rlpHash K (RList (tx_sign_rlp tx)))"

definition Tx_Hash :: "crypto_lib \<Rightarrow> Transaction \<Rightarrow> hash" where
  "Tx_Hash K tx = rlpHash K (RList (tx_sign_rlp tx @
     [RBig (Some (tx_V tx)), RBig (Some (tx_R tx)), RBig (Some (tx_S tx))]))"

datatype tx_error = ErrInvalidSig | ErrInvalidChainId | ErrRecover | ErrInvalidPublicKey | ErrSign

text \<open>
  \<open>R\<close> and \<open>S\<close> are below the curve order here, so \<^verbatim>\<open>copy(sig[32-len(r):32], r)\<close> pads them to 32 bytes.
\<close>

definition pad32 :: "byte list \<Rightarrow> byte list" where
  "pad32 bs = replicate (32 - length bs) 0 @ bs"

definition recoverPlain ::
  "crypto_lib \<Rightarrow> hash \<Rightarrow> int \<Rightarrow> int \<Rightarrow> int \<Rightarrow> bool \<Rightarrow> (tx_error, address) result" where
  "recoverPlain K sighash R S Vb homestead =
    (if \<not> bitlen_le Vb 8 then Inl (Err ErrInvalidSig)
     else let V = ucast (big_Uint64 Vb - 27) :: byte in
       if \<not> ValidateSignatureValues V R S homestead then Inl (Err ErrInvalidSig)
       else case Ecrecover K sighash (pad32 (big_Bytes R) @ pad32 (big_Bytes S) @ [V]) of
         None \<Rightarrow> Inl (Err ErrRecover)
       | Some pub \<Rightarrow>
           if length pub = 0 \<or> hd pub \<noteq> 4 then Inl (Err ErrInvalidPublicKey)
           else Inr (pubkey_address K pub))"

definition Signer_Sender :: "crypto_lib \<Rightarrow> TxSigner \<Rightarrow> Transaction \<Rightarrow> (tx_error, address) result" where
  "Signer_Sender K s tx =
    (case s of
       EIP155Signer chainId \<Rightarrow>
         if \<not> isProtectedV (tx_V tx) then
           recoverPlain K (Signer_Hash K HomesteadSigner tx) (tx_R tx) (tx_S tx) (tx_V tx) True
         else if deriveChainId (tx_V tx) \<noteq> chainId then Inl (Err ErrInvalidChainId)
         else recoverPlain K (Signer_Hash K s tx) (tx_R tx) (tx_S tx) (tx_V tx - chainId * 2 - 8) True
     | HomesteadSigner \<Rightarrow> recoverPlain K (Signer_Hash K s tx) (tx_R tx) (tx_S tx) (tx_V tx) True
     | FrontierSigner \<Rightarrow> recoverPlain K (Signer_Hash K s tx) (tx_R tx) (tx_S tx) (tx_V tx) False)"

definition GetFromByTx :: "crypto_lib \<Rightarrow> Transaction \<Rightarrow> address option" where
  "GetFromByTx K tx =
    (case Signer_Sender K (deriveSigner (tx_V tx)) tx of Inl e \<Rightarrow> None | Inr a \<Rightarrow> Some a)"

definition SignatureValues :: "TxSigner \<Rightarrow> byte list \<Rightarrow> (tx_error, int \<times> int \<times> int) result" where
  "SignatureValues s sig =
    (if length sig \<noteq> 65 then Inl (Panic ''wrong size for signature'')
     else let R = be_int (take 32 sig); S = be_int (take 32 (drop 32 sig)); V = uint (sig ! 64 + 27) in
       case s of
         EIP155Signer chainId \<Rightarrow>
           Inr (R, S, if chainId \<noteq> 0 then uint (sig ! 64 + 35) + chainId * 2 else V)
       | _ \<Rightarrow> Inr (R, S, V))"

definition WithSignature :: "TxSigner \<Rightarrow> Transaction \<Rightarrow> byte list \<Rightarrow> (tx_error, Transaction) result" where
  "WithSignature s tx sig = and_then (SignatureValues s sig) (\<lambda>(r, ss, v).
     Inr (tx\<lparr>tx_R := r, tx_S := ss, tx_V := v\<rparr>))"

definition SignTx :: "crypto_lib \<Rightarrow> TxSigner \<Rightarrow> Transaction \<Rightarrow> PrivateKey \<Rightarrow> (tx_error, Transaction) result" where
  "SignTx K s tx key =
    (case crypto_Sign K (Signer_Hash K s tx) key of
       None \<Rightarrow> Inl (Err ErrSign)
     | Some sig \<Rightarrow> WithSignature s tx sig)"

end
