(* ===== verification/Tribe_Status.thy ===== *)
theory Tribe_Status
  imports Block_Types
begin

text \<open>
  The tribe proof-of-authority engine (\<^verbatim>\<open>consensus/tribe\<close>): signer status, the seal, the difficulty
  and delay schedule, header and block verification, block preparation and sealing. The engine state
  is threaded explicitly; the package variable \<^verbatim>\<open>params.chiefInfoList\<close> is part of it. Services behind
  message channels (the chief contract, the account map), the clock and the verifiable random
  function are fields of the parameter \<open>tribe_ext\<close>.
\<close>

section \<open>Types and constants (types.go)\<close>

definition CHIEF_NUMBER :: int where "CHIEF_NUMBER = 3"
definition blockPeriod :: u64 where "blockPeriod = 15"
definition extraSeal :: nat where "extraSeal = 65"
definition nonceSync :: u64 where "nonceSync = 0xffffffffffffffff"
definition nonceAsync :: u64 where "nonceAsync = 0"
definition diffInTurnMain :: int where "diffInTurnMain = 3"
definition diffInTurn :: int where "diffInTurn = 2"
definition diffNoTurn :: int where "diffNoTurn = 1"
definition diff :: int where "diff = 6"

datatype SignerLevel = LevelNone | LevelVolunteer | LevelSigner | LevelSinner

datatype tribe_error =
    errUnknownBlock | errInvalidNonce | errMissingVanity | errMissingSignature | errInvalidMixDigest
  | errInvalidUncleHash | errInvalidDifficulty | ErrInvalidTimestamp | ErrInvalidTimestampSIP002
  | errUnauthorized | ErrTribeNotAllowEmptyTxList | ErrTribeMustContainChiefTx
  | ErrTribeChiefTxMustAtPositionZero | ErrTribeChiefTxSignerAndBlockSignerNotMatch
  | ErrFutureBlock | ErrUnknownAncestor | ErrInvalidNumber | errForkHash | errNilParent
  | errGasLimitMax | errGasUsed | errGasLimitBounds | errUncles | errVerifyVolunteer
  | errNeverMining | errRecover | errVrf | errChiefStatus | errSign

record Signer =
  Address :: address
  Score :: int

record TribeStatus =
  Signers :: "Signer list"
  Leaders :: "address list"
  StatusLevel :: SignerLevel
  StatusNumber :: int
  StatusEpoch :: "int option"
  LeaderLimit :: "int option"
  SignerLimit :: "int option"
  blackList :: "address list"
  nodeKey :: "PrivateKey option"

record TribeEngine =
  config_Period :: u64
  sigcache :: "(hash \<rightharpoonup> address) option"
  Status :: TribeStatus
  isInit :: bool
  chiefInfoList :: chief_cache

record ChiefStatus =
  LeaderList :: "address list"
  SignerList :: "address list"
  BlackList :: "address list"
  ScoreList :: "int list"
  ChiefNumber :: int
  ChiefEpoch :: "int option"
  ChiefLeaderLimit :: "int option"
  ChiefSignerLimit :: "int option"

text \<open>
  \<^item> \<open>GetStatus\<close>, \<open>FilterVolunteer\<close>, \<open>VerifyMinerService\<close>, \<open>NextRoundSigner\<close>: the chief contract service;
  \<^item> \<open>BindInfo\<close>: the owner a miner address is bound to, if the service answers;
  \<^item> \<open>arc_Add\<close>: \<^verbatim>\<open>lru.ARCCache.Add\<close>, which may forget other entries.
\<close>

record tribe_ext =
  getenv :: environment
  unix_now :: int
  crypto :: crypto_lib
  SimpleVRFVerify :: "byte list \<Rightarrow> byte list \<Rightarrow> byte list \<Rightarrow> bool"
  SimpleVRF2Bytes :: "PrivateKey \<Rightarrow> byte list \<Rightarrow> byte list option"
  GetStatus :: "hash \<Rightarrow> int \<Rightarrow> ChiefStatus option"
  FilterVolunteer :: "hash \<Rightarrow> int \<Rightarrow> address \<Rightarrow> int option"
  VerifyMinerService :: "hash \<Rightarrow> address \<Rightarrow> byte list \<Rightarrow> bool"
  NextRoundSigner :: "hash \<Rightarrow> int \<Rightarrow> int option \<Rightarrow> address"
  BindInfo :: "address \<Rightarrow> hash \<Rightarrow> address option"
  arc_Add :: "(hash \<rightharpoonup> address) \<Rightarrow> hash \<Rightarrow> address \<Rightarrow> (hash \<rightharpoonup> address)"

type_synonym 'a tribe_m = "(TribeEngine, tribe_error, 'a) go"

definition extraVanityFn :: "tribe_ext \<Rightarrow> int \<Rightarrow> nat" where
  "extraVanityFn E num = (if IsSIP100Block (getenv E) num then 161 else 32)"

text \<open>Reading through the chief list cache.\<close>

definition with_chiefs :: "(chief_cache \<Rightarrow> 'a \<times> chief_cache) \<Rightarrow> 'a tribe_m" where
  "with_chiefs f t = (case f (chiefInfoList t) of (v, c) \<Rightarrow> (Inr v, t\<lparr>chiefInfoList := c\<rparr>))"

definition modify_Status :: "(TribeStatus \<Rightarrow> TribeStatus) \<Rightarrow> unit tribe_m" where
  "modify_Status f = modifyM (\<lambda>t. t\<lparr>Status := f (Status t)\<rparr>)"

section \<open>The signer status (status.go)\<close>

definition NewTribeStatus :: TribeStatus where
  "NewTribeStatus = \<lparr>Signers = [], Leaders = [], StatusLevel = LevelNone, StatusNumber = 0,
     StatusEpoch = None, LeaderLimit = None, SignerLimit = None, blackList = [], nodeKey = None\<rparr>"

definition loadSigners :: "Signer list \<Rightarrow> TribeStatus \<Rightarrow> TribeStatus" where
  "loadSigners sl st = st\<lparr>Signers := sl\<rparr>"

definition GetMinerAddress :: "tribe_ext \<Rightarrow> address tribe_m" where
  "GetMinerAddress E t =
    (case nodeKey (Status t) of
       None \<Rightarrow> (Inl (Panic ''GetMinerAddress but nodekey not ready''), t)
     | Some key \<Rightarrow> (Inr (PubkeyToAddress (crypto E) key), t))"

definition IsLeader :: "TribeStatus \<Rightarrow> address \<Rightarrow> bool" where
  "IsLeader st addr = list_ex (\<lambda>a. a = addr) (Leaders st)"

definition fetchOnSigners :: "TribeStatus \<Rightarrow> address \<Rightarrow> Signer list option \<Rightarrow> (nat \<times> Signer) option" where
  "fetchOnSigners st addr signers =
    (let sl = (case signers of None \<Rightarrow> Signers st | Some l \<Rightarrow> l) in
     map_option (\<lambda>i. (i, sl ! i)) (index_of addr (map Address sl)))"

definition leaderSort :: "address \<Rightarrow> address list \<Rightarrow> address list" where
  "leaderSort first list =
    (case index_of first list of Some i \<Rightarrow> drop (i + 1) list @ take i list | None \<Rightarrow> list)"

definition inTurnForCalcDifficultyChief100 :: "TribeStatus \<Rightarrow> int \<Rightarrow> hash \<Rightarrow> address \<Rightarrow> int" where
  "inTurnForCalcDifficultyChief100 st number parentHash signer =
    (let signers = Signers st; sl = length signers in
     case fetchOnSigners st signer (Some signers) of
       Some (idx, s) \<Rightarrow>
         if sl > 0 \<and> go_rem number (int sl) = int idx then diff
         else if idx = 0 then diff - 1
         else diffNoTurn
     | None \<Rightarrow>
         if sl > 0 then
           case index_of signer (leaderSort (Address (signers ! 0)) (Leaders st)) of
             Some i \<Rightarrow>
               if go_rem number (int sl) = 0 then diff - int (i + 1) else diff - int (i + 2)
           | None \<Rightarrow> diffNoTurn
         else diffNoTurn)"

definition InTurnForVerifyDifficultyChief100 :: "TribeStatus \<Rightarrow> int \<Rightarrow> hash \<Rightarrow> address \<Rightarrow> int" where
  "InTurnForVerifyDifficultyChief100 st number parentHash signer =
    inTurnForCalcDifficultyChief100 st number parentHash signer"

definition InTurnForCalcDiffcultyChief100 :: "tribe_ext \<Rightarrow> address \<Rightarrow> Header \<Rightarrow> int tribe_m" where
  "InTurnForCalcDiffcultyChief100 E signer parent =
    on_big (Number parent) (\<lambda>n.
      readM (\<lambda>t. inTurnForCalcDifficultyChief100 (Status t) (i64 (big_Int64 n + 1))
                   (Header_Hash (crypto E) parent) signer))"

text \<open>The rule before chief 1.0.0, shared by calculation and verification.\<close>

definition inTurn_before_chief100 :: "tribe_ext \<Rightarrow> TribeStatus \<Rightarrow> int \<Rightarrow> address \<Rightarrow> int" where
  "inTurn_before_chief100 E st number signer =
    (let signers = Signers st; sl = length signers in
     case fetchOnSigners st signer (Some signers) of
       Some (idx, s) \<Rightarrow>
         if IsSIP002Block (getenv E) number then
           if sl > 0 \<and> go_rem number (int sl) = int idx then diffInTurnMain
           else if sl > 0 \<and> go_rem (i64 (number + 1)) (int sl) = int idx then diffInTurn
           else diffNoTurn
         else if sl > 0 \<and> go_rem number (int sl) = int idx then diffInTurn
         else diffNoTurn
     | None \<Rightarrow> diffNoTurn)"

definition InTurnForCalcDifficulty :: "tribe_ext \<Rightarrow> address \<Rightarrow> Header \<Rightarrow> int tribe_m" where
  "InTurnForCalcDifficulty E signer parent =
    on_big (Number parent) (\<lambda>n.
      readM (\<lambda>t. inTurn_before_chief100 E (Status t) (i64 (big_Int64 n + 1)) signer))"

definition InTurnForVerifyDiffculty :: "tribe_ext \<Rightarrow> int \<Rightarrow> hash \<Rightarrow> address \<Rightarrow> int tribe_m" where
  "InTurnForVerifyDiffculty E number parentHash signer =
    bindM (with_chiefs (\<lambda>c. GetChiefInfo (getenv E) c (Some number))) (\<lambda>ci.
      if (case ci of Some i \<Rightarrow> Version i = ''1.0.0'' | None \<Rightarrow> False)
      then readM (\<lambda>t. InTurnForVerifyDifficultyChief100 (Status t) number parentHash signer)
      else if number > 3 then readM (\<lambda>t. inTurn_before_chief100 E (Status t) number signer)
      else returnM diffInTurn)"

text \<open>
  The level of this node. The code starts it in a goroutine at the end of \<^verbatim>\<open>LoadStatusFromChief\<close>;
  here it runs to completion at that point.
\<close>

definition resetSignersLevel :: "tribe_ext \<Rightarrow> hash \<Rightarrow> int \<Rightarrow> unit tribe_m" where
  "resetSignersLevel E hash number =
    bindM (GetMinerAddress E) (\<lambda>m.
    bindM (readM Status) (\<lambda>st.
      let setLevel = (\<lambda>l. modify_Status (\<lambda>st. st\<lparr>StatusLevel := l\<rparr>)) in
      if list_ex (\<lambda>s. Address s = m) (Signers st) then setLevel LevelSigner
      else if list_ex (\<lambda>s. s = m) (blackList st) then setLevel LevelSinner
      else if list_ex (\<lambda>s. s = m) (Leaders st) then setLevel LevelSigner
      else bindM (with_chiefs (\<lambda>c. GetChiefInfo (getenv E) c (Some number))) (\<lambda>ci.
        case ci of
          None \<Rightarrow> panicM ''invalid memory address or nil pointer dereference''
        | Some i \<Rightarrow>
            if Version i = ''0.0.6'' then
              if hash = 0 then panicM ''hash and number can not nil''
              else (case FilterVolunteer E hash number m of
                 Some fr \<Rightarrow> if big_Int64 fr = 0 then setLevel LevelVolunteer else setLevel LevelNone
               | None \<Rightarrow> setLevel LevelNone)
            else setLevel LevelNone)))"

definition LoadStatusFromChief :: "tribe_ext \<Rightarrow> hash \<Rightarrow> int \<Rightarrow> unit tribe_m" where
  "LoadStatusFromChief E hash number =
    (if hash = 0 then panicM ''hash and number can not nil''
     else case GetStatus E hash number of
       None \<Rightarrow> errM errChiefStatus
     | Some cs \<Rightarrow>
         if length (ScoreList cs) < length (SignerList cs) then panicM ''index out of range''
         else
           let sl = map (\<lambda>(a, sc). \<lparr>Address = a, Score = big_Int64 sc\<rparr>) (zip (SignerList cs) (ScoreList cs)) in
           bindM (modify_Status (\<lambda>st. st\<lparr>LeaderLimit := ChiefLeaderLimit cs, Leaders := LeaderList cs\<rparr>)) (\<lambda>_.
           if length (LeaderList cs) = 0 \<and> IsSIP100Block (getenv E) number then panicM ''LoadSignersFromChief err''
           else
             bindM (modify_Status (\<lambda>st. (loadSigners sl (st\<lparr>StatusNumber := big_Int64 (ChiefNumber cs),
                       blackList := BlackList cs\<rparr>))\<lparr>StatusEpoch := ChiefEpoch cs, SignerLimit := ChiefSignerLimit cs\<rparr>))
               (\<lambda>_. resetSignersLevel E hash number)))"

section \<open>The seal (tribe.go)\<close>

definition sigHash :: "tribe_ext \<Rightarrow> Header \<Rightarrow> (tribe_error, hash) result" where
  "sigHash E h =
    (if length (Extra h) < 65 then Inl (Panic ''slice bounds out of range'')
     else case Encode (header_rlp h (take (length (Extra h) - 65) (Extra h))) of
       Inl e \<Rightarrow> Inl (Panic ''rlp: cannot encode negative *big.Int'')
     | Inr bs \<Rightarrow> Inr (Keccak256 (crypto E) bs))"

definition ecrecoverPubkey :: "tribe_ext \<Rightarrow> Header \<Rightarrow> byte list \<Rightarrow> (tribe_error, byte list) result" where
  "ecrecoverPubkey E h signature =
    and_then (sigHash E h) (\<lambda>sh.
      case Ecrecover (crypto E) sh signature of None \<Rightarrow> Inl (Err errRecover) | Some pk \<Rightarrow> Inr pk)"

definition seal_of :: "Header \<Rightarrow> byte list" where
  "seal_of h = drop (length (Extra h) - extraSeal) (Extra h)"

definition genesisSigner :: "tribe_ext \<Rightarrow> Header \<Rightarrow> address tribe_m" where
  "genesisSigner E h =
    on_big (Number h) (\<lambda>n.
      if length (Extra h) < extraVanityFn E n then panicM ''slice bounds out of range''
      else let signer = copy_address (drop (extraVanityFn E n) (Extra h)) in
        bindM (modify_Status (loadSigners [\<lparr>Address = signer, Score = 3\<rparr>])) (\<lambda>_. returnM signer))"

definition ecrecover :: "tribe_ext \<Rightarrow> Header \<Rightarrow> address tribe_m" where
  "ecrecover E h =
    on_big (Number h) (\<lambda>n.
      if big_Uint64 n = 0 then genesisSigner E h
      else
        let hash = Header_Hash (crypto E) h in
        bindM (readM sigcache) (\<lambda>cache.
          case (case cache of None \<Rightarrow> None | Some m \<Rightarrow> m hash) of
            Some a \<Rightarrow> returnM a
          | None \<Rightarrow>
              if length (Extra h) < extraSeal then errM errMissingSignature
              else bindM (liftM (ecrecoverPubkey E h (seal_of h))) (\<lambda>pubkey.
                if pubkey = [] then panicM ''slice bounds out of range''
                else
                  let signer = pubkey_address (crypto E) pubkey in
                  bindM (modifyM (\<lambda>t. t\<lparr>sigcache := map_option (\<lambda>m. arc_Add E m hash signer) cache\<rparr>))
                    (\<lambda>_. returnM signer))))"

definition New :: "u64 \<Rightarrow> chief_cache \<Rightarrow> TribeEngine" where
  "New period c = \<lparr>config_Period = (if period = 0 then blockPeriod else period), sigcache = Some Map.empty,
     Status = NewTribeStatus, isInit = False, chiefInfoList = c\<rparr>"

definition Init :: "PrivateKey \<Rightarrow> TribeEngine \<Rightarrow> TribeEngine" where
  "Init key t = (if isInit t then t else t\<lparr>Status := (Status t)\<lparr>nodeKey := Some key\<rparr>, isInit := True\<rparr>)"

definition Author :: "tribe_ext \<Rightarrow> Header \<Rightarrow> address tribe_m" where
  "Author E h = (if Coinbase h = 0 then ecrecover E h else returnM (Coinbase h))"

end
