(* ===== verification/Tribe_Engine.thy ===== *)
theory Tribe_Engine
  imports Tribe_Status
begin

text \<open>
  The consensus engine methods of \<^verbatim>\<open>consensus/tribe/tribe.go\<close> and the block validation of
  \<^verbatim>\<open>consensus/tribe/status.go\<close>: the delay schedule, header verification, signer and block
  validation, preparing and sealing a block.
\<close>

section \<open>Chain access and fork hashes\<close>

record chain_reader =
  chain_Config :: ChainConfig
  CurrentHeader :: Header
  GetHeader :: "hash \<Rightarrow> u64 \<Rightarrow> Header option"
  GetHeaderByHash :: "hash \<Rightarrow> Header option"
  GetBlock :: "hash \<Rightarrow> u64 \<Rightarrow> Block option"

abbreviation nil_panic :: "'a tribe_m" where
  "nil_panic \<equiv> panicM ''invalid memory address or nil pointer dereference''"

definition VerifyForkHashes :: "crypto_lib \<Rightarrow> ChainConfig \<Rightarrow> Header \<Rightarrow> bool \<Rightarrow> bool" where
  "VerifyForkHashes K config h uncle =
    (if uncle then True
     else if EIP150Block config \<noteq> None \<and> EIP150Block config = Number h then
       EIP150Hash config = 0 \<or> EIP150Hash config = Header_Hash K h
     else True)"

section \<open>The delay schedule\<close>

definition zero_seal :: "Header \<Rightarrow> bool" where
  "zero_seal h \<longleftrightarrow> seal_of h = replicate (length (seal_of h)) 0"

text \<open>The miner of a header: this node while the seal is empty, otherwise the recovered signer.\<close>

definition period_miner :: "tribe_ext \<Rightarrow> Header \<Rightarrow> address option tribe_m" where
  "period_miner E h =
    (if length (Extra h) < extraSeal then panicM ''slice bounds out of range''
     else if zero_seal h then bindM (GetMinerAddress E) (\<lambda>m. returnM (Some m))
     else attemptM (ecrecover E h))"

definition GetPeriodChief100 :: "tribe_ext \<Rightarrow> Header \<Rightarrow> Signer list option \<Rightarrow> u64 tribe_m" where
  "GetPeriodChief100 E h signers =
    bindM (period_miner E h) (\<lambda>m.
    bindM (readM id) (\<lambda>t.
      let Main = config_Period t - 1; Subs = config_Period t + 3; Other = config_Period t + 7;
          Else = 86400 * 7;
          sl = (case signers of None \<Rightarrow> Signers (Status t) | Some l \<Rightarrow> l) in
      case m of
        None \<Rightarrow> returnM Else
      | Some miner \<Rightarrow>
          if sl = [] then returnM Else
          else on_big (Number h) (\<lambda>n.
            let idx_m = go_rem (big_Int64 n) (int (length sl)) in
            if idx_m < 0 then panicM ''index out of range''
            else if miner = Address (sl ! nat idx_m) then returnM Main
            else if miner = Address (sl ! 0) then returnM Subs
            else case index_of miner (leaderSort (Address (sl ! 0)) (Leaders (Status t))) of
                Some i \<Rightarrow>
                  if idx_m = 0 then returnM (Subs + word_of_nat i * (Subs - Main))
                  else returnM (Other + word_of_nat i * (Subs - Main))
              | None \<Rightarrow> returnM Else)))"

definition GetPeriod :: "tribe_ext \<Rightarrow> Header \<Rightarrow> Signer list option \<Rightarrow> u64 tribe_m" where
  "GetPeriod E h signers =
    bindM (with_chiefs (\<lambda>c. GetChiefInfo (getenv E) c (Number h))) (\<lambda>ci.
      if (case ci of Some i \<Rightarrow> Version i = ''1.0.0'' | None \<Rightarrow> False) then GetPeriodChief100 E h signers
      else
        bindM (period_miner E h) (\<lambda>m.
        bindM (readM id) (\<lambda>t.
          let Main = config_Period t - 1; Subs = config_Period t + 3; Other = config_Period t + 7;
              sl = (case signers of None \<Rightarrow> Signers (Status t) | Some l \<Rightarrow> l) in
          case m of
            None \<Rightarrow> returnM Other
          | Some miner \<Rightarrow>
              on_big (Number h) (\<lambda>n.
                if big_Int64 n \<le> 3 then returnM Subs
                else if sl = [] then returnM Other
                else
                  let idx_m = go_rem (big_Int64 n) (int (length sl));
                      idx_s = go_rem (i64 (big_Int64 n + 1)) (int (length sl)) in
                  if miner = Address (sl ! nat idx_m) then returnM Main
                  else if idx_s < 0 then panicM ''index out of range''
                  else if miner = Address (sl ! nat idx_s) then returnM Subs
                  else returnM Other))))"

section \<open>Header verification\<close>

definition bad_difficulty :: "string \<Rightarrow> int option \<Rightarrow> bool" where
  "bad_difficulty version d =
    (case d of
       None \<Rightarrow> True
     | Some d \<Rightarrow>
         if version = ''1.0.0'' then d > 6 \<or> d < diffNoTurn
         else d \<noteq> diffInTurnMain \<and> d \<noteq> diffInTurn \<and> d \<noteq> diffNoTurn)"

definition sip004_block :: "tribe_ext \<Rightarrow> int option" where
  "sip004_block E =
    (if IsTestnet (getenv E) then Sip004Block TestnetChainConfig
     else if IsDevnet (getenv E) then Sip004Block DevnetChainConfig
     else Sip004Block MainnetChainConfig)"

definition verifyTime :: "tribe_ext \<Rightarrow> Header \<Rightarrow> Header \<Rightarrow> unit tribe_m" where
  "verifyTime E parent h =
    on_big (Number h) (\<lambda>n. on_big (Time parent) (\<lambda>pt. on_big (Time h) (\<lambda>ht.
    bindM (readM config_Period) (\<lambda>period.
      if IsSIP002Block (getenv E) n then
        if big_Uint64 pt + (period - 1) > big_Uint64 ht then errM ErrInvalidTimestampSIP002 else returnM ()
      else
        if big_Uint64 pt + period > big_Uint64 ht then errM ErrInvalidTimestamp else returnM ()))))"

definition verifyCascadingFields :: "tribe_ext \<Rightarrow> chain_reader \<Rightarrow> Header \<Rightarrow> Header list \<Rightarrow> unit tribe_m" where
  "verifyCascadingFields E chain h parents =
    on_big (Number h) (\<lambda>n.
    let number = big_Uint64 n in
    if number = 0 then returnM ()
    else
      bindM
       (if parents \<noteq> [] then
          bindM (verifyTime E (last parents) h) (\<lambda>_. returnM (last parents))
        else case GetHeader chain (ParentHash h) (number - 1) of
            None \<Rightarrow> errM errNilParent
          | Some p \<Rightarrow> if Time p = None then errM errNilParent
                      else bindM (verifyTime E p h) (\<lambda>_. returnM p))
       (\<lambda>parent.
          on_big (Number parent) (\<lambda>pn.
          if big_Uint64 pn \<noteq> number - 1 \<or> Header_Hash (crypto E) parent \<noteq> ParentHash h
          then errM ErrUnknownAncestor
          else
            on_big (GasLimit h) (\<lambda>gl.
            if gl > 2 ^ 63 - 1 then errM errGasLimitMax
            else on_big (GasUsed h) (\<lambda>gu.
            if gu > gl then errM errGasUsed
            else on_big (GasLimit parent) (\<lambda>pgl. on_big (sip004_block E) (\<lambda>sip004Block.
              let gdiff = \<bar>pgl - gl\<bar>; limit = pgl div 1024;
                  minGasLimit = (if n \<ge> sip004Block then 40000000 else 5000) in
              if n \<noteq> sip004Block \<and> (gdiff \<ge> limit \<or> gl < minGasLimit) then errM errGasLimitBounds
              else if n - pn \<noteq> 1 then errM ErrInvalidNumber
              else returnM ())))))))"

definition verifyDifficulty :: "tribe_ext \<Rightarrow> Header \<Rightarrow> int \<Rightarrow> unit tribe_m" where
  "verifyDifficulty E h n =
    (if big_Uint64 n > 0 then
       bindM (with_chiefs (\<lambda>c. IsBeforeChief100block (getenv E) c n)) (\<lambda>before.
         if before then returnM ()
         else bindM (with_chiefs (\<lambda>c. GetChiefInfo (getenv E) c (Some n))) (\<lambda>ci.
           case ci of
             Some i \<Rightarrow> if bad_difficulty (Version i) (Difficulty h) then errM errInvalidDifficulty
                       else returnM ()
           | None \<Rightarrow> returnM ()))
     else returnM ())"

definition verifyHeader :: "tribe_ext \<Rightarrow> chain_reader \<Rightarrow> Header \<Rightarrow> Header list \<Rightarrow> unit tribe_m" where
  "verifyHeader E chain h parents =
    (case Number h of
       None \<Rightarrow> errM errUnknownBlock
     | Some n \<Rightarrow>
         on_big (Time h) (\<lambda>time.
         if time > unix_now E then errM ErrFutureBlock
         else if Nonce h \<noteq> nonceSync \<and> Nonce h \<noteq> nonceAsync then errM errInvalidNonce
         else if length (Extra h) < extraVanityFn E n then errM errMissingVanity
         else if length (Extra h) < extraVanityFn E n + extraSeal then errM errMissingSignature
         else if MixDigest h \<noteq> 0 then errM errInvalidMixDigest
         else if UncleHash h \<noteq> CalcUncleHash (crypto E) [] then errM errInvalidUncleHash
         else
           bindM
            (verifyDifficulty E h n)
            (\<lambda>_. if \<not> VerifyForkHashes (crypto E) (chain_Config chain) h False then errM errForkHash
                 else verifyCascadingFields E chain h parents)))"

definition VerifyHeader :: "tribe_ext \<Rightarrow> chain_reader \<Rightarrow> Header \<Rightarrow> bool \<Rightarrow> unit tribe_m" where
  "VerifyHeader E chain h seal = verifyHeader E chain h []"

text \<open>The results channel of \<^verbatim>\<open>VerifyHeaders\<close>, in order, when the caller does not abort.\<close>

fun VerifyHeaders_from ::
  "tribe_ext \<Rightarrow> chain_reader \<Rightarrow> Header list \<Rightarrow> Header list \<Rightarrow> TribeEngine
     \<Rightarrow> (tribe_error, unit) result list \<times> TribeEngine" where
  "VerifyHeaders_from E chain done [] t = ([], t)"
| "VerifyHeaders_from E chain done (h # hs) t =
    (case verifyHeader E chain h done t of (r, t1) \<Rightarrow>
     case VerifyHeaders_from E chain (done @ [h]) hs t1 of (rs, t2) \<Rightarrow> (r # rs, t2))"

definition VerifyHeaders ::
  "tribe_ext \<Rightarrow> chain_reader \<Rightarrow> Header list \<Rightarrow> TribeEngine \<Rightarrow> (tribe_error, unit) result list \<times> TribeEngine" where
  "VerifyHeaders E chain headers t = VerifyHeaders_from E chain [] headers t"

definition VerifyUncles :: "Block \<Rightarrow> unit tribe_m" where
  "VerifyUncles block = (if length (uncles block) > 0 then errM errUncles else returnM ())"

section \<open>Signer and block validation\<close>

definition validateSigner :: "tribe_ext \<Rightarrow> Header option \<Rightarrow> Header \<Rightarrow> address \<Rightarrow> bool tribe_m" where
  "validateSigner E parentHeader h signer =
    on_big (Number h) (\<lambda>n.
    bindM (readM (\<lambda>t. Signers (Status t))) (\<lambda>signers.
    let number = big_Int64 n in
    if number \<le> CHIEF_NUMBER then returnM True
    else
      bindM
       (if IsSIP002Block (getenv E) n then
          bindM (GetPeriod E h (Some signers)) (\<lambda>period.
            case parentHeader of
              None \<Rightarrow> nil_panic
            | Some p \<Rightarrow> on_big (Time p) (\<lambda>pt. on_big (Time h) (\<lambda>ht.
                returnM (\<not> big_Uint64 pt + period > big_Uint64 ht))))
        else returnM True)
       (\<lambda>in_time.
          if \<not> in_time then returnM False
          else if IsSIP100Block (getenv E) n \<and> Coinbase h = 0 then returnM False
          else bindM (readM Status) (\<lambda>st. returnM
            (case fetchOnSigners st signer (Some signers) of
               Some (idx, s) \<Rightarrow>
                 if IsSIP100Block (getenv E) n then
                   go_rem number (int (length signers)) = int idx \<or> idx = 0
                 else True
             | None \<Rightarrow>
                 if IsSIP100Block (getenv E) n then list_ex (\<lambda>l. signer = l) (Leaders st) else False)))))"

definition verifyVrfNum :: "tribe_ext \<Rightarrow> Header \<Rightarrow> Header \<Rightarrow> unit tribe_m" where
  "verifyVrfNum E parent h =
    on_big (Number h) (\<lambda>n. on_big (Number parent) (\<lambda>pn.
      if length (Extra h) < extraVanityFn E n \<or> length (Extra h) < extraSeal \<or> length (Extra parent) < 32
      then panicM ''slice bounds out of range''
      else
        let np = take (extraVanityFn E n) (Extra h); msg = big_Bytes pn @ take 32 (Extra parent) in
        bindM (liftM (ecrecoverPubkey E h (seal_of h))) (\<lambda>pubbuf.
          if SimpleVRFVerify E pubbuf msg np then returnM () else errM errVrf)))"

definition VerifyMiner :: "tribe_ext \<Rightarrow> hash \<Rightarrow> address \<Rightarrow> byte list \<Rightarrow> bool tribe_m" where
  "VerifyMiner E parenthash addr vrfn =
    (if parenthash = 0 then panicM ''hash can not nil''
     else returnM (VerifyMinerService E parenthash addr vrfn))"

text \<open>Whether a transaction is a chief update, as \<^verbatim>\<open>ValidateBlock\<close> tests it.\<close>

definition is_chief_update_tx :: "tribe_ext \<Rightarrow> int \<Rightarrow> Transaction \<Rightarrow> bool tribe_m" where
  "is_chief_update_tx E number tx =
    (case Recipient tx of
       None \<Rightarrow> returnM False
     | Some to \<Rightarrow>
         bindM (with_chiefs (\<lambda>c. IsChiefAddressOnBlock (getenv E) c number to)) (\<lambda>yes.
           returnM (yes \<and> IsChiefUpdate (Payload tx))))"

fun check_txs :: "tribe_ext \<Rightarrow> Header \<Rightarrow> int \<Rightarrow> bool \<Rightarrow> nat \<Rightarrow> nat \<Rightarrow> Transaction list \<Rightarrow> nat tribe_m" where
  "check_txs E h number validate i cnt [] = returnM cnt"
| "check_txs E h number validate i cnt (tx # txs) =
    bindM (is_chief_update_tx E number tx) (\<lambda>chief.
      if \<not> chief then check_txs E h number validate (i + 1) cnt txs
      else if i \<noteq> 0 then errM ErrTribeChiefTxMustAtPositionZero
      else
        bindM
         (if validate then
            bindM (ecrecover E h) (\<lambda>signer.
              if GetFromByTx (crypto E) tx \<noteq> Some signer then errM ErrTribeChiefTxSignerAndBlockSignerNotMatch
              else if IsSIP100Block (getenv E) number then
                if length (Extra h) < 32 then panicM ''slice bounds out of range''
                else bindM (VerifyMiner E (ParentHash h) (BytesToAddress (drop 4 (Payload tx))) (take 32 (Extra h)))
                  (\<lambda>ok. if ok then returnM () else errM errVerifyVolunteer)
              else returnM ())
          else returnM ())
         (\<lambda>_. check_txs E h number validate (i + 1) (cnt + 1) txs))"

definition ValidateBlock :: "tribe_ext \<Rightarrow> Block option \<Rightarrow> Block \<Rightarrow> bool \<Rightarrow> unit tribe_m" where
  "ValidateBlock E parent block validate =
    on_big (Number (header block)) (\<lambda>n.
    if big_Int64 n \<le> CHIEF_NUMBER then returnM ()
    else
      let h = Block_Header block; number = big_Int64 n in
      bindM
       (if validate then
          case parent of
            None \<Rightarrow> nil_panic
          | Some p \<Rightarrow>
              bindM (LoadStatusFromChief E (Block_Hash (crypto E) p) n) (\<lambda>_.
              bindM (ecrecover E h) (\<lambda>signer.
              bindM (with_chiefs (\<lambda>c. IsBeforeChief100block (getenv E) c n)) (\<lambda>before.
              bindM
               (if before then returnM ()
                else bindM (InTurnForVerifyDiffculty E number (ParentHash h) signer) (\<lambda>difficulty.
                  if Difficulty h \<noteq> Some difficulty then errM errInvalidDifficulty else returnM ()))
               (\<lambda>_.
              bindM
               (if IsSIP100Block (getenv E) n then verifyVrfNum E (Block_Header p) h else returnM ())
               (\<lambda>_.
              bindM (validateSigner E (Some (Block_Header p)) h signer) (\<lambda>ok.
                if ok then returnM () else errM errUnauthorized))))))
        else returnM ())
       (\<lambda>_.
          if length (transactions block) = 0 then errM ErrTribeNotAllowEmptyTxList
          else bindM (check_txs E h n validate 0 0 (transactions block)) (\<lambda>cnt.
            if cnt = 0 then errM ErrTribeMustContainChiefTx else returnM ())))"

definition VerifySeal :: "chain_reader \<Rightarrow> Header \<Rightarrow> unit tribe_m" where
  "VerifySeal chain h = panicM ''never reach''"

definition verifySeal :: "tribe_ext \<Rightarrow> chain_reader \<Rightarrow> Header \<Rightarrow> unit tribe_m" where
  "verifySeal E chain h =
    on_big (Number h) (\<lambda>n.
    let number = big_Int64 n in
    if number = 0 then errM errUnknownBlock
    else
      bindM (ecrecover E h) (\<lambda>signer.
      bindM (validateSigner E (GetHeaderByHash chain (ParentHash h)) h signer) (\<lambda>ok.
        if \<not> ok then errM errUnauthorized
        else if number > CHIEF_NUMBER then
          bindM (with_chiefs (\<lambda>c. IsBeforeChief100block (getenv E) c n)) (\<lambda>before.
            if before then returnM ()
            else bindM (InTurnForVerifyDiffculty E number (ParentHash h) signer) (\<lambda>difficulty.
              on_big (Difficulty h) (\<lambda>d. if difficulty \<noteq> d then errM errInvalidDifficulty else returnM ())))
        else returnM ())))"

section \<open>Preparing and sealing a block\<close>

definition CalcDifficulty :: "tribe_ext \<Rightarrow> Header \<Rightarrow> int tribe_m" where
  "CalcDifficulty E parent =
    on_big (Number parent) (\<lambda>pn.
    bindM (with_chiefs (\<lambda>c. GetChiefInfo (getenv E) c (Some (pn + 1)))) (\<lambda>ci.
    bindM (GetMinerAddress E) (\<lambda>m.
      if (case ci of Some i \<Rightarrow> Version i = ''1.0.0'' | None \<Rightarrow> False)
      then InTurnForCalcDiffcultyChief100 E m parent
      else InTurnForCalcDifficulty E m parent)))"

definition prepare_extra :: "tribe_ext \<Rightarrow> chain_reader \<Rightarrow> Header \<Rightarrow> byte list tribe_m" where
  "prepare_extra E chain h =
    on_big (Number h) (\<lambda>n.
      if IsSIP100Block (getenv E) n then
        case GetHeaderByHash chain (ParentHash h) of
          None \<Rightarrow> nil_panic
        | Some ph \<Rightarrow> on_big (Number ph) (\<lambda>pn.
            if length (Extra ph) < 32 then panicM ''slice bounds out of range''
            else bindM (readM (\<lambda>t. nodeKey (Status t))) (\<lambda>key.
              case key of
                None \<Rightarrow> nil_panic
              | Some k \<Rightarrow>
                  (case SimpleVRF2Bytes E k (big_Bytes pn @ take 32 (Extra ph)) of
                     None \<Rightarrow> panicM ''vrf''
                   | Some vrfnp \<Rightarrow>
                       if length vrfnp < 32 then panicM ''slice bounds out of range''
                       else returnM (take 161 (vrfnp @ replicate 161 0) @ replicate extraSeal 0))))
      else
        returnM (take (extraVanityFn E n) (Extra h @ replicate (extraVanityFn E n - length (Extra h)) 0)
          @ replicate extraSeal 0))"

definition Prepare :: "tribe_ext \<Rightarrow> chain_reader \<Rightarrow> Header \<Rightarrow> Header tribe_m" where
  "Prepare E chain h =
    on_big (Number h) (\<lambda>n.
    bindM (LoadStatusFromChief E (ParentHash h) n) (\<lambda>_.
    bindM (GetMinerAddress E) (\<lambda>miner.
    let coinbase = (case BindInfo E miner (Header_Hash (crypto E) (CurrentHeader chain)) of
           Some f \<Rightarrow> if f \<noteq> 0 then f else miner | None \<Rightarrow> miner) in
    bindM (prepare_extra E chain h) (\<lambda>extra.
    let h1 = h\<lparr>Coinbase := coinbase, Nonce := nonceAsync, Extra := extra, MixDigest := 0\<rparr> in
    case GetHeader chain (ParentHash h) (big_Uint64 n - 1) of
      None \<Rightarrow> errM ErrUnknownAncestor
    | Some parent \<Rightarrow>
        on_big (Time h1) (\<lambda>_.
        bindM (CalcDifficulty E parent) (\<lambda>d.
        let h2 = h1\<lparr>Difficulty := Some d\<rparr> in
        bindM (if IsSIP002Block (getenv E) n then GetPeriod E h2 None else readM config_Period) (\<lambda>period.
        on_big (Time parent) (\<lambda>pt.
        let time = pt + uint period in
        returnM (h2\<lparr>Time := Some (if big_Int64 time < unix_now E then unix_now E else time)\<rparr>)))))))))"

definition chiefGasLimit :: int where "chiefGasLimit = 4712388"
definition chiefGasPrice :: int where "chiefGasPrice = 18000000000"

text \<open>The selector of \<^verbatim>\<open>update(address)\<close>, twelve zero bytes and the address.\<close>

definition chief_update_payload :: "address \<Rightarrow> byte list" where
  "chief_update_payload a = [28, 27, 135, 114] @ replicate 12 0 @ array_bytes 20 a"

definition GetChiefUpdateTx ::
  "tribe_ext \<Rightarrow> chain_reader \<Rightarrow> Header \<Rightarrow> (address \<Rightarrow> u64) \<Rightarrow> Transaction option tribe_m" where
  "GetChiefUpdateTx E chain h GetNonce =
    on_big (Number h) (\<lambda>n.
    if n \<le> CHIEF_NUMBER then returnM None
    else
      let parentNumber = n - 1; sip100 = IsSIP100Block (getenv E) parentNumber in
      if sip100 \<and> length (Extra h) < 32 then panicM ''slice bounds out of range''
      else
        let vrf = (if sip100 then Some (be_int (take 32 (Extra h))) else None);
            nextRoundSigner = NextRoundSigner E (ParentHash h) parentNumber vrf in
        bindM (GetMinerAddress E) (\<lambda>miner.
        bindM (with_chiefs (\<lambda>c. GetChiefInfo (getenv E) c (Some n))) (\<lambda>ci.
        case ci of
          None \<Rightarrow> nil_panic
        | Some i \<Rightarrow>
            let rawTx = newTransaction (GetNonce miner) (Some (Addr i)) 0 chiefGasLimit chiefGasPrice
                  (chief_update_payload nextRoundSigner) in
            bindM (readM (\<lambda>t. nodeKey (Status t))) (\<lambda>key.
              case key of
                None \<Rightarrow> panicM ''GetNodekey but nodekey not ready''
              | Some k \<Rightarrow>
                  (case SignTx (crypto E) (NewEIP155Signer (ChainId (chain_Config chain))) rawTx k of
                     Inl e \<Rightarrow> panicM ''sign tx''
                   | Inr tx \<Rightarrow> returnM (Some tx))))))"

text \<open>
  Sealing. \<open>stopped\<close> says whether the stop channel fires before the delay is over; the result is
  then a nil block.
\<close>

definition Seal :: "tribe_ext \<Rightarrow> chain_reader \<Rightarrow> bool \<Rightarrow> Block \<Rightarrow> Block option tribe_m" where
  "Seal E chain stopped block =
    on_big (Number (header block)) (\<lambda>n.
    if n \<le> CHIEF_NUMBER then errM errNeverMining
    else
      bindM (ValidateBlock E (GetBlock chain (ParentHash (header block)) (big_Uint64 n - 1)) block False) (\<lambda>_.
      let h = Block_Header block in
      if length (transactions block) = 0 then panicM ''at least one chief update tx''
      else
        bindM (GetMinerAddress E) (\<lambda>miner.
        bindM (validateSigner E (GetHeaderByHash chain (ParentHash (header block))) h miner) (\<lambda>ok.
        if \<not> ok then errM errUnauthorized
        else if stopped then returnM None
        else
          bindM (liftM (sigHash E h)) (\<lambda>hash.
          bindM (readM (\<lambda>t. nodeKey (Status t))) (\<lambda>key.
          case key of
            None \<Rightarrow> nil_panic
          | Some k \<Rightarrow>
              (case crypto_Sign (crypto E) hash k of
                 None \<Rightarrow> errM errSign
               | Some sighash \<Rightarrow>
                   returnM (Some (WithSeal block (h\<lparr>Extra :=
                     take (length (Extra h) - extraSeal) (Extra h)
                       @ take extraSeal sighash @ drop (length sighash) (seal_of h)\<rparr>))))))))))"

end
