(* ===== verification/Tribe_Schedule.thy ===== *)
theory Tribe_Schedule
  imports Tribe_Engine
begin

text \<open>
  The schedule of chief 1.0.0: who may produce a block, with which difficulty and after which delay.
  The substitution rank of a miner is the abstract schedule; the difficulty and the delay of the code are
  functions of it. The theory then follows \<^verbatim>\<open>ValidateBlock\<close> through the engine state: all its steps
  after loading the status change nothing but the two caches.
\<close>

section \<open>Leader rotation\<close>

lemma leaderSort_split:
  "first \<notin> set us \<Longrightarrow> leaderSort first (us @ first # vs) = vs @ us"
  by (simp add: leaderSort_def index_of_split)

lemma leaderSort_absent [simp]: "first \<notin> set leaders \<Longrightarrow> leaderSort first leaders = leaders"
  by (simp add: leaderSort_def)

lemma leaderSort_cases:
  obtains "first \<notin> set leaders" "leaderSort first leaders = leaders"
  | us vs where "leaders = us @ first # vs" "first \<notin> set us" "leaderSort first leaders = vs @ us"
  by (metis leaderSort_absent leaderSort_split split_list_first)

lemma set_leaderSort: "distinct leaders \<Longrightarrow> set (leaderSort first leaders) = set leaders - {first}"
  by (cases rule: leaderSort_cases[of first leaders]) auto

lemma mem_leaderSort: "signer \<in> set leaders \<Longrightarrow> signer \<noteq> first \<Longrightarrow> signer \<in> set (leaderSort first leaders)"
  by (cases rule: leaderSort_cases[of first leaders]) auto

lemma distinct_leaderSort: "distinct leaders \<Longrightarrow> distinct (leaderSort first leaders)"
  by (cases rule: leaderSort_cases[of first leaders]) auto

lemma length_leaderSort:
  "length (leaderSort first leaders) = (if first \<in> set leaders then length leaders - 1 else length leaders)"
  by (cases rule: leaderSort_cases[of first leaders]) auto

section \<open>Difficulty\<close>

text \<open>The position whose turn it is.\<close>

definition turn :: "TribeStatus \<Rightarrow> int \<Rightarrow> nat" where
  "turn st number = nat (number mod int (length (Signers st)))"

text \<open>
  Who may seal a block after chief 1.0.0: the signer in turn, the leader in position 0, and every
  leader outside the signer list.
\<close>

definition authorised :: "TribeStatus \<Rightarrow> int \<Rightarrow> address \<Rightarrow> bool" where
  "authorised st number signer \<longleftrightarrow>
    (case index_of signer (map Address (Signers st)) of
       Some idx \<Rightarrow> idx = turn st number \<or> idx = 0
     | None \<Rightarrow> signer \<in> set (Leaders st))"

text \<open>
  The substitution rank of a miner: 0 for the signer in turn, 1 for the leader in position 0 when it
  is not in turn, and then the other leaders in rotation order.
\<close>

definition rank :: "TribeStatus \<Rightarrow> int \<Rightarrow> address \<Rightarrow> nat option" where
  "rank st number signer =
    (case index_of signer (map Address (Signers st)) of
       Some idx \<Rightarrow> if idx = turn st number then Some 0 else if idx = 0 then Some 1 else None
     | None \<Rightarrow>
         map_option (\<lambda>i. if turn st number = 0 then i + 1 else i + 2)
           (index_of signer (leaderSort (Address (Signers st ! 0)) (Leaders st))))"

lemma turn_less: "Signers st \<noteq> [] \<Longrightarrow> turn st number < length (Signers st)"
  by (simp add: turn_def nat_less_iff)

lemma go_rem_turn:
  "Signers st \<noteq> [] \<Longrightarrow> 0 \<le> number \<Longrightarrow> go_rem number (int (length (Signers st))) = int (turn st number)"
  by (simp add: turn_def)

lemma rank_authorised:
  assumes "authorised st number signer" "Signers st \<noteq> []"
  shows "\<exists>k. rank st number signer = Some k"
proof (cases "index_of signer (map Address (Signers st))")
  case None
  then have "signer \<in> set (Leaders st)" "signer \<noteq> Address (Signers st ! 0)"
    using assms by (auto simp: authorised_def index_of_None)
  then obtain i where "index_of signer (leaderSort (Address (Signers st ! 0)) (Leaders st)) = Some i"
    using index_of_mem[OF mem_leaderSort] by blast
  with None show ?thesis by (simp add: rank_def)
next
  case (Some idx)
  with assms show ?thesis by (auto simp: authorised_def rank_def)
qed

lemma difficulty_rank:
  assumes "Signers st \<noteq> []" "0 \<le> number" "rank st number signer = Some k"
  shows "inTurnForCalcDifficultyChief100 st number ph signer = diff - int k"
  using assms
  by (auto simp: inTurnForCalcDifficultyChief100_def rank_def fetchOnSigners_def go_rem_turn Let_def
      simp del: go_rem_pos split: option.splits if_splits)

lemma rank_inj:
  assumes "Signers st \<noteq> []" "rank st number a = Some k" "rank st number b = Some k"
  shows "a = b"
  using assms
  by (auto simp: rank_def split: option.splits if_splits dest: index_of_inj)

lemma rank_bound:
  assumes "rank st number signer = Some k" "Address (Signers st ! 0) \<in> set (Leaders st)" 
  shows "k \<le> max 1 (length (Leaders st))"
  using assms
  by (auto simp: rank_def length_leaderSort split: option.splits if_splits dest!: index_of_SomeD)


section \<open>Delay\<close>

text \<open>Each rank waits four seconds longer than the one before it.\<close>

definition delay :: "u64 \<Rightarrow> nat \<Rightarrow> u64" where
  "delay period k = period - 1 + 4 * word_of_nat k"

lemma GetPeriodChief100_rank:
  assumes miner: "period_miner E h t = (Inr (Some miner), t1)"
    and n: "Number h = Some n" "0 \<le> n" "n < 2 ^ 63"
    and sl: "signers = None \<or> signers = Some (Signers (Status t1))" "Signers (Status t1) \<noteq> []"
      "distinct (map Address (Signers (Status t1)))"
    and k: "rank (Status t1) n miner = Some k"
  shows "GetPeriodChief100 E h signers t = (Inr (delay (config_Period t1) k), t1)"
proof -
  let ?st = "Status t1"
  let ?sl = "Signers ?st"
  have sl': "(case signers of None \<Rightarrow> ?sl | Some l \<Rightarrow> l) = ?sl" using sl(1) by auto
  have turn: "turn ?st n < length ?sl" using sl(2) by (rule turn_less)
  have idx: "index_of (Address (?sl ! j)) (map Address ?sl) = Some j" if "j < length ?sl" for j
    using index_of_nth[OF sl(3), of j] that by simp
  have run: "GetPeriodChief100 E h signers t =
     ((if miner = Address (?sl ! turn ?st n) then Inr (config_Period t1 - 1)
       else if miner = Address (?sl ! 0) then Inr (config_Period t1 + 3)
       else case index_of miner (leaderSort (Address (?sl ! 0)) (Leaders ?st)) of
           Some i \<Rightarrow>
             if turn ?st n = 0 then Inr (config_Period t1 + 3 + word_of_nat i * 4)
             else Inr (config_Period t1 + 7 + word_of_nat i * 4)
         | None \<Rightarrow> Inr (86400 * 7)), t1)"
    using miner n sl(2) unfolding GetPeriodChief100_def
    by (auto simp: Let_def sl' go_rem_turn simp del: go_rem_pos split: option.splits)
  show ?thesis
  proof (cases "index_of miner (map Address ?sl)")
    case None
    then have "miner \<noteq> Address (?sl ! turn ?st n)" "miner \<noteq> Address (?sl ! 0)"
      using turn sl(2) by (auto simp: index_of_None)
    with None k run show ?thesis
      by (auto simp: rank_def delay_def algebra_simps split: if_splits)
  next
    case (Some j)
    then have "j < length ?sl" "miner = Address (?sl ! j)" using index_of_SomeD[OF Some] by auto
    with Some k run idx[OF turn] sl(2) show ?thesis
      by (auto simp: rank_def delay_def split: if_splits)
  qed
qed

section \<open>What the engine's methods leave unchanged\<close>

definition chiefs_ready :: "environment \<Rightarrow> TribeEngine \<Rightarrow> bool" where
  "chiefs_ready env t \<longleftrightarrow> chiefInfoList t \<noteq> None \<and> chief_cache_ok env (chiefInfoList t)"

text \<open>The signer of a header, recovered from its seal without the cache.\<close>

definition seal_signer :: "tribe_ext \<Rightarrow> Header \<Rightarrow> (tribe_error, address) result" where
  "seal_signer E h =
    (if length (Extra h) < extraSeal then Inl (Err errMissingSignature)
     else and_then (ecrecoverPubkey E h (seal_of h)) (\<lambda>pk.
       if pk = [] then Inl (Panic ''slice bounds out of range'') else Inr (pubkey_address (crypto E) pk)))"

text \<open>The cache may hold the signer of a header only if it is the right one.\<close>

definition cached_ok :: "tribe_ext \<Rightarrow> Header \<Rightarrow> TribeEngine \<Rightarrow> bool" where
  "cached_ok E h t \<longleftrightarrow> (case sigcache t of None \<Rightarrow> True
     | Some m \<Rightarrow> (case m (Header_Hash (crypto E) h) of None \<Rightarrow> True | Some a \<Rightarrow> seal_signer E h = Inr a))"

text \<open>\<^verbatim>\<open>ARCCache.Add\<close> may evict entries, but changes no other entry.\<close>

definition arc_ok :: "tribe_ext \<Rightarrow> bool" where
  "arc_ok E \<longleftrightarrow> (\<forall>m k a. arc_Add E m k a \<subseteq>\<^sub>m m(k \<mapsto> a))"

definition quiet :: "tribe_ext \<Rightarrow> Header \<Rightarrow> TribeEngine \<Rightarrow> TribeEngine \<Rightarrow> bool" where
  "quiet E h t t' \<longleftrightarrow> config_Period t' = config_Period t \<and> Status t' = Status t \<and> isInit t' = isInit t \<and>
     (chiefs_ready (getenv E) t \<longrightarrow> chiefs_ready (getenv E) t') \<and> (cached_ok E h t \<longrightarrow> cached_ok E h t')"

definition quietM :: "tribe_ext \<Rightarrow> Header \<Rightarrow> 'a tribe_m \<Rightarrow> bool" where
  "quietM E h m \<longleftrightarrow> (\<forall>t. cached_ok E h t \<longrightarrow> quiet E h t (snd (m t)))"

named_theorems quiet_intros \<open>methods that change nothing but the caches\<close>

lemma quiet_refl [simp]: "quiet E h t t"
  by (simp add: quiet_def)

lemma quiet_trans: "quiet E h t t' \<Longrightarrow> quiet E h t' t'' \<Longrightarrow> quiet E h t t''"
  by (simp add: quiet_def)

lemma quietMD: "quietM E h m \<Longrightarrow> cached_ok E h t \<Longrightarrow> m t = (r, t') \<Longrightarrow> quiet E h t t'"
  by (metis quietM_def snd_conv)

lemma quiet_basic [quiet_intros]:
  "quietM E h (returnM v)" "quietM E h (errM e)" "quietM E h (panicM msg)" "quietM E h (readM f)"
  "quietM E h (liftM r)" "quietM E h (GetMinerAddress X)"
  by (simp_all add: quietM_def GetMinerAddress_def split: option.split)

lemma quiet_bind [quiet_intros]:
  assumes "quietM E h m" "\<And>v. quietM E h (k v)" shows "quietM E h (bindM m k)"
proof -
  have "quiet E h t (snd (bindM m k t))" if c: "cached_ok E h t" for t
  proof (cases "m t")
    case (Pair r t1)
    then have 1: "quiet E h t t1" using quietMD[OF assms(1) c] by simp
    then have c1: "cached_ok E h t1" using c by (simp add: quiet_def)
    show ?thesis
    proof (cases r)
      case (Inr v)
      then have "quiet E h t1 (snd (k v t1))" using assms(2) c1 by (simp add: quietM_def)
      with 1 Pair Inr show ?thesis using quiet_trans[OF 1] by (simp add: bindM_def)
    qed (use 1 Pair in \<open>simp add: bindM_def\<close>)
  qed
  then show ?thesis by (simp add: quietM_def)
qed

lemma quiet_on_big [quiet_intros]: "(\<And>n. p = Some n \<Longrightarrow> quietM E h (k n)) \<Longrightarrow> quietM E h (on_big p k)"
  by (cases p) (simp_all add: quiet_basic)

lemma quiet_if [quiet_intros]:
  "(c \<Longrightarrow> quietM E h m) \<Longrightarrow> (\<not> c \<Longrightarrow> quietM E h m') \<Longrightarrow> quietM E h (if c then m else m')"
  by simp

lemma quiet_option [quiet_intros]:
  "(p = None \<Longrightarrow> quietM E h m) \<Longrightarrow> (\<And>v. p = Some v \<Longrightarrow> quietM E h (k v)) \<Longrightarrow>
   quietM E h (case p of None \<Rightarrow> m | Some v \<Rightarrow> k v)"
  by (cases p) simp_all

lemma snd_attemptM: "snd (attemptM m t) = snd (m t)"
  by (simp add: attemptM_def split: prod.split sum.split fault.split)

lemma quiet_attempt [quiet_intros]: "quietM E h m \<Longrightarrow> quietM E h (attemptM m)"
  by (simp add: quietM_def snd_attemptM)

lemma quiet_with_chiefs:
  assumes "\<And>c. c \<noteq> None \<Longrightarrow> chief_cache_ok (getenv E) c \<Longrightarrow>
    snd (f c) \<noteq> None \<and> chief_cache_ok (getenv E) (snd (f c))"
  shows "quietM E h (with_chiefs f)"
  using assms unfolding quietM_def quiet_def with_chiefs_def chiefs_ready_def cached_ok_def
  by (auto split: prod.split) (metis option.distinct(1) snd_conv)+

lemma chief_reads_ready:
  assumes "c \<noteq> None" "chief_cache_ok env c"
  shows "snd (GetChiefInfo env c num) \<noteq> None \<and> chief_cache_ok env (snd (GetChiefInfo env c num))"
    "snd (IsBeforeChief100block env c n) \<noteq> None \<and> chief_cache_ok env (snd (IsBeforeChief100block env c n))"
    "snd (IsChiefAddressOnBlock env c n a) \<noteq> None \<and> chief_cache_ok env (snd (IsChiefAddressOnBlock env c n a))"
proof -
  show "snd (GetChiefInfo env c num) \<noteq> None \<and> chief_cache_ok env (snd (GetChiefInfo env c num))"
    using GetChiefInfo_ok[OF assms(2), of num] assms(1)
    by (auto simp: GetChiefInfo_def Let_def split: option.splits prod.splits)
qed (use assms in \<open>auto simp: IsBeforeChief100block_def IsChiefAddressOnBlock_def beforechief100AddressList_def
      chiefAddressList_def\<close>)

lemma quiet_chiefs [quiet_intros]:
  "quietM E h (with_chiefs (\<lambda>c. GetChiefInfo (getenv E) c num))"
  "quietM E h (with_chiefs (\<lambda>c. IsBeforeChief100block (getenv E) c n))"
  "quietM E h (with_chiefs (\<lambda>c. IsChiefAddressOnBlock (getenv E) c n a))"
  by (rule quiet_with_chiefs; rule chief_reads_ready; assumption)+

section \<open>Recovering the signer\<close>

lemma ecrecover_run:
  assumes "Number h = Some n" "big_Uint64 n \<noteq> 0" "cached_ok E h t" "arc_ok E"
  shows "fst (ecrecover E h t) = seal_signer E h \<and> quiet E h t (snd (ecrecover E h t))"
proof (cases "case sigcache t of None \<Rightarrow> None | Some m \<Rightarrow> m (Header_Hash (crypto E) h)")
  case (Some a)
  then have "seal_signer E h = Inr a"
    using assms(3) by (auto simp: cached_ok_def split: option.splits)
  with Some assms(1,2) show ?thesis by (simp add: ecrecover_def Let_def bindM_def)
next
  case None
  let ?hash = "Header_Hash (crypto E) h"
  have upd: "cached_ok E h (t\<lparr>sigcache := map_option (\<lambda>m. arc_Add E m ?hash a) (sigcache t)\<rparr>)"
    if "seal_signer E h = Inr a" for a
  proof -
    have "b = a" if "arc_Add E m ?hash a ?hash = Some b" for m b
    proof -
      have "arc_Add E m ?hash a \<subseteq>\<^sub>m m(?hash \<mapsto> a)" using assms(4) by (simp add: arc_ok_def)
      then show ?thesis using that by (force simp: map_le_def dom_def)
    qed
    with that show ?thesis by (auto simp: cached_ok_def split: option.splits)
  qed
  show ?thesis
  proof (cases "seal_signer E h")
    case (Inr a)
    with upd[OF Inr] None assms(1,2) show ?thesis
      by (auto simp: ecrecover_def seal_signer_def Let_def bindM_def and_then_def quiet_def chiefs_ready_def
          split: if_splits sum.splits)
  next
    case (Inl e)
    with None assms(1,2) show ?thesis
      by (auto simp: ecrecover_def seal_signer_def Let_def bindM_def and_then_def
          split: if_splits sum.splits)
  qed
qed

lemma quiet_ecrecover:
  assumes "Number h = Some n" "big_Uint64 n \<noteq> 0" "arc_ok E"
  shows "quietM E h (ecrecover E h)"
  using ecrecover_run[OF assms(1,2) _ assms(3)] by (simp add: quietM_def)

lemma quiet_period:
  assumes "Number h = Some n" "big_Uint64 n \<noteq> 0" "arc_ok E"
  shows "quietM E h (period_miner E h)" "quietM E h (GetPeriodChief100 E h signers)"
    "quietM E h (GetPeriod E h signers)"
proof -
  show pm: "quietM E h (period_miner E h)"
    unfolding period_miner_def by (intro quiet_intros quiet_ecrecover[OF assms])
  show gp: "quietM E h (GetPeriodChief100 E h signers)"
    unfolding GetPeriodChief100_def Let_def by (intro quiet_intros pm)
  show "quietM E h (GetPeriod E h signers)"
    unfolding GetPeriod_def Let_def by (intro quiet_intros pm gp)
qed

lemma quiet_InTurnForVerifyDiffculty [quiet_intros]: "quietM E h (InTurnForVerifyDiffculty E n ph signer)"
  unfolding InTurnForVerifyDiffculty_def by (intro quiet_intros)

lemma quiet_verifyVrfNum [quiet_intros]: "quietM E h (verifyVrfNum E parent h')"
  unfolding verifyVrfNum_def Let_def by (intro quiet_intros)

lemma quiet_validateSigner:
  assumes "Number h = Some n" "big_Uint64 n \<noteq> 0" "arc_ok E"
  shows "quietM E h (validateSigner E parent h signer)"
  unfolding validateSigner_def Let_def by (intro quiet_intros quiet_period[OF assms])

lemma quiet_is_chief_update_tx [quiet_intros]: "quietM E h (is_chief_update_tx E number tx)"
  unfolding is_chief_update_tx_def by (intro quiet_intros)

lemma quiet_VerifyMiner [quiet_intros]: "quietM E h (VerifyMiner E ph a v)"
  unfolding VerifyMiner_def by (intro quiet_intros)

lemma quiet_check_txs:
  assumes "Number h = Some n" "big_Uint64 n \<noteq> 0" "arc_ok E"
  shows "quietM E h (check_txs E h number validate i cnt txs)"
proof (induction txs arbitrary: i cnt)
  case Nil
  show ?case unfolding check_txs.simps by (intro quiet_intros)
next
  case (Cons tx txs)
  show ?case unfolding check_txs.simps by (intro quiet_intros quiet_ecrecover[OF assms] Cons.IH)
qed

text \<open>Loading the status from the chief contract.\<close>

lemma resetSignersLevel_keeps:
  assumes "resetSignersLevel E hash number t = (r, t')"
  shows "config_Period t' = config_Period t \<and> sigcache t' = sigcache t \<and>
    Signers (Status t') = Signers (Status t) \<and> Leaders (Status t') = Leaders (Status t) \<and>
    nodeKey (Status t') = nodeKey (Status t) \<and> (chiefs_ready (getenv E) t \<longrightarrow> chiefs_ready (getenv E) t')"
  using assms chief_reads_ready(1)[of "chiefInfoList t" "getenv E" "Some number"]
  unfolding resetSignersLevel_def GetMinerAddress_def bindM_def Let_def modify_Status_def with_chiefs_def chiefs_ready_def
  by (auto split: option.splits prod.splits if_splits)

lemma LoadStatusFromChief_ok:
  assumes "LoadStatusFromChief E hash number t = (Inr (), t')"
  obtains cs where "GetStatus E hash number = Some cs"
    "map Address (Signers (Status t')) = SignerList cs" "Leaders (Status t') = LeaderList cs"
    "config_Period t' = config_Period t" "sigcache t' = sigcache t"
    "chiefs_ready (getenv E) t \<longrightarrow> chiefs_ready (getenv E) t'"
proof -
  obtain cs where cs: "GetStatus E hash number = Some cs" "length (SignerList cs) \<le> length (ScoreList cs)"
    using assms by (auto simp: LoadStatusFromChief_def Let_def split: if_splits option.splits)
  let ?sl = "map (\<lambda>(a, sc). \<lparr>Address = a, Score = big_Int64 sc\<rparr>) (zip (SignerList cs) (ScoreList cs))"
  obtain t1 where t1: "resetSignersLevel E hash number t1 = (Inr (), t')"
    "Signers (Status t1) = ?sl" "Leaders (Status t1) = LeaderList cs" "config_Period t1 = config_Period t"
    "sigcache t1 = sigcache t" "chiefInfoList t1 = chiefInfoList t"
    using assms cs
    by (auto simp: LoadStatusFromChief_def Let_def bindM_def modify_Status_def loadSigners_def split: if_splits)
  have "map Address ?sl = map fst (zip (SignerList cs) (ScoreList cs))"
    by (simp add: split_def)
  also have "\<dots> = SignerList cs" using cs(2) by (simp add: map_fst_zip_take)
  finally have "map Address ?sl = SignerList cs" .
  with that[OF cs(1)] resetSignersLevel_keeps[OF t1(1)] t1 show thesis
    by (simp add: chiefs_ready_def)
qed

section \<open>Block validation\<close>

lemma chiefs_ready_version:
  assumes "chiefs_ready env t" "chief100_start env \<le> n" "n < 2 ^ 63"
  shows "\<exists>c. fst (GetChiefInfo env (chiefInfoList t) (Some n)) = Some c \<and> Version c = ''1.0.0''"
  using IsSIP100Block_version[of env "chiefInfoList t" n] assms chief100_start_bounds[of env]
  by (simp add: chiefs_ready_def IsSIP100Block_start)

lemma with_chiefs_run:
  "with_chiefs f t = (Inr (fst (f (chiefInfoList t))), t\<lparr>chiefInfoList := snd (f (chiefInfoList t))\<rparr>)"
  by (simp add: with_chiefs_def split: prod.split)

lemma not_before_chief100:
  assumes "chiefs_ready env t" "chief100_start env < n"
  shows "\<not> fst (IsBeforeChief100block env (chiefInfoList t) n)"
  using assms
  by (auto simp: chiefs_ready_def chief_cache_ok_def IsBeforeChief100block_def beforechief100AddressList_def
      dest!: chief_literal_start_le)

lemma Number_Block_Header: "Number (header b) = Some n \<Longrightarrow> Number (Block_Header b) = Some n"
  by (simp add: Block_Header_def CopyHeader_def)

lemma big_Uint64_nonzero: "0 < n \<Longrightarrow> n < 2 ^ 64 \<Longrightarrow> big_Uint64 n \<noteq> 0"
  using uint_big_Uint64_id[of n] by (metis less_irrefl less_imp_le unsigned_0)

lemma bindM_InrE:
  assumes "bindM m k s = (Inr w, s'')" obtains v s' where "m s = (Inr v, s')" "k v s' = (Inr w, s'')"
  using assms by (auto simp: bindM_Inr_iff)

lemma ValidateBlock_trace:
  assumes "ValidateBlock E (Some p) b True t = (Inr (), t')" "Number (header b) = Some n" "3 < n" "n < 2 ^ 63"
  obtains t1 signer t2 before t3 t4 t5 t6 cnt where
    "LoadStatusFromChief E (Block_Hash (crypto E) p) n t = (Inr (), t1)"
    "ecrecover E (Block_Header b) t1 = (Inr signer, t2)"
    "with_chiefs (\<lambda>c. IsBeforeChief100block (getenv E) c n) t2 = (Inr before, t3)"
    "(if before then returnM ()
      else bindM (InTurnForVerifyDiffculty E n (ParentHash (Block_Header b)) signer) (\<lambda>difficulty.
        if Difficulty (Block_Header b) \<noteq> Some difficulty then errM errInvalidDifficulty else returnM ())) t3
      = (Inr (), t4)"
    "(if IsSIP100Block (getenv E) n then verifyVrfNum E (Block_Header p) (Block_Header b) else returnM ()) t4 = (Inr (), t5)"
    "validateSigner E (Some (Block_Header p)) (Block_Header b) signer t5 = (Inr True, t6)"
    "check_txs E (Block_Header b) n True 0 0 (transactions b) t6 = (Inr cnt, t')" "cnt \<noteq> 0"
    "transactions b \<noteq> []"
proof -
  have n: "big_Int64 n = n" "(n \<le> CHIEF_NUMBER) = False" using assms by (simp_all add: CHIEF_NUMBER_def)
  note r = assms(1)[unfolded ValidateBlock_def assms(2) on_big_simps n if_False Let_def if_True option.case]
  from r show thesis
  proof (elim bindM_InrE, goal_cases)
    case (1 v s' va s'a vb s'b vc s'c vd s'd ve s'e vf s'f)
    have vf: "vf = True" "s' = s'f" using 1(8) by (auto split: if_splits)
    obtain cnt where "check_txs E (Block_Header b) n True 0 0 (transactions b) s'f = (Inr cnt, t')"
      "cnt \<noteq> 0" "transactions b \<noteq> []"
      using 1(1) vf by (auto simp: bindM_Inr_iff split: if_splits)
    with that[of s'a vb s'b vc s'c s'd s'e s'f cnt] 1 vf show thesis by simp
  qed
qed

lemma seal_signer_not_zero:
  assumes "\<And>sh. Ecrecover (crypto E) sh (replicate 65 0) = None" "seal_signer E h = Inr signer"
  shows "\<not> zero_seal h" "extraSeal \<le> length (Extra h)"
proof -
  show len: "extraSeal \<le> length (Extra h)"
    using assms(2) by (auto simp: seal_signer_def split: if_splits)
  then have "length (seal_of h) = 65" by (simp add: seal_of_def extraSeal_def)
  with assms show "\<not> zero_seal h"
    by (auto simp: zero_seal_def seal_signer_def ecrecoverPubkey_def and_then_def split: if_splits sum.splits)
qed

lemma period_miner_signer:
  assumes "Number h = Some n" "big_Uint64 n \<noteq> 0" "cached_ok E h t" "arc_ok E"
    "\<And>sh. Ecrecover (crypto E) sh (replicate 65 0) = None" "seal_signer E h = Inr signer"
  shows "\<exists>t'. period_miner E h t = (Inr (Some signer), t') \<and> quiet E h t t'"
proof -
  obtain r t' where e: "ecrecover E h t = (r, t')" by fastforce
  with ecrecover_run[OF assms(1-4)] assms(6) have "r = Inr signer" "quiet E h t t'" by simp_all
  with e seal_signer_not_zero[OF assms(5,6)] show ?thesis
    by (simp add: period_miner_def attemptM_def)
qed

text \<open>A signer that passes is authorised and has waited for its rank.\<close>

lemma validateSigner_chief100:
  assumes run: "validateSigner E (Some ph) h signer t = (Inr True, t')"
    and n: "Number h = Some n" "chief100_start (getenv E) \<le> n" "n < 2 ^ 63"
    and st: "chiefs_ready (getenv E) t" "cached_ok E h t" "arc_ok E"
      "\<And>sh. Ecrecover (crypto E) sh (replicate 65 0) = None" "seal_signer E h = Inr signer"
    and sl: "Signers (Status t) \<noteq> []" "distinct (map Address (Signers (Status t)))"
  shows "authorised (Status t) n signer \<and> Coinbase h \<noteq> 0 \<and>
    (\<exists>k pt ht. rank (Status t) n signer = Some k \<and> Time ph = Some pt \<and> Time h = Some ht \<and>
       big_Uint64 pt + delay (config_Period t) k \<le> big_Uint64 ht)"
proof -
  have n3: "3 < n" "big_Int64 n = n" "big_Uint64 n \<noteq> 0" "0 \<le> n"
    using n chief100_start_bounds[of "getenv E"] big_Uint64_nonzero[of n] by auto
  have sip: "IsSIP002Block (getenv E) n" "IsSIP100Block (getenv E) n"
    using n(2) by (simp_all add: IsSIP002Block_chief100 IsSIP100Block_start)
  obtain period t1 pt ht where gp: "GetPeriod E h (Some (Signers (Status t))) t = (Inr period, t1)"
    and time: "Time ph = Some pt" "Time h = Some ht" "big_Uint64 pt + period \<le> big_Uint64 ht"
    and fin: "Coinbase h \<noteq> 0" "authorised (Status t1) n signer"
  proof -
    have c: "(n \<le> CHIEF_NUMBER) = False" using n3 by (simp add: CHIEF_NUMBER_def)
    note r = run[unfolded validateSigner_def n(1) on_big_simps Let_def n3(2) c if_False]
    from r show thesis
    proof (elim bindM_InrE, goal_cases)
      case (1 v s' va s'a)
      have v: "v = Signers (Status t)" "s' = t" using 1(1) by auto
      obtain period t1 where gp: "GetPeriod E h (Some (Signers (Status t))) t = (Inr period, t1)"
        and rest: "(on_big (Time ph) (\<lambda>pt. on_big (Time h) (\<lambda>ht.
            returnM (\<not> big_Uint64 pt + period > big_Uint64 ht))) :: bool tribe_m) t1 = (Inr va, s'a)"
        using 1(2) v sip by (auto elim!: bindM_InrE)
      from rest obtain pt ht where t: "Time ph = Some pt" "Time h = Some ht" "s'a = t1"
          "va = (\<not> big_Uint64 pt + period > big_Uint64 ht)"
        by (auto simp: on_big_Inr_iff)
      have "va" "Coinbase h \<noteq> 0" and auth: "authorised (Status t1) n signer"
        using 1(3) v sip t(3) sl(1) n3 quietMD[OF quiet_period(3)[OF n(1) n3(3) st(3)] st(2) gp]
        by (auto simp: bindM_def authorised_def fetchOnSigners_def go_rem_turn quiet_def list_ex_iff
            simp del: go_rem_pos split: if_splits option.splits)
      with that[OF gp t(1,2)] t(4) show thesis by simp
    qed
  qed
  note q = quietMD[OF quiet_period(3)[OF n(1) n3(3) st(3)] st(2) gp]
  obtain c where c: "fst (GetChiefInfo (getenv E) (chiefInfoList t) (Some n)) = Some c" "Version c = ''1.0.0''"
    using chiefs_ready_version[OF st(1) n(2,3)] by blast
  obtain t0 where w: "with_chiefs (\<lambda>c. GetChiefInfo (getenv E) c (Some n)) t = (Inr (Some c), t0)"
    using c(1) by (simp add: with_chiefs_run)
  have q0: "quiet E h t t0" by (rule quietMD[OF quiet_chiefs(1) st(2) w])
  then have st0: "Status t0 = Status t" "config_Period t0 = config_Period t" "cached_ok E h t0"
    using st(2) by (simp_all add: quiet_def)
  obtain t2 where pm: "period_miner E h t0 = (Inr (Some signer), t2)" "quiet E h t0 t2"
    using period_miner_signer[OF n(1) n3(3) st0(3) st(3-5)] by blast
  have st2: "Status t2 = Status t" "config_Period t2 = config_Period t"
    using pm(2) st0 by (simp_all add: quiet_def)
  obtain k where k: "rank (Status t) n signer = Some k"
    using rank_authorised[of "Status t" n signer] fin(2) q sl(1) unfolding quiet_def by metis
  have "GetPeriodChief100 E h (Some (Signers (Status t))) t0 = (Inr (delay (config_Period t2) k), t2)"
    by (rule GetPeriodChief100_rank[OF pm(1) n(1) n3(4) n(3)]) (use st2 sl k in auto)
  then have "period = delay (config_Period t) k"
    using gp w c(2) st2 n(1) by (simp add: GetPeriod_def)
  with k time fin q show ?thesis by (auto simp: quiet_def)
qed


lemma InTurnForVerifyDiffculty_chief100:
  assumes "chiefs_ready (getenv E) t" "chief100_start (getenv E) \<le> n" "n < 2 ^ 63"
  shows "fst (InTurnForVerifyDiffculty E n ph signer t)
    = Inr (inTurnForCalcDifficultyChief100 (Status t) n ph signer)"
  using chiefs_ready_version[OF assms]
  by (auto simp: InTurnForVerifyDiffculty_def bindM_def with_chiefs_run InTurnForVerifyDifficultyChief100_def)

definition is_chief_update :: "tribe_ext \<Rightarrow> int \<Rightarrow> Transaction \<Rightarrow> bool" where
  "is_chief_update E n tx \<longleftrightarrow>
    (case Recipient tx of None \<Rightarrow> False
     | Some to \<Rightarrow> isChiefAddressOnBlock (getenv E) n (chief_literal (getenv E)) to \<and> IsChiefUpdate (Payload tx))"

lemma is_chief_update_tx_run:
  assumes "chiefs_ready (getenv E) t"
  shows "fst (is_chief_update_tx E n tx t) = Inr (is_chief_update E n tx)"
  using assms
  by (auto simp: is_chief_update_tx_def is_chief_update_def bindM_def with_chiefs_run chiefs_ready_def chief_cache_ok_def
      IsChiefAddressOnBlock_def chiefAddressList_def isChiefAddressOnBlock_def split: option.split)

lemma check_txs_later:
  assumes "check_txs E h n True (Suc i) cnt txs t = (Inr c, t')" "chiefs_ready (getenv E) t" "cached_ok E h t"
  shows "c = cnt \<and> (\<forall>tx \<in> set txs. \<not> is_chief_update E n tx)"
  using assms
proof (induction txs arbitrary: i t)
  case (Cons tx txs)
  obtain r t1 where 1: "is_chief_update_tx E n tx t = (r, t1)" by fastforce
  with is_chief_update_tx_run[OF Cons.prems(2)] have r: "r = Inr (is_chief_update E n tx)" by (metis fst_conv)
  have q: "quiet E h t t1" by (rule quietMD[OF quiet_is_chief_update_tx Cons.prems(3) 1])
  show ?case
    using Cons.prems 1 r q Cons.IH[of "Suc i" t1] by (auto simp: quiet_def split: if_splits)
qed simp

lemma check_txs_first:
  assumes run: "check_txs E h n True 0 0 txs t = (Inr c, t')" "c \<noteq> 0" "txs \<noteq> []"
    and st: "chiefs_ready (getenv E) t" "cached_ok E h t" "arc_ok E" "Number h = Some n" "big_Uint64 n \<noteq> 0"
      "seal_signer E h = Inr signer"
  shows "is_chief_update E n (hd txs) \<and> GetFromByTx (crypto E) (hd txs) = Some signer \<and>
    (\<forall>tx \<in> set (tl txs). \<not> is_chief_update E n tx)"
proof -
  obtain tx rest where txs: "txs = tx # rest" using run(3) by (cases txs) auto
  obtain r t1 where 1: "is_chief_update_tx E n tx t = (r, t1)" by fastforce
  with is_chief_update_tx_run[OF st(1)] have r: "r = Inr (is_chief_update E n tx)" by (metis fst_conv)
  have q: "quiet E h t t1" by (rule quietMD[OF quiet_is_chief_update_tx st(2) 1])
  then have st1: "chiefs_ready (getenv E) t1" "cached_ok E h t1" using st by (simp_all add: quiet_def)
  show ?thesis
  proof (cases "is_chief_update E n tx")
    case False
    then have "check_txs E h n True 1 0 rest t1 = (Inr c, t')" using run(1) 1 r txs by simp
    with check_txs_later[of E h n 0 0 rest t1 c t'] st1 run(2) show ?thesis by simp
  next
    case True
    obtain t2 where e: "ecrecover E h t1 = (Inr signer, t2)" "quiet E h t1 t2"
      using ecrecover_run[OF st(4,5) st1(2) st(3)] st(6) by (metis prod.collapse)
    then have st2: "chiefs_ready (getenv E) t2" "cached_ok E h t2" using st1 by (simp_all add: quiet_def)
    have from1: "GetFromByTx (crypto E) tx = Some signer"
      using run(1) 1 r txs True e by (auto simp: bindM_Inr_iff split: if_splits)
    let ?m = "(if IsSIP100Block (getenv E) n then
        if length (Extra h) < 32 then panicM ''slice bounds out of range''
        else bindM (VerifyMiner E (ParentHash h) (BytesToAddress (drop 4 (Payload tx))) (take 32 (Extra h)))
          (\<lambda>ok. if ok then returnM () else errM errVerifyVolunteer)
      else returnM ()) :: unit tribe_m"
    obtain t3 where m: "?m t2 = (Inr (), t3)" "check_txs E h n True 1 1 rest t3 = (Inr c, t')"
      using run(1) 1 r txs True e from1 by (auto simp: bindM_Inr_iff)
    have "quietM E h ?m" by (intro quiet_intros)
    from quietMD[OF this st2(2) m(1)] m(2) check_txs_later[of E h n 0 1 rest t3 c t'] st2 show ?thesis
      using True from1 txs by (simp add: quiet_def)
  qed
qed

lemma ValidateBlock_chief100_signer:
  assumes run: "ValidateBlock E (Some p) b True t = (Inr (), t')"
    and n: "Number (header b) = Some n" "chief100_start (getenv E) < n" "n < 2 ^ 63"
    and st: "chiefs_ready (getenv E) t" "cached_ok E (Block_Header b) t" "arc_ok E"
      "\<And>sh. Ecrecover (crypto E) sh (replicate 65 0) = None"
    and cs: "GetStatus E (Block_Hash (crypto E) p) n = Some cs" "SignerList cs \<noteq> []" "distinct (SignerList cs)"
  obtains signer k pt ht where
    "map Address (Signers (Status t')) = SignerList cs" "Leaders (Status t') = LeaderList cs"
    "config_Period t' = config_Period t"
    "seal_signer E (Block_Header b) = Inr signer" "authorised (Status t') n signer"
    "rank (Status t') n signer = Some k" "Difficulty (Block_Header b) = Some (6 - int k)"
    "Time (Block_Header p) = Some pt" "Time (Block_Header b) = Some ht"
    "big_Uint64 pt + delay (config_Period t) k \<le> big_Uint64 ht" "Coinbase (Block_Header b) \<noteq> 0"
    "is_chief_update E n (hd (transactions b))" "GetFromByTx (crypto E) (hd (transactions b)) = Some signer"
    "\<forall>tx \<in> set (tl (transactions b)). \<not> is_chief_update E n tx"
proof -
  let ?h = "Block_Header b"
  have n3: "3 < n" "big_Uint64 n \<noteq> 0" "0 \<le> n" "chief100_start (getenv E) \<le> n"
    using n chief100_start_bounds[of "getenv E"] big_Uint64_nonzero[of n] by auto
  have hn: "Number ?h = Some n" by (rule Number_Block_Header[OF n(1)])
  obtain t1 signer t2 before t3 t4 t5 t6 cnt where tr:
    "LoadStatusFromChief E (Block_Hash (crypto E) p) n t = (Inr (), t1)"
    "ecrecover E ?h t1 = (Inr signer, t2)"
    "with_chiefs (\<lambda>c. IsBeforeChief100block (getenv E) c n) t2 = (Inr before, t3)"
    "(if before then returnM ()
      else bindM (InTurnForVerifyDiffculty E n (ParentHash ?h) signer) (\<lambda>difficulty.
        if Difficulty ?h \<noteq> Some difficulty then errM errInvalidDifficulty else returnM ())) t3 = (Inr (), t4)"
    "(if IsSIP100Block (getenv E) n then verifyVrfNum E (Block_Header p) ?h else returnM ()) t4 = (Inr (), t5)"
    "validateSigner E (Some (Block_Header p)) ?h signer t5 = (Inr True, t6)"
    "check_txs E ?h n True 0 0 (transactions b) t6 = (Inr cnt, t')" "cnt \<noteq> 0" "transactions b \<noteq> []"
    using ValidateBlock_trace[OF run n(1) n3(1) n(3)] .
  obtain cs' where "GetStatus E (Block_Hash (crypto E) p) n = Some cs'"
    and ld: "map Address (Signers (Status t1)) = SignerList cs'" "Leaders (Status t1) = LeaderList cs'"
      "config_Period t1 = config_Period t" "sigcache t1 = sigcache t"
      "chiefs_ready (getenv E) t \<longrightarrow> chiefs_ready (getenv E) t1"
    using LoadStatusFromChief_ok[OF tr(1)] .
  with cs(1) have cs': "cs' = cs" by simp
  have c1: "cached_ok E ?h t1" using st(2) ld(4) by (simp add: cached_ok_def)
  note q2 = quietMD[OF quiet_ecrecover[OF hn n3(2) st(3)] c1 tr(2)]
  have ss: "seal_signer E ?h = Inr signer"
    using ecrecover_run[OF hn n3(2) c1 st(3)] tr(2) by simp
  have c2: "cached_ok E ?h t2" using q2 c1 by (simp add: quiet_def)
  note q3 = quietMD[OF quiet_chiefs(2) c2 tr(3)]
  have c3: "cached_ok E ?h t3" "chiefs_ready (getenv E) t2" "chiefs_ready (getenv E) t3"
    using q2 q3 c2 ld(5) st(1) by (simp_all add: quiet_def)
  have nb: "before = False"
    using not_before_chief100[OF c3(2) n(2)] tr(3) by (simp add: with_chiefs_run)
  have d: "Difficulty ?h = Some (inTurnForCalcDifficultyChief100 (Status t3) n (ParentHash ?h) signer)"
    using tr(4) nb InTurnForVerifyDiffculty_chief100[OF c3(3) n3(4) n(3), of "ParentHash ?h" signer]
    by (auto simp: bindM_Inr_iff split: if_splits)
  have "quietM E ?h (if before then returnM ()
      else bindM (InTurnForVerifyDiffculty E n (ParentHash ?h) signer) (\<lambda>difficulty.
        if Difficulty ?h \<noteq> Some difficulty then errM errInvalidDifficulty else returnM ()))"
    by (intro quiet_intros)
  note q4 = quietMD[OF this c3(1) tr(4)]
  have c4: "cached_ok E ?h t4" using q4 c3 by (simp add: quiet_def)
  have "quietM E ?h (if IsSIP100Block (getenv E) n then verifyVrfNum E (Block_Header p) ?h else returnM ())"
    by (intro quiet_intros)
  note q5 = quietMD[OF this c4 tr(5)]
  have c5: "cached_ok E ?h t5" using q5 c4 by (simp add: quiet_def)
  note q6 = quietMD[OF quiet_validateSigner[OF hn n3(2) st(3)] c5 tr(6)]
  have c6: "cached_ok E ?h t6" using q6 c5 by (simp add: quiet_def)
  note q7 = quietMD[OF quiet_check_txs[OF hn n3(2) st(3)] c6 tr(7)]
  have all: "Status t' = Status t1" "Status t5 = Status t1" "Status t3 = Status t1" "config_Period t5 = config_Period t"
    "config_Period t' = config_Period t" "chiefs_ready (getenv E) t5" "chiefs_ready (getenv E) t6"
    using q2 q3 q4 q5 q6 q7 ld st(1) by (auto simp: quiet_def)
  have sl: "Signers (Status t5) \<noteq> []" "distinct (map Address (Signers (Status t5)))"
    using all ld(1) cs' cs(2,3) by auto
  from validateSigner_chief100[OF tr(6) hn n3(4) n(3) all(6) c5 st(3,4) ss sl]
  obtain k pt ht where v: "authorised (Status t5) n signer" "Coinbase ?h \<noteq> 0" "rank (Status t5) n signer = Some k"
    "Time (Block_Header p) = Some pt" "Time ?h = Some ht"
    "big_Uint64 pt + delay (config_Period t5) k \<le> big_Uint64 ht" by blast
  have dk: "Difficulty ?h = Some (6 - int k)"
    using d difficulty_rank[OF sl(1) n3(3) v(3)] all by (simp add: diff_def)
  from check_txs_first[OF tr(7,8,9) all(7) c6 st(3) hn n3(2) ss]
  show thesis using that[of signer k pt ht] ld all cs' v dk ss by simp
qed

section \<open>A concrete round\<close>

text \<open>
  An environment for the witnesses: a main network node, a hash with one value, a recovery that
  accepts every non-zero signature, and one signer who is also the only leader.
\<close>

definition wit_crypto :: crypto_lib where
  "wit_crypto = \<lparr>Keccak256 = (\<lambda>_. 5), Ecrecover = (\<lambda>h sig. if sig = replicate 65 0 then None else Some [4, 1]),
     crypto_Sign = (\<lambda>h key. Some (replicate 31 0 @ [1] @ replicate 31 0 @ [1, 0])), FromECDSAPub = (\<lambda>_. [4, 1])\<rparr>"

definition wit_status :: ChiefStatus where
  "wit_status = \<lparr>LeaderList = [5], SignerList = [5], BlackList = [], ScoreList = [3], ChiefNumber = 2823366,
     ChiefEpoch = None, ChiefLeaderLimit = None, ChiefSignerLimit = None\<rparr>"

definition wit_ext :: tribe_ext where
  "wit_ext = \<lparr>getenv = (\<lambda>_. ''''), unix_now = 1000, crypto = wit_crypto, SimpleVRFVerify = (\<lambda>_ _ _. True),
     SimpleVRF2Bytes = (\<lambda>_ _. Some (replicate 161 1)), GetStatus = (\<lambda>_ _. Some wit_status),
     FilterVolunteer = (\<lambda>_ _ _. None), VerifyMinerService = (\<lambda>_ _ _. True), NextRoundSigner = (\<lambda>_ _ _. 5),
     BindInfo = (\<lambda>_ _. None), arc_Add = (\<lambda>m k a. m(k \<mapsto> a))\<rparr>"

definition wit_engine :: TribeEngine where
  "wit_engine = (New 15 (Some (chief_literal (\<lambda>_. ''''))))\<lparr>Status := NewTribeStatus\<lparr>nodeKey := Some 1\<rparr>\<rparr>"

definition wit_header :: "int \<Rightarrow> int \<Rightarrow> Header" where
  "wit_header n time = \<lparr>ParentHash = 5, UncleHash = 5, Coinbase = 5, Root = 0, TxHash = 0, ReceiptHash = 0, Bloom = 0,
     Difficulty = Some 6, Number = Some n, GasLimit = Some 50000000, GasUsed = Some 0, Time = Some time,
     Extra = replicate 226 1, MixDigest = 0, Nonce = 0\<rparr>"

definition wit_tx :: Transaction where
  "wit_tx = (newTransaction 0 (Some (Chief100Address MainnetChainConfig)) 0 chiefGasLimit chiefGasPrice
     (chief_update_payload 5))\<lparr>tx_V := 27, tx_R := 1, tx_S := 1\<rparr>"

definition wit_parent :: Block where
  "wit_parent = \<lparr>header = wit_header 2823366 100, uncles = [], transactions = []\<rparr>"

definition wit_block :: Block where
  "wit_block = \<lparr>header = wit_header 2823367 200, uncles = [], transactions = [wit_tx]\<rparr>"

lemma Encode_encodable: "rlp_encodable v \<Longrightarrow> \<exists>bs. Encode v = Inr bs"
  using rlp_write_outcome[of v encbuf_reset] by (auto simp: Encode_def)

lemma wit_crypto_sel [simp]:
  "Keccak256 wit_crypto bs = 5" "FromECDSAPub wit_crypto k = [4, 1]"
  "Ecrecover wit_crypto h sig = (if sig = replicate 65 0 then None else Some [4, 1])"
  by (simp_all add: wit_crypto_def)

lemma wit_ext_sel [simp]:
  "getenv wit_ext = (\<lambda>_. '''')" "crypto wit_ext = wit_crypto" "GetStatus wit_ext h n = Some wit_status"
  "SimpleVRFVerify wit_ext pk msg np = True" "VerifyMinerService wit_ext h a v = True"
  "arc_Add wit_ext m k a = m(k \<mapsto> a)"
  by (simp_all add: wit_ext_def)

lemma wit_Header_Hash [simp]: "Header_Hash wit_crypto h = 5"
  by (simp add: Header_Hash_def rlpHash_def)

lemma wit_header_encodable: "0 \<le> n \<Longrightarrow> 0 \<le> time \<Longrightarrow> rlp_encodable (header_rlp (wit_header n time) extra)"
  by (simp add: header_rlp_def wit_header_def)

lemma CopyHeader_wit [simp]: "CopyHeader (wit_header n time) = wit_header n time"
  by (simp add: CopyHeader_def wit_header_def)

lemma wit_ecrecoverPubkey:
  assumes "0 \<le> n" "0 \<le> time" "sig \<noteq> replicate 65 0"
  shows "ecrecoverPubkey wit_ext (wit_header n time) sig = Inr [4, 1]"
proof -
  have "\<exists>bs. Encode (header_rlp (wit_header n time) (take (length (Extra (wit_header n time)) - 65)
      (Extra (wit_header n time)))) = Inr bs"
    using wit_header_encodable[OF assms(1,2)] by (rule Encode_encodable)
  then show ?thesis
    using assms(3) by (auto simp: ecrecoverPubkey_def sigHash_def) (simp_all add: wit_header_def)
qed

lemma wit_seal: "seal_of (wit_header n time) = replicate 65 1"
  by (simp add: seal_of_def wit_header_def extraSeal_def)

lemma replicate_one_zero: "replicate 65 (1 :: byte) \<noteq> replicate 65 0"
  by (simp add: replicate_eq_replicate)

lemma wit_seal_signer:
  assumes "0 \<le> n" "0 \<le> time"
  shows "seal_signer wit_ext (wit_header n time) = Inr 5"
  using wit_ecrecoverPubkey[OF assms replicate_one_zero]
  by (simp add: seal_signer_def wit_seal pubkey_address_def) (simp add: wit_header_def extraSeal_def)

lemma wit_arc_ok: "arc_ok wit_ext"
  by (simp add: arc_ok_def)

lemma wit_cached_ok: "cached_ok wit_ext h wit_engine"
  by (simp add: cached_ok_def wit_engine_def New_def)

lemma wit_ready: "chiefs_ready (getenv wit_ext) wit_engine"
  by (simp add: chiefs_ready_def wit_engine_def New_def chief_cache_ok_def)

lemma wit_env: "chief100_start (\<lambda>_. '''') = 2823366" "IsSIP100Block (\<lambda>_. '''') n \<longleftrightarrow> 2823366 \<le> n"
  by (simp_all add: IsSIP100Block_start chief100_start_def IsTestnet_def IsDevnet_def)


lemma wit_header_sel [simp]:
  "Number (wit_header n time) = Some n" "Time (wit_header n time) = Some time"
  "Difficulty (wit_header n time) = Some 6" "Coinbase (wit_header n time) = 5" "ParentHash (wit_header n time) = 5"
  "length (Extra (wit_header n time)) = 226"
  by (simp_all add: wit_header_def)

lemma wit_LoadStatus:
  "LoadStatusFromChief wit_ext 5 2823367 wit_engine =
     (Inr (), wit_engine\<lparr>Status := (Status wit_engine)\<lparr>Signers := [\<lparr>Address = 5, Score = 3\<rparr>], Leaders := [5],
        StatusLevel := LevelSigner, StatusNumber := 2823366\<rparr>\<rparr>)"
  by (simp add: LoadStatusFromChief_def wit_status_def bindM_def modify_Status_def loadSigners_def
      resetSignersLevel_def GetMinerAddress_def wit_engine_def New_def NewTribeStatus_def PubkeyToAddress_def pubkey_address_def)

lemma wit_ecrecover:
  assumes "0 < n" "n < 2 ^ 63" "0 \<le> time" "cached_ok wit_ext (wit_header n time) t"
  shows "\<exists>t'. ecrecover wit_ext (wit_header n time) t = (Inr 5, t') \<and> quiet wit_ext (wit_header n time) t t'"
proof -
  have "big_Uint64 n \<noteq> 0" using assms by (intro big_Uint64_nonzero) simp_all
  then have "fst (ecrecover wit_ext (wit_header n time) t) = Inr 5 \<and>
      quiet wit_ext (wit_header n time) t (snd (ecrecover wit_ext (wit_header n time) t))"
    using ecrecover_run[of "wit_header n time" n wit_ext t] assms wit_arc_ok wit_seal_signer[of n time] by simp
  then show ?thesis by (metis prod.collapse)
qed

text \<open>The block of the example is accepted.\<close>

lemma wit_rank:
  assumes "Signers st = [\<lparr>Address = 5, Score = 3\<rparr>]"
  shows "rank st n 5 = Some 0" "authorised st n 5"
  using assms by (simp_all add: rank_def authorised_def turn_def)

lemma validateSigner_accepts:
  assumes n: "Number h = Some n" "chief100_start (getenv E) \<le> n" "n < 2 ^ 63"
    and st: "chiefs_ready (getenv E) t" "cached_ok E h t" "arc_ok E"
      "\<And>sh. Ecrecover (crypto E) sh (replicate 65 0) = None" "seal_signer E h = Inr signer"
    and sl: "Signers (Status t) \<noteq> []" "distinct (map Address (Signers (Status t)))"
    and ok: "authorised (Status t) n signer" "rank (Status t) n signer = Some k" "Coinbase h \<noteq> 0"
      "Time ph = Some pt" "Time h = Some ht" "big_Uint64 pt + delay (config_Period t) k \<le> big_Uint64 ht"
  shows "\<exists>t'. validateSigner E (Some ph) h signer t = (Inr True, t') \<and> quiet E h t t'"
proof -
  have n3: "\<not> n \<le> CHIEF_NUMBER" "big_Int64 n = n" "big_Uint64 n \<noteq> 0" "0 \<le> n"
    using n chief100_start_bounds[of "getenv E"] big_Uint64_nonzero[of n] by (auto simp: CHIEF_NUMBER_def)
  have sip: "IsSIP002Block (getenv E) n" "IsSIP100Block (getenv E) n"
    using n(2) by (simp_all add: IsSIP002Block_chief100 IsSIP100Block_start)
  obtain c where c: "fst (GetChiefInfo (getenv E) (chiefInfoList t) (Some n)) = Some c" "Version c = ''1.0.0''"
    using chiefs_ready_version[OF st(1) n(2,3)] by blast
  obtain t0 where w: "with_chiefs (\<lambda>c. GetChiefInfo (getenv E) c (Some n)) t = (Inr (Some c), t0)"
    using c(1) by (simp add: with_chiefs_run)
  have q0: "quiet E h t t0" by (rule quietMD[OF quiet_chiefs(1) st(2) w])
  then have st0: "Status t0 = Status t" "cached_ok E h t0" "config_Period t0 = config_Period t"
    using st(2) by (simp_all add: quiet_def)
  obtain t2 where pm: "period_miner E h t0 = (Inr (Some signer), t2)" "quiet E h t0 t2"
    using period_miner_signer[OF n(1) n3(3) st0(2) st(3-5)] by blast
  then have st2: "Status t2 = Status t" "config_Period t2 = config_Period t" using st0 by (simp_all add: quiet_def)
  have "GetPeriodChief100 E h (Some (Signers (Status t))) t0 = (Inr (delay (config_Period t2) k), t2)"
    by (rule GetPeriodChief100_rank[OF pm(1) n(1) n3(4) n(3)]) (use st2 sl ok in auto)
  then have gp: "GetPeriod E h (Some (Signers (Status t))) t = (Inr (delay (config_Period t) k), t2)"
    using w c(2) st2 n(1) by (simp add: GetPeriod_def)
  have "validateSigner E (Some ph) h signer t = (Inr True, t2)"
    using n(1) n3 sip gp ok st2 sl(1)
    by (auto simp: validateSigner_def bindM_def authorised_def fetchOnSigners_def go_rem_turn list_ex_iff not_less
        simp del: go_rem_pos split: option.splits)
  then show ?thesis using quiet_trans[OF q0 pm(2)] by blast
qed

lemma wit_is_chief_update: "is_chief_update wit_ext 2823367 wit_tx"
  by (simp add: is_chief_update_def wit_tx_def newTransaction_def isChiefAddressOnBlock_def wit_env chief_literal_def
      IsTestnet_def IsDevnet_def IsChiefUpdate_def chief_update_payload_def)
     (simp add: config_defs)

lemma wit_from: "GetFromByTx wit_crypto wit_tx = Some 5"
  by (simp add: GetFromByTx_def wit_tx_def newTransaction_def deriveSigner_def isProtectedV_def bitlen_le_def big_Uint64_def
      Signer_Sender_def recoverPlain_def ValidateSignatureValues_def secp256k1_N_def secp256k1_halfN_def pubkey_address_def
      pad32_def big_Bytes_def be_bytes_nat.simps)
     (auto dest!: arg_cong[of _ _ set])

lemma wit_verifyVrfNum:
  "verifyVrfNum wit_ext (wit_header 2823366 100) (wit_header 2823367 200) t = (Inr (), t)"
  using wit_ecrecoverPubkey[of 2823367 200 "replicate 65 1"] replicate_one_zero
  by (simp add: verifyVrfNum_def wit_seal extraVanityFn_def wit_env extraSeal_def bindM_def)

lemma wit_check_txs:
  assumes "chiefs_ready (getenv wit_ext) t" "cached_ok wit_ext (wit_header 2823367 200) t"
  shows "\<exists>t'. check_txs wit_ext (wit_header 2823367 200) 2823367 True 0 0 [wit_tx] t = (Inr 1, t')"
proof -
  let ?h = "wit_header 2823367 200"
  obtain r t1 where 1: "is_chief_update_tx wit_ext 2823367 wit_tx t = (r, t1)" by fastforce
  with is_chief_update_tx_run[OF assms(1), of 2823367 wit_tx] wit_is_chief_update have r: "r = Inr True" by simp
  have "cached_ok wit_ext ?h t1"
    using quietMD[OF quiet_is_chief_update_tx assms(2) 1] assms(2) by (simp add: quiet_def)
  then obtain t2 where "ecrecover wit_ext ?h t1 = (Inr 5, t2)"
    using wit_ecrecover[of 2823367 200 t1] by auto
  with 1 r show ?thesis
    by (simp add: wit_from wit_env VerifyMiner_def bindM_def)
qed

lemma wit_accept: "\<exists>t'. ValidateBlock wit_ext (Some wit_parent) wit_block True wit_engine = (Inr (), t')"
proof -
  let ?h = "wit_header 2823367 200"
  let ?t1 = "wit_engine\<lparr>Status := (Status wit_engine)\<lparr>Signers := [\<lparr>Address = 5, Score = 3\<rparr>], Leaders := [5],
        StatusLevel := LevelSigner, StatusNumber := 2823366\<rparr>\<rparr>"
  have c1: "cached_ok wit_ext ?h ?t1" "chiefs_ready (getenv wit_ext) ?t1"
    using wit_cached_ok[of ?h] wit_ready by (simp_all add: cached_ok_def chiefs_ready_def)
  obtain t2 where e: "ecrecover wit_ext ?h ?t1 = (Inr 5, t2)" "quiet wit_ext ?h ?t1 t2"
    using wit_ecrecover[of 2823367 200 ?t1] c1 by auto
  then have c2: "cached_ok wit_ext ?h t2" "chiefs_ready (getenv wit_ext) t2" using c1 by (simp_all add: quiet_def)
  obtain r t3 where b: "with_chiefs (\<lambda>c. IsBeforeChief100block (\<lambda>_. '''') c 2823367) t2 = (Inr r, t3)"
    by (simp add: with_chiefs_run)
  have r: "\<not> r" using b not_before_chief100[OF c2(2), of 2823367] by (simp add: with_chiefs_run wit_env)
  have q3: "quiet wit_ext ?h t2 t3"
    using quietMD[OF quiet_chiefs(2)[of wit_ext ?h 2823367] c2(1)] b by simp
  then have c3: "cached_ok wit_ext ?h t3" "chiefs_ready (getenv wit_ext) t3" "Status t3 = Status ?t1"
    using c2 e(2) by (simp_all add: quiet_def)
  obtain d t4 where i: "InTurnForVerifyDiffculty wit_ext 2823367 5 5 t3 = (d, t4)" by fastforce
  have d: "d = Inr 6"
    using InTurnForVerifyDiffculty_chief100[OF c3(2), of 2823367 5 5] i c3(3)
      difficulty_rank[of "Status t3" 2823367 5 0 5] wit_rank(1)[of "Status t3" 2823367]
    by (simp add: wit_env diff_def)
  have q4: "quiet wit_ext ?h t3 t4" by (rule quietMD[OF quiet_InTurnForVerifyDiffculty c3(1) i])
  then have c4: "cached_ok wit_ext ?h t4" "chiefs_ready (getenv wit_ext) t4" "Status t4 = Status ?t1"
      "config_Period t4 = 15"
    using c3 q3 e(2) by (simp_all add: quiet_def wit_engine_def New_def)
  obtain t5 where v: "validateSigner wit_ext (Some (wit_header 2823366 100)) ?h 5 t4 = (Inr True, t5)"
      "quiet wit_ext ?h t4 t5"
    using validateSigner_accepts[of ?h 2823367 wit_ext t4 5 0 "wit_header 2823366 100" 100 200] c4
      wit_arc_ok wit_seal_signer[of 2823367 200] wit_rank[of "Status t4" 2823367]
    by (auto simp: wit_env delay_def big_Uint64_def word_le_nat_alt)
  then have c5: "cached_ok wit_ext ?h t5" "chiefs_ready (getenv wit_ext) t5" using c4 by (simp_all add: quiet_def)
  obtain t6 where "check_txs wit_ext ?h 2823367 True 0 0 [wit_tx] t5 = (Inr 1, t6)"
    using wit_check_txs[OF c5(2,1)] by blast
  then show ?thesis
    using wit_LoadStatus e b r i d v
    by (simp add: ValidateBlock_def wit_block_def wit_parent_def Block_Header_def Block_Hash_def CHIEF_NUMBER_def
        Let_def bindM_def wit_env wit_verifyVrfNum)
qed

section \<open>Properties\<close>



text \<open>
  C6: no two miners that may seal the block of a height have the same difficulty, so the
  difficulty of an accepted block identifies its signer and the heaviest fork is unique.\<close>

theorem authorised_difficulty_inj:
  assumes "Signers st \<noteq> []" "0 \<le> n" "authorised st n a" "authorised st n b"
    and "inTurnForCalcDifficultyChief100 st n ph a = inTurnForCalcDifficultyChief100 st n ph b"
  shows "a = b"
proof -
  obtain j k where jk: "rank st n a = Some j" "rank st n b = Some k"
    using rank_authorised[OF assms(3,1)] rank_authorised[OF assms(4,1)] by blast
  then have "j = k" using assms(5) by (simp add: difficulty_rank[OF assms(1,2)])
  with jk show ?thesis using rank_inj[OF assms(1)] by blast
qed

definition wit_round :: TribeStatus where
  "wit_round = NewTribeStatus\<lparr>Signers := [\<lparr>Address = 11, Score = 3\<rparr>, \<lparr>Address = 20, Score = 3\<rparr>],
     Leaders := [10, 11, 12]\<rparr>"

theorem authorised_difficulty_inj_witness:
  "authorised wit_round 3 20 \<and> authorised wit_round 3 12 \<and>
   inTurnForCalcDifficultyChief100 wit_round 3 0 20 \<noteq> inTurnForCalcDifficultyChief100 wit_round 3 0 12"
proof -
  have "authorised wit_round 3 20" "authorised wit_round 3 12" "Signers wit_round \<noteq> []"
    by (simp_all add: authorised_def wit_round_def turn_def)
  with authorised_difficulty_inj[of wit_round 3 20 12 0] show ?thesis by auto
qed

text \<open>
  C19: with at most five leaders, the signer in position 0 being one of them, every authorised
  miner has a difficulty between 1 and 6, and 6 belongs to the signer in turn alone.\<close>

theorem authorised_difficulty_range:
  assumes "Signers st \<noteq> []" "0 \<le> n" "length (Leaders st) \<le> 5" "Address (Signers st ! 0) \<in> set (Leaders st)"
    and "authorised st n a"
  shows "1 \<le> inTurnForCalcDifficultyChief100 st n ph a \<and> inTurnForCalcDifficultyChief100 st n ph a \<le> 6 \<and>
    (inTurnForCalcDifficultyChief100 st n ph a = 6 \<longrightarrow> a = Address (Signers st ! turn st n))"
proof -
  obtain k where k: "rank st n a = Some k" using rank_authorised[OF assms(5,1)] by blast
  have "k \<le> 5" using rank_bound[OF k assms(4)] assms(3) by simp
  moreover have "a = Address (Signers st ! turn st n)" if "k = 0"
    using k that turn_less[OF assms(1)] by (auto simp: rank_def split: option.splits if_splits dest!: index_of_SomeD)
  ultimately show ?thesis by (auto simp: difficulty_rank[OF assms(1,2) k] diff_def)
qed

theorem authorised_difficulty_range_witness:
  "1 \<le> inTurnForCalcDifficultyChief100 wit_round 3 0 10 \<and> inTurnForCalcDifficultyChief100 wit_round 3 0 10 \<le> 6"
  using authorised_difficulty_range[of wit_round 3 10 0]
  by (simp add: authorised_def wit_round_def turn_def)

definition removed_leader_round :: TribeStatus where
  "removed_leader_round = NewTribeStatus\<lparr>Signers := [\<lparr>Address = 1, Score = 3\<rparr>, \<lparr>Address = 20, Score = 3\<rparr>],
     Leaders := [10, 11, 12, 13, 14]\<rparr>"








end
