(* ===== verification/Tribe_Chain.thy ===== *)
theory Tribe_Chain
imports Tribe_Schedule
begin

text \<open>
  What the consensus engine guarantees about blocks and chains of headers: a block that \<^verbatim>\<open>Seal\<close> returns
  carries a seal from which the node's own address is recovered, a batch of headers that
  \<^verbatim>\<open>VerifyHeaders\<close> accepts is linked header by header (\<open>follows\<close>), and the difficulty test of
  \<^verbatim>\<open>verifyHeader\<close> depends on what the process did before. The sources are
  \<^verbatim>\<open>consensus/tribe/tribe.go\<close> and \<^verbatim>\<open>consensus/tribe/status.go\<close>.\<close>

section \<open>Sealing\<close>

section \<open>Sealing\<close>

lemma sigHash_seal:
  assumes "length (Extra h) \<ge> 65" "length sig = 65"
  shows "sigHash E (h\<lparr>Extra := take (length (Extra h) - 65) (Extra h) @ sig\<rparr>) = sigHash E h"
  using assms by (simp add: sigHash_def header_rlp_def)

lemma seal_signer_signed:
  assumes "crypto_ok (crypto E)" "sigHash E h = Inr sh" "crypto_Sign (crypto E) sh key = Some sig"
  shows "seal_signer E (h\<lparr>Extra := take (length (Extra h) - 65) (Extra h) @ sig\<rparr>)
    = Inr (PubkeyToAddress (crypto E) key)"
proof -
  have len: "65 \<le> length (Extra h)" using assms(2) by (auto simp: sigHash_def split: if_splits)
  have sig: "length sig = 65" "Ecrecover (crypto E) sh sig = Some (FromECDSAPub (crypto E) key)"
    "FromECDSAPub (crypto E) key \<noteq> []"
    using assms(1,3) unfolding crypto_ok_def by blast+
  let ?h = "h\<lparr>Extra := take (length (Extra h) - 65) (Extra h) @ sig\<rparr>"
  have "seal_of ?h = sig" "length (Extra ?h) = length (Extra h)"
    using len sig(1) by (simp_all add: seal_of_def extraSeal_def)
  with sig assms(2) len sigHash_seal[OF len sig(1), of E] show ?thesis
    by (simp add: seal_signer_def ecrecoverPubkey_def PubkeyToAddress_def extraSeal_def)
qed

lemma quiet_check_txs_unchecked:
  "quietM E h (check_txs E h' number False i cnt txs)"
proof (induction txs arbitrary: i cnt)
  case Nil
  show ?case unfolding check_txs.simps by (intro quiet_intros)
next
  case (Cons tx txs)
  show ?case unfolding check_txs.simps if_False by (intro quiet_intros Cons.IH)
qed

lemma quiet_ValidateBlock_unchecked: "quietM E h (ValidateBlock E p b False)"
  unfolding ValidateBlock_def Let_def if_False by (intro quiet_intros quiet_check_txs_unchecked)

lemma Seal_trace:
  assumes run: "Seal E chain False b t = (Inr (Some b'), t')"
    and n: "Number (header b) = Some n" "n < 2 ^ 63" and st: "arc_ok E" "cached_ok E (Block_Header b) t"
  obtains sh key sig where "sigHash E (Block_Header b) = Inr sh" "nodeKey (Status t) = Some key"
    "crypto_Sign (crypto E) sh key = Some sig"
    "b' = WithSeal b ((Block_Header b)\<lparr>Extra := take (length (Extra (Block_Header b)) - extraSeal) (Extra (Block_Header b))
        @ take extraSeal sig @ drop (length sig) (seal_of (Block_Header b))\<rparr>)"
proof -
  have n3: "(n \<le> CHIEF_NUMBER) = False"
    using run n(1) by (auto simp: Seal_def split: if_splits)
  then have n0: "big_Uint64 n \<noteq> 0" using n(2) by (intro big_Uint64_nonzero) (simp_all add: CHIEF_NUMBER_def)
  note hn = Number_Block_Header[OF n(1)]
  note r = run[unfolded Seal_def n(1) on_big_simps n3 if_False Let_def]
  from r show thesis
  proof (elim bindM_InrE, goal_cases)
    case (1 u t1)
    have q1: "quiet E (Block_Header b) t t1" by (rule quietMD[OF quiet_ValidateBlock_unchecked st(2) 1(1)])
    then have c1: "cached_ok E (Block_Header b) t1" using st(2) by (simp add: quiet_def)
    have tx: "(length (transactions b) = 0) = False" using 1(2) by (cases "transactions b = []") simp_all
    from 1(2)[unfolded tx if_False] show thesis
    proof (elim bindM_InrE, goal_cases)
      case (1 miner t2 ok t3)
      have q2: "quiet E (Block_Header b) t1 t2" by (rule quietMD[OF quiet_basic(6) c1 1(1)])
      then have c2: "cached_ok E (Block_Header b) t2" using c1 by (simp add: quiet_def)
      have q3: "quiet E (Block_Header b) t2 t3"
        by (rule quietMD[OF quiet_validateSigner[OF hn n0 st(1)] c2 1(2)])
      have "nodeKey (Status t3) = nodeKey (Status t)" using q1 q2 q3 by (simp add: quiet_def)
      with 1(3) that show thesis
        by (auto simp: bindM_def split: if_splits sum.splits option.splits)
    qed
  qed
qed

text \<open>
  C3: a block sealed by this node carries this node's signature. \<^verbatim>\<open>Seal\<close> changes nothing but the last 65
  bytes of the extra data, the hash that was signed does not depend on them, and recovering the signer from
  the sealed header gives the address of the node key.\<close>

theorem Seal_signed:
  assumes "Seal E chain False b t = (Inr (Some b'), t')"
    and "Number (header b) = Some n" "n < 2 ^ 63"
    and "arc_ok E" "cached_ok E (Block_Header b) t" "crypto_ok (crypto E)" "nodeKey (Status t) = Some key"
  shows "transactions b' = transactions b \<and> uncles b' = uncles b \<and>
    (header b')\<lparr>Extra := Extra (Block_Header b)\<rparr> = Block_Header b \<and>
    length (Extra (header b')) = length (Extra (Block_Header b)) \<and>
    sigHash E (header b') = sigHash E (Block_Header b) \<and>
    seal_signer E (header b') = Inr (PubkeyToAddress (crypto E) key)"
proof -
  let ?h = "Block_Header b"
  obtain sh sig where s: "sigHash E ?h = Inr sh" "crypto_Sign (crypto E) sh key = Some sig"
    "b' = WithSeal b (?h\<lparr>Extra := take (length (Extra ?h) - extraSeal) (Extra ?h)
        @ take extraSeal sig @ drop (length sig) (seal_of ?h)\<rparr>)"
    using Seal_trace[OF assms(1-5)] assms(7) by (metis option.inject)
  have len: "65 \<le> length (Extra ?h)" using s(1) by (auto simp: sigHash_def split: if_splits)
  have sig: "length sig = 65" using s(2) assms(6) by (simp add: crypto_ok_def)
  then have "header b' = ?h\<lparr>Extra := take (length (Extra ?h) - 65) (Extra ?h) @ sig\<rparr>"
    using s(3) len by (simp add: WithSeal_def extraSeal_def seal_of_def)
  with s len sig seal_signer_signed[OF assms(6) s(1,2)] sigHash_seal[OF len sig, of E] show ?thesis
    by (simp add: WithSeal_def)
qed

definition wit_chain :: chain_reader where
  "wit_chain = \<lparr>chain_Config = MainnetChainConfig, CurrentHeader = wit_header 2823366 100,
     GetHeader = (\<lambda>_ _. Some (wit_header 2823366 100)), GetHeaderByHash = (\<lambda>_. Some (wit_header 2823366 100)),
     GetBlock = (\<lambda>_ _. Some wit_parent)\<rparr>"

definition wit_loaded :: TribeEngine where
  "wit_loaded = wit_engine\<lparr>Status := (Status wit_engine)\<lparr>Signers := [\<lparr>Address = 5, Score = 3\<rparr>], Leaders := [5]\<rparr>\<rparr>"

lemma wit_crypto_ok: "crypto_ok wit_crypto"
proof -
  have "replicate 31 (0 :: byte) @ 1 # replicate 31 0 @ [1, 0] \<noteq> replicate 65 0"
    by (auto dest!: arg_cong[of _ _ set])
  then show ?thesis
    by (auto simp: crypto_ok_def wit_crypto_def ValidateSignatureValues_def secp256k1_N_def secp256k1_halfN_def
        be_int_def nth_append numeral_eq_Suc)
qed

lemma wit_sigHash:
  assumes "0 \<le> n" "0 \<le> time" shows "sigHash wit_ext (wit_header n time) = Inr 5"
  using Encode_encodable[OF wit_header_encodable[OF assms, of "take 161 (Extra (wit_header n time))"]]
  by (auto simp: sigHash_def)

lemma wit_Seal: "\<exists>b' t'. Seal wit_ext wit_chain False wit_block wit_loaded = (Inr (Some b'), t')"
proof -
  let ?h = "wit_header 2823367 200"
  have c0: "cached_ok wit_ext ?h wit_loaded" "chiefs_ready (getenv wit_ext) wit_loaded"
    using wit_cached_ok[of ?h] wit_ready by (simp_all add: cached_ok_def chiefs_ready_def wit_loaded_def)
  obtain r t1 where 1: "is_chief_update_tx wit_ext 2823367 wit_tx wit_loaded = (r, t1)" by fastforce
  with is_chief_update_tx_run[OF c0(2), of 2823367 wit_tx] wit_is_chief_update have r: "r = Inr True" by simp
  note q = quietMD[OF quiet_is_chief_update_tx c0(1) 1]
  have vb: "ValidateBlock wit_ext p wit_block False wit_loaded = (Inr (), t1)" for p
    using 1 r by (simp add: ValidateBlock_def wit_block_def CHIEF_NUMBER_def Let_def Block_Header_def bindM_def)
  have c1: "cached_ok wit_ext ?h t1" "chiefs_ready (getenv wit_ext) t1" "Status t1 = Status wit_loaded" "config_Period t1 = 15"
    using q c0 by (simp_all add: quiet_def wit_loaded_def wit_engine_def New_def)
  have miner: "GetMinerAddress wit_ext t1 = (Inr 5, t1)"
    using c1(3) by (simp add: GetMinerAddress_def wit_loaded_def wit_engine_def PubkeyToAddress_def pubkey_address_def)
  obtain t2 where v: "validateSigner wit_ext (Some (wit_header 2823366 100)) ?h 5 t1 = (Inr True, t2)"
      "quiet wit_ext ?h t1 t2"
    using validateSigner_accepts[of ?h 2823367 wit_ext t1 5 0 "wit_header 2823366 100" 100 200] c1
      wit_arc_ok wit_seal_signer[of 2823367 200] wit_rank[of "Status t1" 2823367]
    by (auto simp: wit_env delay_def big_Uint64_def word_le_nat_alt wit_loaded_def)
  have "nodeKey (Status t2) = Some 1" using v(2) c1(3) by (simp add: quiet_def wit_loaded_def wit_engine_def)
  moreover have "\<exists>sig. crypto_Sign wit_crypto 5 1 = Some sig" by (simp add: wit_crypto_def)
  ultimately show ?thesis
    using vb miner v(1) wit_sigHash[of 2823367 200]
    by (auto simp: Seal_def wit_block_def CHIEF_NUMBER_def Let_def Block_Header_def wit_chain_def bindM_def)
qed

theorem Seal_signed_witness:
  "\<exists>b' t'. Seal wit_ext wit_chain False wit_block wit_loaded = (Inr (Some b'), t') \<and>
     seal_signer wit_ext (header b') = Inr 5"
proof -
  obtain b' t' where run: "Seal wit_ext wit_chain False wit_block wit_loaded = (Inr (Some b'), t')"
    using wit_Seal by blast
  have "cached_ok wit_ext (Block_Header wit_block) wit_loaded"
    using wit_cached_ok[of "Block_Header wit_block"] by (simp add: cached_ok_def wit_loaded_def)
  from Seal_signed[OF run _ _ wit_arc_ok this, of 2823367 1] run show ?thesis
    using wit_crypto_ok
    by (auto simp: wit_block_def wit_loaded_def wit_engine_def PubkeyToAddress_def pubkey_address_def)
qed

section \<open>Header verification\<close>

text \<open>What an accepted header guarantees relative to its parent.\<close>

definition follows :: "tribe_ext \<Rightarrow> u64 \<Rightarrow> Header \<Rightarrow> Header \<Rightarrow> bool" where
  "follows E period parent h \<longleftrightarrow>
    (\<exists>n pt ht gl gu pgl. Number h = Some n \<and> Number parent = Some (n - 1) \<and>
       Header_Hash (crypto E) parent = ParentHash h \<and> Time parent = Some pt \<and> Time h = Some ht \<and>
       big_Uint64 pt + (if IsSIP002Block (getenv E) n then period - 1 else period) \<le> big_Uint64 ht \<and> ht \<le> unix_now E \<and>
       GasLimit h = Some gl \<and> GasUsed h = Some gu \<and> GasLimit parent = Some pgl \<and> gu \<le> gl \<and> gl < 2 ^ 63 \<and>
       (\<exists>s4. sip004_block E = Some s4 \<and>
         (n = s4 \<or> \<bar>pgl - gl\<bar> < pgl div 1024 \<and> (if n \<ge> s4 then 40000000 else 5000) \<le> gl)))"

lemma verifyTime_ok:
  assumes "verifyTime E parent h t = (Inr u, t')"
  shows "t' = t \<and> (\<exists>n pt ht. Number h = Some n \<and> Time parent = Some pt \<and> Time h = Some ht \<and>
     big_Uint64 pt + (if IsSIP002Block (getenv E) n then config_Period t - 1 else config_Period t) \<le> big_Uint64 ht)"
  using assms by (auto simp: verifyTime_def on_big_Inr_iff bindM_def not_less split: if_splits)

lemma verifyCascadingFields_ok:
  assumes run: "verifyCascadingFields E chain h parents t = (Inr (), t')"
    and n: "Number h = Some n" "big_Uint64 n \<noteq> 0" and now: "Time h = Some time" "time \<le> unix_now E"
  shows "t' = t \<and> (\<exists>parent. follows E (config_Period t) parent h \<and>
    (if parents = [] then GetHeader chain (ParentHash h) (big_Uint64 n - 1) = Some parent else parent = last parents))"
proof -
  note r = run[unfolded verifyCascadingFields_def n(1) on_big_simps Let_def if_not_P[OF n(2)]]
  obtain parent t1 where 1: "(if parents \<noteq> [] then bindM (verifyTime E (last parents) h) (\<lambda>_. returnM (last parents))
        else case GetHeader chain (ParentHash h) (big_Uint64 n - 1) of
            None \<Rightarrow> errM errNilParent
          | Some p \<Rightarrow> if Time p = None then errM errNilParent else bindM (verifyTime E p h) (\<lambda>_. returnM p)) t
        = (Inr parent, t1)"
    and 2: "on_big (Number parent) (\<lambda>pn.
          if big_Uint64 pn \<noteq> big_Uint64 n - 1 \<or> Header_Hash (crypto E) parent \<noteq> ParentHash h then errM ErrUnknownAncestor
          else on_big (GasLimit h) (\<lambda>gl. if gl > 2 ^ 63 - 1 then errM errGasLimitMax
            else on_big (GasUsed h) (\<lambda>gu. if gu > gl then errM errGasUsed
            else on_big (GasLimit parent) (\<lambda>pgl. on_big (sip004_block E) (\<lambda>sip004Block.
              if n \<noteq> sip004Block \<and> (\<bar>pgl - gl\<bar> \<ge> pgl div 1024 \<or> gl < (if n \<ge> sip004Block then 40000000 else 5000))
              then errM errGasLimitBounds else if n - pn \<noteq> 1 then errM ErrInvalidNumber else returnM ()))))) t1 = (Inr (), t')"
    by (rule bindM_InrE[OF r])
  have vt: "verifyTime E parent h t = (Inr (), t1)"
    and who: "if parents = [] then GetHeader chain (ParentHash h) (big_Uint64 n - 1) = Some parent else parent = last parents"
    using 1 by (auto simp: bindM_Inr_iff split: if_splits option.splits)
  from 2 obtain pn gl gu pgl s4 where f: "t' = t1" "Number parent = Some pn" "Header_Hash (crypto E) parent = ParentHash h"
      "GasLimit h = Some gl" "GasUsed h = Some gu" "GasLimit parent = Some pgl" "sip004_block E = Some s4"
      "gl \<le> 2 ^ 63 - 1" "gu \<le> gl" "n - pn = 1"
      "n = s4 \<or> \<bar>pgl - gl\<bar> < pgl div 1024 \<and> (if n \<ge> s4 then 40000000 else 5000) \<le> gl"
    by (fastforce simp: on_big_Inr_iff not_le not_less split: if_splits)
  have "follows E (config_Period t) parent h"
    unfolding follows_def using verifyTime_ok[OF vt] f n now by auto
  with who verifyTime_ok[OF vt] f(1) show ?thesis by blast
qed

lemma verifyHeader_ok:
  assumes run: "verifyHeader E chain h parents t = (Inr (), t')" and n: "Number h = Some n" "big_Uint64 n \<noteq> 0"
  shows "config_Period t' = config_Period t \<and>
    (Nonce h = nonceSync \<or> Nonce h = nonceAsync) \<and> extraVanityFn E n + extraSeal \<le> length (Extra h) \<and>
    MixDigest h = 0 \<and> UncleHash h = CalcUncleHash (crypto E) [] \<and>
    (\<exists>parent. follows E (config_Period t) parent h \<and>
      (if parents = [] then GetHeader chain (ParentHash h) (big_Uint64 n - 1) = Some parent else parent = last parents))"
proof -
  note r = run[unfolded verifyHeader_def n(1) option.case]
  obtain time where time: "Time h = Some time" "time \<le> unix_now E"
    and basic: "Nonce h = nonceSync \<or> Nonce h = nonceAsync" "extraVanityFn E n + extraSeal \<le> length (Extra h)"
      "MixDigest h = 0" "UncleHash h = CalcUncleHash (crypto E) []"
    using r by (auto simp: on_big_Inr_iff not_less split: if_splits)
  have r2: "bindM (verifyDifficulty E h n) (\<lambda>_. if \<not> VerifyForkHashes (crypto E) (chain_Config chain) h False
      then errM errForkHash else verifyCascadingFields E chain h parents) t = (Inr (), t')"
    using r time basic by (auto split: if_splits)
  obtain t1 where m: "verifyDifficulty E h n t = (Inr (), t1)" "verifyCascadingFields E chain h parents t1 = (Inr (), t')"
    by (rule bindM_InrE[OF r2]) (auto split: if_splits)
  have "config_Period t1 = config_Period t"
    using m(1) by (auto simp: verifyDifficulty_def bindM_Inr_iff with_chiefs_run split: if_splits option.splits)
  with verifyCascadingFields_ok[OF m(2) n time] basic show ?thesis by auto
qed

lemma VerifyHeaders_from_chain:
  assumes "VerifyHeaders_from E chain pre hs t = (rs, t')" "\<forall>r \<in> set rs. r = Inr ()"
    and "\<forall>h \<in> set hs. \<exists>n. Number h = Some n \<and> 0 < n \<and> n < 2 ^ 64" "i < length hs"
  shows "if pre @ take i hs = [] then
      (\<exists>p k. GetHeader chain (ParentHash (hs ! i)) k = Some p \<and> follows E (config_Period t) p (hs ! i))
    else follows E (config_Period t) (last (pre @ take i hs)) (hs ! i)"
  using assms
proof (induction hs arbitrary: pre t rs i)
  case (Cons h hs)
  obtain r t1 where 1: "verifyHeader E chain h pre t = (r, t1)" by fastforce
  obtain rs' t2 where 2: "VerifyHeaders_from E chain (pre @ [h]) hs t1 = (rs', t2)" by fastforce
  have rs: "rs = r # rs'" "t' = t2" using Cons.prems(1) 1 2 by auto
  then have ok: "r = Inr ()" "\<forall>r \<in> set rs'. r = Inr ()" using Cons.prems(2) by auto
  obtain n where n: "Number h = Some n" "big_Uint64 n \<noteq> 0"
    using Cons.prems(3) big_Uint64_nonzero by auto
  have 2: "VerifyHeaders_from E chain (pre @ [h]) hs t1 = (rs', t')" using 2 rs by simp
  note v = verifyHeader_ok[OF 1[unfolded ok(1)] n]
  show ?case
  proof (cases i)
    case 0
    with v show ?thesis by (auto split: if_splits)
  next
    case (Suc j)
    with Cons.IH[OF 2 ok(2), of j] rs Cons.prems v show ?thesis by simp
  qed
qed simp

text \<open>
  C2: a batch of headers that \<^verbatim>\<open>VerifyHeaders\<close> accepts is a chain. Every header after the first follows its
  predecessor in the batch, and the first follows a header already stored: hash link, consecutive number,
  minimum time distance, gas used within the limit, and a gas limit close to the parent's.\<close>

theorem VerifyHeaders_chain:
  assumes "VerifyHeaders E chain hs t = (rs, t')" "\<forall>r \<in> set rs. r = Inr ()"
    and "\<forall>h \<in> set hs. \<exists>n. Number h = Some n \<and> 0 < n \<and> n < 2 ^ 64" "i < length hs"
  shows "if i = 0 then \<exists>p k. GetHeader chain (ParentHash (hs ! 0)) k = Some p \<and> follows E (config_Period t) p (hs ! 0)
    else follows E (config_Period t) (hs ! (i - 1)) (hs ! i)"
proof -
  have "last (take i hs) = hs ! (i - 1)" if "i \<noteq> 0"
  proof -
    have "take i hs \<noteq> []" using that assms(4) by auto
    then show ?thesis using assms(4) that by (simp add: last_conv_nth)
  qed
  moreover have "take i hs = [] \<longleftrightarrow> i = 0" using assms(4) by auto
  ultimately show ?thesis
    using VerifyHeaders_from_chain[OF _ assms(2-4), of E chain "[]" t t'] assms(1)
    by (auto simp: VerifyHeaders_def)
qed

lemma wit_bad_difficulty: "bad_difficulty ''1.0.0'' (Some 6) = False"
  by (simp add: bad_difficulty_def diffNoTurn_def)

lemma wit_verifyHeader:
  assumes "chiefs_ready (getenv wit_ext) t" "config_Period t = 15"
  shows "fst (verifyHeader wit_ext wit_chain (wit_header 2823367 200) [] t) = Inr ()"
proof -
  let ?h = "wit_header 2823367 200"
  let ?c1 = "snd (IsBeforeChief100block (\<lambda>_. '''') (chiefInfoList t) 2823367)"
  have nb: "\<not> fst (IsBeforeChief100block (\<lambda>_. '''') (chiefInfoList t) 2823367)"
    using not_before_chief100[OF assms(1), of 2823367] by (simp add: wit_env)
  have "chiefs_ready (getenv wit_ext) (t\<lparr>chiefInfoList := ?c1\<rparr>)"
    using assms(1) chief_reads_ready(2)[of "chiefInfoList t" "\<lambda>_. ''''" 2823367] by (simp add: chiefs_ready_def)
  from chiefs_ready_version[OF this, of 2823367] obtain c where
    c: "fst (GetChiefInfo (\<lambda>_. '''') ?c1 (Some 2823367)) = Some c" "Version c = ''1.0.0''"
    by (auto simp: wit_env)
  show ?thesis
    using nb c assms(2)
    by (simp add: verifyHeader_def verifyDifficulty_def bindM_def with_chiefs_run wit_bad_difficulty verifyCascadingFields_def)
       (simp add: wit_header_def wit_chain_def wit_ext_def wit_crypto_def nonceAsync_def extraVanityFn_def extraSeal_def
         CalcUncleHash_def rlpHash_def VerifyForkHashes_def config_defs verifyTime_def bindM_def Header_Hash_def
         sip004_block_def IsTestnet_def IsDevnet_def big_Uint64_def word_less_nat_alt)
qed

lemma wit_Period: "config_Period wit_engine = 15"
  by (simp add: wit_engine_def New_def)

theorem VerifyHeaders_chain_witness:
  "\<exists>p k. GetHeader wit_chain (ParentHash (wit_header 2823367 200)) k = Some p \<and>
     follows wit_ext 15 p (wit_header 2823367 200)"
proof -
  let ?h = "wit_header 2823367 200"
  obtain t1 where 1: "verifyHeader wit_ext wit_chain ?h [] wit_engine = (Inr (), t1)"
    using wit_verifyHeader[OF wit_ready] by (metis prod.collapse wit_Period)
  have "VerifyHeaders wit_ext wit_chain [?h] wit_engine = ([Inr ()], t1)"
    using 1 by (simp add: VerifyHeaders_def)
  from VerifyHeaders_chain[OF this, of 0] show ?thesis
    by (simp add: wit_Period)
qed

section \<open>The first header a process verifies\<close>

lemma GetChiefInfo_fresh:
  assumes "chief100_start env \<le> n" "n < 2 ^ 63"
  shows "\<exists>c. fst (GetChiefInfo env (snd (IsBeforeChief100block env None m)) (Some n)) = Some c \<and> Version c \<noteq> ''1.0.0''"
proof -
  let ?l = "beforechief100_literal env"
  obtain r l' where g: "getChiefInfo ?l n = (r, l')" by fastforce
  have n: "0 < n" using assms chief100_start_bounds[of env] by simp
  then have n': "big_Int64 n = n" using assms by (simp add: big_Int64_def)
  have "\<exists>d \<in> set ?l. start_key d \<le> n"
    using assms(1) by (auto simp: beforechief100_literal_def chief100_start_def start_key_def big_Int64_def config_defs
        newChiefInfo_def split: if_splits)
  then obtain c where c: "r = Some c" using getChiefInfo_None[of ?l n l'] g n' by (cases r) fastforce+
  then have "c \<in> set ?l" using getChiefInfo_Some(1) g by blast
  then have "Version c \<noteq> ''1.0.0''" by (auto simp: beforechief100_literal_def split: if_splits)
  with c g n show ?thesis
    by (simp add: GetChiefInfo_def chiefAddressList_def IsBeforeChief100block_def beforechief100AddressList_def)
qed

lemma verifyDifficulty_fresh:
  assumes "chiefInfoList t = None" "chief100_start (getenv E) < n" "n < 2 ^ 63" "Difficulty h = Some d" "3 < d"
  shows "fst (verifyDifficulty E h n t) = Inl (Err errInvalidDifficulty)"
proof -
  obtain c where c: "fst (GetChiefInfo (getenv E) (snd (IsBeforeChief100block (getenv E) None n)) (Some n)) = Some c"
    "Version c \<noteq> ''1.0.0''" using GetChiefInfo_fresh[of "getenv E" n n] assms by auto
  have nb: "\<not> fst (IsBeforeChief100block (getenv E) None n)"
    using assms(2) by (auto simp: IsBeforeChief100block_def beforechief100AddressList_def beforechief100_literal_def
        chief100_start_def config_defs newChiefInfo_def split: if_splits)
  have "big_Uint64 n \<noteq> 0" using assms(2,3) chief100_start_bounds[of "getenv E"] by (intro big_Uint64_nonzero) auto
  then have "0 < big_Uint64 n" by (simp add: word_neq_0_conv)
  then show ?thesis
    using c nb assms
    by (simp add: verifyDifficulty_def bindM_def with_chiefs_run bad_difficulty_def diffInTurnMain_def diffInTurn_def
        diffNoTurn_def errM_def)
qed

lemma verifyDifficulty_ready:
  assumes "chiefs_ready (getenv E) t" "chief100_start (getenv E) \<le> n" "n < 2 ^ 63" "Difficulty h = Some d" "1 \<le> d" "d \<le> 6"
  shows "fst (verifyDifficulty E h n t) = Inr ()"
proof -
  let ?c1 = "snd (IsBeforeChief100block (getenv E) (chiefInfoList t) n)"
  have "chiefs_ready (getenv E) (t\<lparr>chiefInfoList := ?c1\<rparr>)"
    using assms(1) chief_reads_ready(2)[of "chiefInfoList t" "getenv E" n] by (simp add: chiefs_ready_def)
  from chiefs_ready_version[OF this assms(2,3)] assms show ?thesis
    by (auto simp: verifyDifficulty_def bindM_def with_chiefs_run bad_difficulty_def diffNoTurn_def)
qed

text \<open>
  C23: after the \<^verbatim>\<open>1.0.0\<close> fork \<^verbatim>\<open>verifyHeader\<close> accepts the difficulties 1 to 6, once the list of chief
  contracts has been loaded by \<^verbatim>\<open>GetChiefInfo\<close>. A process whose first consensus call is \<^verbatim>\<open>verifyHeader\<close>
  itself fills that list with the old contracts and refuses every header of difficulty 4 or more.\<close>

theorem verifyHeader_fresh_cache:
  assumes "Number h = Some n" "chief100_start (getenv E) < n" "n < 2 ^ 63" "Difficulty h = Some d" "3 < d" "d \<le> 6"
    and "chiefInfoList fresh = None" "chiefs_ready (getenv E) loaded"
  shows "fst (verifyDifficulty E h n loaded) = Inr () \<and>
    fst (verifyDifficulty E h n fresh) = Inl (Err errInvalidDifficulty) \<and>
    fst (verifyHeader E chain h parents fresh) \<noteq> Inr ()"
proof -
  have f: "fst (verifyDifficulty E h n fresh) = Inl (Err errInvalidDifficulty)"
    using verifyDifficulty_fresh[OF assms(7,2,3,4,5)] .
  then have "fst (bindM (verifyDifficulty E h n) g fresh) \<noteq> Inr ()" for g :: "unit \<Rightarrow> unit tribe_m"
    by (cases "verifyDifficulty E h n fresh") (simp add: bindM_def)
  then have "fst (verifyHeader E chain h parents fresh) \<noteq> Inr ()"
    using assms(1) by (cases "Time h") (auto simp: verifyHeader_def errM_def)
  with f verifyDifficulty_ready[OF assms(8) _ assms(3,4)] assms(2,5,6) show ?thesis by simp
qed

theorem verifyHeader_fresh_cache_witness:
  "fst (verifyDifficulty wit_ext (wit_header 2823367 200) 2823367 wit_engine) = Inr () \<and>
   fst (verifyHeader wit_ext wit_chain (wit_header 2823367 200) [] (wit_engine\<lparr>chiefInfoList := None\<rparr>)) \<noteq> Inr ()"
  using verifyHeader_fresh_cache[of "wit_header 2823367 200" 2823367 wit_ext 6
      "wit_engine\<lparr>chiefInfoList := None\<rparr>" wit_engine wit_chain "[]"] wit_ready
  by (simp add: wit_env)

end
