(* ===== verification/RLP_Stream.thy ===== *)
theory RLP_Stream
  imports RLP
begin

text \<open>
  The stream decoder (\<^verbatim>\<open>rlp/decode.go\<close>). A \<^verbatim>\<open>Stream\<close> reads its input byte by byte, keeps the head of the
  value it stands before and a stack of the lists it is inside. The decoders that the code
  builds by reflection are represented by a \<open>shape\<close>. The theory proves that decoding accepts exactly
  the canonical encodings of the values of a shape.\<close>

section \<open>The stream\<close>

record Stream =
  rd :: "byte list" \<comment> \<open>what is left of the input\<close>
  remaining :: u64
  skind :: "Kind option" \<comment> \<open>\<^verbatim>\<open>kind\<close>, None for -1\<close>
  ssize :: u64
  byteval :: byte
  kinderr :: "rlp_error option"
  stack :: "(u64 \<times> u64) list" \<comment> \<open>position and size of the open lists, innermost first\<close>

type_synonym 'a stream_m = "(Stream, rlp_error, 'a) go"

definition NewStream :: "byte list \<Rightarrow> Stream" where
  "NewStream b = \<lparr>rd = b, remaining = word_of_nat (length b), skind = None, ssize = 0, byteval = 0, kinderr = None, stack = []\<rparr>"

definition use_limit :: "u64 \<Rightarrow> unit stream_m" where
  "use_limit n s =
    (if n > remaining s then (Inl (Err ErrValueTooLarge), s) else (Inr (), s\<lparr>remaining := remaining s - n\<rparr>))"

definition willRead :: "u64 \<Rightarrow> unit stream_m" where
  "willRead n s =
    (let s1 = s\<lparr>skind := None\<rparr> in
     case stack s of
       [] \<Rightarrow> use_limit n s1
     | (pos, z) # st \<Rightarrow>
         if n > z - pos then (Inl (Err ErrElemTooLarge), s1)
         else use_limit n (s1\<lparr>stack := (pos + n, z) # st\<rparr>))"

definition readByte :: "byte stream_m" where
  "readByte = bindM (willRead 1) (\<lambda>_ s.
     case rd s of
       [] \<Rightarrow> (Inl (Err UnexpectedEOF), s)
     | b # bs \<Rightarrow> (Inr b, s\<lparr>rd := bs\<rparr>))"

text \<open>\<^verbatim>\<open>readFull\<close> fills a buffer of the given length.\<close>

definition readFull :: "u64 \<Rightarrow> byte list stream_m" where
  "readFull n = bindM (willRead n) (\<lambda>_ s.
     if unat n \<le> length (rd s) then (Inr (take (unat n) (rd s)), s\<lparr>rd := drop (unat n) (rd s)\<rparr>)
     else (Inl (Err UnexpectedEOF), s\<lparr>rd := []\<rparr>))"

definition readUint :: "byte \<Rightarrow> u64 stream_m" where
  "readUint sz =
    (if sz = 0 then bindM (modifyM (\<lambda>s. s\<lparr>skind := None\<rparr>)) (\<lambda>_. returnM 0)
     else if sz = 1 then bindM readByte (\<lambda>b. returnM (ucast b))
     else bindM (readFull (ucast sz)) (\<lambda>buf.
       if hd buf = 0 then errM ErrCanonSize else returnM (be_or buf)))"

text \<open>The kind and size that are read, and the error that is returned with them.\<close>

definition stream_readSize :: "Kind \<Rightarrow> byte \<Rightarrow> (Kind \<times> u64 \<times> rlp_error option) stream_m" where
  "stream_readSize k sz s =
    (case readUint sz s of
       (Inl (Panic m), s') \<Rightarrow> (Inl (Panic m), s')
     | (Inl (Err e), s') \<Rightarrow> (Inr (k, 0, Some e), s')
     | (Inr n, s') \<Rightarrow> (Inr (k, n, if n < 56 then Some ErrCanonSize else None), s'))"

definition stream_readKind :: "(Kind \<times> u64 \<times> rlp_error option) stream_m" where
  "stream_readKind s =
    (case readByte s of
       (Inl (Panic m), s') \<Rightarrow> (Inl (Panic m), s')
     | (Inl (Err e), s') \<Rightarrow>
         (Inr (Byte, 0, Some (if stack s' = [] \<and> (e = UnexpectedEOF \<or> e = ErrValueTooLarge) then io_EOF else e)), s')
     | (Inr b, s') \<Rightarrow>
         let s1 = s'\<lparr>byteval := 0\<rparr> in
         if b < 0x80 then (Inr (Byte, 0, None), s'\<lparr>byteval := b\<rparr>)
         else if b < 0xB8 then (Inr (String, ucast (b - 0x80), None), s1)
         else if b < 0xC0 then stream_readSize String (b - 0xB7) s1
         else if b < 0xF8 then (Inr (List, ucast (b - 0xC0), None), s1)
         else stream_readSize List (b - 0xF7) s1)"

definition kind_check :: "u64 \<Rightarrow> Stream \<Rightarrow> rlp_error option" where
  "kind_check sz s = (case stack s of
     [] \<Rightarrow> if sz > remaining s then Some ErrValueTooLarge else None
   | (pos, z) # _ \<Rightarrow> if sz > z - pos then Some ErrElemTooLarge else None)"

definition kind_answer :: "(Kind \<times> u64) stream_m" where
  "kind_answer s = (case (kinderr s, skind s) of
     (Some e, _) \<Rightarrow> (Inl (Err e), s)
   | (None, Some k) \<Rightarrow> (Inr (k, ssize s), s)
   | (None, None) \<Rightarrow> (Inl (Panic ''kind not set''), s))"

definition Stream_Kind :: "(Kind \<times> u64) stream_m" where
  "Stream_Kind s =
    (if skind s \<noteq> None then kind_answer s
     else
       let s0 = s\<lparr>kinderr := None\<rparr> in
       case stack s of
         (pos, z) # _ \<Rightarrow>
           if pos = z then (Inl (Err EOL), s0)
           else bindM stream_readKind (\<lambda>(k, sz, e) s1.
             kind_answer (s1\<lparr>skind := Some k, ssize := sz, kinderr := (if e \<noteq> None then e else kind_check sz s1)\<rparr>)) s0
       | [] \<Rightarrow> bindM stream_readKind (\<lambda>(k, sz, e) s1.
             kind_answer (s1\<lparr>skind := Some k, ssize := sz, kinderr := (if e \<noteq> None then e else kind_check sz s1)\<rparr>)) s0)"

section \<open>Reading values\<close>

definition rearm :: "unit stream_m" where
  "rearm = modifyM (\<lambda>s. s\<lparr>skind := None\<rparr>)"

definition Stream_Bytes :: "byte list stream_m" where
  "Stream_Bytes = bindM Stream_Kind (\<lambda>(k, sz).
     case k of
       Byte \<Rightarrow> bindM rearm (\<lambda>_. readM (\<lambda>s. [byteval s]))
     | String \<Rightarrow> bindM (readFull sz) (\<lambda>b. if sz = 1 \<and> hd b < 128 then errM ErrCanonSize else returnM b)
     | List \<Rightarrow> errM ErrExpectedString)"

definition Stream_Raw :: "byte list stream_m" where
  "Stream_Raw = bindM Stream_Kind (\<lambda>(k, sz).
     if k = Byte then bindM rearm (\<lambda>_. readM (\<lambda>s. [byteval s]))
     else bindM (readFull sz) (\<lambda>b.
       returnM ((if k = String then puthead 0x80 0xB7 sz else puthead 0xC0 0xF7 sz) @ b)))"

text \<open>\<^verbatim>\<open>readUint\<close> reports a leading zero as \<^verbatim>\<open>ErrCanonSize\<close>; here it is an integer that is not canonical.\<close>

definition Stream_uint :: "nat \<Rightarrow> u64 stream_m" where
  "Stream_uint maxbits = bindM Stream_Kind (\<lambda>(k, sz).
     case k of
       Byte \<Rightarrow> (\<lambda>s. if byteval s = 0 then (Inl (Err ErrCanonInt), s) else (Inr (ucast (byteval s)), s\<lparr>skind := None\<rparr>))
     | String \<Rightarrow>
         if sz > word_of_nat (maxbits div 8) then errM errUintOverflow
         else (\<lambda>s. case readUint (ucast sz) s of
             (Inl (Err e), s') \<Rightarrow> (Inl (Err (if e = ErrCanonSize then ErrCanonInt else e)), s')
           | (Inl (Panic m), s') \<Rightarrow> (Inl (Panic m), s')
           | (Inr v, s') \<Rightarrow> if sz > 0 \<and> v < 128 then (Inl (Err ErrCanonSize), s') else (Inr v, s'))
     | List \<Rightarrow> errM ErrExpectedString)"

definition Stream_Bool :: "bool stream_m" where
  "Stream_Bool = bindM (Stream_uint 8) (\<lambda>num.
     if num = 0 then returnM False else if num = 1 then returnM True else errM (decodeErr ''invalid boolean value''))"

definition Stream_List :: "u64 stream_m" where
  "Stream_List = bindM Stream_Kind (\<lambda>(k, sz).
     if k \<noteq> List then errM ErrExpectedList
     else bindM (modifyM (\<lambda>s. s\<lparr>stack := (0, sz) # stack s, skind := None, ssize := 0\<rparr>)) (\<lambda>_. returnM sz))"

definition ListEnd :: "unit stream_m" where
  "ListEnd s = (case stack s of
     [] \<Rightarrow> (Inl (Err errNotInList), s)
   | (pos, z) # st \<Rightarrow>
       if pos \<noteq> z then (Inl (Err errNotAtEOL), s)
       else (Inr (), s\<lparr>stack := (case st of [] \<Rightarrow> [] | (p, z') # st' \<Rightarrow> (p + z, z') # st'), skind := None, ssize := 0\<rparr>))"

section \<open>Decoders\<close>

fun wrapStreamError :: "rlp_error \<Rightarrow> rlp_error" where
  "wrapStreamError ErrCanonInt = decodeErr ''non-canonical integer (leading zero bytes)''"
| "wrapStreamError ErrCanonSize = decodeErr ''non-canonical size information''"
| "wrapStreamError ErrExpectedList = decodeErr ''expected input list''"
| "wrapStreamError ErrExpectedString = decodeErr ''expected input string or byte''"
| "wrapStreamError errUintOverflow = decodeErr ''input string too long''"
| "wrapStreamError errNotAtEOL = decodeErr ''input list has too many elements''"
| "wrapStreamError e = e"

definition wrapM :: "(rlp_error \<Rightarrow> rlp_error) \<Rightarrow> 'a stream_m \<Rightarrow> 'a stream_m" where
  "wrapM f m s = (case m s of (Inl (Err e), s') \<Rightarrow> (Inl (Err (f e)), s') | r \<Rightarrow> r)"

text \<open>
  The Go types the decoders are made for: an unsigned integer of a number of bits, a boolean, a big
  integer, a byte slice, a byte array of a length, a struct, a slice, and a pointer whose nil is an
  empty value.\<close>

datatype shape =
    ShUint nat | ShBool | ShBig | ShBytes | ShArray nat | ShStruct "shape list" | ShSlice shape | ShNil shape

definition decodeBigInt :: "rlp_value stream_m" where
  "decodeBigInt = wrapM wrapStreamError (bindM Stream_Bytes (\<lambda>b.
     if b \<noteq> [] \<and> hd b = 0 then errM ErrCanonInt else returnM (RBig (Some (be_int b)))))"

definition decodeByteArray :: "nat \<Rightarrow> rlp_value stream_m" where
  "decodeByteArray vlen = bindM Stream_Kind (\<lambda>(k, sz).
     case k of
       Byte \<Rightarrow>
         if vlen = 0 then errM (decodeErr ''input string too long'')
         else if vlen > 1 then errM (decodeErr ''input string too short'')
         else bindM (attemptM (Stream_uint 64)) (\<lambda>bv. returnM (RBytes [case bv of Some v \<Rightarrow> ucast v | None \<Rightarrow> 0]))
     | String \<Rightarrow>
         if word_of_nat vlen < sz then errM (decodeErr ''input string too long'')
         else if word_of_nat vlen > sz then errM (decodeErr ''input string too short'')
         else bindM (readFull (word_of_nat vlen)) (\<lambda>b.
           if sz = 1 \<and> hd b < 128 then errM (wrapStreamError ErrCanonSize) else returnM (RBytes b))
     | List \<Rightarrow> errM (wrapStreamError ErrExpectedString))"

text \<open>
  The loop over the elements of a slice ends at \<^verbatim>\<open>EOL\<close>. Every element takes at least one byte, so the
  length of the input is enough fuel.\<close>

fun slice_loop :: "nat \<Rightarrow> rlp_value stream_m \<Rightarrow> rlp_value list stream_m" where
  "slice_loop 0 dec = panicM ''slice loop''"
| "slice_loop (Suc n) dec = (\<lambda>s. case dec s of
     (Inl e, s') \<Rightarrow> if e = Err EOL then (Inr [], s') else (Inl e, s')
   | (Inr v, s') \<Rightarrow> bindM (slice_loop n dec) (\<lambda>vs. returnM (v # vs)) s')"

definition decodeSliceElems :: "rlp_value stream_m \<Rightarrow> rlp_value list stream_m" where
  "decodeSliceElems dec s = slice_loop (Suc (length (rd s))) dec s"

definition decodeUint :: "nat \<Rightarrow> rlp_value stream_m" where
  "decodeUint bits = wrapM wrapStreamError (bindM (Stream_uint bits) (\<lambda>n. returnM (RUint n)))"

definition decodeBool :: "rlp_value stream_m" where
  "decodeBool = wrapM wrapStreamError (bindM Stream_Bool (\<lambda>b. returnM (RBool b)))"

definition decodeByteSlice :: "rlp_value stream_m" where
  "decodeByteSlice = wrapM wrapStreamError (bindM Stream_Bytes (\<lambda>b. returnM (RBytes b)))"

definition decodeListSlice :: "rlp_value stream_m \<Rightarrow> rlp_value stream_m" where
  "decodeListSlice dec = bindM (wrapM wrapStreamError Stream_List) (\<lambda>sz.
     if sz = 0 then bindM ListEnd (\<lambda>_. returnM (RList []))
     else bindM (decodeSliceElems dec) (\<lambda>vs. bindM ListEnd (\<lambda>_. returnM (RList vs))))"

text \<open>\<^verbatim>\<open>makeStructDecoder\<close>: the decoder of the fields runs between the head and the end of the list.\<close>

definition decode_struct :: "rlp_value list stream_m \<Rightarrow> rlp_value stream_m" where
  "decode_struct flds = bindM (wrapM wrapStreamError Stream_List) (\<lambda>_.
     bindM flds (\<lambda>vs. bindM (wrapM wrapStreamError ListEnd) (\<lambda>_. returnM (RList vs))))"

definition makeOptionalPtrDecoder :: "rlp_value stream_m \<Rightarrow> rlp_value stream_m" where
  "makeOptionalPtrDecoder dec s = (case Stream_Kind s of
     (Inl e, s') \<Rightarrow> (Inl e, s'\<lparr>skind := None\<rparr>)
   | (Inr (k, sz), s') \<Rightarrow>
       if sz = 0 \<and> k \<noteq> Byte then (Inr (RBytes []), s'\<lparr>skind := None\<rparr>) else dec s')"

lemmas decoders = decodeUint_def decodeBool_def decodeByteSlice_def decodeListSlice_def decode_struct_def

fun decode_shape :: "shape \<Rightarrow> rlp_value stream_m"
and decode_fields :: "shape list \<Rightarrow> rlp_value list stream_m" where
  "decode_shape (ShUint bits) = decodeUint bits"
| "decode_shape ShBool = decodeBool"
| "decode_shape ShBig = decodeBigInt"
| "decode_shape ShBytes = decodeByteSlice"
| "decode_shape (ShArray n) = decodeByteArray n"
| "decode_shape (ShStruct shs) = decode_struct (decode_fields shs)"
| "decode_shape (ShSlice sh) = decodeListSlice (decode_shape sh)"
| "decode_shape (ShNil sh) = makeOptionalPtrDecoder (decode_shape sh)"
| "decode_fields [] = returnM []"
| "decode_fields (sh # shs) = bindM (wrapM (\<lambda>e. if e = EOL then decodeErr ''too few elements'' else e) (decode_shape sh)) (\<lambda>v.
     bindM (decode_fields shs) (\<lambda>vs. returnM (v # vs)))"

definition DecodeBytes :: "shape \<Rightarrow> byte list \<Rightarrow> (rlp_error, rlp_value) result" where
  "DecodeBytes sh b = (case decode_shape sh (NewStream b) of
     (Inl e, s) \<Rightarrow> Inl e
   | (Inr v, s) \<Rightarrow> if rd s \<noteq> [] then Inl (Err ErrMoreThanOneValue) else Inr v)"

section \<open>Windows\<close>

text \<open>What can be read before the end of the innermost list, and a stream that has read a number of bytes of it.\<close>

definition win :: "Stream \<Rightarrow> byte list" where
  "win s = (case stack s of [] \<Rightarrow> rd s | (p, z) # _ \<Rightarrow> take (unat (z - p)) (rd s))"

definition sok :: "Stream \<Rightarrow> bool" where
  "sok s \<longleftrightarrow> remaining s = word_of_nat (length (rd s)) \<and> length (rd s) < 2 ^ 64 \<and>
     (case stack s of [] \<Rightarrow> True | (p, z) # _ \<Rightarrow> p \<le> z \<and> unat (z - p) \<le> length (rd s))"

definition bump :: "u64 \<Rightarrow> (u64 \<times> u64) list \<Rightarrow> (u64 \<times> u64) list" where
  "bump n st = (case st of [] \<Rightarrow> [] | (p, z) # st' \<Rightarrow> (p + n, z) # st')"

definition consume :: "nat \<Rightarrow> Stream \<Rightarrow> Stream" where
  "consume n s = s\<lparr>rd := drop n (rd s), remaining := remaining s - word_of_nat n, skind := None,
     stack := bump (word_of_nat n) (stack s)\<rparr>"

lemma bump_simps [simp]: "bump n [] = []" "bump n ((p, z) # st) = (p + n, z) # st" "bump n st = [] \<longleftrightarrow> st = []"
  by (auto simp: bump_def split: list.splits)

lemma bump_bump [simp]: "bump m (bump n st) = bump (n + m) st"
  by (cases st) (auto simp: algebra_simps)

lemma bump_0 [simp]: "bump 0 st = st"
  by (cases st) auto

lemma win_length: "sok s \<Longrightarrow> length (win s) \<le> length (rd s) \<and> length (win s) < 2 ^ 64"
  by (auto simp: win_def sok_def split: list.splits)

lemma unat_of_nat_u64: "n < 2 ^ 64 \<Longrightarrow> unat (word_of_nat n :: u64) = n"
  by (rule unat_u64_of_nat)

lemma consume_sel [simp]:
  "rd (consume n s) = drop n (rd s)" "skind (consume n s) = None" "stack (consume n s) = bump (word_of_nat n) (stack s)"
  "byteval (consume n s) = byteval s" "kinderr (consume n s) = kinderr s" "remaining (consume n s) = remaining s - word_of_nat n"
  by (simp_all add: consume_def)

lemma consume_ok:
  assumes "sok s" "n \<le> length (win s)"
  shows "sok (consume n s)" "win (consume n s) = drop n (win s)"
proof -
  have n: "n < 2 ^ 64" "unat (word_of_nat n :: u64) = n" using assms win_length[of s] by (auto simp: unat_of_nat_u64)
  have st: "p + word_of_nat n \<le> z \<and> unat (z - (p + word_of_nat n)) = unat (z - p) - n"
    if "stack s = (p, z) # st" for p z st
  proof -
    have "p \<le> z" "n \<le> unat (z - p)" using assms that by (auto simp: sok_def win_def)
    then have "n \<le> unat z - unat p" "unat p \<le> unat z" by (simp_all add: unat_sub word_le_nat_alt)
    moreover have "unat z < 2 ^ 64" using unsigned_less[of z] by simp
    ultimately have u: "unat (p + word_of_nat n) = unat p + n" using n by (subst unat_add_lem[THEN iffD1]) auto
    then have "p + word_of_nat n \<le> z" using \<open>n \<le> unat z - unat p\<close> \<open>unat p \<le> unat z\<close> by (simp add: word_le_nat_alt)
    then show ?thesis using u \<open>p \<le> z\<close> by (simp add: unat_sub)
  qed
  have len: "n \<le> length (rd s)" using assms win_length[of s] by simp
  then have "word_of_nat (length (rd s)) - word_of_nat n = (word_of_nat (length (rd s) - n) :: u64)" by (simp add: of_nat_diff)
  then show "sok (consume n s)" using assms(1) len st by (auto simp: sok_def split: list.splits)
  show "win (consume n s) = drop n (win s)" using st by (auto simp: win_def drop_take split: list.splits)
qed

lemma consume_consume:
  "consume m (consume n s) = consume (n + m) s"
  by (simp add: consume_def add.commute)

lemma willRead_ok:
  assumes "sok s" "n \<le> length (win s)"
  shows "willRead (word_of_nat n) s = (Inr (), s\<lparr>remaining := remaining s - word_of_nat n, skind := None, stack := bump (word_of_nat n) (stack s)\<rparr>)"
proof -
  have n: "unat (word_of_nat n :: u64) = n" "n \<le> length (rd s)" "unat (remaining s) = length (rd s)"
    using assms win_length[of s] by (auto simp: unat_of_nat_u64 sok_def)
  then have "\<not> word_of_nat n > remaining s" by (simp add: word_less_nat_alt)
  moreover have "\<not> word_of_nat n > z - p" if "stack s = (p, z) # st" for p z st
    using assms that n by (simp add: win_def word_less_nat_alt)
  ultimately show ?thesis by (auto simp: willRead_def use_limit_def Let_def split: list.splits)
qed

lemma willRead_fail:
  assumes "sok s" "length (win s) < unat n"
  shows "\<exists>e s'. willRead n s = (Inl (Err e), s') \<and> e \<noteq> EOL"
proof -
  have "unat (remaining s) = length (rd s)" using assms win_length[of s] by (auto simp: unat_of_nat_u64 sok_def)
  then show ?thesis using assms
    by (auto simp: willRead_def use_limit_def Let_def win_def sok_def word_less_nat_alt split: list.splits if_splits)
qed

lemma readFull_ok:
  assumes "sok s" "n \<le> length (win s)"
  shows "readFull (word_of_nat n) s = (Inr (take n (win s)), consume n s)"
proof -
  have n: "unat (word_of_nat n :: u64) = n" "n \<le> length (rd s)"
    using assms win_length[of s] by (auto simp: unat_of_nat_u64)
  have "take n (win s) = take n (rd s)" using assms(2) by (auto simp: win_def min_def split: list.splits if_splits)
  then show ?thesis using willRead_ok[OF assms] n by (simp add: readFull_def consume_def)
qed

lemma readFull_fail: "sok s \<Longrightarrow> length (win s) < unat n \<Longrightarrow> \<exists>e s'. readFull n s = (Inl (Err e), s') \<and> e \<noteq> EOL"
  using willRead_fail[of s n] by (auto simp: readFull_def)

lemma readByte_ok: "sok s \<Longrightarrow> win s = b # w \<Longrightarrow> readByte s = (Inr b, consume 1 s)"
  using willRead_ok[of s 1]
  by (auto simp: readByte_def consume_def win_def take_Suc split: list.splits) (auto simp: take_Cons' split: if_splits)

lemma readByte_fail: "sok s \<Longrightarrow> win s = [] \<Longrightarrow> \<exists>e s'. readByte s = (Inl (Err e), s') \<and> e \<noteq> EOL"
  using willRead_fail[of s 1] by (auto simp: readByte_def)

text \<open>An unsigned number of a given length.\<close>

lemma readUint_cases:
  assumes "sok s" "k \<le> 8"
  obtains (ok) "k \<le> length (win s)" "2 \<le> k \<Longrightarrow> hd (win s) \<noteq> 0"
      "readUint (word_of_nat k) s = (Inr (be_or (take k (win s))), consume k s)"
    | (bad) e s' where "\<not> (k \<le> length (win s) \<and> (2 \<le> k \<longrightarrow> hd (win s) \<noteq> 0))"
      "readUint (word_of_nat k) s = (Inl (Err e), s')" "e \<noteq> EOL"
proof -
  have k: "unat (word_of_nat k :: byte) = k" using assms(2) by (simp add: unsigned_of_nat take_bit_nat_eq_self)
  then have eq: "(word_of_nat k :: byte) = 0 \<longleftrightarrow> k = 0" "(word_of_nat k :: byte) = 1 \<longleftrightarrow> k = 1" by (auto simp: word_unat_eq_iff)
  have u: "(ucast (word_of_nat k :: byte) :: u64) = word_of_nat k" "unat (word_of_nat k :: u64) = k"
    using assms(2) by (simp_all add: ucast_byte_nat unat_of_nat_u64)
  consider "k = 0" | "k = 1" | "2 \<le> k" by linarith
  then show thesis
  proof cases
    case 1
    then show ?thesis by (intro ok) (simp_all add: readUint_def be_or_def consume_def)
  next
    case 2
    show ?thesis
    proof (cases "win s")
      case Nil
      from readByte_fail[OF assms(1) this] obtain e s' where "readByte s = (Inl (Err e), s')" "e \<noteq> EOL" by blast
      then show ?thesis using 2 eq Nil by (intro bad[of e s']) (auto simp: readUint_def)
    next
      case (Cons b w)
      then show ?thesis using 2 eq readByte_ok[OF assms(1)] by (intro ok) (auto simp: readUint_def be_or_def)
    qed
  next
    case 3
    show ?thesis
    proof (cases "k \<le> length (win s)")
      case True
      have "hd (take k (win s)) = hd (win s)" using 3 by simp
      then show ?thesis using 3 True eq u readFull_ok[OF assms(1) True]
        by (cases "hd (win s) = 0") (auto simp: readUint_def intro: ok bad)
    next
      case False
      then obtain e s' where "readFull (word_of_nat k) s = (Inl (Err e), s')" "e \<noteq> EOL"
        using readFull_fail[OF assms(1), of "word_of_nat k"] u by auto
      then show ?thesis using 3 False eq u by (intro bad[of e s']) (auto simp: readUint_def)
    qed
  qed
qed

section \<open>The head of a value\<close>

definition headb :: "Kind \<Rightarrow> u64 \<Rightarrow> byte \<Rightarrow> byte list" where
  "headb k z b = (case k of Byte \<Rightarrow> [b] | String \<Rightarrow> puthead 0x80 0xB7 z | List \<Rightarrow> puthead 0xC0 0xF7 z)"

definition head_ok :: "Kind \<Rightarrow> u64 \<Rightarrow> byte \<Rightarrow> bool" where
  "head_ok k z b \<longleftrightarrow> (if k = Byte then z = 0 \<and> b < 0x80 else b = 0)"

lemma be_or_byte: "be_or [b] = ucast b"
  by (simp add: be_or_def)

lemma stream_readSize_cases:
  assumes "sok s" "unat sz \<le> 8" "1 \<le> unat sz"
  obtains (ok) n where "readSize (win s) sz = Inr n" "stream_readSize k sz s = (Inr (k, n, None), consume (unat sz) s)"
    | (bad) n e s' f where "readSize (win s) sz = Inl f" "stream_readSize k sz s = (Inr (k, n, Some e), s')" "e \<noteq> EOL"
proof -
  have sz: "word_of_nat (unat sz) = sz" by simp
  show thesis
  proof (cases rule: readUint_cases[OF assms(1,2), unfolded sz, case_names ok' bad'])
    case ok'
    let ?n = "be_or (take (unat sz) (win s))"
    show thesis
    proof (cases "?n < 56")
      case True
      then have "readSize (win s) sz = Inl (Err ErrCanonSize)" using ok'(1) by (simp add: readSize_def Let_def)
      then show thesis using ok'(3) True by (intro bad[of _ ?n ErrCanonSize "consume (unat sz) s"]) (auto simp: stream_readSize_def)
    next
      case False
      have "hd (win s) \<noteq> 0"
      proof (cases "2 \<le> unat sz")
        case False
        then have one: "unat sz = 1" using assms(3) by simp
        then obtain b w where w: "win s = b # w" using ok'(1) by (cases "win s") auto
        then show ?thesis using one \<open>\<not> ?n < 56\<close> by (auto simp: be_or_byte)
      qed (use ok' in blast)
      then have "readSize (win s) sz = Inr ?n" using ok'(1) False by (simp add: readSize_def Let_def)
      then show thesis using ok'(3) False by (intro ok) (auto simp: stream_readSize_def)
    qed
  next
    case (bad' e s')
    then have "\<exists>f. readSize (win s) sz = Inl f" by (auto simp: readSize_def Let_def)
    then show thesis using bad' by (auto simp: stream_readSize_def intro: bad)
  qed
qed

text \<open>The head that the raw parser of the first byte sees, without the checks on the content.\<close>

fun parse_head :: "byte list \<Rightarrow> (Kind \<times> u64 \<times> byte) option" where
  "parse_head [] = None"
| "parse_head (b # w) =
    (if b < 0x80 then Some (Byte, 0, b)
     else if b < 0xB8 then Some (String, ucast (b - 0x80), 0)
     else if b < 0xC0 then (case readSize w (b - 0xB7) of Inr n \<Rightarrow> Some (String, n, 0) | _ \<Rightarrow> None)
     else if b < 0xF8 then Some (List, ucast (b - 0xC0), 0)
     else (case readSize w (b - 0xF7) of Inr n \<Rightarrow> Some (List, n, 0) | _ \<Rightarrow> None))"

lemma small_size:
  assumes "(z :: u64) < 56"
  obtains n where "z = word_of_nat n" "n < 56"
proof
  show "z = word_of_nat (unat z)" by simp
  show "unat z < 56" using assms by (simp add: word_less_nat_alt)
qed

lemma parse_head_headb:
  assumes "head_ok k z b" shows "parse_head (headb k z b @ w) = Some (k, z, b)"
proof (cases "k = Byte")
  case True
  then show ?thesis using assms by (simp add: head_ok_def headb_def)
next
  case False
  then have b: "b = 0" using assms by (simp add: head_ok_def)
  show ?thesis
  proof (cases "z < 56")
    case True
    obtain n where z: "z = word_of_nat n" "n < 56" using small_size[OF True] .
    have u: "(ucast z :: byte) = word_of_nat n" using z by (simp add: ucast_of_nat_u64)
    have e: "ucast ((word_of_nat n) :: byte) = z" using z by (simp add: ucast_byte_nat)
    have t: "unat (0x80 + word_of_nat n :: byte) = 0x80 + n" "unat (0xC0 + word_of_nat n :: byte) = 0xC0 + n"
      using z(2) by (simp_all add: unat_tag)
    show ?thesis using False b True t z(2) unfolding headb_def puthead_def
      by (cases k) (simp_all add: word_less_nat_alt e u)
  next
    case False2: False
    then have z: "56 \<le> z" by simp
    let ?i = "word_of_nat (intsize z) :: byte"
    have t: "unat (0xB7 + ?i) = 0xB7 + intsize z" "unat (0xF7 + ?i) = 0xF7 + intsize z"
      using intsize_bounds(2)[of z] by (simp_all add: unat_tag)
    show ?thesis using False b False2 t intsize_bounds[of z] readSize_putint[OF z, of w] unfolding headb_def puthead_def
      by (cases k) (simp_all add: word_less_nat_alt)
  qed
qed

lemma readSize_split:
  assumes "readSize w sz = Inr n" "1 \<le> unat sz" "unat sz \<le> 8"
  shows "\<exists>r. w = putint n @ r" "56 \<le> n" "sz = word_of_nat (intsize n)"
proof -
  note c = readSize_canonical[OF assms]
  show "\<exists>r. w = putint n @ r" using append_take_drop_id[of "unat sz" w] c(1) by metis
  show "56 \<le> n" by (rule c)
  have "word_of_nat (unat sz) = sz" by simp
  then show "sz = word_of_nat (intsize n)" using c(3) by simp
qed

lemma minus_eq_iff: "x - a = b \<longleftrightarrow> x = a + (b :: byte)"
  by (auto simp: algebra_simps)

lemma short_tag:
  assumes "\<not> (x :: byte) < t" "unat (x - t) < 56"
  shows "(ucast (x - t) :: u64) < 56" "t + ucast (ucast (x - t) :: u64) = x"
proof -
  have "unat (x - t) < 2 ^ 64" using assms(2) by simp
  then show "(ucast (x - t) :: u64) < 56" using assms(2) by (simp add: word_less_nat_alt unsigned_ucast_eq take_bit_nat_eq_self)
  have "(ucast (ucast (x - t) :: u64) :: byte) = x - t" by (rule bit_word_eqI) (auto simp: bit_simps)
  then show "t + ucast (ucast (x - t) :: u64) = x" by simp
qed

lemma parse_head_Some:
  assumes "parse_head w = Some (k, z, b)"
  shows "head_ok k z b \<and> (\<exists>r. w = headb k z b @ r)"
proof -
  obtain x r where w: "w = x # r" using assms by (cases w) auto
  have u: "unat x < 256" using unsigned_less[of x, where 'a=nat] by simp
  consider "x < 0x80" | "\<not> x < 0x80" "x < 0xB8" | "\<not> x < 0xB8" "x < 0xC0" | "\<not> x < 0xC0" "x < 0xF8" | "\<not> x < 0xF8"
    by blast
  then show ?thesis
  proof cases
    case 1
    then show ?thesis using assms w by (auto simp: head_ok_def headb_def)
  next
    case 2
    have "unat (x - 0x80) < 56" using 2 tag_sub[where x = x and lo = 128] by (simp add: word_less_nat_alt not_less)
    then show ?thesis using 2 assms w short_tag[where x = x and t = "0x80"] by (auto simp: head_ok_def headb_def puthead_def)
  next
    case 3
    then have nt: "\<not> x < 0x80" by (simp add: word_less_nat_alt)
    have sz: "1 \<le> unat (x - 0xB7)" "unat (x - 0xB7) \<le> 8"
      using 3 tag_sub[where x = x and lo = 183] by (simp_all add: word_less_nat_alt not_less)
    then show ?thesis using 3 nt assms w readSize_split[of r "x - 0xB7" z]
      by (auto simp: head_ok_def headb_def puthead_def minus_eq_iff split: sum.splits)
  next
    case 4
    then have nt: "\<not> x < 0x80" "\<not> x < 0xB8" by (simp_all add: word_less_nat_alt)
    have "unat (x - 0xC0) < 56" using 4 tag_sub[where x = x and lo = 192] by (simp add: word_less_nat_alt not_less)
    then show ?thesis using 4 nt assms w short_tag[where x = x and t = "0xC0"] by (auto simp: head_ok_def headb_def puthead_def)
  next
    case 5
    then have nt: "\<not> x < 0x80" "\<not> x < 0xB8" "\<not> x < 0xC0" by (simp_all add: word_less_nat_alt)
    have sz: "1 \<le> unat (x - 0xF7)" "unat (x - 0xF7) \<le> 8"
      using 5 u tag_sub[where x = x and lo = 247] by (simp_all add: word_less_nat_alt not_less)
    then show ?thesis using 5 nt assms w readSize_split[of r "x - 0xF7" z]
      by (auto simp: head_ok_def headb_def puthead_def minus_eq_iff split: sum.splits)
  qed
qed

lemma sok_byteval [simp]: "sok (s\<lparr>byteval := b\<rparr>) = sok s" "win (s\<lparr>byteval := b\<rparr>) = win s"
  by (cases "stack s"; simp add: sok_def win_def split: prod.splits)+

lemma consume_byteval: "consume n (s\<lparr>byteval := b\<rparr>) = (consume n s)\<lparr>byteval := b\<rparr>"
  by (simp add: consume_def)

lemma long_head_length:
  assumes "readSize w sz = Inr n" "1 \<le> unat sz" "unat sz \<le> 8"
  shows "length (puthead st lt n) = 1 + unat sz"
proof -
  have "56 \<le> n" "unat sz = intsize n" using readSize_canonical[OF assms] by auto
  then show ?thesis by (simp add: headsize_def not_less[symmetric])
qed

lemma stream_readKind_cases:
  assumes "sok s"
  obtains (ok) k z b where "parse_head (win s) = Some (k, z, b)"
      "stream_readKind s = (Inr (k, z, None), (consume (length (headb k z b)) s)\<lparr>byteval := b\<rparr>)"
    | (bad) k z e s' where "parse_head (win s) = None" "stream_readKind s = (Inr (k, z, Some e), s')" "e \<noteq> EOL"
proof (cases "win s")
  case Nil
  from readByte_fail[OF assms this] obtain e s' where "readByte s = (Inl (Err e), s')" "e \<noteq> EOL" by blast
  then show thesis using Nil
    by (intro bad[of Byte 0 "if stack s' = [] \<and> (e = UnexpectedEOF \<or> e = ErrValueTooLarge) then io_EOF else e" s'])
      (auto simp: stream_readKind_def)
next
  case (Cons x w)
  note rb = readByte_ok[OF assms Cons]
  let ?s = "(consume 1 s)\<lparr>byteval := 0\<rparr>"
  have s1: "sok ?s" "win ?s = w" using consume_ok[OF assms, of 1] Cons by simp_all
  have u: "unat x < 256" using unsigned_less[of x, where 'a=nat] by simp
  have long: thesis if k: "stream_readKind s = stream_readSize k sz ?s" "1 \<le> unat sz" "unat sz \<le> 8"
      "parse_head (win s) = (case readSize w sz of Inr n \<Rightarrow> Some (k, n, 0) | _ \<Rightarrow> None)" "k \<noteq> Byte" for k sz
  proof (cases rule: stream_readSize_cases[OF s1(1) k(3,2), of k, unfolded s1(2), case_names ok' bad'])
    case (ok' n)
    have "length (headb k n 0) = 1 + unat sz"
      using long_head_length[OF ok'(1) k(2,3)] k(5) by (cases k) (auto simp: headb_def)
    then show thesis using k(1,4) ok'
      by (intro ok[of k n 0]) (simp_all add: consume_byteval consume_consume)
  next
    case (bad' n e s' f)
    then show thesis using k(1,4) by (intro bad) auto
  qed
  have tags: "1 \<le> unat (x - 0xB7) \<and> unat (x - 0xB7) \<le> 8" if "\<not> x < 0xB8" "x < 0xC0"
    using that tag_sub[where x = x and lo = 183] by (auto simp add: word_less_nat_alt not_less)
  have tagl: "1 \<le> unat (x - 0xF7) \<and> unat (x - 0xF7) \<le> 8" if "\<not> x < 0xF8"
    using that u tag_sub[where x = x and lo = 247] by (auto simp add: word_less_nat_alt not_less)
  have short: thesis if "stream_readKind s = (Inr (k, z, None), (consume 1 s)\<lparr>byteval := b\<rparr>)" "parse_head (win s) = Some (k, z, b)"
      "length (headb k z b) = 1" for k z b
    using that by (intro ok[of k z b]) simp_all
  consider "x < 0x80" | "\<not> x < 0x80" "x < 0xB8" | "\<not> x < 0x80" "\<not> x < 0xB8" "x < 0xC0"
    | "\<not> x < 0x80" "\<not> x < 0xB8" "\<not> x < 0xC0" "x < 0xF8" | "\<not> x < 0x80" "\<not> x < 0xB8" "\<not> x < 0xC0" "\<not> x < 0xF8"
    by blast
  then show thesis
  proof cases
    case 1
    then show thesis using Cons rb by (intro short[of Byte 0 x]) (simp_all add: stream_readKind_def headb_def)
  next
    case 2
    have "unat (x - 0x80) < 56" using 2 tag_sub[where x = x and lo = 128] by (simp add: word_less_nat_alt not_less)
    then show thesis using 2 Cons rb short_tag(1)[of x "0x80"]
      by (intro short[of String "ucast (x - 0x80)" 0]) (simp_all add: stream_readKind_def headb_def headsize_def)
  next
    case 3
    then show thesis using Cons rb tags by (intro long[of String "x - 0xB7"]) (simp_all add: stream_readKind_def)
  next
    case 4
    have "unat (x - 0xC0) < 56" using 4 tag_sub[where x = x and lo = 192] by (simp add: word_less_nat_alt not_less)
    then show thesis using 4 Cons rb short_tag(1)[of x "0xC0"]
      by (intro short[of List "ucast (x - 0xC0)" 0]) (simp_all add: stream_readKind_def headb_def headsize_def)
  next
    case 5
    then show thesis using Cons rb tagl by (intro long[of List "x - 0xF7"]) (simp_all add: stream_readKind_def)
  qed
qed

section \<open>The kind of the next value\<close>

definition armed :: "Kind \<Rightarrow> u64 \<Rightarrow> byte \<Rightarrow> Stream \<Rightarrow> Stream" where
  "armed k z b s = (consume (length (headb k z b)) s)\<lparr>byteval := b, skind := Some k, ssize := z, kinderr := None\<rparr>"

text \<open>A stream between two values.\<close>

definition fresh :: "Stream \<Rightarrow> bool" where
  "fresh s \<longleftrightarrow> sok s \<and> skind s = None"

definition reads :: "Stream \<Rightarrow> nat \<Rightarrow> Stream \<Rightarrow> bool" where
  "reads s n s' \<longleftrightarrow> fresh s' \<and> rd s' = drop n (rd s) \<and> stack s' = bump (word_of_nat n) (stack s)"

lemma sok_upd [simp]:
  "sok (s\<lparr>byteval := b\<rparr>) = sok s" "sok (s\<lparr>skind := k\<rparr>) = sok s" "sok (s\<lparr>ssize := z\<rparr>) = sok s" "sok (s\<lparr>kinderr := e\<rparr>) = sok s"
  "win (s\<lparr>byteval := b\<rparr>) = win s" "win (s\<lparr>skind := k\<rparr>) = win s" "win (s\<lparr>ssize := z\<rparr>) = win s" "win (s\<lparr>kinderr := e\<rparr>) = win s"
  by (cases "stack s"; simp add: sok_def win_def split: prod.splits)+

lemma win_cong: "rd s' = rd t \<Longrightarrow> stack s' = stack t \<Longrightarrow> win s' = win t"
  by (cases "stack t") (simp_all add: win_def split: prod.splits)

lemma sok_cong: "sok t \<Longrightarrow> rd s' = rd t \<Longrightarrow> stack s' = stack t \<Longrightarrow> remaining s' = remaining t \<Longrightarrow> sok s'"
  by (cases "stack t") (simp_all add: sok_def split: prod.splits)

lemma reads_win: "sok s \<Longrightarrow> n \<le> length (win s) \<Longrightarrow> reads s n s' \<Longrightarrow> win s' = drop n (win s)"
  using consume_ok(2)[of s n] win_cong[of s' "consume n s"] by (simp add: reads_def)

lemma reads_trans: "reads s n t \<Longrightarrow> reads t m u \<Longrightarrow> reads s (n + m) u"
  by (simp add: reads_def add.commute)

lemma reads_I:
  assumes "sok s" "n \<le> length (win s)" "rd s' = drop n (rd s)" "stack s' = bump (word_of_nat n) (stack s)"
    "remaining s' = remaining s - word_of_nat n" "skind s' = None"
  shows "reads s n s'"
  using assms consume_ok(1)[OF assms(1,2)] sok_cong[of "consume n s" s'] by (simp add: reads_def fresh_def)

lemma win_in_list: "sok s \<Longrightarrow> stack s = (p, z) # st \<Longrightarrow> win s = [] \<longleftrightarrow> p = z"
  by (auto simp: win_def sok_def unsigned_eq_0_iff)

definition at_end :: "Stream \<Rightarrow> bool" where
  "at_end s \<longleftrightarrow> stack s \<noteq> [] \<and> win s = []"

lemma kind_check_win: "sok s \<Longrightarrow> kind_check z s = None \<longleftrightarrow> unat z \<le> length (win s)"
  "sok s \<Longrightarrow> kind_check z s \<noteq> Some EOL"
proof -
  assume s: "sok s"
  have "unat (remaining s) = length (rd s)" using s by (simp add: sok_def unat_of_nat_u64)
  then show "kind_check z s = None \<longleftrightarrow> unat z \<le> length (win s)" "kind_check z s \<noteq> Some EOL" using s
    by (auto simp: kind_check_def win_def sok_def word_less_nat_alt split: list.splits)
qed

definition kind_body :: "(Kind \<times> u64) stream_m" where
  "kind_body = bindM stream_readKind (\<lambda>(k, sz, e) s1.
     kind_answer (s1\<lparr>skind := Some k, ssize := sz, kinderr := (if e \<noteq> None then e else kind_check sz s1)\<rparr>))"

lemma Kind_body: "fresh s \<Longrightarrow> Stream_Kind s = (if at_end s then (Inl (Err EOL), s\<lparr>kinderr := None\<rparr>) else kind_body (s\<lparr>kinderr := None\<rparr>))"
  using win_in_list[of s] by (auto simp: Stream_Kind_def fresh_def Let_def kind_body_def at_end_def split: list.splits)

lemma headb_unique:
  assumes "headb k z b @ r = headb k' z' b' @ r'" "head_ok k z b" "head_ok k' z' b'"
  shows "k = k' \<and> z = z' \<and> b = b' \<and> r = r'"
  using parse_head_headb[OF assms(2), of r] parse_head_headb[OF assms(3), of r'] assms(1) by auto

lemma Kind_cases:
  assumes "fresh s"
  obtains (eol) "at_end s" "Stream_Kind s = (Inl (Err EOL), s\<lparr>kinderr := None\<rparr>)"
    | (item) k z b c w where "\<not> at_end s" "head_ok k z b" "win s = headb k z b @ c @ w" "length c = unat z"
        "Stream_Kind s = (Inr (k, z), armed k z b s)" "sok (armed k z b s)" "win (armed k z b s) = c @ w"
    | (bad) e s' where "\<not> at_end s" "Stream_Kind s = (Inl (Err e), s')" "e \<noteq> EOL"
        "\<And>k z b c w. head_ok k z b \<Longrightarrow> win s = headb k z b @ c @ w \<Longrightarrow> length c \<noteq> unat z"
proof (cases "at_end s")
  case True
  then show thesis using Kind_body[OF assms] by (intro eol) simp_all
next
  case False
  let ?s = "s\<lparr>kinderr := None\<rparr>"
  have s: "sok s" "sok ?s" "win ?s = win s" using assms by (simp_all add: fresh_def)
  show thesis
  proof (cases rule: stream_readKind_cases[OF s(2), unfolded s(3), case_names ok' bad'])
    case (ok' k z b)
    from parse_head_Some[OF ok'(1)] obtain r where h: "head_ok k z b" "win s = headb k z b @ r" by blast
    let ?t = "(consume (length (headb k z b)) ?s)\<lparr>byteval := b\<rparr>"
    have t: "sok ?t" "win ?t = r" using consume_ok[OF s(2), of "length (headb k z b)"] h by simp_all
    have K: "Stream_Kind s = kind_answer (?t\<lparr>skind := Some k, ssize := z, kinderr := kind_check z ?t\<rparr>)"
      using Kind_body[OF assms] False ok'(2) by (simp add: kind_body_def)
    show thesis
    proof (cases "unat z \<le> length r")
      case True
      then have "kind_check z ?t = None" using kind_check_win(1)[OF t(1)] t(2) by simp
      moreover have a: "armed k z b s = ?t\<lparr>skind := Some k, ssize := z, kinderr := None\<rparr>" by (simp add: armed_def consume_def)
      ultimately show thesis using True h t K False
        by (intro item[of k z b "take (unat z) r" "drop (unat z) r"]) (simp_all add: kind_answer_def)
    next
      case False2: False
      then obtain e where e: "kind_check z ?t = Some e" "e \<noteq> EOL" using kind_check_win[OF t(1), of z] t(2) by (cases "kind_check z ?t") auto
      have len: "length c \<noteq> unat z'" if a: "head_ok k' z' b'" "win s = headb k' z' b' @ c @ w" for k' z' b' c w
      proof -
        have "headb k z b @ r = headb k' z' b' @ c @ w" using a(2) h(2) by (rule trans[OF sym, rotated])
        then have "z' = z" "r = c @ w" using headb_unique[OF _ h(1) a(1)] by blast+
        then show ?thesis using False2 by simp
      qed
      show thesis
      proof (rule bad[OF False _ e(2) len])
        show "Stream_Kind s = (Inl (Err e), ?t\<lparr>skind := Some k, ssize := z, kinderr := Some e\<rparr>)"
          using K e by (simp add: kind_answer_def)
      qed
    qed
  next
    case (bad' k z e s')
    have "Stream_Kind s = (Inl (Err e), s'\<lparr>skind := Some k, ssize := z, kinderr := Some e\<rparr>)"
      using Kind_body[OF assms] False bad'(2) by (simp add: kind_body_def kind_answer_def)
    then show thesis using False bad'(1,3) parse_head_headb by (intro bad) auto
  qed
qed

lemma reads_armed:
  assumes "fresh s" "win s = headb k z b @ c @ w" "length c = unat z" "s' = consume (length c) (armed k z b s)"
  shows "reads s (length (headb k z b @ c)) s'"
  using assms by (intro reads_I) (simp_all add: fresh_def armed_def add.commute diff_diff_eq)

lemma readFull_armed:
  assumes "sok t" "win t = c @ w" "length c = unat z"
  shows "readFull z t = (Inr c, consume (length c) t)"
  using readFull_ok[of t "length c"] assms by simp

end
