(* ===== verification/RLP_Decode.thy ===== *)
theory RLP_Decode
  imports RLP_Stream
begin

text \<open>
  Correctness of the decoders of \<^verbatim>\<open>rlp/decode.go\<close>: for every shape a decoder accepts exactly the
  canonical encodings of the values of the shape, consumes them and nothing else, reports the end of
  a list as \<^verbatim>\<open>EOL\<close> and never panics. The exception is an array of one byte, which is not consumed
  when it holds zero.\<close>

section \<open>Byte strings\<close>

lemma single_head: "single c \<Longrightarrow> \<exists>b. c = [b] \<and> b < 0x80"
  by (cases c) (auto simp: single_def single_byte_less)

lemma enc_str_head:
  assumes "length c < 2 ^ 64"
  obtains (byte) b where "c = [b]" "single c" "head_ok Byte 0 b" "enc_str c = headb Byte 0 b"
    | (string) "\<not> single c" "head_ok String (word_of_nat (length c)) 0" "enc_str c = headb String (word_of_nat (length c)) 0 @ c"
      "unat (word_of_nat (length c) :: u64) = length c"
proof (cases "single c")
  case True
  then show thesis using single_head[OF True] by (auto simp: head_ok_def headb_def enc_str_def single_def intro: byte)
next
  case False
  then show thesis using assms by (intro string) (auto simp: head_ok_def headb_def enc_str_def single_def unat_of_nat_u64)
qed

text \<open>
  What a decoder must do: it accepts exactly the encodings of the values it is made for, reads
  nothing more, reports the end of a list as \<^verbatim>\<open>EOL\<close> and never panics.\<close>

definition takes :: "'a stream_m \<Rightarrow> ('a \<Rightarrow> byte list option) \<Rightarrow> Stream \<Rightarrow> 'a \<Rightarrow> byte list \<Rightarrow> byte list \<Rightarrow> Stream \<Rightarrow> bool" where
  "takes dec enc s v e w s' \<longleftrightarrow> enc v = Some e \<and> win s = e @ w \<and> dec s = (Inr v, s') \<and> reads s (length e) s' \<and>
     (\<forall>v' e' w'. enc v' = Some e' \<longrightarrow> win s = e' @ w' \<longrightarrow> v' = v)"

definition rejects :: "'a stream_m \<Rightarrow> ('a \<Rightarrow> byte list option) \<Rightarrow> Stream \<Rightarrow> bool" where
  "rejects dec enc s \<longleftrightarrow> (\<exists>f s'. dec s = (Inl (Err f), s') \<and> f \<noteq> EOL) \<and> (\<forall>v e w. enc v = Some e \<longrightarrow> win s \<noteq> e @ w)"

definition seq_exact :: "'a stream_m \<Rightarrow> ('a \<Rightarrow> byte list option) \<Rightarrow> bool" where
  "seq_exact dec enc \<longleftrightarrow> (\<forall>s. fresh s \<longrightarrow> (\<exists>v e w s'. takes dec enc s v e w s') \<or> rejects dec enc s)"

definition dec_exact :: "'a stream_m \<Rightarrow> ('a \<Rightarrow> byte list option) \<Rightarrow> bool" where
  "dec_exact dec enc \<longleftrightarrow> (\<forall>s. fresh s \<longrightarrow>
     (if at_end s then dec s = (Inl (Err EOL), s\<lparr>kinderr := None\<rparr>)
      else (\<exists>v e w s'. takes dec enc s v e w s') \<or> rejects dec enc s))"

lemma dec_exact_I:
  assumes "\<And>s. fresh s \<Longrightarrow> at_end s \<Longrightarrow> dec s = (Inl (Err EOL), s\<lparr>kinderr := None\<rparr>)"
    and "\<And>s. fresh s \<Longrightarrow> \<not> at_end s \<Longrightarrow> (\<exists>v e w s'. takes dec enc s v e w s') \<or> rejects dec enc s"
  shows "dec_exact dec enc"
  using assms by (simp add: dec_exact_def)

lemma dec_exact_cases:
  assumes "dec_exact dec enc" "fresh s"
  obtains (eol) "at_end s" "dec s = (Inl (Err EOL), s\<lparr>kinderr := None\<rparr>)"
    | (ok) v e w s' where "\<not> at_end s" "takes dec enc s v e w s'"
    | (bad) "\<not> at_end s" "rejects dec enc s"
proof (cases "at_end s")
  case True
  then show thesis using assms by (intro eol) (simp_all add: dec_exact_def)
next
  case False
  then have "(\<exists>v e w s'. takes dec enc s v e w s') \<or> rejects dec enc s" using assms by (simp add: dec_exact_def)
  then show thesis using ok[OF False] bad[OF False] by blast
qed

lemma takesD:
  assumes "takes dec enc s v e w s'"
  shows "enc v = Some e" "win s = e @ w" "dec s = (Inr v, s')" "reads s (length e) s'"
    "\<And>v' e' w'. enc v' = Some e' \<Longrightarrow> win s = e' @ w' \<Longrightarrow> v' = v"
  using assms unfolding takes_def by blast+

lemma rejectsE:
  assumes "rejects dec enc s"
  obtains f s' where "dec s = (Inl (Err f), s')" "f \<noteq> EOL" "\<And>v e w. enc v = Some e \<Longrightarrow> win s \<noteq> e @ w"
  using assms unfolding rejects_def by blast

lemma rejectsI:
  assumes "dec s = (Inl (Err f), s')" "f \<noteq> EOL" "\<And>v e w. enc v = Some e \<Longrightarrow> win s = e @ w \<Longrightarrow> False"
  shows "rejects dec enc s"
  using assms unfolding rejects_def by blast

lemma takesI:
  assumes "enc v = Some e" "win s = e @ w" "dec s = (Inr v, s')" "reads s (length e) s'"
    "\<And>v' e' w'. enc v' = Some e' \<Longrightarrow> win s = e' @ w' \<Longrightarrow> v' = v"
  shows "takes dec enc s v e w s'"
  unfolding takes_def by (intro conjI allI impI assms)

lemma dec_exact_wrap:
  assumes "dec_exact dec enc" "\<And>e. f e = EOL \<longleftrightarrow> e = EOL"
  shows "dec_exact (wrapM f dec) enc"
proof (rule dec_exact_I)
  fix s assume s: "fresh s" "at_end s"
  then show "wrapM f dec s = (Inl (Err EOL), s\<lparr>kinderr := None\<rparr>)"
    using assms by (simp add: dec_exact_def wrapM_def)
next
  fix s assume s: "fresh s" "\<not> at_end s"
  from assms(1) s(1) show "(\<exists>v e w s'. takes (wrapM f dec) enc s v e w s') \<or> rejects (wrapM f dec) enc s"
  proof (cases rule: dec_exact_cases)
    case (ok v e w s')
    then have "takes (wrapM f dec) enc s v e w s'" by (simp add: takes_def wrapM_def)
    then show ?thesis by blast
  next
    case bad
    then have "rejects (wrapM f dec) enc s" using assms(2) by (auto simp: rejects_def wrapM_def)
    then show ?thesis by blast
  qed (use s in simp)
qed

lemma wrapStreamError_EOL: "wrapStreamError e = EOL \<longleftrightarrow> e = EOL"
  by (cases e) auto

text \<open>A check and a conversion after a decoder.\<close>

definition refines :: "('a \<Rightarrow> byte list option) \<Rightarrow> ('a \<Rightarrow> 'b stream_m) \<Rightarrow> ('b \<Rightarrow> byte list option) \<Rightarrow> bool" where
  "refines enc k enc' \<longleftrightarrow>
     (\<forall>v e. enc v = Some e \<longrightarrow> length e < 2 ^ 64 \<longrightarrow>
       (\<exists>u. k v = returnM u \<and> enc' u = Some e \<and> (\<forall>u'. enc' u' = Some e \<longrightarrow> u' = u)) \<or>
       (\<exists>x. k v = errM x \<and> x \<noteq> EOL \<and> (\<forall>u. enc' u \<noteq> Some e))) \<and>
     (\<forall>u e. enc' u = Some e \<longrightarrow> length e < 2 ^ 64 \<longrightarrow> (\<exists>v. enc v = Some e))"

lemma refinesD:
  assumes "refines enc k enc'" "enc v = Some e" "length e < 2 ^ 64"
  obtains u where "k v = returnM u" "enc' u = Some e" "\<And>u'. enc' u' = Some e \<Longrightarrow> u' = u"
    | x where "k v = errM x" "x \<noteq> EOL" "\<And>u. enc' u \<noteq> Some e"
  using assms unfolding refines_def by meson

lemma refines_back: "refines enc k enc' \<Longrightarrow> enc' u = Some e \<Longrightarrow> length e < 2 ^ 64 \<Longrightarrow> \<exists>v. enc v = Some e"
  by (simp add: refines_def)

lemma prefix_short: "fresh s \<Longrightarrow> win s = e @ w \<Longrightarrow> length e < 2 ^ 64"
  using win_length[of s] by (simp add: fresh_def)

lemma step_refines:
  assumes "fresh s" "takes dec enc s v e w s'" "refines enc k enc'"
  shows "(\<exists>v e w s'. takes (bindM dec k) enc' s v e w s') \<or> rejects (bindM dec k) enc' s"
proof -
  note t = takesD[OF assms(2)]
  have same: "e' = e" if u: "enc' u = Some e'" "win s = e' @ w'" for u e' w'
  proof -
    obtain v' where v': "enc v' = Some e'" using refines_back[OF assms(3) u(1)] prefix_short[OF assms(1) u(2)] by blast
    then have "v' = v" using t(5) u(2) by blast
    then show ?thesis using v' t(1) by simp
  qed
  from assms(3) t(1) prefix_short[OF assms(1) t(2)] show ?thesis
  proof (cases rule: refinesD)
    case (1 u)
    have "takes (bindM dec k) enc' s u e w s'"
    proof (rule takesI[where enc = enc', OF 1(2) t(2) _ t(4)])
      show "bindM dec k s = (Inr u, s')" using t(3) 1(1) by simp
      show "v' = u" if v': "enc' v' = Some e'" "win s = e' @ w'" for v' e' w'
        using 1(3)[of v'] same[OF v'] v'(1) by simp
    qed
    then show ?thesis by blast
  next
    case (2 x)
    have "rejects (bindM dec k) enc' s"
    proof (rule rejectsI[OF _ 2(2)])
      show "bindM dec k s = (Inl (Err x), s')" using t(3) 2(1) by simp
      show False if v': "enc' v' = Some e'" "win s = e' @ w'" for v' e' w'
        using 2(3)[of v'] same[OF v'] v'(1) by simp
    qed
    then show ?thesis by blast
  qed
qed

lemma dec_exact_bind:
  assumes "dec_exact dec enc" "refines enc k enc'"
  shows "dec_exact (bindM dec k) enc'"
proof (rule dec_exact_I)
  fix s assume s: "fresh s" "at_end s"
  then show "bindM dec k s = (Inl (Err EOL), s\<lparr>kinderr := None\<rparr>)"
    using assms by (simp add: dec_exact_def)
next
  fix s assume s: "fresh s" "\<not> at_end s"
  from assms(1) s(1) show "(\<exists>v e w s'. takes (bindM dec k) enc' s v e w s') \<or> rejects (bindM dec k) enc' s"
  proof (cases rule: dec_exact_cases)
    case (ok v e w s')
    then show ?thesis using step_refines[OF s(1) ok(2) assms(2)] by blast
  next
    case bad
    from bad(2) obtain f s' where f: "dec s = (Inl (Err f), s')" "f \<noteq> EOL" "\<And>v e w. enc v = Some e \<Longrightarrow> win s \<noteq> e @ w"
      by (rule rejectsE) blast
    have "rejects (bindM dec k) enc' s"
    proof (rule rejectsI[OF _ f(2)])
      show "bindM dec k s = (Inl (Err f), s')" using f(1) by simp
      show False if v': "enc' v' = Some e'" "win s = e' @ w'" for v' e' w'
        using refines_back[OF assms(2) v'(1) prefix_short[OF s(1) v'(2)]] f(3) v'(2) by blast
    qed
    then show ?thesis by blast
  qed (use s in simp)
qed

section \<open>Byte strings and integers\<close>

lemma enc_str_inj:
  assumes "enc_str c @ w = enc_str c' @ w'" "length c < 2 ^ 64" "length c' < 2 ^ 64"
  shows "c = c'"
proof (cases rule: enc_str_head[OF assms(2), case_names byte string])
  case (byte b)
  show ?thesis
  proof (cases rule: enc_str_head[OF assms(3), case_names byte' string'])
    case (byte' b')
    then show ?thesis using byte assms(1) by (simp add: headb_def)
  next
    case string'
    then show ?thesis using byte assms(1) headb_unique[of Byte 0 b w String "word_of_nat (length c')" 0 "c' @ w'"] by simp
  qed
next
  case string
  show ?thesis
  proof (cases rule: enc_str_head[OF assms(3), case_names byte' string'])
    case (byte' b')
    then show ?thesis using string assms(1) headb_unique[of String "word_of_nat (length c)" 0 "c @ w" Byte 0 b' w'] by simp
  next
    case string'
    have "headb String (word_of_nat (length c)) 0 @ c @ w = headb String (word_of_nat (length c')) 0 @ c' @ w'"
      using assms(1) string(3) string'(3) by (simp only: append_assoc)
    from headb_unique[OF this string(2) string'(2)]
    have "word_of_nat (length c) = (word_of_nat (length c') :: u64)" "c @ w = c' @ w'" by blast+
    then have "length c = length c'" using string(4) string'(4) by metis
    then show ?thesis using \<open>c @ w = c' @ w'\<close> by simp
  qed
qed

lemma str_short: "fresh s \<Longrightarrow> win s = enc_str c @ w \<Longrightarrow> length c < 2 ^ 64"
  using prefix_short[of s "enc_str c" w] enc_str_length[of c] by simp

lemma str_window:
  assumes "fresh s" "head_ok k z b" "win s = headb k z b @ c @ w" "length c = unat z" "win s = enc_str d @ v"
  shows "k = Byte \<and> d = [b] \<or> k = String \<and> d = c \<and> \<not> single c"
proof (cases rule: enc_str_head[OF str_short[OF assms(1,5)], case_names byte string])
  case (byte b')
  then show ?thesis using headb_unique[of k z b "c @ w" Byte 0 b' v] assms by simp
next
  case string
  then have "k = String \<and> c @ w = d @ v \<and> z = word_of_nat (length d)"
    using headb_unique[of k z b "c @ w" String "word_of_nat (length d)" 0 "d @ v"] assms by simp
  moreover then have "length d = length c" using string(4) assms(4) by simp
  ultimately show ?thesis using string(1) by auto
qed

lemma str_item:
  assumes "fresh s" "win s = enc_str d @ v"
  obtains k z b c where "head_ok k z b" "win s = headb k z b @ c @ v" "length c = unat z"
proof (cases rule: enc_str_head[OF str_short[OF assms], case_names byte string])
  case (byte b')
  then show ?thesis using assms(2) by (intro that[of Byte 0 b' "[]"]) simp_all
next
  case string
  then show ?thesis using assms(2) by (intro that[of String "word_of_nat (length d)" 0 d]) simp_all
qed

lemma Kind_bad_str:
  assumes "fresh s" "\<And>k z b c w. head_ok k z b \<Longrightarrow> win s = headb k z b @ c @ w \<Longrightarrow> length c \<noteq> unat z"
  shows "win s \<noteq> enc_str d @ v"
  using str_item[OF assms(1)] assms(2) by metis

text \<open>What remains to be shown for a decoder of strings: the result on the head that was read.\<close>

definition str_takes :: "'a stream_m \<Rightarrow> ('a \<Rightarrow> byte list option) \<Rightarrow> Stream \<Rightarrow> byte list \<Rightarrow> bool" where
  "str_takes dec enc s w \<longleftrightarrow>
     (\<exists>d v s'. enc v = Some (enc_str d) \<and> win s = enc_str d @ w \<and> dec s = (Inr v, s') \<and> reads s (length (enc_str d)) s')"

definition str_rejects :: "'a stream_m \<Rightarrow> ('a \<Rightarrow> byte list option) \<Rightarrow> Stream \<Rightarrow> Kind \<Rightarrow> byte \<Rightarrow> byte list \<Rightarrow> bool" where
  "str_rejects dec enc s k b c \<longleftrightarrow> (\<exists>f s'. dec s = (Inl (Err f), s') \<and> f \<noteq> EOL) \<and>
     (\<forall>d v. enc v = Some (enc_str d) \<longrightarrow> \<not> (k = Byte \<and> d = [b]) \<and> \<not> (k = String \<and> d = c \<and> \<not> single c))"

lemma str_takesI:
  "dec s = (Inr v, s') \<Longrightarrow> enc v = Some (enc_str d) \<Longrightarrow> win s = enc_str d @ w \<Longrightarrow> reads s (length (enc_str d)) s' \<Longrightarrow> str_takes dec enc s w"
  unfolding str_takes_def by blast

lemma str_rejectsI:
  "dec s = (Inl (Err f), s') \<Longrightarrow> f \<noteq> EOL \<Longrightarrow>
   (\<And>d v. enc v = Some (enc_str d) \<Longrightarrow> k = Byte \<and> d = [b] \<or> k = String \<and> d = c \<and> \<not> single c \<Longrightarrow> False) \<Longrightarrow> str_rejects dec enc s k b c"
  unfolding str_rejects_def by blast

lemma str_exact:
  assumes eol: "\<And>s e s'. Stream_Kind s = (Inl e, s') \<Longrightarrow> dec s = (Inl e, s')"
    and enc: "\<And>v e. enc v = Some e \<Longrightarrow> \<exists>d. e = enc_str d \<and> val d = v"
    and item: "\<And>s k z b c w. fresh s \<Longrightarrow> head_ok k z b \<Longrightarrow> win s = headb k z b @ c @ w \<Longrightarrow> length c = unat z \<Longrightarrow>
        Stream_Kind s = (Inr (k, z), armed k z b s) \<Longrightarrow> sok (armed k z b s) \<Longrightarrow> win (armed k z b s) = c @ w \<Longrightarrow>
        str_takes dec enc s w \<or> str_rejects dec enc s k b c"
  shows "dec_exact dec enc"
proof (rule dec_exact_I)
  fix s assume s: "fresh s" "at_end s"
  from s(1) show "dec s = (Inl (Err EOL), s\<lparr>kinderr := None\<rparr>)"
    by (cases rule: Kind_cases) (use s eol in simp_all)
next
  fix s assume s: "fresh s" "\<not> at_end s"
  from s(1) show "(\<exists>v e w s'. takes dec enc s v e w s') \<or> rejects dec enc s"
  proof (cases rule: Kind_cases)
    case (bad e s')
    have n: "win s \<noteq> enc_str d @ v" for d v by (rule Kind_bad_str[OF s(1) bad(4)])
    have "rejects dec enc s"
      using eol[OF bad(2)] bad(3) enc n by (intro rejectsI[of _ _ e s']) blast+
    then show ?thesis by blast
  next
    case i: (item k z b c w)
    from item[OF s(1) i(2-)] show ?thesis
      unfolding str_takes_def str_rejects_def
    proof (elim disjE exE conjE)
      fix d v s'
      assume a: "enc v = Some (enc_str d)" "win s = enc_str d @ w" "dec s = (Inr v, s')" "reads s (length (enc_str d)) s'"
      have "takes dec enc s v (enc_str d) w s'"
      proof (rule takesI[where enc = enc and dec = dec, OF a])
        fix v' e' w' assume v': "enc v' = Some e'" "win s = e' @ w'"
        obtain d' where d': "e' = enc_str d'" "val d' = v'" using enc[OF v'(1)] by blast
        have "d' = d" using enc_str_inj[of d' w' d w] str_short[OF s(1)] v'(2) d'(1) a(2) by metis
        moreover obtain d'' where "enc_str d = enc_str d''" "val d'' = v" using enc[OF a(1)] by blast
        moreover then have "d'' = d" using enc_str_inj[of d w d'' w] str_short[OF s(1)] a(2) by metis
        ultimately show "v' = v" using d'(2) by simp
      qed
      then show ?thesis by blast
    next
      fix f s'
      assume a: "dec s = (Inl (Err f), s')" "f \<noteq> EOL" "\<forall>d v. enc v = Some (enc_str d) \<longrightarrow> \<not> (k = Byte \<and> d = [b]) \<and> \<not> (k = String \<and> d = c \<and> \<not> single c)"
      have "rejects dec enc s"
      proof (rule rejectsI[where dec = dec, OF a(1,2)])
        fix v' e' w' assume v': "enc v' = Some e'" "win s = e' @ w'"
        obtain d' where d': "e' = enc_str d'" using enc[OF v'(1)] by blast
        then show False using str_window[OF s(1) i(2,3,4), of d' w'] a(3) v' by blast
      qed
      then show ?thesis by blast
    qed
  qed (use s in simp)
qed

lemma byte_read:
  assumes "fresh s" "head_ok Byte z b" "win s = headb Byte z b @ c @ w" "length c = unat z"
  shows "z = 0" "c = []" "win s = enc_str [b] @ w" "reads s (length (enc_str [b])) ((armed Byte z b s)\<lparr>skind := None\<rparr>)"
proof -
  show z: "z = 0" "c = []" using assms by (auto simp: head_ok_def)
  have e: "enc_str [b] = [b]" using assms(2) by (simp add: enc_str_def single_byte_less head_ok_def)
  then show "win s = enc_str [b] @ w" using assms(3) z by (simp add: headb_def)
  show "reads s (length (enc_str [b])) ((armed Byte z b s)\<lparr>skind := None\<rparr>)"
    using assms(1,3) e by (intro reads_I) (simp_all add: fresh_def armed_def headb_def)
qed

lemma string_read:
  assumes "fresh s" "head_ok String z b" "win s = headb String z b @ c @ w" "length c = unat z" "\<not> single c"
  shows "win s = enc_str c @ w" "reads s (length (enc_str c)) (consume (length c) (armed String z b s))"
proof -
  have z: "b = 0" "z = word_of_nat (length c)" using assms(2,4) by (simp_all add: head_ok_def)
  have "enc_str c = puthead 0x80 0xB7 (word_of_nat (length c)) @ c"
    using assms(5) unfolding enc_str_def single_def by (rule if_not_P)
  then have e: "enc_str c = headb String z b @ c" using z by (simp add: headb_def)
  then show "win s = enc_str c @ w" using assms(3) by simp
  show "reads s (length (enc_str c)) (consume (length c) (armed String z b s))"
    using reads_armed[OF assms(1,3,4) refl] e by simp
qed

lemma single_size: "length c = unat z \<Longrightarrow> single c \<longleftrightarrow> z = 1 \<and> hd c < 128"
  by (auto simp: single_def single_byte_less word_unat_eq_iff)

lemma Bytes_exact: "dec_exact Stream_Bytes (\<lambda>c. Some (enc_str c))"
proof (rule str_exact[where val = id])
  fix s k z b c w
  assume i: "fresh s" "head_ok k z b" "win s = headb k z b @ c @ w" "length c = unat z"
    "Stream_Kind s = (Inr (k, z), armed k z b s)" "sok (armed k z b s)" "win (armed k z b s) = c @ w"
  have S: "readFull z (armed k z b s) = (Inr c, consume (length c) (armed k z b s))" by (rule readFull_armed[OF i(6,7,4)])
  let ?E = "\<lambda>c. Some (enc_str c)"
  show "str_takes Stream_Bytes ?E s w \<or> str_rejects Stream_Bytes ?E s k b c"
  proof (cases k)
    case Byte
    have "Stream_Bytes s = (Inr [b], (armed k z b s)\<lparr>skind := None\<rparr>)"
      using i(5) Byte by (simp add: Stream_Bytes_def rearm_def) (simp add: armed_def)
    then have "str_takes Stream_Bytes ?E s w"
      using byte_read(3,4)[OF i(1), of z b c w] i(2,3,4) Byte by (intro str_takesI) simp_all
    then show ?thesis ..
  next
    case String
    show ?thesis
    proof (cases "single c")
      case True
      then have "Stream_Bytes s = (Inl (Err ErrCanonSize), consume (length c) (armed k z b s))"
        using i(5) S String single_size[OF i(4)] by (simp add: Stream_Bytes_def)
      then have "str_rejects Stream_Bytes ?E s k b c" using String True by (rule_tac str_rejectsI) auto
      then show ?thesis ..
    next
      case False
      then have "Stream_Bytes s = (Inr c, consume (length c) (armed k z b s))"
        using i(5) S String single_size[OF i(4)] by (simp add: Stream_Bytes_def)
      then have "str_takes Stream_Bytes ?E s w"
        using string_read[OF i(1), of z b c w] i(2,3,4) String False by (intro str_takesI) simp_all
      then show ?thesis ..
    qed
  next
    case List
    then have "Stream_Bytes s = (Inl (Err ErrExpectedString), armed k z b s)" using i(5) by (simp add: Stream_Bytes_def)
    then have "str_rejects Stream_Bytes ?E s k b c" using List by (rule_tac str_rejectsI) auto
    then show ?thesis ..
  qed
qed (simp_all add: Stream_Bytes_def)

lemma length_be_bytes_nat: "length (be_bytes_nat n) \<le> m \<longleftrightarrow> n < 256 ^ m"
proof (induction m arbitrary: n)
  case 0
  then show ?case by (subst be_bytes_nat.simps) simp
next
  case (Suc m)
  show ?case
  proof (cases "n = 0")
    case True
    then show ?thesis by (subst be_bytes_nat.simps) simp
  next
    case False
    then have "be_bytes_nat n = be_bytes_nat (n div 256) @ [word_of_nat n]" by (simp add: be_bytes_nat_snoc)
    then show ?thesis using Suc[of "n div 256"] by (simp add: div_less_iff_less_mult mult.commute)
  qed
qed

lemma be_bytes_short: "unat (v :: u64) < 256 ^ m \<Longrightarrow> length (be_bytes_nat (unat v)) \<le> min m 8"
  using length_be_bytes_nat[of "unat v" m] length_be_bytes_nat[of "unat v" 8] unsigned_less[of v, where 'a = nat] by simp

lemma be_or_be_bytes: "be_or (be_bytes_nat (unat v)) = v"
proof -
  have "length (be_bytes_nat (unat v)) \<le> 8" using be_bytes_short[of v 8] unsigned_less[of v, where 'a = nat] by simp
  then have "unat (be_or (be_bytes_nat (unat v))) = unat v" by (simp add: unat_be_or be_int_be_bytes_nat)
  then show ?thesis by (simp add: word_unat_eq_iff)
qed

lemma be_bytes_nat_0 [simp]: "be_bytes_nat 0 = []"
  by (simp add: be_bytes_nat.simps)

definition uint_enc :: "nat \<Rightarrow> u64 \<Rightarrow> byte list option" where
  "uint_enc m v = (if unat v < 256 ^ m then Some (enc_str (be_bytes_nat (unat v))) else None)"

lemma uint_enc_str:
  assumes "uint_enc m v = Some (enc_str d)" "length d < 2 ^ 64"
  shows "d = be_bytes_nat (unat v)" "unat v < 256 ^ m" "be_or d = v" "length d \<le> m"
proof -
  show v: "unat v < 256 ^ m" using assms(1) by (simp add: uint_enc_def split: if_splits)
  have e: "enc_str (be_bytes_nat (unat v)) = enc_str d" using assms(1) v by (simp add: uint_enc_def)
  show d: "d = be_bytes_nat (unat v)"
    using enc_str_inj[of "be_bytes_nat (unat v)" "[]" d "[]"] e be_bytes_short[OF v] assms(2) by simp
  then show "be_or d = v" "length d \<le> m" using be_or_be_bytes[of v] be_bytes_short[OF v] by simp_all
qed

lemma canonical_bytes:
  assumes "c \<noteq> []" "hd c \<noteq> 0" "length c \<le> 8" "length c \<le> m"
  shows "uint_enc m (be_or c) = Some (enc_str c)"
proof -
  have u: "unat (be_or c) = nat (be_int c)" using assms(3) by (rule unat_be_or)
  then have b: "be_bytes_nat (unat (be_or c)) = c" using be_bytes_be_int[OF assms(1,2)] by simp
  then have "unat (be_or c) < 256 ^ m" using length_be_bytes_nat[of "unat (be_or c)" m] assms(4) by simp
  then show ?thesis using b by (simp add: uint_enc_def)
qed

lemma unat_ucast_up: "unat (ucast (x :: byte) :: u64) = unat x"
  using unsigned_less[of x, where 'a = nat] by (simp add: unsigned_ucast_eq take_bit_nat_eq_self)

lemma small_uint_single:
  assumes "be_or c < 128" "length c < 2 ^ 64" "uint_enc m v = Some (enc_str c)" "c \<noteq> []"
  shows "single c"
proof -
  note d = uint_enc_str[OF assms(3,2)]
  have v: "unat v < 128" using assms(1) d(3) by (simp add: word_less_nat_alt)
  have "unat v \<noteq> 0" using d(1) assms(4) be_bytes_nat_0 by metis
  then have "c = [word_of_nat (unat v)]" using d(1) v be_bytes_nat_small[of "unat v"] by simp
  then show ?thesis using v by (simp add: single_def word_le_nat_alt unsigned_ucast_eq take_bit_nat_eq_self)
qed

lemma uint_canonical:
  assumes "length c \<le> 8" "length c \<le> m" "c \<noteq> [] \<Longrightarrow> 128 \<le> be_or c" "2 \<le> length c \<Longrightarrow> hd c \<noteq> 0"
  shows "uint_enc m (be_or c) = Some (enc_str c) \<and> \<not> single c"
proof (cases "c = []")
  case True
  then show ?thesis by (simp add: uint_enc_def be_or_def single_def)
next
  case False
  have one: "128 \<le> unat x" if "c = [x]" for x
    using assms(3) that by (simp add: be_or_byte word_le_nat_alt unat_ucast_up)
  have "hd c \<noteq> 0" using False assms(4) one by (cases c; cases "tl c") auto
  moreover have "\<not> single c" using one by (auto simp: single_def word_le_nat_alt length_Suc_conv)
  ultimately show ?thesis using canonical_bytes[OF False] assms(1,2) by blast
qed

lemma uint_rejectsI:
  assumes "Stream_uint (8 * m) s = (Inl (Err f), s')" "f \<noteq> EOL"
    "\<And>v. k = Byte \<Longrightarrow> b = 0 \<or> uint_enc m v \<noteq> Some (enc_str [b])"
    "\<And>v. k = String \<Longrightarrow> \<not> single c \<Longrightarrow> uint_enc m v \<noteq> Some (enc_str c)"
  shows "str_rejects (Stream_uint (8 * m)) (uint_enc m) s k b c"
proof (rule str_rejectsI[where dec = "Stream_uint (8 * m)", OF assms(1,2)])
  fix d v assume v: "uint_enc m v = Some (enc_str d)" "k = Byte \<and> d = [b] \<or> k = String \<and> d = c \<and> \<not> single c"
  show False
  proof (cases "k = Byte")
    case True
    then have "d = [0]" using v assms(3)[of v] by auto
    then have "[0] = be_bytes_nat (unat v)" using uint_enc_str(1)[OF v(1)] by simp
    then show False using hd_be_bytes_nat[of "unat v"] by (cases "unat v = 0") (auto dest: arg_cong[of _ _ hd])
  next
    case False
    then show False using v assms(4) by blast
  qed
qed

lemma uint_string:
  assumes m: "1 \<le> m" "m \<le> 8" and i: "fresh s" "head_ok String z b" "win s = headb String z b @ c @ w" "length c = unat z"
    "Stream_Kind s = (Inr (String, z), armed String z b s)" "sok (armed String z b s)" "win (armed String z b s) = c @ w"
    and short: "length c \<le> m"
  shows "str_takes (Stream_uint (8 * m)) (uint_enc m) s w \<or> str_rejects (Stream_uint (8 * m)) (uint_enc m) s String b c"
proof -
  have z: "\<not> z > word_of_nat m" using i(4) m short by (simp add: word_less_nat_alt unat_of_nat_u64)
  have u: "(ucast z :: byte) = word_of_nat (length c)" unfolding i(4) by (rule ucast_u64_nat)
  have hdc: "hd (c @ w) = hd c" if "2 \<le> length c" using that by (cases c) auto
  have c: "length c < 2 ^ 64" using short m by simp
  let ?t = "consume (length c) (armed String z b s)"
  have "length c \<le> 8" using short m by simp
  from i(6) this show ?thesis
  proof (cases rule: readUint_cases)
    case ok
    then have r: "readUint (ucast z) (armed String z b s) = (Inr (be_or c), ?t)" using u i(7) by simp
    show ?thesis
    proof (cases "z > 0 \<and> be_or c < 128")
      case True
      then have "c \<noteq> []" using i(4) by (auto simp: word_less_nat_alt)
      moreover have "Stream_uint (8 * m) s = (Inl (Err ErrCanonSize), ?t)" using r z i(5) True by (simp add: Stream_uint_def)
      ultimately have "str_rejects (Stream_uint (8 * m)) (uint_enc m) s String b c"
        using small_uint_single[OF True[THEN conjunct2] c] by (intro uint_rejectsI) auto
      then show ?thesis ..
    next
      case False
      then have "Stream_uint (8 * m) s = (Inr (be_or c), ?t)" using r z i(5) by (simp add: Stream_uint_def)
      moreover have "uint_enc m (be_or c) = Some (enc_str c) \<and> \<not> single c"
        using False ok(2) hdc i(4,7) short m by (intro uint_canonical) (auto simp: word_less_nat_alt word_le_nat_alt word_gt_0)
      ultimately have "str_takes (Stream_uint (8 * m)) (uint_enc m) s w"
        using string_read[OF i(1-4)] by (intro str_takesI[of _ _ "be_or c" _ _ c]) simp_all
      then show ?thesis ..
    qed
  next
    case (bad e s')
    have e: "Stream_uint (8 * m) s = (Inl (Err (if e = ErrCanonSize then ErrCanonInt else e)), s')"
      using bad(2) u z i(5) by (simp add: Stream_uint_def)
    have c2: "2 \<le> length c" "hd c = 0" using bad(1) i(7) hdc by auto
    have "uint_enc m v \<noteq> Some (enc_str c)" for v
    proof
      assume "uint_enc m v = Some (enc_str c)"
      then have "c = be_bytes_nat (unat v)" by (rule uint_enc_str(1)[OF _ c])
      then show False using c2 hd_be_bytes_nat[of "unat v"] by (cases "unat v = 0") auto
    qed
    then have "str_rejects (Stream_uint (8 * m)) (uint_enc m) s String b c"
      using bad(3) by (intro uint_rejectsI[OF e]) auto
    then show ?thesis ..
  qed
qed

lemma uint_exact:
  assumes m: "1 \<le> m" "m \<le> 8"
  shows "dec_exact (Stream_uint (8 * m)) (uint_enc m)"
proof (rule str_exact[where val = be_or])
  show "\<exists>d. e = enc_str d \<and> be_or d = v" if "uint_enc m v = Some e" for v e
    using that be_or_be_bytes[of v] by (auto simp: uint_enc_def split: if_splits)
  show "Stream_uint (8 * m) s = (Inl e, s')" if "Stream_Kind s = (Inl e, s')" for s e s'
    using that by (simp add: Stream_uint_def)
  fix s k z b c w
  assume i: "fresh s" "head_ok k z b" "win s = headb k z b @ c @ w" "length c = unat z"
    "Stream_Kind s = (Inr (k, z), armed k z b s)" "sok (armed k z b s)" "win (armed k z b s) = c @ w"
  have c: "length c < 2 ^ 64" using i(4) unsigned_less[of z, where 'a = nat] by simp
  have m64: "unat (word_of_nat m :: u64) = m" using m by (simp add: unat_of_nat_u64)
  consider "k = Byte" "b = 0" | "k = Byte" "b \<noteq> 0" | "k = List" | "k = String" "\<not> length c \<le> m" | "k = String" "length c \<le> m"
    by (cases k) auto
  then show "str_takes (Stream_uint (8 * m)) (uint_enc m) s w \<or> str_rejects (Stream_uint (8 * m)) (uint_enc m) s k b c"
  proof cases
    case 1
    then have "str_rejects (Stream_uint (8 * m)) (uint_enc m) s k b c"
      using i(5) by (intro uint_rejectsI[of m s ErrCanonInt "armed k z b s"]) (simp_all add: Stream_uint_def armed_def)
    then show ?thesis ..
  next
    case 2
    then have "uint_enc m (be_or [b]) = Some (enc_str [b])" using m by (intro canonical_bytes) simp_all
    moreover have "Stream_uint (8 * m) s = (Inr (be_or [b]), (armed k z b s)\<lparr>skind := None\<rparr>)"
      using 2 i(5) by (simp add: Stream_uint_def be_or_byte) (simp add: armed_def)
    ultimately have "str_takes (Stream_uint (8 * m)) (uint_enc m) s w"
      using byte_read(3,4)[OF i(1), of z b c w] i(2,3,4) 2 by (intro str_takesI) simp_all
    then show ?thesis ..
  next
    case 3
    then have "str_rejects (Stream_uint (8 * m)) (uint_enc m) s k b c"
      using i(5) by (intro uint_rejectsI[of m s ErrExpectedString "armed k z b s"]) (simp_all add: Stream_uint_def)
    then show ?thesis ..
  next
    case 4
    then have "str_rejects (Stream_uint (8 * m)) (uint_enc m) s k b c"
      using i(4,5) m64 uint_enc_str(4)[OF _ c]
      by (intro uint_rejectsI[of m s errUintOverflow "armed k z b s"]) (auto simp: Stream_uint_def word_less_nat_alt)
    then show ?thesis ..
  next
    case 5
    then show ?thesis using uint_string[OF m i(1)] i(2-) by blast
  qed
qed

text \<open>Booleans, big integers and byte arrays.\<close>

lemma enc_str_eqD:
  assumes e: "enc_str c = enc_str d" and l: "length (enc_str d) < 2 ^ 64"
  shows "c = d"
proof (rule enc_str_inj)
  show "enc_str c @ [] = enc_str d @ []" using e by (simp only:)
  show "length c < 2 ^ 64" using enc_str_length[of c] l unfolding e by (rule le_less_trans)
  show "length d < 2 ^ 64" using enc_str_length[of d] l by (rule le_less_trans)
qed

lemma refinesI:
  assumes "\<And>v e. enc v = Some e \<Longrightarrow> length e < 2 ^ 64 \<Longrightarrow>
      (\<exists>u. k v = returnM u \<and> enc' u = Some e \<and> (\<forall>u'. enc' u' = Some e \<longrightarrow> u' = u)) \<or>
      (\<exists>x. k v = errM x \<and> x \<noteq> EOL \<and> (\<forall>u. enc' u \<noteq> Some e))"
    "\<And>u e. enc' u = Some e \<Longrightarrow> length e < 2 ^ 64 \<Longrightarrow> \<exists>v. enc v = Some e"
  shows "refines enc k enc'"
  using assms by (simp add: refines_def)

lemma be_bytes_1: "be_bytes_nat 1 = [1]"
  using be_bytes_nat_small[of 1] by simp

lemma Bool_exact: "dec_exact Stream_Bool (\<lambda>b. Some (rlp_enc (RBool b)))"
proof -
  let ?k = "\<lambda>num. if num = 0 then returnM False else if num = 1 then returnM True else errM (decodeErr ''invalid boolean value'')"
  have "dec_exact (Stream_uint (8 * 1)) (uint_enc 1)" by (rule uint_exact) simp_all
  moreover have "refines (uint_enc 1) ?k (\<lambda>b. Some (rlp_enc (RBool b)))"
  proof (rule refinesI)
    fix v e assume v: "uint_enc 1 v = Some e" "length e < 2 ^ 64"
    then have e: "e = enc_str (be_bytes_nat (unat v))" by (simp add: uint_enc_def split: if_splits)
    have inj: "be_bytes_nat (unat v) = (if u then [1] else [])" if "rlp_enc (RBool u) = e" for u
      using enc_str_eqD[of "if u then [1] else []" "be_bytes_nat (unat v)"] that v(2) e by simp
    have uniq: "u' = u" if "rlp_enc (RBool u) = e" "Some (rlp_enc (RBool u')) = Some e" for u u'
      using inj[OF that(1)] inj[of u'] that(2) by (auto split: if_splits)
    consider "v = 0" | "v = 1" | "v \<noteq> 0" "v \<noteq> 1" by blast
    then show "(\<exists>u. ?k v = returnM u \<and> Some (rlp_enc (RBool u)) = Some e \<and> (\<forall>u'. Some (rlp_enc (RBool u')) = Some e \<longrightarrow> u' = u)) \<or>
        (\<exists>x. ?k v = errM x \<and> x \<noteq> EOL \<and> (\<forall>u. Some (rlp_enc (RBool u)) \<noteq> Some e))"
    proof cases
      case 1
      then have f: "rlp_enc (RBool False) = e" using e by simp
      then show ?thesis using 1 uniq[OF f] by (intro disjI1 exI[of _ False] conjI allI impI) auto
    next
      case 2
      then have f: "rlp_enc (RBool True) = e" using e be_bytes_1 by simp
      then show ?thesis using 2 uniq[OF f] by (intro disjI1 exI[of _ True] conjI allI impI) auto
    next
      case 3
      have "rlp_enc (RBool u) \<noteq> e" for u
        using inj[of u] 3 be_or_be_bytes[of v] by (auto simp: be_or_def split: if_splits)
      then show ?thesis using 3 by (intro disjI2 exI[of _ "decodeErr ''invalid boolean value''"]) simp
    qed
  next
    fix u e assume u: "Some (rlp_enc (RBool u)) = Some e"
    then have "uint_enc 1 (if u then 1 else 0) = Some e" using be_bytes_1 by (cases u) (simp_all add: uint_enc_def)
    then show "\<exists>v. uint_enc 1 v = Some e" ..
  qed
  ultimately show ?thesis unfolding Stream_Bool_def using dec_exact_bind[of "Stream_uint (8 * 1)" "uint_enc 1" ?k] by simp
qed

definition big_enc :: "rlp_value \<Rightarrow> byte list option" where
  "big_enc v = (case v of RBig (Some i) \<Rightarrow> if 0 \<le> i then Some (rlp_enc v) else None | _ \<Rightarrow> None)"

lemma big_enc_Some: "big_enc v = Some e \<longleftrightarrow> (\<exists>i. v = RBig (Some i) \<and> 0 \<le> i \<and> e = enc_str (big_Bytes i))"
  by (cases v) (auto simp: big_enc_def split: option.splits)

lemma hd_big_Bytes: "0 \<le> i \<Longrightarrow> big_Bytes i \<noteq> [] \<Longrightarrow> hd (big_Bytes i) \<noteq> 0"
  using hd_be_bytes_nat[of "nat \<bar>i\<bar>"] by (cases "i = 0") (auto simp: big_Bytes_def)

lemma big_exact: "dec_exact decodeBigInt big_enc"
proof -
  let ?k = "\<lambda>b. if b \<noteq> [] \<and> hd b = 0 then errM ErrCanonInt else returnM (RBig (Some (be_int b)))"
  have "refines (\<lambda>c. Some (enc_str c)) ?k big_enc"
  proof (rule refinesI)
    fix b e assume "Some (enc_str b) = Some e" "length e < 2 ^ 64"
    then have e: "e = enc_str b" "length (enc_str b) < 2 ^ 64" by auto
    have inj: "big_Bytes i = b" if "enc_str (big_Bytes i) = e" for i
      using enc_str_eqD[of "big_Bytes i" b] that e by simp
    show "(\<exists>u. ?k b = returnM u \<and> big_enc u = Some e \<and> (\<forall>u'. big_enc u' = Some e \<longrightarrow> u' = u)) \<or>
        (\<exists>x. ?k b = errM x \<and> x \<noteq> EOL \<and> (\<forall>u. big_enc u \<noteq> Some e))"
    proof (cases "b \<noteq> [] \<and> hd b = 0")
      case True
      have "big_enc u \<noteq> Some e" for u using inj hd_big_Bytes True by (auto simp: big_enc_Some)
      then show ?thesis using True by (intro disjI2 exI[of _ ErrCanonInt]) simp
    next
      case False
      have "big_Bytes (be_int b) = b" using False be_bytes_be_int[of b] by (cases "b = []") (auto simp: big_Bytes_def)
      then have "big_enc (RBig (Some (be_int b))) = Some e" using e by (simp add: big_enc_Some)
      moreover have "u' = RBig (Some (be_int b))" if "big_enc u' = Some e" for u'
        using that inj by (auto simp: big_enc_Some)
      moreover have "?k b = returnM (RBig (Some (be_int b)))" using False by auto
      ultimately show ?thesis by blast
    qed
  qed (auto simp: big_enc_Some)
  then show ?thesis unfolding decodeBigInt_def
    by (intro dec_exact_wrap dec_exact_bind[OF Bytes_exact] wrapStreamError_EOL)
qed

definition array_enc :: "nat \<Rightarrow> rlp_value \<Rightarrow> byte list option" where
  "array_enc n v = (case v of RBytes b \<Rightarrow> if length b = n then Some (enc_str b) else None | _ \<Rightarrow> None)"

lemma array_enc_Some: "array_enc n v = Some e \<longleftrightarrow> (\<exists>b. v = RBytes b \<and> length b = n \<and> e = enc_str b)"
  by (cases v) (auto simp: array_enc_def)

lemma array_exact:
  assumes "n \<noteq> 1" "n < 2 ^ 64"
  shows "dec_exact (decodeByteArray n) (array_enc n)"
proof (rule str_exact[where val = RBytes])
  fix s k z b c w
  assume i: "fresh s" "head_ok k z b" "win s = headb k z b @ c @ w" "length c = unat z"
    "Stream_Kind s = (Inr (k, z), armed k z b s)" "sok (armed k z b s)" "win (armed k z b s) = c @ w"
  have n: "unat (word_of_nat n :: u64) = n" using assms(2) by (simp add: unat_of_nat_u64)
  have c: "length c < 2 ^ 64" using i(4) unsigned_less[of z, where 'a = nat] by simp
  have len: "length d = n" if d: "array_enc n v = Some (enc_str d)" "length d < 2 ^ 64" for d v
  proof -
    obtain b' where b': "length b' = n" "enc_str d = enc_str b'" using d(1) by (auto simp: array_enc_Some)
    then have "d = b'" using enc_str_inj[of d "[]" b' "[]"] d(2) assms(2) by simp
    then show ?thesis using b' by simp
  qed
  consider "k = Byte" | "k = String" "length c < n" | "k = String" "n < length c" | "k = String" "length c = n" | "k = List"
    by (cases k) fastforce+
  then show "str_takes (decodeByteArray n) (array_enc n) s w \<or> str_rejects (decodeByteArray n) (array_enc n) s k b c"
  proof cases
    case 1
    have "decodeByteArray n s = (Inl (Err (decodeErr (if n = 0 then ''input string too long'' else ''input string too short''))), armed k z b s)"
      using 1 i(5) assms(1) by (simp add: decodeByteArray_def)
    then have "str_rejects (decodeByteArray n) (array_enc n) s k b c"
      using 1 len[of _ "[b]"] assms(1) by (intro str_rejectsI) auto
    then show ?thesis ..
  next
    case 4
    have "z = word_of_nat n" using 4(2) i(4) n by (simp add: word_unat_eq_iff)
    moreover have "readFull (word_of_nat n) (armed k z b s) = (Inr c, consume (length c) (armed k z b s))"
      using readFull_armed[OF i(6,7), of "word_of_nat n"] n 4(2) by simp
    moreover have "z \<noteq> 1" using 4 i(4) assms(1) by auto
    ultimately have "decodeByteArray n s = (Inr (RBytes c), consume (length c) (armed k z b s))"
      using 4 i(5) by (simp add: decodeByteArray_def)
    moreover have "\<not> single c" using 4 assms(1) by (simp add: single_def)
    ultimately have "str_takes (decodeByteArray n) (array_enc n) s w"
      using string_read[OF i(1), of z b c w] i(2,3,4) 4 by (intro str_takesI[of _ _ "RBytes c" _ _ c]) (simp_all add: array_enc_Some)
    then show ?thesis ..
  next
    case 2
    then have "decodeByteArray n s = (Inl (Err (decodeErr ''input string too short'')), armed k z b s)"
      using i(4,5) n by (simp add: decodeByteArray_def word_less_nat_alt)
    then have "str_rejects (decodeByteArray n) (array_enc n) s k b c"
      using 2 len[of _ c] c by (intro str_rejectsI) auto
    then show ?thesis ..
  next
    case 3
    then have "decodeByteArray n s = (Inl (Err (decodeErr ''input string too long'')), armed k z b s)"
      using i(4,5) n by (simp add: decodeByteArray_def word_less_nat_alt)
    then have "str_rejects (decodeByteArray n) (array_enc n) s k b c"
      using 3 len[of _ c] c by (intro str_rejectsI) auto
    then show ?thesis ..
  next
    case 5
    then have "decodeByteArray n s = (Inl (Err (wrapStreamError ErrExpectedString)), armed k z b s)"
      using i(5) by (simp add: decodeByteArray_def)
    then have "str_rejects (decodeByteArray n) (array_enc n) s k b c"
      using 5 by (intro str_rejectsI) auto
    then show ?thesis ..
  qed
qed (auto simp: array_enc_Some decodeByteArray_def)

section \<open>Lists\<close>

text \<open>
  The part of a decoder that reads the content of a list of a given size and leaves the list: it
  succeeds exactly when the whole content is the encoding of its result.\<close>

definition leaves :: "Stream \<Rightarrow> Stream \<Rightarrow> bool" where
  "leaves t t' \<longleftrightarrow> rd t' = drop (length (win t)) (rd t) \<and> stack t' = bump (snd (hd (stack t))) (tl (stack t)) \<and>
     remaining t' = word_of_nat (length (rd t')) \<and> skind t' = None"

definition end_exact :: "u64 \<Rightarrow> 'a stream_m \<Rightarrow> ('a \<Rightarrow> byte list option) \<Rightarrow> bool" where
  "end_exact z body enc \<longleftrightarrow> (\<forall>t st. fresh t \<longrightarrow> stack t = (0, z) # st \<longrightarrow>
     (\<exists>v t'. enc v = Some (win t) \<and> body t = (Inr v, t') \<and> leaves t t' \<and> (\<forall>v'. enc v' = Some (win t) \<longrightarrow> v' = v)) \<or>
     (\<exists>f t'. body t = (Inl (Err f), t') \<and> f \<noteq> EOL) \<and> (\<forall>v. enc v \<noteq> Some (win t)))"

definition list_enc :: "('a \<Rightarrow> byte list option) \<Rightarrow> 'a \<Rightarrow> byte list option" where
  "list_enc enc v = map_option enc_list (enc v)"

lemma enc_list_head:
  assumes "length c < 2 ^ 64"
  shows "enc_list c = headb List (word_of_nat (length c)) 0 @ c" "head_ok List (word_of_nat (length c)) 0"
    "length c = unat (word_of_nat (length c) :: u64)"
  using assms by (simp_all add: enc_list_def headb_def head_ok_def unat_of_nat_u64)

lemma list_window:
  assumes "fresh s" "head_ok k z b" "win s = headb k z b @ c @ w" "length c = unat z" "win s = enc_list d @ v"
  shows "k = List \<and> d = c \<and> z = word_of_nat (length c)"
proof -
  have "length d < 2 ^ 64" using prefix_short[OF assms(1,5)] by (simp add: enc_list_def)
  note d = enc_list_head[OF this]
  have "headb k z b @ (c @ w) = headb List (word_of_nat (length d)) 0 @ (d @ v)" using assms(3,5) d(1) by simp
  from headb_unique[OF this assms(2) d(2)] have h: "k = List" "z = word_of_nat (length d)" "c @ w = d @ v" by blast+
  then have "length c = length d" using d(3) assms(4) by metis
  then show ?thesis using h by simp
qed

text \<open>Inside the list.\<close>

definition inside :: "u64 \<Rightarrow> Stream \<Rightarrow> Stream" where
  "inside z s = (armed List z 0 s)\<lparr>stack := (0, z) # stack (armed List z 0 s), skind := None, ssize := 0\<rparr>"

lemma inside_ok:
  assumes "fresh s" "win s = headb List z 0 @ c @ w" "length c = unat z" "sok (armed List z 0 s)" "win (armed List z 0 s) = c @ w"
  shows "fresh (inside z s)" "win (inside z s) = c"
proof -
  let ?a = "armed List z 0 s"
  have w: "take (unat z) (rd ?a) = c" "unat z \<le> length (rd ?a)"
  proof -
    have l: "length (c @ w) \<le> length (rd ?a)" using win_length[OF assms(4)] assms(5) by simp
    have "take (length (win ?a)) (rd ?a) = win ?a" by (cases "stack ?a") (auto simp: win_def min_def)
    then have "take (length c) (rd ?a) = take (length c) (c @ w)" using assms(5)
      by (metis (no_types, lifting) append_eq_append_conv_if append_take_drop_id length_append le_add1 append_assoc)
    then show "take (unat z) (rd ?a) = c" using assms(3) by simp
    show "unat z \<le> length (rd ?a)" using l assms(3) by simp
  qed
  have "remaining ?a = word_of_nat (length (rd ?a))" "length (rd ?a) < 2 ^ 64" using assms(4) by (simp_all add: sok_def)
  then show "fresh (inside z s)" using w(2) by (simp add: fresh_def sok_def inside_def)
  show "win (inside z s) = c" using w(1) by (simp add: win_def inside_def)
qed

lemma leaves_reads:
  assumes "fresh s" "win s = headb List z 0 @ c @ w" "length c = unat z" "win (inside z s) = c" "leaves (inside z s) t"
  shows "reads s (length (headb List z 0 @ c)) t"
proof -
  let ?n = "length (headb List z 0 @ c)"
  have n: "?n \<le> length (win s)" using assms(2) by simp
  have z: "word_of_nat ?n = word_of_nat (length (headb List z 0)) + z" using assms(3) by simp
  have t: "rd t = drop ?n (rd s)" "stack t = bump (word_of_nat ?n) (stack s)" "skind t = None" "remaining t = word_of_nat (length (rd t))"
    using assms(4,5) z by (simp_all add: leaves_def inside_def armed_def add.commute)
  have "sok (consume ?n s)" using consume_ok(1)[OF _ n] assms(1) by (simp add: fresh_def)
  then have "sok t" using t by (intro sok_cong[of "consume ?n s" t]) (simp_all add: sok_def)
  then show ?thesis using t by (simp add: reads_def fresh_def)
qed

lemma list_exact:
  assumes "\<And>z. end_exact z (body z) enc"
  shows "dec_exact (bindM (wrapM wrapStreamError Stream_List) body) (list_enc enc)"
proof (rule dec_exact_I)
  fix s assume s: "fresh s" "at_end s"
  from s(1) show "bindM (wrapM wrapStreamError Stream_List) body s = (Inl (Err EOL), s\<lparr>kinderr := None\<rparr>)"
    by (cases rule: Kind_cases) (use s in \<open>simp_all add: Stream_List_def wrapM_def bindM_def\<close>)
next
  fix s assume s: "fresh s" "\<not> at_end s"
  let ?d = "bindM (wrapM wrapStreamError Stream_List) body" and ?E = "list_enc enc"
  from s(1) show "(\<exists>v e w s'. takes ?d ?E s v e w s') \<or> rejects ?d ?E s"
  proof (cases rule: Kind_cases)
    case (bad e s')
    have d: "?d s = (Inl (Err (wrapStreamError e)), s')" using bad(2) by (simp add: Stream_List_def wrapM_def bindM_def)
    have n: "win s \<noteq> enc_list c @ w" for c w
    proof
      assume a: "win s = enc_list c @ w"
      then have "length c < 2 ^ 64" using prefix_short[OF s(1) a] by (simp add: enc_list_def)
      note h = enc_list_head[OF this]
      show False using bad(4)[OF h(2), of c w] a h by simp
    qed
    have "rejects ?d ?E s" using bad(3) n by (intro rejectsI[where dec = ?d, OF d]) (simp_all add: wrapStreamError_EOL list_enc_def, metis)
    then show ?thesis by blast
  next
    case i: (item k z b c w)
    have uniq: "k = List \<and> enc v = Some c" if "?E v = Some e" "win s = e @ w'" for v e w'
      using that list_window[OF s(1) i(2,3,4), of _ w'] by (auto simp: list_enc_def)
    show ?thesis
    proof (cases "k = List")
      case False
      have d: "?d s = (Inl (Err (wrapStreamError ErrExpectedList)), armed k z b s)"
        using i(5) False by (simp add: Stream_List_def wrapM_def bindM_def)
      have "rejects ?d ?E s" using False uniq by (intro rejectsI[where dec = ?d, OF d]) auto
      then show ?thesis by blast
    next
      case True
      then have k: "k = List" "b = 0" using i(2) by (simp_all add: head_ok_def)
      have d: "?d s = body z (inside z s)"
        using i(5) k by (simp add: Stream_List_def wrapM_def bindM_def inside_def)
      note ins = inside_ok[OF s(1) i(3,4,6,7)[unfolded k]]
      have st: "stack (inside z s) = (0, z) # stack (armed List z 0 s)" by (simp add: inside_def)
      from assms[of z] ins(1) st
      consider (a) v t' where "enc v = Some c" "body z (inside z s) = (Inr v, t')" "leaves (inside z s) t'" "\<And>v'. enc v' = Some c \<Longrightarrow> v' = v"
        | (b) f t' where "body z (inside z s) = (Inl (Err f), t')" "f \<noteq> EOL" "\<And>v. enc v \<noteq> Some c"
        unfolding end_exact_def using ins(2) by metis
      then show ?thesis
      proof cases
        case a
        have z: "z = word_of_nat (length c)" using i(4) by simp
        have e: "enc_list c = headb List z 0 @ c" using z by (simp add: enc_list_def headb_def)
        have "takes ?d ?E s v (enc_list c) w t'"
        proof (rule takesI)
          show "?E v = Some (enc_list c)" using a(1) by (simp add: list_enc_def)
          show "win s = enc_list c @ w" using i(3) k e by simp
          show "?d s = (Inr v, t')" using d a(2) by simp
          show "reads s (length (enc_list c)) t'"
            unfolding e by (rule leaves_reads[OF s(1) i(3)[unfolded k] i(4) ins(2) a(3)])
          show "v' = v" if "?E v' = Some e'" "win s = e' @ w'" for v' e' w' using uniq[OF that] a(4) by blast
        qed
        then show ?thesis by blast
      next
        case b
        have "rejects ?d ?E s"
        proof (rule rejectsI[where dec = ?d, OF _ b(2)])
          show "?d s = (Inl (Err f), t')" using d b(1) by simp
        qed (use uniq b(3) in blast)
        then show ?thesis by blast
      qed
    qed
  qed (use s in simp)
qed

text \<open>Leaving a list.\<close>

lemma ListEnd_run:
  assumes "fresh t" "stack t = (0, z) # st" "reads t n t'" "n \<le> length (win t)"
  shows "if n = length (win t) then \<exists>t''. ListEnd t' = (Inr (), t'') \<and> leaves t t''
         else ListEnd t' = (Inl (Err errNotAtEOL), t')"
proof -
  have s: "sok t" using assms(1) by (simp add: fresh_def)
  have w: "win t' = drop n (win t)" by (rule reads_win[OF s assms(4,3)])
  have t': "stack t' = (word_of_nat n, z) # st" "sok t'" "rd t' = drop n (rd t)"
    using assms(2,3) by (simp_all add: reads_def fresh_def)
  have e: "word_of_nat n = z \<longleftrightarrow> n = length (win t)"
    using win_in_list[OF t'(2,1)] w assms(4) by auto
  show ?thesis
  proof (cases "n = length (win t)")
    case True
    then show ?thesis using e t' assms(2)
      by (cases st) (auto simp: ListEnd_def leaves_def sok_def split: prod.splits)
  next
    case False
    then show ?thesis using e t' by (auto simp: ListEnd_def)
  qed
qed

lemma seq_then_end:
  assumes "seq_exact body enc" "\<And>e. f e = EOL \<longleftrightarrow> e = EOL"
    and E: "\<And>u e. enc' u = Some e \<longleftrightarrow> (\<exists>v. u = g v \<and> enc v = Some e)"
  shows "end_exact z (bindM body (\<lambda>v. bindM (wrapM f ListEnd) (\<lambda>_. returnM (g v)))) enc'"
    (is "end_exact z ?b _")
  unfolding end_exact_def
proof (intro allI impI)
  fix t st assume t: "fresh t" "stack t = (0, z) # st"
  from assms(1) t(1) have "(\<exists>v e w s'. takes body enc t v e w s') \<or> rejects body enc t" by (simp add: seq_exact_def)
  then show "(\<exists>v t'. enc' v = Some (win t) \<and> ?b t = (Inr v, t') \<and> leaves t t' \<and> (\<forall>v'. enc' v' = Some (win t) \<longrightarrow> v' = v)) \<or>
     (\<exists>f t'. ?b t = (Inl (Err f), t') \<and> f \<noteq> EOL) \<and> (\<forall>v. enc' v \<noteq> Some (win t))"
  proof (elim disjE exE)
    assume "rejects body enc t"
    then obtain x t' where x: "body t = (Inl (Err x), t')" "x \<noteq> EOL" "\<And>v e w. enc v = Some e \<Longrightarrow> win t \<noteq> e @ w"
      by (rule rejectsE) blast
    then have "?b t = (Inl (Err x), t')" by simp
    moreover have "enc' u \<noteq> Some (win t)" for u
    proof
      assume "enc' u = Some (win t)"
      then obtain v where "enc v = Some (win t)" unfolding E by blast
      then show False using x(3)[of v "win t" "[]"] by simp
    qed
    ultimately show ?thesis using x(2) by blast
  next
    fix v e w t' assume "takes body enc t v e w t'"
    note k = takesD[OF this]
    have "length e \<le> length (win t)" using k(2) by simp
    note r = ListEnd_run[OF t k(4) this]
    have only: "u = g v \<and> e = win t" if u: "enc' u = Some (win t)" for u
    proof -
      obtain v' where v': "u = g v'" "enc v' = Some (win t)" using u unfolding E by blast
      then have "v' = v" using k(5)[of v' "win t" "[]"] by simp
      then show ?thesis using v' k(1) by simp
    qed
    show ?thesis
    proof (cases "e = win t")
      case True
      then obtain t'' where "ListEnd t' = (Inr (), t'')" "leaves t t''" using r by auto
      moreover then have "?b t = (Inr (g v), t'')" using k(3) by (simp add: wrapM_def bindM_def)
      ultimately show ?thesis using only k(1) E True by blast
    next
      case False
      then have "length e \<noteq> length (win t)" using k(2) by simp
      then have "ListEnd t' = (Inl (Err errNotAtEOL), t')" using r by simp
      then have "?b t = (Inl (Err (f errNotAtEOL)), t')" using k(3) by (simp add: wrapM_def bindM_def)
      then show ?thesis using only False assms(2) by blast
    qed
  qed
qed

section \<open>Sequences of values\<close>

fun fields_enc :: "('a \<Rightarrow> byte list option) list \<Rightarrow> 'a list \<Rightarrow> byte list option" where
  "fields_enc [] [] = Some []"
| "fields_enc (enc # encs) (v # vs) =
    (case (enc v, fields_enc encs vs) of (Some e, Some es) \<Rightarrow> Some (e @ es) | _ \<Rightarrow> None)"
| "fields_enc _ _ = None"

lemma fields_enc_Nil: "fields_enc [] vs = Some e \<longleftrightarrow> vs = [] \<and> e = []"
  by (cases vs) auto

lemma fields_enc_Cons: "fields_enc (enc # encs) vs = Some e \<longleftrightarrow>
   (\<exists>u us d ds. vs = u # us \<and> enc u = Some d \<and> fields_enc encs us = Some ds \<and> e = d @ ds)"
  by (cases vs) (auto split: option.splits)

lemma seq_Nil: "seq_exact (returnM []) (fields_enc [])"
  unfolding seq_exact_def
proof (intro allI impI disjI1)
  fix s assume "fresh s"
  then have "takes (returnM []) (fields_enc []) s [] [] (win s) s"
    by (intro takesI) (simp_all add: fields_enc_Nil reads_def)
  then show "\<exists>v e w s'. takes (returnM []) (fields_enc []) s v e w s'" by blast
qed

text \<open>One more value in front of a sequence.\<close>

lemma takes_Cons:
  assumes s: "fresh s" and d: "takes dec enc s v e w s'" and t: "takes decs (fields_enc encs) s' vs es ws s''"
  shows "takes (bindM dec (\<lambda>v. bindM decs (\<lambda>vs. returnM (v # vs)))) (fields_enc (enc # encs)) s (v # vs) (e @ es) ws s''"
proof -
  note d = takesD[OF d] and t = takesD[OF t]
  have "win s' = w" using reads_win[OF _ _ d(4)] s d(2) by (simp add: fresh_def)
  show ?thesis
  proof (rule takesI)
    show "fields_enc (enc # encs) (v # vs) = Some (e @ es)" using d(1) t(1) by simp
    show "win s = (e @ es) @ ws" using d(2) t(2) \<open>win s' = w\<close> by simp
    show "bindM dec (\<lambda>v. bindM decs (\<lambda>vs. returnM (v # vs))) s = (Inr (v # vs), s'')"
      using d(3) t(3) by simp
    show "reads s (length (e @ es)) s''" using reads_trans[OF d(4) t(4)] by simp
    fix us e' w' assume u: "fields_enc (enc # encs) us = Some e'" "win s = e' @ w'"
    then obtain u us' a b where p: "us = u # us'" "enc u = Some a" "fields_enc encs us' = Some b" "e' = a @ b"
      by (auto simp: fields_enc_Cons)
    have "u = v" using d(5)[OF p(2), of "b @ w'"] u(2) p(4) by simp
    then have "a = e" using p(2) d(1) by simp
    then have "win s' = b @ w'" using u(2) p(4) d(2) \<open>win s' = w\<close> by simp
    then show "us = v # vs" using t(5)[OF p(3)] p(1) \<open>u = v\<close> by blast
  qed
qed

lemma rejects_Cons1:
  assumes "rejects dec enc s"
  shows "rejects (bindM dec (\<lambda>v. bindM decs (\<lambda>vs. returnM (v # vs)))) (fields_enc (enc # encs)) s"
proof -
  from assms obtain f s' where f: "dec s = (Inl (Err f), s')" "f \<noteq> EOL" "\<And>v e w. enc v = Some e \<Longrightarrow> win s \<noteq> e @ w"
    by (rule rejectsE) blast
  show ?thesis
  proof (rule rejectsI[OF _ f(2)])
    show "bindM dec (\<lambda>v. bindM decs (\<lambda>vs. returnM (v # vs))) s = (Inl (Err f), s')" using f(1) by simp
    fix us e' w' assume u: "fields_enc (enc # encs) us = Some e'" "win s = e' @ w'"
    then obtain u us' a b where p: "us = u # us'" "enc u = Some a" "fields_enc encs us' = Some b" "e' = a @ b"
      by (auto simp: fields_enc_Cons)
    show False using f(3)[OF p(2), of "b @ w'"] u(2) p(4) by simp
  qed
qed

lemma rejects_Cons2:
  assumes s: "fresh s" and d: "takes dec enc s v e w s'" and t: "rejects decs (fields_enc encs) s'"
  shows "rejects (bindM dec (\<lambda>v. bindM decs (\<lambda>vs. returnM (v # vs)))) (fields_enc (enc # encs)) s"
proof -
  note d = takesD[OF d]
  have w: "win s' = w" using reads_win[OF _ _ d(4)] s d(2) by (simp add: fresh_def)
  from t obtain f s'' where f: "decs s' = (Inl (Err f), s'')" "f \<noteq> EOL" "\<And>v e w. fields_enc encs v = Some e \<Longrightarrow> win s' \<noteq> e @ w"
    by (rule rejectsE) blast
  show ?thesis
  proof (rule rejectsI[OF _ f(2)])
    show "bindM dec (\<lambda>v. bindM decs (\<lambda>vs. returnM (v # vs))) s = (Inl (Err f), s'')" using f(1) d(3) by simp
    fix us e' w' assume u: "fields_enc (enc # encs) us = Some e'" "win s = e' @ w'"
    then obtain u us' a b where p: "us = u # us'" "enc u = Some a" "fields_enc encs us' = Some b" "e' = a @ b"
      by (auto simp: fields_enc_Cons)
    have "u = v" using d(5)[OF p(2), of "b @ w'"] u(2) p(4) by simp
    then have "a = e" using p(2) d(1) by simp
    then have "win s' = b @ w'" using u(2) p(4) d(2) w by simp
    then show False using f(3)[OF p(3)] by blast
  qed
qed

lemma seq_Cons:
  assumes "seq_exact dec enc" "seq_exact decs (fields_enc encs)"
  shows "seq_exact (bindM dec (\<lambda>v. bindM decs (\<lambda>vs. returnM (v # vs)))) (fields_enc (enc # encs))"
  unfolding seq_exact_def
proof (intro allI impI)
  fix s assume s: "fresh s"
  let ?d = "bindM dec (\<lambda>v. bindM decs (\<lambda>vs. returnM (v # vs)))" and ?E = "fields_enc (enc # encs)"
  from assms(1) s have "(\<exists>v e w s'. takes dec enc s v e w s') \<or> rejects dec enc s" by (simp add: seq_exact_def)
  then show "(\<exists>v e w s'. takes ?d ?E s v e w s') \<or> rejects ?d ?E s"
  proof (elim disjE exE)
    fix v e w s' assume t: "takes dec enc s v e w s'"
    then have "fresh s'" using takesD(4)[OF t] by (simp add: reads_def)
    then have "(\<exists>v e w s''. takes decs (fields_enc encs) s' v e w s'') \<or> rejects decs (fields_enc encs) s'"
      using assms(2) by (simp add: seq_exact_def)
    then show ?thesis using takes_Cons[OF s t] rejects_Cons2[OF s t] by blast
  qed (use rejects_Cons1 in blast)
qed

text \<open>In a struct the end of the list is an error of its own.\<close>

lemma seq_of_dec:
  assumes "dec_exact dec enc" "\<And>v. enc v \<noteq> Some []" "\<And>e. f e \<noteq> EOL"
  shows "seq_exact (wrapM f dec) enc"
  unfolding seq_exact_def
proof (intro allI impI)
  fix s assume s: "fresh s"
  from assms(1) s show "(\<exists>v e w s'. takes (wrapM f dec) enc s v e w s') \<or> rejects (wrapM f dec) enc s"
  proof (cases rule: dec_exact_cases)
    case eol
    have "rejects (wrapM f dec) enc s"
    proof (rule rejectsI)
      show "wrapM f dec s = (Inl (Err (f EOL)), s\<lparr>kinderr := None\<rparr>)" using eol(2) by (simp add: wrapM_def)
      show False if "enc v = Some e" "win s = e @ w" for v e w
        using that eol(1) assms(2)[of v] by (simp add: at_end_def)
    qed (rule assms(3))
    then show ?thesis by blast
  next
    case (ok v e w s')
    then have "takes (wrapM f dec) enc s v e w s'" by (simp add: takes_def wrapM_def)
    then show ?thesis by blast
  next
    case bad
    then have "rejects (wrapM f dec) enc s" using assms(3) by (auto simp: rejects_def wrapM_def)
    then show ?thesis by blast
  qed
qed

text \<open>The loop over the elements of a slice.\<close>

fun all_enc :: "('a \<Rightarrow> byte list option) \<Rightarrow> 'a list \<Rightarrow> byte list option" where
  "all_enc enc [] = Some []"
| "all_enc enc (v # vs) = (case (enc v, all_enc enc vs) of (Some e, Some es) \<Rightarrow> Some (e @ es) | _ \<Rightarrow> None)"

lemma all_enc_Cons: "all_enc enc (v # vs) = Some e \<longleftrightarrow> (\<exists>a b. enc v = Some a \<and> all_enc enc vs = Some b \<and> e = a @ b)"
  by (auto split: option.splits)

definition slices :: "rlp_value list stream_m \<Rightarrow> (rlp_value \<Rightarrow> byte list option) \<Rightarrow> Stream \<Rightarrow> bool" where
  "slices dec enc s \<longleftrightarrow>
     (\<exists>vs s'. all_enc enc vs = Some (win s) \<and> dec s = (Inr vs, s') \<and> reads s (length (win s)) s' \<and> (\<forall>vs'. all_enc enc vs' = Some (win s) \<longrightarrow> vs' = vs)) \<or>
     (\<exists>f s'. dec s = (Inl (Err f), s') \<and> f \<noteq> EOL) \<and> (\<forall>vs. all_enc enc vs \<noteq> Some (win s))"

lemma slice_loop_exact:
  assumes dec: "dec_exact dec enc" and ne: "\<And>v. enc v \<noteq> Some []"
  shows "fresh s \<Longrightarrow> stack s \<noteq> [] \<Longrightarrow> length (win s) < n \<Longrightarrow> slices (slice_loop n dec) enc s"
proof (induction n arbitrary: s)
  case (Suc n)
  have all_Nil: "vs = []" if "all_enc enc vs = Some []" for vs
    using that ne by (cases vs) (auto split: option.splits)
  from dec Suc.prems(1) show ?case
  proof (cases rule: dec_exact_cases)
    case eol
    have "reads s 0 (s\<lparr>kinderr := None\<rparr>)" using Suc.prems(1) by (simp add: reads_def fresh_def)
    then show ?thesis using eol all_Nil unfolding slices_def at_end_def by (intro disjI1 exI[of _ "[]"]) auto
  next
    case bad
    from bad(2) obtain f s' where f: "dec s = (Inl (Err f), s')" "f \<noteq> EOL" "\<And>v e w. enc v = Some e \<Longrightarrow> win s \<noteq> e @ w"
      by (rule rejectsE) blast
    have "win s \<noteq> []" using bad(1) Suc.prems(2) by (simp add: at_end_def)
    have "all_enc enc vs \<noteq> Some (win s)" for vs
    proof (cases vs)
      case (Cons v vs')
      then show ?thesis using f(3) all_enc_Cons[of enc v vs' "win s"] by auto
    qed (use \<open>win s \<noteq> []\<close> in simp)
    then show ?thesis using f unfolding slices_def by (intro disjI2) simp
  next
    case (ok v e w s')
    note k = takesD[OF ok(2)]
    have s': "fresh s'" "stack s' \<noteq> []" "win s' = w"
      using k(4) reads_win[OF _ _ k(4)] Suc.prems k(2) by (simp_all add: reads_def fresh_def)
    have "e \<noteq> []" using ne k(1) by auto
    then have "length (win s') < n" using Suc.prems(3) k(2) s'(3) by (cases e) auto
    note IH = Suc.IH[OF s'(1,2) this]
    have split: "\<exists>vs''. vs' = v # vs'' \<and> all_enc enc vs'' = Some w" if a: "all_enc enc vs' = Some (win s)" for vs'
    proof (cases vs')
      case Nil
      then show ?thesis using a k(2) \<open>e \<noteq> []\<close> by simp
    next
      case (Cons v' vs'')
      then obtain a' b where ab: "enc v' = Some a'" "all_enc enc vs'' = Some b" "win s = a' @ b"
        using a all_enc_Cons by metis
      have "v' = v" by (rule k(5)[OF ab(1,3)])
      then show ?thesis using ab k(1,2) Cons by simp
    qed
    from IH[unfolded slices_def] show ?thesis
    proof (elim disjE exE conjE)
      fix vs s'' assume a: "all_enc enc vs = Some (win s')" "slice_loop n dec s' = (Inr vs, s'')" "reads s' (length (win s')) s''"
        "\<forall>vs'. all_enc enc vs' = Some (win s') \<longrightarrow> vs' = vs"
      have "all_enc enc (v # vs) = Some (win s)" using k(1,2) a(1) s'(3) by simp
      moreover have "slice_loop (Suc n) dec s = (Inr (v # vs), s'')" using k(3) a(2) by simp
      moreover have "reads s (length (win s)) s''" using reads_trans[OF k(4) a(3)] k(2) s'(3) by simp
      moreover have "vs' = v # vs" if "all_enc enc vs' = Some (win s)" for vs' using split[OF that] a(4) s'(3) by blast
      ultimately show ?thesis unfolding slices_def by blast
    next
      fix f s'' assume a: "slice_loop n dec s' = (Inl (Err f), s'')" "f \<noteq> EOL" "\<forall>vs. all_enc enc vs \<noteq> Some (win s')"
      have "slice_loop (Suc n) dec s = (Inl (Err f), s'')" using k(3) a(1) by simp
      moreover have "all_enc enc vs' \<noteq> Some (win s)" for vs' using split a(3) s'(3) by blast
      ultimately show ?thesis using a(2) unfolding slices_def by blast
    qed
  qed
qed simp

section \<open>Shapes\<close>

text \<open>The values of a shape, and the shapes for which decoding is exact.\<close>

fun conforms :: "shape \<Rightarrow> rlp_value \<Rightarrow> bool"
and conforms_fields :: "shape list \<Rightarrow> rlp_value list \<Rightarrow> bool" where
  "conforms (ShUint bits) v = (case v of RUint n \<Rightarrow> unat n < 2 ^ bits | _ \<Rightarrow> False)"
| "conforms ShBool v = (case v of RBool b \<Rightarrow> True | _ \<Rightarrow> False)"
| "conforms ShBig v = (case v of RBig (Some i) \<Rightarrow> 0 \<le> i | _ \<Rightarrow> False)"
| "conforms ShBytes v = (case v of RBytes b \<Rightarrow> True | _ \<Rightarrow> False)"
| "conforms (ShArray n) v = (case v of RBytes b \<Rightarrow> length b = n | _ \<Rightarrow> False)"
| "conforms (ShStruct shs) v = (case v of RList vs \<Rightarrow> conforms_fields shs vs | _ \<Rightarrow> False)"
| "conforms (ShSlice sh) v = (case v of RList vs \<Rightarrow> list_all (conforms sh) vs | _ \<Rightarrow> False)"
| "conforms (ShNil sh) v = False"
| "conforms_fields [] vs = (vs = [])"
| "conforms_fields (sh # shs) vs = (case vs of [] \<Rightarrow> False | v # vs' \<Rightarrow> conforms sh v \<and> conforms_fields shs vs')"

fun shape_ok :: "shape \<Rightarrow> bool" where
  "shape_ok (ShUint bits) = (bits \<in> {8, 16, 32, 64})"
| "shape_ok (ShArray n) = (n \<noteq> 1 \<and> n < 2 ^ 64)"
| "shape_ok (ShStruct shs) = list_all shape_ok shs"
| "shape_ok (ShSlice sh) = shape_ok sh"
| "shape_ok (ShNil sh) = False"
| "shape_ok _ = True"

definition enc_of :: "shape \<Rightarrow> rlp_value \<Rightarrow> byte list option" where
  "enc_of sh v = (if conforms sh v then Some (rlp_enc v) else None)"

lemma enc_str_nonempty: "enc_str c \<noteq> []"
  by (auto simp: enc_str_def puthead_def)

lemma enc_list_nonempty: "enc_list c \<noteq> []"
  by (auto simp: enc_list_def puthead_def)

lemma enc_of_nonempty: "enc_of sh v \<noteq> Some []"
proof (cases sh)
qed (auto simp: enc_of_def enc_str_nonempty enc_list_nonempty split: rlp_value.splits option.splits)

lemma refines_return:
  assumes "\<And>u e. enc' u = Some e \<longleftrightarrow> (\<exists>v. u = g v \<and> enc v = Some e)"
    "\<And>v v' e. enc v = Some e \<Longrightarrow> enc v' = Some e \<Longrightarrow> length e < 2 ^ 64 \<Longrightarrow> v' = v"
  shows "refines enc (\<lambda>v. returnM (g v)) enc'"
proof (rule refinesI)
  fix v e assume v: "enc v = Some e" "length e < 2 ^ 64"
  have "enc' (g v) = Some e" using v(1) unfolding assms(1) by blast
  moreover have "u' = g v" if "enc' u' = Some e" for u' using that v assms(2) unfolding assms(1) by blast
  ultimately show "(\<exists>u. returnM (g v) = returnM u \<and> enc' u = Some e \<and> (\<forall>u'. enc' u' = Some e \<longrightarrow> u' = u)) \<or>
      (\<exists>x. returnM (g v) = errM x \<and> x \<noteq> EOL \<and> (\<forall>u. enc' u \<noteq> Some e))"
    by blast
next
  fix u e assume "enc' u = Some e"
  then show "\<exists>v. enc v = Some e" unfolding assms(1) by blast
qed

lemma decode_uint:
  assumes "bits \<in> {8, 16, 32, 64}"
  shows "dec_exact (decode_shape (ShUint bits)) (enc_of (ShUint bits))"
proof -
  obtain m where m: "bits = 8 * m" "1 \<le> m" "m \<le> 8" using assms by (auto intro: that[of 1] that[of 2] that[of 4] that[of 8])
  have p: "(256 :: nat) ^ m = 2 ^ (8 * m)" by (simp add: power_mult)
  have "refines (uint_enc m) (\<lambda>n. returnM (RUint n)) (enc_of (ShUint (8 * m)))"
  proof (rule refines_return)
    show "enc_of (ShUint (8 * m)) u = Some e \<longleftrightarrow> (\<exists>v. u = RUint v \<and> uint_enc m v = Some e)" for u e
      using p by (cases u) (auto simp: enc_of_def uint_enc_def)
    show "v' = v" if a: "uint_enc m v = Some e" "uint_enc m v' = Some e" "length e < 2 ^ 64" for v v' e
    proof -
      have "enc_str (be_bytes_nat (unat v')) = enc_str (be_bytes_nat (unat v))" "length (enc_str (be_bytes_nat (unat v))) < 2 ^ 64"
        using a by (auto simp: uint_enc_def split: if_splits)
      then have "be_bytes_nat (unat v') = be_bytes_nat (unat v)" by (rule enc_str_eqD)
      then show ?thesis using be_or_be_bytes[of v] be_or_be_bytes[of v'] by simp
    qed
  qed
  then show ?thesis using m
    by (simp add: decoders dec_exact_wrap dec_exact_bind[OF uint_exact[OF m(2,3)]] wrapStreamError_EOL)
qed

lemma decode_bool: "dec_exact (decode_shape ShBool) (enc_of ShBool)"
proof -
  have "refines (\<lambda>b. Some (rlp_enc (RBool b))) (\<lambda>b. returnM (RBool b)) (enc_of ShBool)"
  proof (rule refines_return)
    show "enc_of ShBool u = Some e \<longleftrightarrow> (\<exists>v. u = RBool v \<and> Some (rlp_enc (RBool v)) = Some e)" for u e
      by (cases u) (auto simp: enc_of_def)
    show "v' = v" if a: "Some (rlp_enc (RBool v)) = Some e" "Some (rlp_enc (RBool v')) = Some e" "length e < 2 ^ 64" for v v' e
      using a enc_str_eqD[of "if v' then [1] else []" "if v then [1] else []"] by (auto split: if_splits)
  qed
  then show ?thesis by (simp add: decoders dec_exact_wrap dec_exact_bind[OF Bool_exact] wrapStreamError_EOL)
qed

lemma decode_bytes: "dec_exact (decode_shape ShBytes) (enc_of ShBytes)"
proof -
  have "refines (\<lambda>b. Some (enc_str b)) (\<lambda>b. returnM (RBytes b)) (enc_of ShBytes)"
  proof (rule refines_return)
    show "enc_of ShBytes u = Some e \<longleftrightarrow> (\<exists>v. u = RBytes v \<and> Some (enc_str v) = Some e)" for u e
      by (cases u) (auto simp: enc_of_def)
    show "v' = v" if a: "Some (enc_str v) = Some e" "Some (enc_str v') = Some e" "length e < 2 ^ 64" for v v' e
      using a enc_str_eqD[of v' v] by auto
  qed
  then show ?thesis by (simp add: decoders dec_exact_wrap dec_exact_bind[OF Bytes_exact] wrapStreamError_EOL)
qed

lemma fields_enc_conforms:
  "fields_enc (map enc_of shs) vs = (if conforms_fields shs vs then Some (concat (map rlp_enc vs)) else None)"
proof (induction shs arbitrary: vs)
  case Nil
  then show ?case by (cases vs) auto
next
  case (Cons sh shs)
  then show ?case by (cases vs) (auto simp: enc_of_def)
qed

lemma all_enc_conforms: "all_enc (enc_of sh) vs = (if list_all (conforms sh) vs then Some (concat (map rlp_enc vs)) else None)"
  by (induction vs) (auto simp: enc_of_def)

lemma decode_fields_exact:
  assumes "\<And>sh. sh \<in> set shs \<Longrightarrow> dec_exact (decode_shape sh) (enc_of sh)"
  shows "seq_exact (decode_fields shs) (fields_enc (map enc_of shs))"
  using assms
proof (induction shs)
  case Nil
  show ?case using seq_Nil unfolding decode_fields.simps list.map .
next
  case (Cons sh shs)
  have "seq_exact (wrapM (\<lambda>e. if e = EOL then decodeErr ''too few elements'' else e) (decode_shape sh)) (enc_of sh)"
    by (rule seq_of_dec) (use Cons.prems in \<open>simp_all add: enc_of_nonempty\<close>)
  moreover have "seq_exact (decode_fields shs) (fields_enc (map enc_of shs))" by (rule Cons.IH) (simp add: Cons.prems)
  ultimately show ?case unfolding decode_fields.simps list.map by (rule seq_Cons)
qed

lemma struct_exact:
  assumes "\<And>sh. sh \<in> set shs \<Longrightarrow> dec_exact (decode_shape sh) (enc_of sh)"
  shows "dec_exact (decode_shape (ShStruct shs)) (enc_of (ShStruct shs))"
proof -
  let ?body = "bindM (decode_fields shs) (\<lambda>vs. bindM (wrapM wrapStreamError ListEnd) (\<lambda>_. returnM (RList vs)))"
  let ?E = "\<lambda>v. case v of RList vs \<Rightarrow> fields_enc (map enc_of shs) vs | _ \<Rightarrow> None"
  have E: "?E u = Some e \<longleftrightarrow> (\<exists>vs. u = RList vs \<and> fields_enc (map enc_of shs) vs = Some e)" for u e
    by (cases u) auto
  have "end_exact z ?body ?E" for z
    by (rule seq_then_end[OF decode_fields_exact[OF assms] wrapStreamError_EOL E])
  then have "dec_exact (bindM (wrapM wrapStreamError Stream_List) (\<lambda>_. ?body)) (list_enc ?E)"
    by (rule list_exact)
  moreover have "list_enc ?E = enc_of (ShStruct shs)"
    by (rule ext) (auto simp: list_enc_def enc_of_def fields_enc_conforms split: rlp_value.splits)
  ultimately show ?thesis by (simp add: decoders)
qed

lemma slice_end_exact:
  assumes "dec_exact (decode_shape sh) (enc_of sh)"
  shows "end_exact z (if z = 0 then bindM ListEnd (\<lambda>_. returnM (RList []))
      else bindM (decodeSliceElems (decode_shape sh)) (\<lambda>vs. bindM ListEnd (\<lambda>_. returnM (RList vs))))
    (\<lambda>v. case v of RList vs \<Rightarrow> all_enc (enc_of sh) vs | _ \<Rightarrow> None)" (is "end_exact z ?b ?E")
  unfolding end_exact_def
proof (intro allI impI)
  fix t st assume t: "fresh t" "stack t = (0, z) # st"
  have E: "?E u = Some e \<longleftrightarrow> (\<exists>vs. u = RList vs \<and> all_enc (enc_of sh) vs = Some e)" for u e
    by (cases u) auto
  have sl: "slices (decodeSliceElems (decode_shape sh)) (enc_of sh) t"
    using slice_loop_exact[OF assms enc_of_nonempty t(1), of "Suc (length (rd t))"] t win_length[of t]
    by (simp add: slices_def decodeSliceElems_def fresh_def)
  have fin: "(\<exists>v t'. ?E v = Some (win t) \<and> ?b t = (Inr v, t') \<and> leaves t t' \<and> (\<forall>v'. ?E v' = Some (win t) \<longrightarrow> v' = v))"
    if r: "reads t (length (win t)) t'" "all_enc (enc_of sh) vs = Some (win t)" "\<And>vs'. all_enc (enc_of sh) vs' = Some (win t) \<Longrightarrow> vs' = vs"
      and b: "\<And>t''. ListEnd t' = (Inr (), t'') \<Longrightarrow> ?b t = (Inr (RList vs), t'')" for vs t'
  proof -
    obtain t'' where "ListEnd t' = (Inr (), t'')" "leaves t t''" using ListEnd_run[OF t r(1)] by auto
    then show ?thesis using b r(2,3) unfolding E by blast
  qed
  show "(\<exists>v t'. ?E v = Some (win t) \<and> ?b t = (Inr v, t') \<and> leaves t t' \<and> (\<forall>v'. ?E v' = Some (win t) \<longrightarrow> v' = v)) \<or>
     (\<exists>f t'. ?b t = (Inl (Err f), t') \<and> f \<noteq> EOL) \<and> (\<forall>v. ?E v \<noteq> Some (win t))"
  proof (cases "z = 0")
    case True
    have w: "win t = []" using t(2) True by (simp add: win_def)
    have nil: "vs = []" if "all_enc (enc_of sh) vs = Some []" for vs
      using that enc_of_nonempty[of sh] by (cases vs) (auto split: option.splits)
    have "reads t (length (win t)) t" using t(1) w by (simp add: reads_def)
    moreover have "?b t = (Inr (RList []), t'')" if "ListEnd t = (Inr (), t'')" for t'' using that True by simp
    ultimately show ?thesis using fin[of t "[]"] w nil by simp
  next
    case False
    from sl[unfolded slices_def] show ?thesis
    proof (elim disjE exE conjE)
      fix vs t' assume a: "all_enc (enc_of sh) vs = Some (win t)" "decodeSliceElems (decode_shape sh) t = (Inr vs, t')"
        "reads t (length (win t)) t'" "\<forall>vs'. all_enc (enc_of sh) vs' = Some (win t) \<longrightarrow> vs' = vs"
      have "?b t = (Inr (RList vs), t'')" if "ListEnd t' = (Inr (), t'')" for t''
        using that a(2) False by simp
      then show ?thesis using fin[OF a(3,1)] a(4) by blast
    next
      fix f t' assume a: "decodeSliceElems (decode_shape sh) t = (Inl (Err f), t')" "f \<noteq> EOL"
        "\<forall>vs. all_enc (enc_of sh) vs \<noteq> Some (win t)"
      then have "?b t = (Inl (Err f), t')" using False by simp
      moreover have "?E v \<noteq> Some (win t)" for v using a(3) unfolding E by blast
      ultimately show ?thesis using a(2) by blast
    qed
  qed
qed

lemma decode_slice:
  assumes "dec_exact (decode_shape sh) (enc_of sh)"
  shows "dec_exact (decode_shape (ShSlice sh)) (enc_of (ShSlice sh))"
proof -
  let ?E = "\<lambda>v. case v of RList vs \<Rightarrow> all_enc (enc_of sh) vs | _ \<Rightarrow> None"
  have "list_enc ?E = enc_of (ShSlice sh)"
    by (rule ext) (auto simp: list_enc_def enc_of_def all_enc_conforms split: rlp_value.splits)
  then show ?thesis using list_exact[OF slice_end_exact[OF assms]] by (simp add: decoders)
qed

lemma decode_exact: "shape_ok sh \<Longrightarrow> dec_exact (decode_shape sh) (enc_of sh)"
proof (induction sh rule: shape_ok.induct)
  case (1 bits)
  then show ?case using decode_uint by simp
next
  case (2 n)
  have "enc_of (ShArray n) = array_enc n"
    by (rule ext) (auto simp: enc_of_def array_enc_def split: rlp_value.splits)
  then show ?case using array_exact 2 by simp
next
  case (3 shs)
  then show ?case by (intro struct_exact) (auto simp: list_all_iff)
next
  case (4 sh)
  then show ?case by (intro decode_slice) simp
next
  case "6_2"
  have "enc_of ShBig = big_enc" by (rule ext) (auto simp: enc_of_def big_enc_def split: rlp_value.splits option.splits)
  then show ?case using big_exact by simp
qed (simp_all add: decode_bool decode_bytes del: decode_shape.simps)

lemma NewStream_ok: "length b < 2 ^ 64 \<Longrightarrow> fresh (NewStream b)" "win (NewStream b) = b" "\<not> at_end (NewStream b)"
  by (simp_all add: NewStream_def fresh_def sok_def win_def at_end_def)

lemma DecodeBytes_canonical_iff:
  assumes "shape_ok sh" "length b < 2 ^ 64"
  shows "DecodeBytes sh b = Inr v \<longleftrightarrow> conforms sh v \<and> b = rlp_enc v"
proof -
  let ?s = "NewStream b"
  have s: "fresh ?s" "win ?s = b" "\<not> at_end ?s" "rd ?s = b" using NewStream_ok assms(2) by (simp_all add: NewStream_def)
  from decode_exact[OF assms(1)] s(1) show ?thesis
  proof (cases rule: dec_exact_cases)
    case (ok u e w s')
    note k = takesD[OF ok(2), unfolded s(2)]
    have r: "rd s' = w" using k(2,4) s(4) by (simp add: reads_def)
    have u: "conforms sh u" "e = rlp_enc u" using k(1) by (simp_all add: enc_of_def split: if_splits)
    have d: "DecodeBytes sh b = (if w \<noteq> [] then Inl (Err ErrMoreThanOneValue) else Inr u)"
      using k(3) r by (simp add: DecodeBytes_def)
    have only: "v = u \<and> w = []" if c: "conforms sh v" "b = rlp_enc v"
    proof -
      have "v = u" by (rule k(5)[of v b "[]"]) (use c in \<open>simp_all add: enc_of_def\<close>)
      then show ?thesis using c(2) k(2) u(2) by simp
    qed
    show ?thesis
    proof
      assume "DecodeBytes sh b = Inr v"
      then have "w = []" "v = u" using d by (simp_all split: if_splits)
      then show "conforms sh v \<and> b = rlp_enc v" using u k(2) by simp
    next
      assume "conforms sh v \<and> b = rlp_enc v"
      then show "DecodeBytes sh b = Inr v" using only d by simp
    qed
  next
    case bad
    from bad(2) obtain f s' where f: "decode_shape sh ?s = (Inl (Err f), s')" "f \<noteq> EOL" "\<And>v e w. enc_of sh v = Some e \<Longrightarrow> win ?s \<noteq> e @ w"
      by (rule rejectsE) blast
    have "\<not> (conforms sh v \<and> b = rlp_enc v)"
    proof
      assume "conforms sh v \<and> b = rlp_enc v"
      then show False using f(3)[of v b "[]"] s(2) by (simp add: enc_of_def)
    qed
    then show ?thesis using f(1) by (simp add: DecodeBytes_def)
  qed (use s in simp)
qed

lemma DecodeBytes_no_panic:
  assumes "shape_ok sh" "length b < 2 ^ 64"
  shows "DecodeBytes sh b \<noteq> Inl (Panic m)"
proof -
  let ?s = "NewStream b"
  have s: "fresh ?s" using NewStream_ok assms(2) by simp
  from decode_exact[OF assms(1)] s show ?thesis
    by (cases rule: dec_exact_cases) (auto simp: DecodeBytes_def takes_def rejects_def)
qed

lemma conforms_encodable: "conforms sh v \<Longrightarrow> rlp_encodable v" "conforms_fields shs vs \<Longrightarrow> list_all rlp_encodable vs"
proof (induction sh v and shs vs rule: conforms_conforms_fields.induct)
  case (7 sh v)
  then show ?case by (auto simp: list_all_iff split: rlp_value.splits)
qed (auto split: rlp_value.splits option.splits list.splits)

lemma armed_byte_array:
  assumes "skind s = Some Byte" "kinderr s = None" "byteval s = 0"
  shows "decode_shape (ShArray 1) s = (Inr (RBytes [0]), s)"
  using assms by (simp add: decodeByteArray_def Stream_Kind_def kind_answer_def bindM_def attemptM_def Stream_uint_def)

lemma armed_slice_loop:
  assumes "skind s = Some Byte" "kinderr s = None" "byteval s = 0"
  shows "fst (slice_loop n (decode_shape (ShArray 1)) s) = Inl (Panic ''slice loop'')"
proof (induction n)
  case (Suc n)
  then show ?case using armed_byte_array[OF assms]
    by (cases "slice_loop n (decode_shape (ShArray 1)) s") (simp add: bindM_def)
qed simp







text \<open>
  C29: a byte array of length one that holds 0x00 is decoded without being consumed, so the loop that decodes the one
  element of a list of such arrays goes on forever.\<close>

theorem one_byte_array_loops:
  "\<exists>s'. Stream_List (NewStream [0xC1, 0x00]) = (Inr 1, s') \<and>
    (\<forall>n. fst (slice_loop n (decode_shape (ShArray 1)) s') = Inl (Panic ''slice loop''))"
proof -
  let ?t = "NewStream [0xC1, 0x00]"
  let ?s = "?t\<lparr>rd := [0], remaining := 1, ssize := 0, stack := [(0, 1)]\<rparr>"
  let ?u = "?s\<lparr>rd := [], remaining := 0, skind := Some Byte, stack := [(1, 1)]\<rparr>"
  have l: "Stream_List ?t = (Inr 1, ?s)" by code_simp
  have d: "decode_shape (ShArray 1) ?s = (Inr (RBytes [0]), ?u)" by code_simp
  have "fst (slice_loop n (decode_shape (ShArray 1)) ?s) = Inl (Panic ''slice loop'')" for n
  proof (cases n)
    case (Suc m)
    have "fst (slice_loop m (decode_shape (ShArray 1)) ?u) = Inl (Panic ''slice loop'')"
      by (rule armed_slice_loop) (simp_all add: NewStream_def)
    then show ?thesis using d Suc
      by (cases "slice_loop m (decode_shape (ShArray 1)) ?u") (simp add: bindM_def)
  qed simp
  then show ?thesis using l by blast
qed

end
