(* ===== verification/Trie_Encoding.thy ===== *)
theory Trie_Encoding
  imports RLP
begin

unbundle bit_operations_syntax

text \<open>
  The three key encodings of the Merkle Patricia trie (\<^verbatim>\<open>trie/encoding.go\<close>): plain key bytes, one
  byte for every nibble with an optional terminator 16, and the compact form stored on disk.
\<close>

section \<open>The conversions\<close>

datatype trie_error = MissingNodeError "byte list" "byte list" | decodeError | putError | getError

definition hasTerm :: "byte list \<Rightarrow> bool" where
  "hasTerm s \<longleftrightarrow> length s > 0 \<and> last s = 16"

text \<open>An odd number of nibbles reads past the end of the slice.\<close>

fun decodeNibbles :: "byte list \<Rightarrow> (trie_error, byte list) result" where
  "decodeNibbles [] = Inr []"
| "decodeNibbles [a] = Inl (Panic ''index out of range'')"
| "decodeNibbles (a # b # r) = and_then (decodeNibbles r) (\<lambda>bs. Inr ((push_bit 4 a OR b) # bs))"

definition hexToCompact :: "byte list \<Rightarrow> (trie_error, byte list) result" where
  "hexToCompact hex0 =
    (let terminator = (if hasTerm hex0 then 1 else 0);
         hex1 = (if hasTerm hex0 then butlast hex0 else hex0);
         flag = push_bit 5 terminator in
     if odd (length hex1)
     then and_then (decodeNibbles (tl hex1)) (\<lambda>bs. Inr ((flag OR push_bit 4 1 OR hd hex1) # bs))
     else and_then (decodeNibbles hex1) (\<lambda>bs. Inr (flag # bs)))"

definition keybytesToHex :: "byte list \<Rightarrow> byte list" where
  "keybytesToHex s = concat (map (\<lambda>b. [b div 16, b mod 16]) s) @ [16]"

text \<open>\<^verbatim>\<open>base[0]\<close> is out of range when the compact key is empty.\<close>

definition compactToHex :: "byte list \<Rightarrow> (trie_error, byte list) result" where
  "compactToHex compact =
    (let base = butlast (keybytesToHex compact) in
     if base = [] then Inl (Panic ''index out of range'')
     else let base1 = (if hd base \<ge> 2 then base @ [16] else base);
              chop = 2 - (hd base1 AND 1) in
       Inr (drop (unat chop) base1))"

definition hexToKeybytes :: "byte list \<Rightarrow> (trie_error, byte list) result" where
  "hexToKeybytes hex0 =
    (let hex1 = (if hasTerm hex0 then butlast hex0 else hex0) in
     if odd (length hex1) then Inl (Panic ''can't convert hex key of odd length'')
     else decodeNibbles hex1)"

fun prefixLen :: "byte list \<Rightarrow> byte list \<Rightarrow> nat" where
  "prefixLen (a # as) (b # bs) = (if a = b then Suc (prefixLen as bs) else 0)"
| "prefixLen _ _ = 0"

section \<open>Nibbles\<close>

text \<open>A hex key: nibbles, optionally followed by the terminator.\<close>

definition nibbles :: "byte list \<Rightarrow> bool" where
  "nibbles k \<longleftrightarrow> (\<forall>x \<in> set k. x < 16)"

definition hexkey :: "byte list \<Rightarrow> bool" where
  "hexkey k \<longleftrightarrow> (\<exists>ns. nibbles ns \<and> k = ns @ [16])"

lemma nibbles_simps [simp]:
  "nibbles []" "nibbles (x # k) \<longleftrightarrow> x < 16 \<and> nibbles k" "nibbles (k @ k') \<longleftrightarrow> nibbles k \<and> nibbles k'"
  by (auto simp: nibbles_def)

lemma hexkey_Cons: "hexkey (x # k) \<longleftrightarrow> (if k = [] then x = 16 else x < 16 \<and> hexkey k)"
  by (auto simp: hexkey_def Cons_eq_append_conv)

lemma hexkey_not_Nil [simp]: "\<not> hexkey []"
  by (simp add: hexkey_def)

lemma hexkey_append [simp]: "nibbles k \<Longrightarrow> hexkey (k @ k') \<longleftrightarrow> hexkey k'"
  by (induction k) (auto simp: hexkey_Cons)

lemma hexkey_term: "hexkey k \<Longrightarrow> hasTerm k"
  by (auto simp: hexkey_def hasTerm_def)

lemma nibbles_no_term: "nibbles k \<Longrightarrow> \<not> hasTerm k"
proof
  assume "nibbles k" "hasTerm k"
  then have "(16 :: byte) < 16" using last_in_set[of k] by (metis hasTerm_def length_greater_0_conv nibbles_def)
  then show False by simp
qed

lemma byte_nibbles: "(b :: byte) div 16 < 16" "b mod 16 < 16"
proof -
  have "unat b < 256" using unsigned_less[of b, where 'a=nat] by simp
  then have "unat b div 16 < 16" by (simp add: less_mult_imp_div_less)
  then show "b div 16 < 16" by (simp add: word_less_nat_alt unat_div)
  show "b mod 16 < 16" by (simp add: word_less_nat_alt unat_mod)
qed

lemma keybytesToHex_hexkey: "hexkey (keybytesToHex s)"
  by (auto simp: hexkey_def keybytesToHex_def nibbles_def byte_nibbles intro!: exI[of _ "concat (map (\<lambda>b. [b div 16, b mod 16]) s)"])

lemma join_nibbles:
  assumes "(a :: byte) < 16" "b < 16"
  shows "(push_bit 4 a OR b) div 16 = a" "(push_bit 4 a OR b) mod 16 = b"
proof -
  have b: "b = take_bit 4 b" using assms(2)
    by (simp add: word_unat_eq_iff take_bit_eq_mod unat_mod word_less_nat_alt)
  have "push_bit 4 a OR take_bit 4 b = push_bit 4 a + take_bit 4 b"
    by (rule disjunctive_add[symmetric]) (auto simp: bit_simps)
  then have "push_bit 4 a OR b = push_bit 4 a + b" using b by simp
  moreover have "unat (push_bit 4 a) = 16 * unat a" "unat a < 16" "unat b < 16"
    using assms by (simp_all add: push_bit_eq_mult unat_word_ariths word_less_nat_alt)
  ultimately have u: "unat (push_bit 4 a OR b) = 16 * unat a + unat b"
    by (simp add: unat_word_ariths)
  show "(push_bit 4 a OR b) div 16 = a" "(push_bit 4 a OR b) mod 16 = b"
    using u \<open>unat b < 16\<close> by (simp_all add: word_unat_eq_iff unat_div unat_mod)
qed

abbreviation split_bytes :: "byte list \<Rightarrow> byte list" where
  "split_bytes bs \<equiv> concat (map (\<lambda>b. [b div 16, b mod 16]) bs)"

lemma decodeNibbles_even:
  "even (length ns) \<Longrightarrow> nibbles ns \<Longrightarrow> \<exists>bs. decodeNibbles ns = Inr bs \<and> split_bytes bs = ns"
  by (induction ns rule: decodeNibbles.induct) (auto simp: join_nibbles)

lemma decodeNibbles_split: "decodeNibbles (split_bytes bs) = Inr bs"
proof (induction bs)
  case (Cons b bs)
  have "push_bit 4 (b div 16) OR (b mod 16) = b"
  proof -
    let ?j = "push_bit 4 (b div 16) OR (b mod 16)"
    have "?j div 16 = b div 16" "?j mod 16 = b mod 16" using join_nibbles byte_nibbles by blast+
    then show ?thesis by (metis div_mult_mod_eq)
  qed
  with Cons show ?case by simp
qed simp

lemma compactToHex_Cons:
  assumes "hi < 4" "lo < 16"
  shows "compactToHex ((push_bit 4 hi OR lo) # bs) =
    Inr ((if odd (unat hi) then [lo] else []) @ split_bytes bs @ (if 2 \<le> hi then [16] else []))"
proof -
  have "hi < 16" using assms(1) by (auto simp: word_less_nat_alt)
  then have "butlast (keybytesToHex ((push_bit 4 hi OR lo) # bs)) = hi # lo # split_bytes bs"
    using join_nibbles[of hi lo] assms(2) by (simp add: keybytesToHex_def)
  moreover have "unat (2 - (hi AND 1)) = (if odd (unat hi) then 1 else 2)"
    by (simp add: and_one_eq odd_iff_mod_2_eq_one unat_arith_simps)
  ultimately show ?thesis by (simp add: compactToHex_def Let_def)
qed

lemma hexToCompact_form:
  assumes "hexkey k \<or> nibbles k"
  shows "\<exists>hi lo bs. hexToCompact k = Inr ((push_bit 4 hi OR lo) # bs) \<and> hi < 4 \<and> lo < 16 \<and>
     (if odd (unat hi) then [lo] else []) @ split_bytes bs @ (if 2 \<le> hi then [16] else []) = k"
proof -
  define t where "t = (if hasTerm k then 1 else 0 :: byte)"
  define ns where "ns = (if hasTerm k then butlast k else k)"
  have ns: "nibbles ns" "k = ns @ (if hasTerm k then [16] else [])"
    using assms nibbles_no_term[of k] by (auto simp: ns_def hexkey_def hexkey_term hasTerm_def)
  show ?thesis
  proof (cases "odd (length ns)")
    case True
    then obtain n ms where n: "ns = n # ms" by (cases ns) auto
    then obtain bs where bs: "decodeNibbles ms = Inr bs" "split_bytes bs = ms"
      using decodeNibbles_even[of ms] True ns(1) by auto
    have "hexToCompact k = Inr ((push_bit 4 (2 * t + 1) OR n) # bs)"
      using True n bs(1) by (auto simp: hexToCompact_def Let_def ns_def[symmetric] t_def or.assoc[symmetric])
    moreover have "n < 16" using n ns(1) by simp
    ultimately show ?thesis
      using ns(2) n bs(2) by - (rule exI[of _ "2 * t + 1"], rule exI[of _ n], rule exI[of _ bs], auto simp: t_def word_le_nat_alt)
  next
    case False
    then obtain bs where bs: "decodeNibbles ns = Inr bs" "split_bytes bs = ns"
      using decodeNibbles_even[of ns] ns(1) by auto
    have "hexToCompact k = Inr ((push_bit 4 (2 * t) OR 0) # bs)"
      using False bs(1) by (auto simp: hexToCompact_def Let_def ns_def[symmetric] t_def)
    then show ?thesis
      using ns(2) bs(2) by - (rule exI[of _ "2 * t"], rule exI[of _ 0], rule exI[of _ bs], auto simp: t_def)
  qed
qed

lemma compact_roundtrip:
  assumes "hexkey k \<or> nibbles k"
  obtains c where "hexToCompact k = Inr c" "compactToHex c = Inr k" "c \<noteq> []"
proof -
  obtain hi lo bs where f: "hexToCompact k = Inr ((push_bit 4 hi OR lo) # bs)" "hi < 4" "lo < 16"
    "(if odd (unat hi) then [lo] else []) @ split_bytes bs @ (if 2 \<le> hi then [16] else []) = k"
    using hexToCompact_form[OF assms] by blast
  from f(1) show thesis by (rule that) (simp_all only: compactToHex_Cons[OF f(2,3)] f(4), simp)
qed

section \<open>Prefixes\<close>

lemma prefixLen_le: "prefixLen a b \<le> length a" "prefixLen a b \<le> length b"
  by (induction a b rule: prefixLen.induct) auto

lemma take_prefixLen: "take (prefixLen a b) a = take (prefixLen a b) b"
  by (induction a b rule: prefixLen.induct) auto

lemma prefixLen_full: "prefixLen a b = length b \<longleftrightarrow> take (length b) a = b"
  by (induction a b rule: prefixLen.induct) auto

lemma prefixLen_diff:
  "prefixLen a b < length a \<Longrightarrow> prefixLen a b < length b \<Longrightarrow> a ! prefixLen a b \<noteq> b ! prefixLen a b"
  by (induction a b rule: prefixLen.induct) auto

lemma prefixLen_append [simp]: "prefixLen (p @ a) (p @ b) = length p + prefixLen a b"
  by (induction p) auto

lemma prefix_cases:
  obtains p a' b' where "a = p @ a'" "b = p @ b'" "prefixLen a b = length p"
    "a' = [] \<or> b' = [] \<or> hd a' \<noteq> hd b'"
proof (rule that)
  let ?n = "prefixLen a b"
  show "a = take ?n a @ drop ?n a" by simp
  show "b = take ?n a @ drop ?n b" by (metis append_take_drop_id take_prefixLen)
  show "?n = length (take ?n a)" using prefixLen_le[of a b] by simp
  show "drop ?n a = [] \<or> drop ?n b = [] \<or> hd (drop ?n a) \<noteq> hd (drop ?n b)"
    using prefixLen_diff[of a b] by (auto simp: hd_drop_conv_nth not_le)
qed

section \<open>Round trips\<close>

text \<open>
  C26: the key encodings are inverse to each other: converting key bytes to nibbles and back gives the
  key, and a path of nibbles, with or without the terminator, survives the compact encoding used on disk.\<close>

theorem key_encodings_roundtrip:
  "hexToKeybytes (keybytesToHex key) = Inr key \<and>
   (hexkey path \<or> nibbles path \<longrightarrow> and_then (hexToCompact path) compactToHex = Inr path)"
proof
  show "hexToKeybytes (keybytesToHex key) = Inr key"
  proof -
    have "even (length (split_bytes key))" by (induction key) auto
    then show ?thesis
      by (simp add: hexToKeybytes_def hasTerm_def keybytesToHex_def decodeNibbles_split)
  qed
  show "hexkey path \<or> nibbles path \<longrightarrow> and_then (hexToCompact path) compactToHex = Inr path"
    using compact_roundtrip by (metis and_then_simps(2))
qed

theorem key_encodings_roundtrip_witness:
  "hexToKeybytes (keybytesToHex [0xAB]) = Inr [0xAB] \<and>
   and_then (hexToCompact [1, 2, 3, 16]) compactToHex = Inr [1, 2, 3, 16]"
  using key_encodings_roundtrip[of "[0xAB]" "[1, 2, 3, 16]"] by (simp add: hexkey_Cons)

end
