(* ===== verification/Trie_Node.thy ===== *)
theory Trie_Node
  imports Trie_Encoding
begin

text \<open>
  Nodes of the Merkle Patricia trie and the parser of their stored form (\<^verbatim>\<open>trie/node.go\<close>). A node
  is nil, a full node with seventeen children, a short node, a reference to a stored node by its hash,
  or a value.\<close>

section \<open>Data\<close>

record nodeFlag =
  flag_hash :: "byte list option"
  flag_gen :: "16 word"
  dirty :: bool

datatype node =
    NilNode
  | FullNode (Children: "node list") (full_flags: nodeFlag)
  | ShortNode (Key: "byte list") (Val: node) (short_flags: nodeFlag)
  | HashNode "byte list"
  | ValueNode "byte list"

definition flag_canUnload :: "nodeFlag \<Rightarrow> 16 word \<Rightarrow> 16 word \<Rightarrow> bool" where
  "flag_canUnload f cachegen cachelimit \<longleftrightarrow> \<not> dirty f \<and> cachegen - flag_gen f \<ge> cachelimit"

fun canUnload :: "node \<Rightarrow> 16 word \<Rightarrow> 16 word \<Rightarrow> bool" where
  "canUnload (FullNode _ f) g l = flag_canUnload f g l"
| "canUnload (ShortNode _ _ f) g l = flag_canUnload f g l"
| "canUnload _ g l = False"

fun cache :: "node \<Rightarrow> byte list option \<times> bool" where
  "cache (FullNode _ f) = (flag_hash f, dirty f)"
| "cache (ShortNode _ _ f) = (flag_hash f, dirty f)"
| "cache _ = (None, True)"

text \<open>The value that is passed to the RLP encoder.\<close>

fun node_rlp :: "node \<Rightarrow> rlp_value" where
  "node_rlp NilNode = RNilInterface"
| "node_rlp (FullNode ch f) = RList (map node_rlp ch)"
| "node_rlp (ShortNode k v f) = RList [RBytes k, node_rlp v]"
| "node_rlp (HashNode h) = RBytes h"
| "node_rlp (ValueNode v) = RBytes v"

section \<open>Decoding\<close>

lemma Split_rest_le: "Split b = Inr (k, c, r) \<Longrightarrow> length r \<le> length b"
  by (auto simp: Split_def result_simps)

lemma SplitString_rest_le: "SplitString b = Inr (c, r) \<Longrightarrow> length r \<le> length b"
  by (auto simp: SplitString_def result_simps dest: Split_rest_le split: if_splits)

lemma SplitList_shorter: "SplitList b = Inr (c, r) \<Longrightarrow> length c < length b"
proof -
  assume "SplitList b = Inr (c, r)"
  then obtain ts cs where rk: "readKind b = Inr (List, ts, cs)" and c: "c = drop (unat ts) (take (unat (ts + cs)) b)"
    by (auto simp: SplitList_def Split_def result_simps split: if_splits)
  from rk have "b \<noteq> [] \<and> 1 \<le> unat ts"
  proof (cases rule: readKind_cases)
    case (long_list x bs)
    then have x: "1 \<le> unat (x - 0xF7)" "unat (x - 0xF7) \<le> 8"
      using tag_sub[where x = x and lo = 247] unsigned_less[of x, where 'a=nat] by (auto simp: word_less_nat_alt not_less)
    with long_list long_head(1)[of bs "x - 0xF7" cs] show ?thesis by simp
  qed auto
  with c show "length c < length b" by (cases b) auto
qed

definition decode_flag :: "byte list option \<Rightarrow> 16 word \<Rightarrow> nodeFlag" where
  "decode_flag hash cachegen = \<lparr>flag_hash = hash, flag_gen = cachegen, dirty = False\<rparr>"

text \<open>The switch on \<^verbatim>\<open>c, _ := rlp.CountValues(elems)\<close>: the count is 0 when it fails.\<close>

definition count_or_0 :: "byte list \<Rightarrow> nat" where
  "count_or_0 elems = (case CountValues elems of Some (Inr c) \<Rightarrow> c | _ \<Rightarrow> 0)"

function decodeNode :: "byte list option \<Rightarrow> byte list \<Rightarrow> 16 word \<Rightarrow> (trie_error, node) result"
and decodeShort :: "byte list option \<Rightarrow> byte list \<Rightarrow> 16 word \<Rightarrow> (trie_error, node) result"
and decodeFull :: "byte list option \<Rightarrow> byte list \<Rightarrow> 16 word \<Rightarrow> (trie_error, node) result"
and decodeFull_loop :: "nat \<Rightarrow> byte list \<Rightarrow> 16 word \<Rightarrow> (trie_error, node list \<times> byte list) result"
and decodeRef :: "byte list \<Rightarrow> 16 word \<Rightarrow> (trie_error, node \<times> byte list) result" where
  "decodeNode hash buf cachegen =
    (if length buf = 0 then Inl (Err decodeError)
     else case SplitList buf of
       Inl e \<Rightarrow> Inl (Err decodeError)
     | Inr (elems, _) \<Rightarrow>
         if count_or_0 elems = 2 then decodeShort hash elems cachegen
         else if count_or_0 elems = 17 then decodeFull hash elems cachegen
         else Inl (Err decodeError))"
| "decodeShort hash elems cachegen =
    (case SplitString elems of
       Inl e \<Rightarrow> Inl (Err decodeError)
     | Inr (kbuf, rest) \<Rightarrow>
         case compactToHex kbuf of
           Inl e \<Rightarrow> Inl e
         | Inr key \<Rightarrow>
             if hasTerm key then
               case SplitString rest of
                 Inl e \<Rightarrow> Inl (Err decodeError)
               | Inr (val, _) \<Rightarrow> Inr (ShortNode key (ValueNode val) (decode_flag hash cachegen))
             else
               case decodeRef rest cachegen of
                 Inl e \<Rightarrow> Inl e
               | Inr (r, _) \<Rightarrow> Inr (ShortNode key r (decode_flag hash cachegen)))"
| "decodeFull hash elems cachegen =
    (case decodeFull_loop 16 elems cachegen of
       Inl e \<Rightarrow> Inl e
     | Inr (cs, rest) \<Rightarrow>
         case SplitString rest of
           Inl e \<Rightarrow> Inl (Err decodeError)
         | Inr (val, _) \<Rightarrow>
             Inr (FullNode (cs @ [if length val > 0 then ValueNode val else NilNode]) (decode_flag hash cachegen)))"
| "decodeFull_loop todo elems cachegen =
    (if todo = 0 then Inr ([], elems)
     else case decodeRef elems cachegen of
       Inl e \<Rightarrow> Inl e
     | Inr (cld, rest) \<Rightarrow>
         case decodeFull_loop (todo - 1) rest cachegen of
           Inl e \<Rightarrow> Inl e
         | Inr (cs, rest1) \<Rightarrow> Inr (cld # cs, rest1))"
| "decodeRef buf cachegen =
    (case Split buf of
       Inl e \<Rightarrow> Inl (Err decodeError)
     | Inr (kind, val, rest) \<Rightarrow>
         if kind = List then
           if length buf - length rest > 32 then Inl (Err decodeError)
           else case decodeNode None buf cachegen of
             Inl e \<Rightarrow> Inl e
           | Inr n \<Rightarrow> Inr (n, rest)
         else if kind = String \<and> length val = 0 then Inr (NilNode, rest)
         else if kind = String \<and> length val = 32 then Inr (HashNode val, rest)
         else Inl (Err decodeError))"
  by pat_completeness auto

termination
proof -
  have rest: "length rest \<le> length buf"
    if "decodeNode_decodeShort_decodeFull_decodeFull_loop_decodeRef_dom (Inr (Inr (Inr (buf, cachegen))))"
      and "decodeRef buf cachegen = Inr (n, rest)" for buf cachegen n rest
    using that by (auto simp: decodeRef.psimps dest: Split_rest_le split: sum.splits if_splits)
  show ?thesis
    by (relation "measures [
      case_sum (case_sum (\<lambda>(h, b, g). length b) (\<lambda>(h, b, g). length b))
        (case_sum (\<lambda>(h, b, g). length b) (case_sum (\<lambda>(n, b, g). length b) (\<lambda>(b, g). length b))),
      case_sum (case_sum (\<lambda>_. 0) (\<lambda>_. 2)) (case_sum (\<lambda>_. 20) (case_sum (\<lambda>(n, b, g). n + 2) (\<lambda>_. 1)))]")
     (auto dest!: SplitList_shorter SplitString_rest_le rest simp: le_less)
qed

declare decodeNode.simps [simp del] decodeShort.simps [simp del] decodeFull.simps [simp del]
  decodeFull_loop.simps [simp del] decodeRef.simps [simp del]

definition mustDecodeNode :: "byte list \<Rightarrow> byte list \<Rightarrow> 16 word \<Rightarrow> (trie_error, node) result" where
  "mustDecodeNode hash buf cachegen =
    (case decodeNode (Some hash) buf cachegen of
       Inl (Err e) \<Rightarrow> Inl (Panic ''node: decode error'')
     | r \<Rightarrow> r)"

end
