(* ===== verification/Trie_Ops.thy ===== *)
theory Trie_Ops
  imports Trie_Node
begin

text \<open>
  The operations of the Merkle Patricia trie (\<^verbatim>\<open>trie/trie.go\<close>): lookup, insertion and deletion. Parts
  of the trie that are not in memory are \<open>HashNode\<close> references, which the operations load from the
  database while they descend. A corrupt database could send the descent round in a cycle, so the
  recursive operations are partial: \<open>None\<close> is a call that does not return.\<close>

section \<open>The trie\<close>

type_synonym database = "byte list \<rightharpoonup> byte list"

record Trie =
  root :: node
  trie_db :: "database option"
  originalRoot :: "byte list"
  cachegen :: "16 word"
  cachelimit :: "16 word"

definition newFlag :: "16 word \<Rightarrow> nodeFlag" where
  "newFlag gen = \<lparr>flag_hash = None, flag_gen = gen, dirty = True\<rparr>"

definition resolveHash :: "database option \<Rightarrow> 16 word \<Rightarrow> byte list \<Rightarrow> byte list \<Rightarrow> (trie_error, node) result" where
  "resolveHash db gen n prefix =
    (case db of
       None \<Rightarrow> Inl (Panic ''invalid memory address or nil pointer dereference'')
     | Some m \<Rightarrow>
         case m n of
           None \<Rightarrow> Inl (Err (MissingNodeError n prefix))
         | Some enc \<Rightarrow> mustDecodeNode n enc gen)"

definition resolve :: "database option \<Rightarrow> 16 word \<Rightarrow> node \<Rightarrow> byte list \<Rightarrow> (trie_error, node) result" where
  "resolve db gen n prefix =
    (case n of HashNode h \<Rightarrow> resolveHash db gen h prefix | _ \<Rightarrow> Inr n)"

text \<open>The known root hash of an empty trie.\<close>

definition emptyRoot :: "byte list" where
  "emptyRoot = [0x56, 0xe8, 0x1f, 0x17, 0x1b, 0xcc, 0x55, 0xa6, 0xff, 0x83, 0x45, 0xe6, 0x92, 0xc0, 0xf8, 0x6e,
     0x5b, 0x48, 0xe0, 0x1b, 0x99, 0x6c, 0xad, 0xc0, 0x01, 0x62, 0x2f, 0xb5, 0xe3, 0x63, 0xb4, 0x21]"

definition Trie_New :: "byte list \<Rightarrow> database option \<Rightarrow> (trie_error, Trie) result" where
  "Trie_New rt db =
    (let t = \<lparr>root = NilNode, trie_db = db, originalRoot = rt, cachegen = 0, cachelimit = 0\<rparr> in
     if rt \<noteq> replicate 32 0 \<and> rt \<noteq> emptyRoot then
       if db = None then Inl (Panic ''trie.New: cannot use existing root without a database'')
       else and_then (resolveHash db 0 rt []) (\<lambda>rootnode. Inr (t\<lparr>root := rootnode\<rparr>))
     else Inr t)"

section \<open>Lookup\<close>

partial_function (option) tryGet ::
  "database option \<Rightarrow> 16 word \<Rightarrow> node \<Rightarrow> byte list \<Rightarrow> nat
     \<Rightarrow> (trie_error, byte list option \<times> node \<times> bool) result option" where
  "tryGet db gen origNode key pos =
    (case origNode of
       NilNode \<Rightarrow> Some (Inr (None, NilNode, False))
     | ValueNode v \<Rightarrow> Some (Inr (Some v, origNode, False))
     | ShortNode k v f \<Rightarrow>
         if length key - pos < length k \<or> k \<noteq> take (length k) (drop pos key)
         then Some (Inr (None, origNode, False))
         else Option.bind (tryGet db gen v key (pos + length k)) (\<lambda>r.
           Some (and_then r (\<lambda>(value, newnode, didResolve).
             Inr (value, if didResolve then ShortNode k newnode (f\<lparr>flag_gen := gen\<rparr>) else origNode, didResolve))))
     | FullNode ch f \<Rightarrow>
         if pos < length key \<and> unat (key ! pos) < length ch
         then Option.bind (tryGet db gen (ch ! unat (key ! pos)) key (pos + 1)) (\<lambda>r.
           Some (and_then r (\<lambda>(value, newnode, didResolve).
             Inr (value, if didResolve then FullNode (ch[unat (key ! pos) := newnode]) (f\<lparr>flag_gen := gen\<rparr>)
                         else origNode, didResolve))))
         else Some (Inl (Panic ''index out of range''))
     | HashNode n \<Rightarrow>
         (case resolveHash db gen n (take pos key) of
            Inl e \<Rightarrow> Some (Inl e)
          | Inr child \<Rightarrow>
              Option.bind (tryGet db gen child key pos) (\<lambda>r.
                Some (and_then r (\<lambda>(value, newnode, _). Inr (value, newnode, True))))))"

definition TryGet :: "Trie \<Rightarrow> byte list \<Rightarrow> ((trie_error, byte list option) result \<times> Trie) option" where
  "TryGet t key0 =
    map_option (\<lambda>r. case r of
        Inl e \<Rightarrow> (Inl e, t)
      | Inr (value, newroot, didResolve) \<Rightarrow> (Inr value, if didResolve then t\<lparr>root := newroot\<rparr> else t))
     (tryGet (trie_db t) (cachegen t) (root t) (keybytesToHex key0) 0)"

section \<open>Insertion\<close>

partial_function (option) trie_insert ::
  "database option \<Rightarrow> 16 word \<Rightarrow> node \<Rightarrow> byte list \<Rightarrow> byte list \<Rightarrow> node
     \<Rightarrow> (trie_error, bool \<times> node) result option" where
  "trie_insert db gen n prefix key value =
    (if length key = 0 then
       Some (Inr (case n of ValueNode v \<Rightarrow> (ValueNode v \<noteq> value, value) | _ \<Rightarrow> (True, value)))
     else case n of
       ShortNode k v f \<Rightarrow>
         let matchlen = prefixLen key k in
         if matchlen = length k then
           Option.bind (trie_insert db gen v (prefix @ take matchlen key) (drop matchlen key) value) (\<lambda>r.
             Some (and_then r (\<lambda>(dirty, nn).
               Inr (if \<not> dirty then (False, n) else (True, ShortNode k nn (newFlag gen))))))
         else if matchlen = length key then Some (Inl (Panic ''index out of range''))
         else
           Option.bind (trie_insert db gen NilNode (prefix @ take (matchlen + 1) k) (drop (matchlen + 1) k) v) (\<lambda>r1.
           Option.bind (trie_insert db gen NilNode (prefix @ take (matchlen + 1) key) (drop (matchlen + 1) key) value) (\<lambda>r2.
             Some (and_then r1 (\<lambda>(_, c1). and_then r2 (\<lambda>(_, c2).
               let branch = FullNode ((replicate 17 NilNode)[unat (k ! matchlen) := c1, unat (key ! matchlen) := c2]) (newFlag gen)
               in Inr (True, if matchlen = 0 then branch else ShortNode (take matchlen key) branch (newFlag gen)))))))
     | FullNode ch f \<Rightarrow>
         if unat (hd key) < length ch then
           Option.bind (trie_insert db gen (ch ! unat (hd key)) (prefix @ [hd key]) (tl key) value) (\<lambda>r.
             Some (and_then r (\<lambda>(dirty, nn).
               Inr (if \<not> dirty then (False, n) else (True, FullNode (ch[unat (hd key) := nn]) (newFlag gen))))))
         else Some (Inl (Panic ''index out of range''))
     | NilNode \<Rightarrow> Some (Inr (True, ShortNode key value (newFlag gen)))
     | HashNode h \<Rightarrow>
         (case resolveHash db gen h prefix of
            Inl e \<Rightarrow> Some (Inl e)
          | Inr rn \<Rightarrow>
              Option.bind (trie_insert db gen rn prefix key value) (\<lambda>r.
                Some (and_then r (\<lambda>(dirty, nn). Inr (if \<not> dirty then (False, rn) else (True, nn))))))
     | ValueNode v \<Rightarrow> Some (Inl (Panic ''invalid node'')))"

section \<open>Deletion\<close>

text \<open>The scan for the single child that is left: its index, -1 for none, -2 for several.\<close>

fun sole_pos :: "int \<Rightarrow> int \<Rightarrow> node list \<Rightarrow> int" where
  "sole_pos i pos [] = pos"
| "sole_pos i pos (c # cs) =
    (if c \<noteq> NilNode then if pos = -1 then sole_pos (i + 1) i cs else -2
     else sole_pos (i + 1) pos cs)"

text \<open>Reduces a full node that has lost a child.\<close>

definition reduce_full ::
  "database option \<Rightarrow> 16 word \<Rightarrow> node list \<Rightarrow> byte list \<Rightarrow> (trie_error, bool \<times> node) result" where
  "reduce_full db gen ch prefix =
    (let pos = sole_pos 0 (-1) ch in
     if pos \<ge> 0 then
       let short = Inr (True, ShortNode [word_of_int pos] (ch ! nat pos) (newFlag gen)) in
       if pos \<noteq> 16 then
         and_then (resolve db gen (ch ! nat pos) prefix) (\<lambda>cnode.
           case cnode of
             ShortNode k v f \<Rightarrow> Inr (True, ShortNode (word_of_int pos # k) v (newFlag gen))
           | _ \<Rightarrow> short)
       else short
     else Inr (True, FullNode ch (newFlag gen)))"

partial_function (option) trie_delete ::
  "database option \<Rightarrow> 16 word \<Rightarrow> node \<Rightarrow> byte list \<Rightarrow> byte list \<Rightarrow> (trie_error, bool \<times> node) result option" where
  "trie_delete db gen n prefix key =
    (case n of
       ShortNode k v f \<Rightarrow>
         let matchlen = prefixLen key k in
         if matchlen < length k then Some (Inr (False, n))
         else if matchlen = length key then Some (Inr (True, NilNode))
         else
           Option.bind (trie_delete db gen v (prefix @ take (length k) key) (drop (length k) key)) (\<lambda>r.
             Some (and_then r (\<lambda>(dirty, child).
               Inr (if \<not> dirty then (False, n)
                    else case child of
                      ShortNode ck cv cf \<Rightarrow> (True, ShortNode (k @ ck) cv (newFlag gen))
                    | _ \<Rightarrow> (True, ShortNode k child (newFlag gen))))))
     | FullNode ch f \<Rightarrow>
         if key \<noteq> [] \<and> unat (hd key) < length ch then
           Option.bind (trie_delete db gen (ch ! unat (hd key)) (prefix @ [hd key]) (tl key)) (\<lambda>r.
             Some (and_then r (\<lambda>(dirty, nn).
               if \<not> dirty then Inr (False, n)
               else reduce_full db gen (ch[unat (hd key) := nn]) prefix)))
         else Some (Inl (Panic ''index out of range''))
     | ValueNode v \<Rightarrow> Some (Inr (True, NilNode))
     | NilNode \<Rightarrow> Some (Inr (False, NilNode))
     | HashNode h \<Rightarrow>
         (case resolveHash db gen h prefix of
            Inl e \<Rightarrow> Some (Inl e)
          | Inr rn \<Rightarrow>
              Option.bind (trie_delete db gen rn prefix key) (\<lambda>r.
                Some (and_then r (\<lambda>(dirty, nn). Inr (if \<not> dirty then (False, rn) else (True, nn)))))))"

section \<open>Updates of the trie\<close>

definition set_root :: "Trie \<Rightarrow> (trie_error, bool \<times> node) result \<Rightarrow> (trie_error, unit) result \<times> Trie" where
  "set_root t r = (case r of Inl e \<Rightarrow> (Inl e, t) | Inr (_, n) \<Rightarrow> (Inr (), t\<lparr>root := n\<rparr>))"

definition TryUpdate :: "Trie \<Rightarrow> byte list \<Rightarrow> byte list \<Rightarrow> ((trie_error, unit) result \<times> Trie) option" where
  "TryUpdate t key0 value =
    (let k = keybytesToHex key0 in
     if length value \<noteq> 0
     then map_option (set_root t) (trie_insert (trie_db t) (cachegen t) (root t) [] k (ValueNode value))
     else map_option (set_root t) (trie_delete (trie_db t) (cachegen t) (root t) [] k))"

definition TryDelete :: "Trie \<Rightarrow> byte list \<Rightarrow> ((trie_error, unit) result \<times> Trie) option" where
  "TryDelete t key0 =
    map_option (set_root t) (trie_delete (trie_db t) (cachegen t) (root t) [] (keybytesToHex key0))"

text \<open>
  \<^verbatim>\<open>Get\<close>, \<^verbatim>\<open>Update\<close> and \<^verbatim>\<open>Delete\<close> log an error and go on; a panic is still a panic.\<close>

definition log_error :: "(trie_error, 'a) result \<Rightarrow> 'a \<Rightarrow> (trie_error, 'a) result" where
  "log_error r v = (case r of Inl (Err e) \<Rightarrow> Inr v | _ \<Rightarrow> r)"

definition Trie_Get :: "Trie \<Rightarrow> byte list \<Rightarrow> ((trie_error, byte list option) result \<times> Trie) option" where
  "Trie_Get t key = map_option (\<lambda>(r, t'). (log_error r None, t')) (TryGet t key)"

definition Trie_Update :: "Trie \<Rightarrow> byte list \<Rightarrow> byte list \<Rightarrow> ((trie_error, unit) result \<times> Trie) option" where
  "Trie_Update t key value = map_option (\<lambda>(r, t'). (log_error r (), t')) (TryUpdate t key value)"

definition Trie_Delete :: "Trie \<Rightarrow> byte list \<Rightarrow> ((trie_error, unit) result \<times> Trie) option" where
  "Trie_Delete t key = map_option (\<lambda>(r, t'). (log_error r (), t')) (TryDelete t key)"

end
