(* ===== verification/Trie_Spec.thy ===== *)
theory Trie_Spec
  imports Trie_Encoding
begin

text \<open>
  What the trie computes, without caches, flags and storage: a Patricia tree over hex keys in its
  canonical form, the map it stands for, and the fact that the map determines the tree.\<close>

section \<open>Patricia trees\<close>

datatype ptree = PNil | PVal "byte list" | PShort "byte list" ptree | PFull "ptree list"

fun pget :: "ptree \<Rightarrow> byte list \<Rightarrow> byte list option" where
  "pget PNil k = None"
| "pget (PVal v) k = (if k = [] then Some v else None)"
| "pget (PShort p t) k = (if take (length p) k = p then pget t (drop (length p) k) else None)"
| "pget (PFull ts) [] = None"
| "pget (PFull ts) (x # k) = (if unat x < length ts then pget (ts ! unat x) k else None)"

text \<open>
  Canonical trees: a leaf is a short node whose path ends with the terminator; an extension leads to a
  branch; a branch has at least two children, and a value in position 16 only.\<close>

function pok :: "ptree \<Rightarrow> bool" where
  "pok PNil = False"
| "pok (PVal v) = False"
| "pok (PShort p t) = (case t of
     PVal v \<Rightarrow> hexkey p \<and> v \<noteq> []
   | PFull _ \<Rightarrow> p \<noteq> [] \<and> nibbles p \<and> pok t
   | _ \<Rightarrow> False)"
| "pok (PFull ts) = (length ts = 17 \<and> (\<forall>t \<in> set (butlast ts). t = PNil \<or> pok t) \<and>
     (case last ts of PNil \<Rightarrow> True | PVal v \<Rightarrow> v \<noteq> [] | _ \<Rightarrow> False) \<and>
     (\<exists>i < 17. \<exists>j < 17. i \<noteq> j \<and> ts ! i \<noteq> PNil \<and> ts ! j \<noteq> PNil))"
  by pat_completeness auto

termination
  by (relation "measure size") (auto dest!: in_set_butlastD simp: less_Suc_eq_le intro: size_list_estimation')

text \<open>A subtree below the path that leads to it: the empty path leaves a value or nothing.\<close>

definition pchild :: "nat \<Rightarrow> ptree \<Rightarrow> bool" where
  "pchild i t \<longleftrightarrow> t = PNil \<or> (if i = 16 then \<exists>v. t = PVal v \<and> v \<noteq> [] else pok t)"

lemma pok_Full:
  "pok (PFull ts) \<longleftrightarrow> length ts = 17 \<and> (\<forall>i < 17. pchild i (ts ! i)) \<and>
     (\<exists>i < 17. \<exists>j < 17. i \<noteq> j \<and> ts ! i \<noteq> PNil \<and> ts ! j \<noteq> PNil)"
proof (cases "length ts = 17")
  case True
  have "(\<forall>t \<in> set (butlast ts). t = PNil \<or> pok t) \<longleftrightarrow> (\<forall>i < 16. pchild i (ts ! i))"
    using True by (auto simp: pchild_def in_set_conv_nth nth_butlast all_set_conv_all_nth)
  moreover have "last ts = ts ! 16" using True by (subst last_conv_nth) auto
  moreover have "(case ts ! 16 of PNil \<Rightarrow> True | PVal v \<Rightarrow> v \<noteq> [] | _ \<Rightarrow> False) \<longleftrightarrow> pchild 16 (ts ! 16)"
    by (auto simp: pchild_def split: ptree.splits)
  moreover have "i < 17 \<longleftrightarrow> i < 16 \<or> i = 16" for i :: nat by arith
  then have "(\<forall>i < 17. P i) \<longleftrightarrow> (\<forall>i < 16. P i) \<and> P 16" for P :: "nat \<Rightarrow> bool" by blast
  ultimately show ?thesis using True by simp
qed simp

declare pok.simps(4) [simp del]

definition ptrie :: "ptree \<Rightarrow> bool" where
  "ptrie t \<longleftrightarrow> t = PNil \<or> pok t"

text \<open>Children of a branch, addressed by a nibble or the terminator.\<close>

lemma unat_less_17: "(x :: byte) < 16 \<or> x = 16 \<longleftrightarrow> unat x < 17"
  by (auto simp: word_less_nat_alt word_unat_eq_iff)

lemma unat_16 [simp]: "unat (x :: byte) = 16 \<longleftrightarrow> x = 16"
  by (auto simp: word_unat_eq_iff)

section \<open>The keys of a tree\<close>

lemma pget_Full_nth:
  "length ts = 17 \<Longrightarrow> i < 17 \<Longrightarrow> pget (PFull ts) (word_of_nat i # k) = pget (ts ! i) k"
  by (simp add: unsigned_of_nat take_bit_nat_eq_self)

lemma pok_nonempty: "pok t \<Longrightarrow> \<exists>k v. hexkey k \<and> pget t k = Some v \<and> v \<noteq> []"
proof (induction t)
  case (PShort p t)
  then show ?case
  proof (cases t)
    case (PVal v)
    then show ?thesis using PShort.prems by (intro exI[of _ p] exI[of _ v]) auto
  next
    case (PFull ts)
    then obtain k v where "hexkey k" "pget t k = Some v" "v \<noteq> []" using PShort by auto
    then show ?thesis using PShort.prems PFull by (intro exI[of _ "p @ k"] exI[of _ v]) auto
  qed auto
next
  case (PFull ts)
  then obtain i where i: "length ts = 17" "i < 17" "ts ! i \<noteq> PNil" "pchild i (ts ! i)" by (auto simp: pok_Full)
  have x: "unat (word_of_nat i :: byte) = i" using i(2) by (simp add: unsigned_of_nat take_bit_nat_eq_self)
  show ?case
  proof (cases "i = 16")
    case True
    then obtain v where "ts ! 16 = PVal v" "v \<noteq> []" using i by (auto simp: pchild_def)
    then show ?thesis using i True by (intro exI[of _ "[16]"] exI[of _ v]) (simp add: hexkey_Cons)
  next
    case False
    then have "pok (ts ! i)" using i by (auto simp: pchild_def)
    then obtain k v where k: "hexkey k" "pget (ts ! i) k = Some v" "v \<noteq> []" using PFull.IH[of "ts ! i"] i by auto
    have "(word_of_nat i :: byte) < 16" using False i(2) x by (simp add: word_less_nat_alt)
    then show ?thesis
      using i k x by (intro exI[of _ "word_of_nat i # k"] exI[of _ v]) (auto simp: hexkey_Cons)
  qed
qed auto

lemma pget_hexkey: "pok t \<Longrightarrow> pget t k = Some v \<Longrightarrow> hexkey k \<and> v \<noteq> []"
proof (induction t arbitrary: k)
  case (PShort p t)
  have "take (length p) k = p" and k2: "pget t (drop (length p) k) = Some v"
    using PShort.prems(2) by (simp_all split: if_splits)
  then have "k = p @ drop (length p) k" by (metis append_take_drop_id)
  note k = this k2
  show ?case
  proof (cases t)
    case (PVal w)
    then show ?thesis using PShort.prems k by (auto split: if_splits)
  next
    case (PFull ts)
    then have "nibbles p" "hexkey (drop (length p) k) \<and> v \<noteq> []" using PShort k by auto
    then show ?thesis using k(1) by (metis hexkey_append)
  qed (use PShort.prems in auto)
next
  case (PFull ts)
  then obtain x k' where k: "k = x # k'" "unat x < 17" "pget (ts ! unat x) k' = Some v"
    by (cases k) (auto simp: pok_Full split: if_splits)
  then have c: "pchild (unat x) (ts ! unat x)" "ts ! unat x \<in> set ts" using PFull.prems by (auto simp: pok_Full)
  show ?case
  proof (cases "unat x = 16")
    case True
    then show ?thesis using c k by (auto simp: pchild_def hexkey_Cons split: if_splits)
  next
    case False
    then have "pok (ts ! unat x)" using c k by (auto simp: pchild_def)
    then have "hexkey k' \<and> v \<noteq> []" using PFull.IH c(2) k(3) by blast
    then show ?thesis using False k unat_less_17[of x] by (auto simp: hexkey_Cons)
  qed
qed auto

section \<open>The map determines the tree\<close>

lemma branch_keys:
  assumes "pok (PFull ts)"
  obtains x k y l where "x \<noteq> y" "pget (PFull ts) (x # k) \<noteq> None" "pget (PFull ts) (y # l) \<noteq> None"
proof -
  have key: "\<exists>k. pget (ts ! i) k \<noteq> None" if "i < 17" "ts ! i \<noteq> PNil" for i
  proof -
    have "pchild i (ts ! i)" using assms that by (simp add: pok_Full)
    then have "(\<exists>v. ts ! i = PVal v) \<or> pok (ts ! i)" using that by (auto simp: pchild_def split: if_splits)
    then show ?thesis using pok_nonempty by (metis option.distinct(1) pget.simps(2))
  qed
  from assms obtain i j where ij: "i < 17" "j < 17" "i \<noteq> j" "ts ! i \<noteq> PNil" "ts ! j \<noteq> PNil" "length ts = 17"
    by (auto simp: pok_Full)
  obtain k l where "pget (ts ! i) k \<noteq> None" "pget (ts ! j) l \<noteq> None" using key ij by blast
  moreover have "(word_of_nat i :: byte) \<noteq> word_of_nat j"
    using ij by (auto simp: word_unat_eq_iff unsigned_of_nat take_bit_nat_eq_self)
  ultimately show ?thesis using pget_Full_nth[OF ij(6)] ij
    by (intro that[of "word_of_nat i" "word_of_nat j" k l]) simp_all
qed

lemma pget_ShortD: "pget (PShort p t) k \<noteq> None \<Longrightarrow> \<exists>k'. k = p @ k' \<and> pget t k' \<noteq> None"
  by (rule exI[of _ "drop (length p) k"]) (auto split: if_splits, metis append_take_drop_id)

lemma pget_Short_append: "pget (PShort p t) (p @ k) = pget t k"
  by simp

lemma pget_Short_skip: "pget (PShort (c @ p) t) (c @ k) = pget (PShort p t) k"
  by simp

lemma pget_leaf: "pget (PShort p (PVal v)) k = (if k = p then Some v else None)"
  by (auto simp: drop_eq_Nil)

lemma branch_not_short:
  assumes "pok (PFull ts)" "p \<noteq> []" shows "pget (PFull ts) \<noteq> pget (PShort p t)"
proof
  assume eq: "pget (PFull ts) = pget (PShort p t)"
  obtain x k y l where *: "x \<noteq> y" "pget (PShort p t) (x # k) \<noteq> None" "pget (PShort p t) (y # l) \<noteq> None"
    by (rule branch_keys[OF assms(1)]) (simp only: eq)
  obtain a b where "x # k = p @ a" "y # l = p @ b" using pget_ShortD *(2,3) by blast
  then show False using assms(2) *(1) by (cases p) auto
qed

lemma short_path_le:
  assumes "pok (PFull ts)" "pget (PShort p (PFull ts)) = pget (PShort q t)"
  shows "\<exists>r. p = q @ r"
proof -
  obtain x k y l where *: "x \<noteq> y" "pget (PFull ts) (x # k) \<noteq> None" "pget (PFull ts) (y # l) \<noteq> None"
    by (rule branch_keys[OF assms(1)])
  then have "pget (PShort q t) (p @ x # k) \<noteq> None" "pget (PShort q t) (p @ y # l) \<noteq> None"
    unfolding assms(2)[symmetric] pget_Short_append by auto
  then obtain a b where "p @ x # k = q @ a" "p @ y # l = q @ b" using pget_ShortD by blast
  then show ?thesis using *(1)
    by (auto simp: append_eq_append_conv2 append_eq_Cons_conv Cons_eq_append_conv)
qed

lemma extension_not_leaf:
  assumes "pok (PFull ts)" shows "pget (PShort p (PFull ts)) \<noteq> pget (PShort q (PVal v))"
proof
  assume eq: "pget (PShort p (PFull ts)) = pget (PShort q (PVal v))"
  obtain x k y l where *: "x \<noteq> y" "pget (PFull ts) (x # k) \<noteq> None" "pget (PFull ts) (y # l) \<noteq> None"
    by (rule branch_keys[OF assms(1)])
  then have "pget (PShort q (PVal v)) (p @ x # k) \<noteq> None" "pget (PShort q (PVal v)) (p @ y # l) \<noteq> None"
    unfolding eq[symmetric] pget_Short_append by auto
  then show False using *(1) by (auto simp: pget_leaf split: if_splits)
qed

lemma pok_ShortE:
  assumes "pok (PShort p t)"
  obtains (leaf) v where "t = PVal v" "hexkey p" "v \<noteq> []"
  | (extension) ts where "t = PFull ts" "p \<noteq> []" "nibbles p" "pok (PFull ts)"
  using assms by (cases t) auto

lemma pok_Short_path: "pok (PShort p t) \<Longrightarrow> p \<noteq> []"
  by (cases t) auto

lemma pget_inj: "pok t \<Longrightarrow> pok t' \<Longrightarrow> pget t = pget t' \<Longrightarrow> t = t'"
proof (induction t arbitrary: t')
  case (PShort p s)
  obtain q s' where t': "t' = PShort q s'"
  proof (cases t')
    case (PFull ts)
    then show ?thesis using branch_not_short[of ts p s] PShort.prems pok_Short_path[OF PShort.prems(1)] by simp
  qed (use PShort.prems that in auto)
  show ?case
    using PShort.prems(1)
  proof (cases rule: pok_ShortE)
    case (leaf v)
    from PShort.prems(2)[unfolded t'] show ?thesis
    proof (cases rule: pok_ShortE)
      case (leaf v')
      then show ?thesis using \<open>s = PVal v\<close> fun_cong[OF PShort.prems(3), of p] t'
        by (auto simp: pget_leaf split: if_splits)
    next
      case (extension ts)
      then show ?thesis
        using extension_not_leaf[OF extension(4), of q p v] PShort.prems(3)[symmetric] unfolding t' leaf(1) by blast
    qed
  next
    case (extension ts)
    note e = this
    from PShort.prems(2)[unfolded t'] show ?thesis
    proof (cases rule: pok_ShortE)
      case (leaf v)
      then show ?thesis
        using extension_not_leaf[OF e(4), of p q v] PShort.prems(3) unfolding t' e(1) by blast
    next
      case (extension ts')
      have "\<exists>r. p = q @ r" "\<exists>r. q = p @ r"
        using short_path_le[OF e(4), of p q s'] short_path_le[OF extension(4), of q p s] PShort.prems(3)
        unfolding t' e(1) extension(1) by metis+
      then have "p = q" by auto
      have "pget s = pget s'"
        using fun_cong[OF PShort.prems(3)] pget_Short_append unfolding t' \<open>p = q\<close> by (metis ext)
      then show ?thesis using PShort.IH[of s'] e extension t' \<open>p = q\<close> by simp
    qed
  qed
next
  case (PFull ts)
  obtain ts' where t': "t' = PFull ts'"
  proof (cases t')
    case (PShort q s')
    then show ?thesis
      using branch_not_short[OF PFull.prems(1), of q s'] PFull.prems(2,3) pok_Short_path[of q s']
      unfolding PShort by blast
  qed (use PFull.prems that in auto)
  have len: "length ts = 17" "length ts' = 17" using PFull.prems t' by (auto simp: pok_Full)
  have "ts ! i = ts' ! i" if i: "i < 17" for i
  proof -
    have c: "pchild i (ts ! i)" "pchild i (ts' ! i)" using PFull.prems t' i by (auto simp: pok_Full)
    have eq: "pget (ts ! i) = pget (ts' ! i)"
      using fun_cong[OF PFull.prems(3)] pget_Full_nth[OF len(1) i] pget_Full_nth[OF len(2) i] unfolding t'
      by (metis ext)
    show ?thesis
    proof (cases "i = 16")
      case True
      then show ?thesis using c eq by (auto simp: pchild_def dest!: fun_cong[of _ _ "[]"])
    next
      case False
      have ne: "\<not> pok s" if "pget s = pget PNil" for s using pok_nonempty[of s] that by (auto simp: fun_eq_iff)
      have "ts ! i = PNil \<longleftrightarrow> ts' ! i = PNil"
        using c eq False ne[of "ts ! i"] ne[of "ts' ! i"] by (auto simp: pchild_def)
      then show ?thesis using c eq False PFull.IH[of "ts ! i" "ts' ! i"] i len by (auto simp: pchild_def)
    qed
  qed
  then show ?case using t' len by (simp add: list_eq_iff_nth_eq)
qed auto

section \<open>Insertion\<close>

definition pext :: "byte list \<Rightarrow> ptree \<Rightarrow> ptree" where
  "pext p t = (if p = [] then t else PShort p t)"

text \<open>Two subtrees that share the path \<open>c\<close> and part at the nibbles \<open>x\<close> and \<open>y\<close>.\<close>

definition pfork :: "byte list \<Rightarrow> byte \<Rightarrow> ptree \<Rightarrow> byte \<Rightarrow> ptree \<Rightarrow> ptree" where
  "pfork c x s y t = pext c (PFull ((replicate 17 PNil)[unat x := s, unat y := t]))"

fun pinsert :: "ptree \<Rightarrow> byte list \<Rightarrow> byte list \<Rightarrow> ptree" where
  "pinsert PNil k v = pext k (PVal v)"
| "pinsert (PVal w) k v = PVal v"
| "pinsert (PShort p t) k v =
    (let m = prefixLen k p in
     if m = length p then PShort p (pinsert t (drop m k) v)
     else pfork (take m k) (p ! m) (pext (drop (m + 1) p) t) (k ! m) (pext (drop (m + 1) k) (PVal v)))"
| "pinsert (PFull ts) [] v = PFull ts"
| "pinsert (PFull ts) (x # k) v = PFull (ts[unat x := pinsert (ts ! unat x) k v])"

text \<open>Where a key with the rest \<open>k\<close> may live.\<close>

definition pslot :: "ptree \<Rightarrow> byte list \<Rightarrow> bool" where
  "pslot t k \<longleftrightarrow> (if k = [] then t = PNil \<or> (\<exists>v. t = PVal v \<and> v \<noteq> []) else hexkey k \<and> ptrie t)"

lemma pslot_child:
  assumes "pok (PFull ts)" "hexkey (x # k)"
  shows "unat x < 17" "pslot (ts ! unat x) k" "length ts = 17"
proof -
  have "unat x < 17" using assms(2) by (auto simp: hexkey_Cons unat_less_17[symmetric] split: if_splits)
  moreover have "unat x = 16 \<longleftrightarrow> k = []"
    using assms(2) by (auto simp: hexkey_Cons split: if_splits)
  ultimately show "unat x < 17" "pslot (ts ! unat x) k" "length ts = 17"
    using assms by (auto simp: pok_Full pslot_def pchild_def ptrie_def hexkey_Cons split: if_splits)
qed

lemma pslot_rest:
  assumes "pok (PShort p t)" "hexkey (p @ k)"
  shows "pslot t k"
  using assms(1)
proof (cases rule: pok_ShortE)
  case (leaf v)
  then obtain ns where "nibbles ns" "p = ns @ [16]" by (auto simp: hexkey_def)
  moreover have "hexkey (16 # k) \<longleftrightarrow> k = []" by (simp add: hexkey_Cons)
  ultimately show ?thesis using assms(2) leaf by (simp add: pslot_def)
next
  case (extension ts)
  then show ?thesis using assms(2) by (auto simp: pslot_def ptrie_def)
qed

lemma pget_pext: "pget (pext p t) k = (if take (length p) k = p then pget t (drop (length p) k) else None)"
  by (simp add: pext_def)

lemma pget_fork:
  assumes "unat x < 17" "unat y < 17" "x \<noteq> y"
  shows "pget (pfork c x s y t) k = (if take (length c) k = c then
      case drop (length c) k of [] \<Rightarrow> None
      | z # r \<Rightarrow> if z = x then pget s r else if z = y then pget t r else None else None)"
proof -
  have "unat x \<noteq> unat y" using assms(3) by (simp add: word_unat_eq_iff)
  then show ?thesis
    using assms by (auto simp: pfork_def pget_pext nth_list_update word_unat_eq_iff split: list.split)
qed

text \<open>A path and a key that do not agree have a common prefix and part.\<close>

lemma fork_point:
  assumes "pok (PShort p t)" "hexkey k" "prefixLen k p \<noteq> length p"
  obtains c x p' y k' where "p = c @ x # p'" "k = c @ y # k'" "x \<noteq> y" "prefixLen k p = length c"
    "unat x < 17" "unat y < 17" "nibbles c" "hexkey (y # k')"
    "if \<exists>v. t = PVal v then hexkey (x # p') else nibbles (x # p')"
proof -
  obtain c k0 p0 where c: "k = c @ k0" "p = c @ p0" "prefixLen k p = length c" "k0 = [] \<or> p0 = [] \<or> hd k0 \<noteq> hd p0"
    using prefix_cases[of k p] by blast
  have p0: "p0 \<noteq> []" using assms(3) c by auto
  then obtain x p' where x: "p0 = x # p'" by (cases p0) auto
  have path: "(\<exists>v. t = PVal v) \<and> hexkey p \<or> \<not> (\<exists>v. t = PVal v) \<and> nibbles p"
    using assms(1) by (auto elim!: pok_ShortE simp del: pok.simps)
  have nib: "nibbles c"
  proof (cases "\<exists>v. t = PVal v")
    case True
    then have "hexkey (c @ x # p')" using path c x by simp
    then obtain ns where "nibbles ns" "c @ x # p' = ns @ [16]" by (auto simp: hexkey_def)
    then show ?thesis by (cases p' rule: rev_cases) auto
  qed (use path c in auto)
  then have "hexkey k0" using assms(2) c by simp
  then obtain y k' where y: "k0 = y # k'" by (cases k0) auto
  have h: "hexkey (y # k')" "if \<exists>v. t = PVal v then hexkey (x # p') else nibbles (x # p')"
    using \<open>hexkey k0\<close> y path c x nib by auto
  then have "unat y < 17" "unat x < 17"
    by (auto simp: hexkey_Cons unat_less_17[symmetric] split: if_splits)
  then show thesis using that[of c x p' y k'] c x y h nib by auto
qed

lemma pget_pinsert:
  "pslot t k \<Longrightarrow> pget (pinsert t k v) k' = (if k' = k then Some v else pget t k')"
proof (induction t k v arbitrary: k' rule: pinsert.induct)
  case (1 k v)
  then show ?case by (auto simp: pext_def)
next
  case (2 w k v)
  then show ?case by (auto simp: pslot_def ptrie_def)
next
  case (3 p t k v)
  have ok: "pok (PShort p t)" "hexkey k" using 3(2) by (auto simp: pslot_def ptrie_def split: if_splits)
  show ?case
  proof (cases "prefixLen k p = length p")
    case True
    then obtain r where k: "k = p @ r" by (metis append_take_drop_id prefixLen_full)
    then have "pslot t r" using pslot_rest ok by metis
    from 3(1)[OF refl True] this True k have IH: "pget (pinsert t r v) q = (if q = r then Some v else pget t q)" for q
      by simp
    have ins: "pinsert (PShort p t) k v = PShort p (pinsert t r v)" using True k by (simp add: Let_def)
    show ?thesis
    proof (cases "\<exists>r'. k' = p @ r'")
      case True
      then show ?thesis using IH k unfolding ins by auto
    next
      case False
      then show ?thesis using pget_ShortD[of p _ k'] k unfolding ins by (metis)
    qed
  next
    case False
    from fork_point[OF ok False] obtain c x p' y r where f: "p = c @ x # p'" "k = c @ y # r" "x \<noteq> y"
      "prefixLen k p = length c" "unat x < 17" "unat y < 17" by metis
    then have ins: "pinsert (PShort p t) k v = pfork c x (pext p' t) y (pext r (PVal v))" by (simp add: Let_def)
    show ?thesis
    proof (cases "\<exists>q. k' = c @ q")
      case True
      then obtain q where q: "k' = c @ q" by blast
      show ?thesis unfolding ins f(1,2) q pget_Short_skip
        using f(3) by (cases q) (auto simp: pget_pext pget_fork[OF f(5,6,3)])
    next
      case False
      then have "take (length c) k' \<noteq> c" by (metis append_take_drop_id)
      moreover have "pget (PShort p t) k' = None" using False f(1) pget_ShortD[of p t k'] by (metis append_assoc)
      ultimately show ?thesis using False f(2) unfolding ins pget_fork[OF f(5,6,3)] by auto
    qed
  qed
next
  case (4 ts v)
  then show ?case by (simp add: pslot_def)
next
  case (5 ts x k v)
  then have ok: "pok (PFull ts)" "hexkey (x # k)" by (auto simp: pslot_def ptrie_def split: if_splits)
  note c = pslot_child[OF ok]
  show ?case
  proof (cases k')
    case (Cons x' r)
    then show ?thesis using c 5(1)[OF c(2), of r] by (auto simp: nth_list_update word_unat_eq_iff)
  qed simp
qed

lemma pok_pext_leaf: "hexkey k \<Longrightarrow> v \<noteq> [] \<Longrightarrow> pok (pext k (PVal v))"
  by (auto simp: pext_def)

lemma pok_fork:
  assumes "nibbles c" "unat x < 17" "unat y < 17" "x \<noteq> y"
    and "pchild (unat x) s" "pchild (unat y) t" "s \<noteq> PNil" "t \<noteq> PNil"
  shows "pok (pfork c x s y t)"
proof -
  have ne: "unat x \<noteq> unat y" using assms(4) by (simp add: word_unat_eq_iff)
  let ?ts = "(replicate 17 PNil)[unat x := s, unat y := t]"
  have "pok (PFull ?ts)"
    unfolding pok_Full
  proof (intro conjI)
    show "\<forall>i < 17. pchild i (?ts ! i)" using assms by (auto simp: nth_list_update pchild_def)
    show "\<exists>i < 17. \<exists>j < 17. i \<noteq> j \<and> ?ts ! i \<noteq> PNil \<and> ?ts ! j \<noteq> PNil"
      using assms ne by (intro exI[of _ "unat x"] conjI exI[of _ "unat y"]) auto
  qed simp
  then show ?thesis using assms(1) by (auto simp: pfork_def pext_def)
qed

lemma pchild_fork:
  "hexkey (y # k) \<Longrightarrow> v \<noteq> [] \<Longrightarrow> pchild (unat y) (pext k (PVal v))"
  by (auto simp: hexkey_Cons pchild_def pext_def split: if_splits)

lemma pok_suffix:
  assumes "pok (PShort p t)" "p = c @ x # p'" "if \<exists>v. t = PVal v then hexkey (x # p') else nibbles (x # p')"
  shows "pchild (unat x) (pext p' t) \<and> pext p' t \<noteq> PNil"
  using assms(1)
proof (cases rule: pok_ShortE)
  case (leaf v)
  then show ?thesis using pchild_fork[of x p' v] assms(3) by (simp add: pext_def)
next
  case (extension ts)
  then have "nibbles p'" "x \<noteq> 16" using assms(3) by auto
  then show ?thesis using extension by (simp add: pext_def pchild_def)
qed

lemma pok_prefix:
  assumes "pok (PShort q s)" "nibbles p" shows "pok (PShort (p @ q) s)"
  using assms(1)
proof (cases rule: pok_ShortE)
qed (use assms(2) in auto)

lemma pinsert_not_Nil: "pslot t k \<Longrightarrow> v \<noteq> [] \<Longrightarrow> pinsert t k v \<noteq> PNil"
  using pget_pinsert[of t k v k] by auto

lemma pinsert_ok:
  "pslot t k \<Longrightarrow> v \<noteq> [] \<Longrightarrow> pslot (pinsert t k v) k"
proof (induction t k v rule: pinsert.induct)
  case (1 k v)
  then show ?case by (auto simp: pslot_def ptrie_def pext_def)
next
  case (2 w k v)
  then show ?case by (auto simp: pslot_def ptrie_def split: if_splits)
next
  case (3 p t k v)
  have ok: "pok (PShort p t)" "hexkey k" using 3(2) by (auto simp: pslot_def ptrie_def split: if_splits)
  show ?case
  proof (cases "prefixLen k p = length p")
    case True
    then obtain r where k: "k = p @ r" by (metis append_take_drop_id prefixLen_full)
    then have r: "pslot t r" using pslot_rest ok by metis
    then have IH: "pslot (pinsert t r v) r" "pinsert t r v \<noteq> PNil"
      using 3(1)[OF refl True] 3(3) True k pinsert_not_Nil[OF r] by simp_all
    have "pok (PShort p (pinsert t r v))"
      using ok(1)
    proof (cases rule: pok_ShortE)
      case (leaf w)
      then show ?thesis using r 3(3) by (auto simp: pslot_def ptrie_def)
    next
      case (extension ts)
      then have "r \<noteq> []" using r by (auto simp: pslot_def)
      then obtain y r' where "r = y # r'" by (cases r) auto
      then show ?thesis using IH extension by (auto simp: pslot_def ptrie_def)
    qed
    then show ?thesis using True k ok by (auto simp: Let_def pslot_def ptrie_def)
  next
    case False
    from fork_point[OF ok False] obtain c x p' y r where f: "p = c @ x # p'" "k = c @ y # r" "x \<noteq> y"
      "prefixLen k p = length c" "unat x < 17" "unat y < 17" "nibbles c" "hexkey (y # r)"
      "if \<exists>v. t = PVal v then hexkey (x # p') else nibbles (x # p')" by metis
    then have ins: "pinsert (PShort p t) k v = pfork c x (pext p' t) y (pext r (PVal v))" by (simp add: Let_def)
    have "pchild (unat x) (pext p' t)" "pext p' t \<noteq> PNil"
      using pok_suffix[OF ok(1), of c x p'] f(1,5,9) by auto
    then have "pok (pinsert (PShort p t) k v)"
      using f 3(3) pchild_fork[of y r v] unfolding ins by (intro pok_fork) (auto simp: pext_def)
    then show ?thesis using ok(2) by (auto simp: pslot_def ptrie_def)
  qed
next
  case (4 ts v)
  then show ?case by (simp add: pslot_def)
next
  case (5 ts x k v)
  then have ok: "pok (PFull ts)" "hexkey (x # k)" by (auto simp: pslot_def ptrie_def split: if_splits)
  note c = pslot_child[OF ok]
  let ?n = "pinsert (ts ! unat x) k v" and ?ts = "ts[unat x := pinsert (ts ! unat x) k v]"
  have n: "pslot ?n k" "?n \<noteq> PNil" using 5(1)[OF c(2) 5(3)] pinsert_not_Nil[OF c(2) 5(3)] by simp_all
  have "pok (PFull ?ts)"
    unfolding pok_Full
  proof (intro conjI)
    have "pchild (unat x) ?n" using n ok(2) by (auto simp: pslot_def pchild_def ptrie_def hexkey_Cons split: if_splits)
    then show "\<forall>i < 17. pchild i (?ts ! i)" using ok(1) c by (auto simp: pok_Full nth_list_update)
    obtain i j where "i < 17" "j < 17" "i \<noteq> j" "ts ! i \<noteq> PNil" "ts ! j \<noteq> PNil" using ok(1) by (auto simp: pok_Full)
    then show "\<exists>i < 17. \<exists>j < 17. i \<noteq> j \<and> ?ts ! i \<noteq> PNil \<and> ?ts ! j \<noteq> PNil"
      using n(2) c by (intro exI[of _ i] conjI exI[of _ j]) (auto simp: nth_list_update)
  qed (use c in simp)
  then show ?case using ok(2) by (auto simp: pslot_def ptrie_def)
qed

section \<open>Deletion\<close>

definition psole :: "ptree list \<Rightarrow> nat option" where
  "psole ts = (case filter (\<lambda>i. ts ! i \<noteq> PNil) [0..<length ts] of [i] \<Rightarrow> Some i | _ \<Rightarrow> None)"

definition preduce :: "ptree list \<Rightarrow> ptree" where
  "preduce ts = (case psole ts of
     None \<Rightarrow> PFull ts
   | Some i \<Rightarrow> case ts ! i of
       PShort q s \<Rightarrow> PShort (word_of_nat i # q) s
     | t \<Rightarrow> PShort [word_of_nat i] t)"

fun pdelete :: "ptree \<Rightarrow> byte list \<Rightarrow> ptree" where
  "pdelete PNil k = PNil"
| "pdelete (PVal v) k = PNil"
| "pdelete (PShort p t) k =
    (if take (length p) k \<noteq> p then PShort p t
     else if length k = length p then PNil
     else case pdelete t (drop (length p) k) of
       PShort q s \<Rightarrow> PShort (p @ q) s
     | c \<Rightarrow> PShort p c)"
| "pdelete (PFull ts) [] = PFull ts"
| "pdelete (PFull ts) (x # k) = preduce (ts[unat x := pdelete (ts ! unat x) k])"

lemma distinct_single: "distinct xs \<Longrightarrow> xs = [x] \<longleftrightarrow> set xs = {x}"
proof (cases xs)
  case (Cons y ys)
  assume "distinct xs"
  then show ?thesis using Cons by (cases ys) auto
qed auto

lemma psole_Some: "psole ts = Some i \<longleftrightarrow> i < length ts \<and> ts ! i \<noteq> PNil \<and> (\<forall>j < length ts. ts ! j \<noteq> PNil \<longrightarrow> j = i)"
proof -
  let ?f = "filter (\<lambda>i. ts ! i \<noteq> PNil) [0..<length ts]"
  have set: "set ?f = {i. i < length ts \<and> ts ! i \<noteq> PNil}" and d: "distinct ?f" by auto
  have "psole ts = Some i \<longleftrightarrow> ?f = [i]" by (auto simp: psole_def split: list.split)
  also have "\<dots> \<longleftrightarrow> set ?f = {i}" using d by (rule distinct_single)
  finally show ?thesis unfolding set by blast
qed

lemma preduce_ok:
  assumes len: "length ts = 17" and ch: "\<forall>i < 17. pchild i (ts ! i)" and one: "\<exists>i < 17. ts ! i \<noteq> PNil"
  shows "pok (preduce ts)" "pget (preduce ts) k = pget (PFull ts) k"
proof -
  have both: "pok (preduce ts) \<and> pget (preduce ts) k = pget (PFull ts) k"
  proof (cases "psole ts")
    case None
    then have "\<not> (\<exists>i < 17. ts ! i \<noteq> PNil \<and> (\<forall>j < 17. ts ! j \<noteq> PNil \<longrightarrow> j = i))"
      using len psole_Some[of ts] by auto
    then have "pok (PFull ts)" using len ch one unfolding pok_Full by metis
    then show ?thesis using None by (simp add: preduce_def)
  next
    case (Some i)
    then have i: "i < 17" "ts ! i \<noteq> PNil" "\<And>j. j < 17 \<Longrightarrow> ts ! j \<noteq> PNil \<Longrightarrow> j = i"
      using len by (auto simp: psole_Some)
    have u: "unat (word_of_nat i :: byte) = i" using i(1) by (simp add: unsigned_of_nat take_bit_nat_eq_self)
    have full: "pget (PFull ts) k = (case k of x # k' \<Rightarrow> if x = word_of_nat i then pget (ts ! i) k' else None | [] \<Rightarrow> None)"
    proof (cases k)
      case (Cons x k')
      show ?thesis
      proof (cases "unat x = i")
        case True
        then show ?thesis using Cons i(1) len by (auto simp: word_unat_eq_iff u)
      next
        case False
        then have "unat x < 17 \<Longrightarrow> ts ! unat x = PNil" using i(3) by blast
        then show ?thesis using Cons False len u by (auto simp: word_unat_eq_iff)
      qed
    qed simp
    have short: "pget (PShort [word_of_nat i] (ts ! i)) k = pget (PFull ts) k"
      unfolding full by (cases k) auto
    have c: "pchild i (ts ! i)" using ch i(1) by blast
    show ?thesis
    proof (cases "ts ! i")
      case (PVal v)
      then have "i = 16" "v \<noteq> []" using c by (auto simp: pchild_def split: if_splits)
      then show ?thesis using Some PVal short by (simp add: preduce_def hexkey_Cons)
    next
      case (PShort q s)
      have "i \<noteq> 16" using c PShort by (auto simp: pchild_def)
      then have "pok (PShort q s)" "(word_of_nat i :: byte) < 16"
        using c PShort u i(1) by (simp_all add: pchild_def word_less_nat_alt)
      then have "pok (PShort (word_of_nat i # q) s)" using pok_prefix[of q s "[word_of_nat i]"] by simp
      moreover have "pget (PShort (word_of_nat i # q) s) k = pget (PFull ts) k"
        unfolding full PShort by (cases k) auto
      ultimately show ?thesis using Some PShort by (simp add: preduce_def)
    next
      case (PFull us)
      have "i \<noteq> 16" using c PFull by (auto simp: pchild_def)
      then have "pok (PFull us)" "(word_of_nat i :: byte) < 16"
        using c PFull u i(1) by (simp_all add: pchild_def word_less_nat_alt)
      then show ?thesis using Some PFull short by (simp add: preduce_def)
    qed (use i(2) in simp)
  qed
  show "pok (preduce ts)" by (rule conjunct1[OF both])
  show "pget (preduce ts) k = pget (PFull ts) k" by (rule conjunct2[OF both])
qed

lemma pdelete_ok:
  "pslot t k \<Longrightarrow> pslot (pdelete t k) k \<and> (\<forall>k'. pget (pdelete t k) k' = (if k' = k then None else pget t k'))"
proof (induction t k rule: pdelete.induct)
  case (1 k)
  then show ?case by simp
next
  case (2 v k)
  then have "k = []" by (auto simp: pslot_def ptrie_def split: if_splits)
  then show ?case by (simp add: pslot_def)
next
  case (4 ts)
  then show ?case by (simp add: pslot_def)
next
  case (3 p t k)
  have ok: "pok (PShort p t)" "hexkey k" using 3(2) by (auto simp: pslot_def ptrie_def split: if_splits)
  show ?case
  proof (cases "take (length p) k = p")
    case False
    then have "pget (PShort p t) k = None" by simp
    then show ?thesis using False 3(2) by auto
  next
    case True
    then obtain r where k: "k = p @ r" by (metis append_take_drop_id)
    then have r: "pslot t r" using pslot_rest ok by metis
    from ok(1) show ?thesis
    proof (cases rule: pok_ShortE)
      case (leaf v)
      then have "r = []" using r by (auto simp: pslot_def ptrie_def split: if_splits)
      then show ?thesis using k leaf ok(2) by (auto simp: pslot_def ptrie_def)
    next
      case (extension ts)
      then have rne: "r \<noteq> []" using r by (auto simp: pslot_def)
      let ?d = "pdelete t r"
      have IH: "ptrie ?d" "\<And>k'. pget ?d k' = (if k' = r then None else pget t k')"
        using 3(1) True k rne r by (auto simp: pslot_def)
      obtain x a y b where keys: "x \<noteq> y" "pget t (x # a) \<noteq> None" "pget t (y # b) \<noteq> None"
        by (rule branch_keys[OF extension(4)]) (simp only: extension(1))
      then have "?d \<noteq> PNil" using IH(2)[of "x # a"] IH(2)[of "y # b"] by (auto split: if_splits)
      then have d: "pok ?d" using IH(1) by (simp add: ptrie_def)
      define j where "j = (case ?d of PShort q s \<Rightarrow> PShort (p @ q) s | c \<Rightarrow> PShort p c)"
      have pd: "pdelete (PShort p t) k = j" using True k rne by (simp add: j_def)
      have j: "pok j \<and> pget j = pget (PShort p ?d)"
      proof (cases ?d)
        case (PShort q s)
        then have "pok (PShort (p @ q) s)" using d extension pok_prefix by metis
        moreover have "pget (PShort (p @ q) s) k' = pget (PShort p (PShort q s)) k'" for k'
        proof (cases "\<exists>r. k' = p @ r")
          case False
          then have "pget (PShort (p @ q) s) k' = None" "pget (PShort p (PShort q s)) k' = None"
            using pget_ShortD[of "p @ q" s k'] pget_ShortD[of p "PShort q s" k'] append_assoc by metis+
          then show ?thesis by simp
        qed auto
        ultimately show ?thesis using PShort by (auto simp: j_def)
      next
        case (PFull us)
        then show ?thesis using d extension by (simp add: j_def)
      qed (use d in auto)
      have "pget j k' = (if k' = k then None else pget (PShort p t) k')" for k'
      proof (cases "\<exists>r. k' = p @ r")
        case True
        then obtain r' where "k' = p @ r'" by blast
        then show ?thesis using IH(2)[of r'] k by (simp add: j pget_Short_append del: pget.simps(3))
      next
        case False
        then have "pget (PShort p ?d) k' = None" "pget (PShort p t) k' = None"
          using pget_ShortD[of p _ k'] by blast+
        then show ?thesis by (simp add: j del: pget.simps(3))
      qed
      then show ?thesis using j ok(2) unfolding pd by (auto simp: pslot_def ptrie_def)
    qed
  qed
next
  case (5 ts x k)
  then have ok: "pok (PFull ts)" "hexkey (x # k)" by (auto simp: pslot_def ptrie_def split: if_splits)
  note c = pslot_child[OF ok]
  let ?n = "pdelete (ts ! unat x) k" and ?ts = "ts[unat x := pdelete (ts ! unat x) k]"
  have n: "pslot ?n k" "\<And>k'. pget ?n k' = (if k' = k then None else pget (ts ! unat x) k')" using 5(1)[OF c(2)] by simp_all
  have "pchild (unat x) ?n" using n ok(2) by (auto simp: pslot_def pchild_def ptrie_def hexkey_Cons split: if_splits)
  then have ch: "\<forall>i < 17. pchild i (?ts ! i)" using ok(1) c by (auto simp: pok_Full nth_list_update)
  obtain i j where "i < 17" "j < 17" "i \<noteq> j" "ts ! i \<noteq> PNil" "ts ! j \<noteq> PNil" using ok(1) by (auto simp: pok_Full)
  then have "\<exists>i < 17. ?ts ! i \<noteq> PNil" by (metis nth_list_update_neq)
  note red = preduce_ok[OF _ ch this]
  have len: "length ?ts = 17" using c by simp
  have "pget (preduce ?ts) k' = (if k' = x # k then None else pget (PFull ts) k')" for k'
    unfolding red(2)[OF len] using c n(2) by (cases k') (auto simp: nth_list_update word_unat_eq_iff)
  then show ?case using red(1)[OF len] ok(2) unfolding pdelete.simps by (simp add: pslot_def ptrie_def)
qed

end
