(* ===== verification/Trie_Refine.thy ===== *)
theory Trie_Refine
  imports Trie_Ops Trie_Spec
begin

text \<open>
  The trie operations implement a map. The locale \<open>trie_rel\<close> states what a relation between nodes, with
  their cached flags and their references into the database, and Patricia trees must satisfy; under it
  every operation computes the corresponding tree operation of \<open>Trie_Spec\<close>, whatever part of the trie
  is loaded. \<open>rep\<close> is the weakest such relation.\<close>

section \<open>One step of the partial functions\<close>

lemma tryGet_simps:
  "tryGet db g NilNode key pos = Some (Inr (None, NilNode, False))"
  "tryGet db g (ValueNode w) key pos = Some (Inr (Some w, ValueNode w, False))"
  "tryGet db g (ShortNode k v f) key pos =
    (if length key - pos < length k \<or> k \<noteq> take (length k) (drop pos key)
     then Some (Inr (None, ShortNode k v f, False))
     else Option.bind (tryGet db g v key (pos + length k)) (\<lambda>r.
       Some (and_then r (\<lambda>(value, newnode, didResolve).
         Inr (value, if didResolve then ShortNode k newnode (f\<lparr>flag_gen := g\<rparr>) else ShortNode k v f, didResolve)))))"
  "tryGet db g (FullNode ch ff) key pos =
    (if pos < length key \<and> unat (key ! pos) < length ch
     then Option.bind (tryGet db g (ch ! unat (key ! pos)) key (pos + 1)) (\<lambda>r.
       Some (and_then r (\<lambda>(value, newnode, didResolve).
         Inr (value, if didResolve then FullNode (ch[unat (key ! pos) := newnode]) (ff\<lparr>flag_gen := g\<rparr>)
                     else FullNode ch ff, didResolve))))
     else Some (Inl (Panic ''index out of range'')))"
  "tryGet db g (HashNode h) key pos =
    (case resolveHash db g h (take pos key) of
       Inl e \<Rightarrow> Some (Inl e)
     | Inr child \<Rightarrow> Option.bind (tryGet db g child key pos) (\<lambda>r.
         Some (and_then r (\<lambda>(value, newnode, _). Inr (value, newnode, True)))))"
  by (subst tryGet.simps, simp)+

lemma trie_insert_simps:
  "trie_insert db g NilNode pre k w = Some (Inr (True, if k = [] then w else ShortNode k w (newFlag g)))"
  "trie_insert db g (ValueNode u) pre [] w = Some (Inr (ValueNode u \<noteq> w, w))"
  "key \<noteq> [] \<Longrightarrow> trie_insert db g (ShortNode k v f) pre key w =
    (let matchlen = prefixLen key k in
     if matchlen = length k then
       Option.bind (trie_insert db g v (pre @ take matchlen key) (drop matchlen key) w) (\<lambda>r.
         Some (and_then r (\<lambda>(dirty, nn).
           Inr (if \<not> dirty then (False, ShortNode k v f) else (True, ShortNode k nn (newFlag g))))))
     else if matchlen = length key then Some (Inl (Panic ''index out of range''))
     else
       Option.bind (trie_insert db g NilNode (pre @ take (matchlen + 1) k) (drop (matchlen + 1) k) v) (\<lambda>r1.
       Option.bind (trie_insert db g NilNode (pre @ take (matchlen + 1) key) (drop (matchlen + 1) key) w) (\<lambda>r2.
         Some (and_then r1 (\<lambda>(_, c1). and_then r2 (\<lambda>(_, c2).
           let branch = FullNode ((replicate 17 NilNode)[unat (k ! matchlen) := c1, unat (key ! matchlen) := c2]) (newFlag g)
           in Inr (True, if matchlen = 0 then branch else ShortNode (take matchlen key) branch (newFlag g))))))))"
  "trie_insert db g (FullNode ch ff) pre (x # key') w =
    (if unat x < length ch then
       Option.bind (trie_insert db g (ch ! unat x) (pre @ [x]) key' w) (\<lambda>r.
         Some (and_then r (\<lambda>(dirty, nn).
           Inr (if \<not> dirty then (False, FullNode ch ff) else (True, FullNode (ch[unat x := nn]) (newFlag g))))))
     else Some (Inl (Panic ''index out of range'')))"
  "key \<noteq> [] \<Longrightarrow> trie_insert db g (HashNode h) pre key w =
    (case resolveHash db g h pre of
       Inl e \<Rightarrow> Some (Inl e)
     | Inr rn \<Rightarrow> Option.bind (trie_insert db g rn pre key w) (\<lambda>r.
         Some (and_then r (\<lambda>(dirty, nn). Inr (if \<not> dirty then (False, rn) else (True, nn))))))"
  by (subst trie_insert.simps, simp cong: if_cong)+

lemma trie_delete_simps:
  "trie_delete db g NilNode pre key = Some (Inr (False, NilNode))"
  "trie_delete db g (ValueNode w) pre key = Some (Inr (True, NilNode))"
  "trie_delete db g (ShortNode k v f) pre key =
    (let matchlen = prefixLen key k in
     if matchlen < length k then Some (Inr (False, ShortNode k v f))
     else if matchlen = length key then Some (Inr (True, NilNode))
     else
       Option.bind (trie_delete db g v (pre @ take (length k) key) (drop (length k) key)) (\<lambda>r.
         Some (and_then r (\<lambda>(dirty, child).
           Inr (if \<not> dirty then (False, ShortNode k v f)
                else case child of
                  ShortNode ck cv cf \<Rightarrow> (True, ShortNode (k @ ck) cv (newFlag g))
                | _ \<Rightarrow> (True, ShortNode k child (newFlag g)))))))"
  "trie_delete db g (FullNode ch ff) pre (x # key') =
    (if unat x < length ch then
       Option.bind (trie_delete db g (ch ! unat x) (pre @ [x]) key') (\<lambda>r.
         Some (and_then r (\<lambda>(dirty, nn).
           if \<not> dirty then Inr (False, FullNode ch ff)
           else reduce_full db g (ch[unat x := nn]) pre)))
     else Some (Inl (Panic ''index out of range'')))"
  "trie_delete db g (HashNode h) pre key =
    (case resolveHash db g h pre of
       Inl e \<Rightarrow> Some (Inl e)
     | Inr rn \<Rightarrow> Option.bind (trie_delete db g rn pre key) (\<lambda>r.
         Some (and_then r (\<lambda>(dirty, nn). Inr (if \<not> dirty then (False, rn) else (True, nn))))))"
  by (subst trie_delete.simps, simp cong: if_cong)+

section \<open>Relations between nodes and trees\<close>

lemma resolve_simps [simp]:
  "resolve db g NilNode pre = Inr NilNode" "resolve db g (ShortNode k v f) pre = Inr (ShortNode k v f)"
  "resolve db g (FullNode ch ff) pre = Inr (FullNode ch ff)" "resolve db g (ValueNode w) pre = Inr (ValueNode w)"
  "resolve db g (HashNode h) pre = resolveHash db g h pre"
  by (simp_all add: resolve_def)

text \<open>What the operations establish, for a relation \<open>R\<close> that may treat the root (\<open>True\<close>) apart.\<close>

type_synonym node_relation = "bool \<Rightarrow> node \<Rightarrow> ptree \<Rightarrow> bool"

definition gets :: "node_relation \<Rightarrow> database option \<Rightarrow> bool \<Rightarrow> 16 word \<Rightarrow> node \<Rightarrow> ptree \<Rightarrow> byte list \<Rightarrow> nat \<Rightarrow> bool" where
  "gets R db tp g n t key pos \<longleftrightarrow>
    (\<exists>n' d. tryGet db g n key pos = Some (Inr (pget t (drop pos key), n', d)) \<and> R tp n' t)"

definition inserts ::
  "node_relation \<Rightarrow> database option \<Rightarrow> bool \<Rightarrow> 16 word \<Rightarrow> node \<Rightarrow> ptree \<Rightarrow> byte list \<Rightarrow> byte list \<Rightarrow> byte list \<Rightarrow> bool" where
  "inserts R db tp g n t pre k v \<longleftrightarrow>
    (\<exists>d n'. trie_insert db g n pre k (ValueNode v) = Some (Inr (d, n')) \<and> R tp n' (pinsert t k v) \<and>
       (\<not> d \<longrightarrow> pinsert t k v = t))"

definition deletes ::
  "node_relation \<Rightarrow> database option \<Rightarrow> bool \<Rightarrow> 16 word \<Rightarrow> node \<Rightarrow> ptree \<Rightarrow> byte list \<Rightarrow> byte list \<Rightarrow> bool" where
  "deletes R db tp g n t pre k \<longleftrightarrow>
    (\<exists>d n'. trie_delete db g n pre k = Some (Inr (d, n')) \<and> R tp n' (pdelete t k) \<and>
       (if d then \<forall>h. n' \<noteq> HashNode h else pdelete t k = t))"

lemma ex_bool [simp]: "\<exists>d. d" "\<exists>d. \<not> d"
  by blast+

lemma sole_pos_many: "pos \<noteq> -1 \<Longrightarrow> sole_pos i pos ch = (if \<forall>c \<in> set ch. c = NilNode then pos else -2)"
  by (induction ch arbitrary: i) auto

lemma sole_pos_scan:
  "sole_pos (int i) (-1) ch =
    (case filter (\<lambda>j. ch ! j \<noteq> NilNode) [0..<length ch] of [] \<Rightarrow> -1 | [j] \<Rightarrow> int (i + j) | _ \<Rightarrow> -2)"
proof (induction ch arbitrary: i)
  case (Cons c ch)
  let ?f = "filter (\<lambda>j. ch ! j \<noteq> NilNode) [0..<length ch]"
  have "[0..<Suc (length ch)] = 0 # map Suc [0..<length ch]" by (metis map_Suc_upt upt_rec zero_less_Suc)
  then have f: "filter (\<lambda>j. (c # ch) ! j \<noteq> NilNode) [0..<length (c # ch)]
      = (if c \<noteq> NilNode then 0 # map Suc ?f else map Suc ?f)"
    by (simp add: filter_map comp_def)
  show ?case
  proof (cases "c = NilNode")
    case True
    then show ?thesis using Cons[of "i + 1"] unfolding f
      by (auto simp: algebra_simps split: list.splits)
  next
    case False
    have "?f = [] \<longleftrightarrow> (\<forall>c \<in> set ch. c = NilNode)"
      by (auto simp: filter_empty_conv all_set_conv_all_nth)
    then show ?thesis using False unfolding f by (auto simp: sole_pos_many split: list.split)
  qed
qed simp

lemma preduce_pok: "pok (PFull ts) \<Longrightarrow> preduce ts = PFull ts"
proof -
  assume "pok (PFull ts)"
  then obtain i j where "i < 17" "j < 17" "i \<noteq> j" "ts ! i \<noteq> PNil" "ts ! j \<noteq> PNil" "length ts = 17"
    by (auto simp: pok_Full)
  then have "psole ts \<noteq> Some a" for a unfolding psole_Some by metis
  then have "psole ts = None" by (cases "psole ts") auto
  then show ?thesis by (simp add: preduce_def)
qed

lemma pchild_pdelete:
  assumes "pok (PFull ts)" "hexkey (x # r)"
  shows "\<forall>i < 17. pchild i (ts[unat x := pdelete (ts ! unat x) r] ! i)"
proof -
  note c = pslot_child[OF assms]
  have "pslot (pdelete (ts ! unat x) r) r" using pdelete_ok[OF c(2)] by blast
  then have "pchild (unat x) (pdelete (ts ! unat x) r)"
    using assms(2) by (auto simp: pslot_def pchild_def ptrie_def hexkey_Cons split: if_splits)
  then show ?thesis using assms(1) c by (auto simp: pok_Full nth_list_update)
qed

definition pupdate :: "ptree \<Rightarrow> byte list \<Rightarrow> byte list \<Rightarrow> ptree" where
  "pupdate p key value =
    (if value = [] then pdelete p (keybytesToHex key) else pinsert p (keybytesToHex key) value)"

lemma pslot_root: "ptrie t \<Longrightarrow> pslot t (keybytesToHex key)"
  using keybytesToHex_hexkey[of key] by (auto simp: pslot_def)

locale trie_rel =
  fixes db :: "database option" and R :: node_relation
  assumes R_Nil: "R tp n PNil \<longleftrightarrow> n = NilNode"
    and R_Val: "R tp n (PVal w) \<longleftrightarrow> n = ValueNode w"
    and R_Short: "R tp n (PShort p t) \<Longrightarrow> (\<exists>v f. n = ShortNode p v f) \<or>
      (\<exists>h. n = HashNode h \<and> (\<forall>g pre. \<exists>v f. resolveHash db g h pre = Inr (ShortNode p v f) \<and> R tp (ShortNode p v f) (PShort p t)))"
    and R_Full: "R tp n (PFull ts) \<Longrightarrow> (\<exists>ch f. n = FullNode ch f) \<or>
      (\<exists>h. n = HashNode h \<and> (\<forall>g pre. \<exists>ch f. resolveHash db g h pre = Inr (FullNode ch f) \<and> R tp (FullNode ch f) (PFull ts)))"
    and R_Short_val: "R tp (ShortNode k v f) (PShort p t) \<Longrightarrow> R False v t"
    and R_Full_children: "R tp (FullNode ch f) (PFull ts) \<Longrightarrow> list_all2 (R False) ch ts"
    and R_new_Short: "R False v t \<Longrightarrow> R tp (ShortNode p v (newFlag g)) (PShort p t)"
    and R_new_Full: "list_all2 (R False) ch ts \<Longrightarrow> R tp (FullNode ch (newFlag g)) (PFull ts)"
    and R_load_Short: "R tp (ShortNode k v f) (PShort p t) \<Longrightarrow> R False v' t \<Longrightarrow>
      R tp (ShortNode k v' (f\<lparr>flag_gen := g\<rparr>)) (PShort p t)"
    and R_load_Full: "R tp (FullNode ch f) (PFull ts) \<Longrightarrow> i < length ts \<Longrightarrow> R False c (ts ! i) \<Longrightarrow>
      R tp (FullNode (ch[i := c]) (f\<lparr>flag_gen := g\<rparr>)) (PFull ts)"
begin

lemma R_simps [simp]: "R tp n PNil \<longleftrightarrow> n = NilNode" "R tp n (PVal w) \<longleftrightarrow> n = ValueNode w"
  by (simp_all add: R_Nil R_Val)

lemma R_Short_cases:
  assumes "R tp n (PShort p t)"
  obtains (loaded) v f where "n = ShortNode p v f" "R False v t"
  | (stored) h where "n = HashNode h"
      "\<And>g pre. \<exists>v f. resolveHash db g h pre = Inr (ShortNode p v f) \<and> R tp (ShortNode p v f) (PShort p t)"
  using R_Short[OF assms] R_Short_val assms by blast

lemma R_Full_cases:
  assumes "R tp n (PFull ts)"
  obtains (loaded) ch f where "n = FullNode ch f" "list_all2 (R False) ch ts"
  | (stored) h where "n = HashNode h"
      "\<And>g pre. \<exists>ch f. resolveHash db g h pre = Inr (FullNode ch f) \<and> R tp (FullNode ch f) (PFull ts)"
  using R_Full[OF assms] R_Full_children assms by blast

lemma R_Nil_iff: "R tp c t \<Longrightarrow> c = NilNode \<longleftrightarrow> t = PNil"
  by (cases t) (auto dest: R_Short R_Full)

lemma R_update: "list_all2 (R False) ch ts \<Longrightarrow> R False c t \<Longrightarrow> list_all2 (R False) (ch[i := c]) (ts[i := t])"
  by (rule list_all2_update_cong)

text \<open>Lookup.\<close>

lemma gets_stored:
  assumes "\<And>g pre. \<exists>rn. resolveHash db g h pre = Inr rn \<and> gets R db tp g rn t key pos"
  shows "gets R db tp g (HashNode h) t key pos"
proof -
  obtain rn where "resolveHash db g h (take pos key) = Inr rn" "gets R db tp g rn t key pos" using assms by blast
  then show ?thesis by (auto simp: gets_def tryGet_simps(5))
qed

lemma tryGet_rel: "pslot t (drop pos key) \<Longrightarrow> R tp n t \<Longrightarrow> gets R db tp g n t key pos"
proof (induction t arbitrary: n pos g tp)
  case PNil
  then show ?case by (simp add: gets_def tryGet_simps)
next
  case (PVal v)
  then show ?case by (auto simp: gets_def tryGet_simps pslot_def ptrie_def split: if_splits)
next
  case (PShort p t)
  have ok: "pok (PShort p t)" "hexkey (drop pos key)"
    using PShort.prems(1) by (auto simp: pslot_def ptrie_def split: if_splits)
  have short: "gets R db tp g (ShortNode p v f) (PShort p t) key pos" if n: "R tp (ShortNode p v f) (PShort p t)" for v f g
  proof (cases "take (length p) (drop pos key) = p")
    case True
    then have key: "drop pos key = p @ drop (pos + length p) key"
      by (metis append_take_drop_id drop_drop add.commute)
    then have "pslot t (drop (pos + length p) key)" using pslot_rest[OF ok(1)] ok(2) by metis
    from PShort.IH[OF this R_Short_val[OF n]] obtain n' d where
      "tryGet db g v key (pos + length p) = Some (Inr (pget t (drop (pos + length p) key), n', d))" "R False n' t"
      unfolding gets_def by blast
    moreover have "\<not> length key - pos < length p" using True by (metis length_drop length_take min.absorb_iff2 not_le)
    ultimately show ?thesis using True n by (auto simp: gets_def tryGet_simps(3) add.commute intro: R_load_Short)
  next
    case False
    then show ?thesis using n by (auto simp: gets_def tryGet_simps(3))
  qed
  from PShort.prems(2) show ?case
  proof (cases rule: R_Short_cases)
    case (loaded c f)
    then show ?thesis using short PShort.prems(2) by blast
  next
    case (stored h)
    have "\<exists>rn. resolveHash db g h pre = Inr rn \<and> gets R db tp g rn (PShort p t) key pos" for g pre
      using stored(2)[of g pre] short by blast
    then show ?thesis unfolding stored(1) by (rule gets_stored)
  qed
next
  case (PFull ts)
  have ok: "pok (PFull ts)" "hexkey (drop pos key)"
    using PFull.prems(1) by (auto simp: pslot_def ptrie_def split: if_splits)
  then obtain x k where key: "drop pos key = x # k" by (cases "drop pos key") auto
  then obtain a where "key = a @ x # k" "length a = pos"
    by (metis append_take_drop_id drop_all length_take less_or_eq_imp_le linorder_not_less list.distinct(1) min.absorb2)
  then have pos: "pos < length key" "key ! pos = x" "drop (pos + 1) key = k" by auto
  note c = pslot_child[OF ok(1) ok(2)[unfolded key]]
  have full: "gets R db tp g (FullNode ch f) (PFull ts) key pos" if n: "R tp (FullNode ch f) (PFull ts)" for ch f g
  proof -
    have ch: "list_all2 (R False) ch ts" by (rule R_Full_children[OF n])
    then have len: "length ch = 17" using c(3) by (auto dest: list_all2_lengthD)
    have "R False (ch ! unat x) (ts ! unat x)" using ch c len by (simp add: list_all2_conv_all_nth)
    then have "gets R db False g (ch ! unat x) (ts ! unat x) key (pos + 1)" using PFull.IH c pos(3) by simp
    then obtain n' d where
      n': "tryGet db g (ch ! unat x) key (pos + 1) = Some (Inr (pget (ts ! unat x) k, n', d))" "R False n' (ts ! unat x)"
      unfolding gets_def pos(3) by blast
    have "R tp (FullNode (ch[unat x := n']) (f\<lparr>flag_gen := g\<rparr>)) (PFull ts)"
      using R_load_Full[OF n _ n'(2)] c by simp
    then show ?thesis using n' c len n key by (auto simp: gets_def tryGet_simps(4) pos)
  qed
  from PFull.prems(2) show ?case
  proof (cases rule: R_Full_cases)
    case (loaded c f)
    then show ?thesis using full PFull.prems(2) by blast
  next
    case (stored h)
    have "\<exists>rn. resolveHash db g h pre = Inr rn \<and> gets R db tp g rn (PFull ts) key pos" for g pre
      using stored(2)[of g pre] full by blast
    then show ?thesis unfolding stored(1) by (rule gets_stored)
  qed
qed

text \<open>Insertion.\<close>

lemma inserts_stored:
  assumes "\<And>g pre. \<exists>rn. resolveHash db g h pre = Inr rn \<and> R tp rn t \<and> inserts R db tp g rn t pre k v" "k \<noteq> []"
  shows "inserts R db tp g (HashNode h) t pre k v"
proof -
  obtain rn where "resolveHash db g h pre = Inr rn" "R tp rn t" "inserts R db tp g rn t pre k v" using assms by blast
  then show ?thesis using assms(2) by (auto simp: inserts_def trie_insert_simps(5))
qed

lemma R_pext: "R False c t \<Longrightarrow> R False (if p = [] then c else ShortNode p c (newFlag g)) (pext p t)"
  by (cases "p = []") (simp_all add: pext_def R_new_Short)

lemma R_pfork:
  assumes "R False c s" "R False c' t"
  shows "R tp (if p = [] then FullNode ((replicate 17 NilNode)[unat x := c, unat y := c']) (newFlag g)
           else ShortNode p (FullNode ((replicate 17 NilNode)[unat x := c, unat y := c']) (newFlag g)) (newFlag g))
         (pfork p x s y t)"
proof -
  have "list_all2 (R False) (replicate 17 NilNode) (replicate 17 PNil)" by (simp add: list_all2_conv_all_nth)
  then have "list_all2 (R False) ((replicate 17 NilNode)[unat x := c, unat y := c']) ((replicate 17 PNil)[unat x := s, unat y := t])"
    by (intro R_update assms)
  then show ?thesis by (simp add: pfork_def pext_def R_new_Short R_new_Full)
qed

lemma trie_insert_rel: "pslot t k \<Longrightarrow> R tp n t \<Longrightarrow> inserts R db tp g n t pre k v"
proof (induction t arbitrary: n k pre g tp)
  case PNil
  then show ?case by (auto simp: inserts_def trie_insert_simps pext_def R_new_Short)
next
  case (PVal w)
  then have "k = []" by (auto simp: pslot_def ptrie_def split: if_splits)
  then show ?case using PVal.prems by (auto simp: inserts_def trie_insert_simps)
next
  case (PShort p t)
  have ok: "pok (PShort p t)" "hexkey k"
    using PShort.prems(1) by (auto simp: pslot_def ptrie_def split: if_splits)
  then have k: "k \<noteq> []" by auto
  have short: "inserts R db tp g (ShortNode p c f) (PShort p t) pre k v" if n: "R tp (ShortNode p c f) (PShort p t)" for c f g pre
  proof (cases "prefixLen k p = length p")
    case True
    then obtain r where r: "k = p @ r" by (metis append_take_drop_id prefixLen_full)
    then have "pslot t r" using pslot_rest ok by metis
    from PShort.IH[OF this R_Short_val[OF n]] obtain d n' where
      "trie_insert db g c (pre @ p) r (ValueNode v) = Some (Inr (d, n'))" "R False n' (pinsert t r v)"
      "\<not> d \<longrightarrow> pinsert t r v = t"
      unfolding inserts_def by blast
    then show ?thesis using True r k n by (auto simp: inserts_def trie_insert_simps(3) Let_def R_new_Short)
  next
    case False
    from fork_point[OF ok False] obtain q x p' y r where f: "p = q @ x # p'" "k = q @ y # r" "x \<noteq> y"
      "prefixLen k p = length q" by metis
    then have ins: "pinsert (PShort p t) k v = pfork q x (pext p' t) y (pext r (PVal v))" by (simp add: Let_def)
    have "R False (ValueNode v) (PVal v)" by simp
    note F = R_pfork[OF R_pext[OF R_Short_val[OF n], of p' g] R_pext[OF this, of r g], of tp q x y g]
    have "trie_insert db g (ShortNode p c f) pre k (ValueNode v) = Some (Inr (True,
        let B = FullNode ((replicate 17 NilNode)[unat x := (if p' = [] then c else ShortNode p' c (newFlag g)),
                unat y := (if r = [] then ValueNode v else ShortNode r (ValueNode v) (newFlag g))]) (newFlag g) in
        if q = [] then B else ShortNode q B (newFlag g)))"
      using k False f(4) by (simp add: trie_insert_simps(3) Let_def trie_insert_simps(1) f(1,2))
    with F show ?thesis unfolding inserts_def ins Let_def by blast
  qed
  from PShort.prems(2) show ?case
  proof (cases rule: R_Short_cases)
    case (loaded c f)
    then show ?thesis using short PShort.prems(2) by blast
  next
    case (stored h)
    have "\<exists>rn. resolveHash db g h pre = Inr rn \<and> R tp rn (PShort p t) \<and> inserts R db tp g rn (PShort p t) pre k v" for g pre
      using stored(2)[of g pre] short by blast
    then show ?thesis unfolding stored(1) using k by (rule inserts_stored)
  qed
next
  case (PFull ts)
  have ok: "pok (PFull ts)" "hexkey k"
    using PFull.prems(1) by (auto simp: pslot_def ptrie_def split: if_splits)
  then obtain x r where k: "k = x # r" by (cases k) auto
  note c = pslot_child[OF ok(1) ok(2)[unfolded k]]
  have full: "inserts R db tp g (FullNode ch f) (PFull ts) pre k v" if n: "R tp (FullNode ch f) (PFull ts)" for ch f g pre
  proof -
    have ch: "list_all2 (R False) ch ts" by (rule R_Full_children[OF n])
    then have len: "length ch = 17" using c(3) by (auto dest: list_all2_lengthD)
    have "R False (ch ! unat x) (ts ! unat x)" using ch c len by (simp add: list_all2_conv_all_nth)
    then have "inserts R db False g (ch ! unat x) (ts ! unat x) (pre @ [x]) r v" using PFull.IH c by simp
    then obtain d n' where
      n': "trie_insert db g (ch ! unat x) (pre @ [x]) r (ValueNode v) = Some (Inr (d, n'))"
        "R False n' (pinsert (ts ! unat x) r v)" "\<not> d \<longrightarrow> pinsert (ts ! unat x) r v = ts ! unat x"
      unfolding inserts_def by blast
    have "R tp (FullNode (ch[unat x := n']) (newFlag g)) (PFull (ts[unat x := pinsert (ts ! unat x) r v]))"
      by (rule R_new_Full[OF R_update[OF ch n'(2)]])
    then show ?thesis using n' c len n k by (auto simp: inserts_def trie_insert_simps(4))
  qed
  from PFull.prems(2) show ?case
  proof (cases rule: R_Full_cases)
    case (loaded c f)
    then show ?thesis using full PFull.prems(2) by blast
  next
    case (stored h)
    have "\<exists>rn. resolveHash db g h pre = Inr rn \<and> R tp rn (PFull ts) \<and> inserts R db tp g rn (PFull ts) pre k v" for g pre
      using stored(2)[of g pre] full by blast
    then show ?thesis unfolding stored(1) by (rule inserts_stored) (simp add: k)
  qed
qed

text \<open>Deletion.\<close>

lemma sole_pos_psole:
  assumes "list_all2 (R False) ch ts"
  shows "psole ts = Some i \<Longrightarrow> sole_pos 0 (-1) ch = int i" "psole ts = None \<Longrightarrow> sole_pos 0 (-1) ch < 0"
proof -
  have "filter (\<lambda>j. ch ! j \<noteq> NilNode) [0..<length ch] = filter (\<lambda>j. ts ! j \<noteq> PNil) [0..<length ts]"
    using assms by (intro filter_cong) (auto simp: list_all2_conv_all_nth R_Nil_iff)
  note s = sole_pos_scan[of 0 ch, unfolded this]
  show "psole ts = Some i \<Longrightarrow> sole_pos 0 (-1) ch = int i" "psole ts = None \<Longrightarrow> sole_pos 0 (-1) ch < 0"
    using s by (auto simp: psole_def split: list.splits)
qed

lemma deletes_stored:
  assumes "\<And>g pre. \<exists>rn. resolveHash db g h pre = Inr rn \<and> R tp rn t \<and> deletes R db tp g rn t pre k"
  shows "deletes R db tp g (HashNode h) t pre k"
proof -
  obtain rn where rn: "resolveHash db g h pre = Inr rn" "R tp rn t" "deletes R db tp g rn t pre k" using assms by blast
  then obtain d n' where "trie_delete db g rn pre k = Some (Inr (d, n'))" "R tp n' (pdelete t k)"
      "if d then \<forall>h. n' \<noteq> HashNode h else pdelete t k = t"
    unfolding deletes_def by blast
  then show ?thesis using rn(1,2)
    by (cases d) (simp_all add: deletes_def trie_delete_simps(5))
qed

lemma resolve_Short: "R tp n (PShort p t) \<Longrightarrow> \<exists>v f. resolve db g n pre = Inr (ShortNode p v f) \<and> R False v t"
  by (erule R_Short_cases) (use R_Short_val in \<open>force+\<close>)

lemma resolve_Full: "R tp n (PFull ts) \<Longrightarrow> \<exists>ch f. resolve db g n pre = Inr (FullNode ch f)"
  by (erule R_Full_cases) force+

lemma reduce_full_rel:
  assumes ch: "list_all2 (R False) ch ts" and ts: "length ts = 17" "\<forall>i < 17. pchild i (ts ! i)"
  shows "\<exists>n'. reduce_full db g ch pre = Inr (True, n') \<and> R tp n' (preduce ts) \<and> (\<forall>h. n' \<noteq> HashNode h)"
proof (cases "psole ts")
  case None
  then have "sole_pos 0 (-1) ch < 0" using sole_pos_psole(2)[OF ch] by blast
  then show ?thesis using None ch by (simp add: reduce_full_def preduce_def R_new_Full Let_def)
next
  case (Some i)
  then have i: "i < 17" "ts ! i \<noteq> PNil" using ts by (auto simp: psole_Some)
  have p: "sole_pos 0 (-1) ch = int i" using sole_pos_psole(1)[OF ch Some] .
  have c: "R False (ch ! i) (ts ! i)" "pchild i (ts ! i)" using ch ts i by (auto simp: list_all2_conv_all_nth)
  show ?thesis
  proof (cases "ts ! i")
    case (PVal v)
    then have "i = 16" using c(2) by (auto simp: pchild_def split: if_splits)
    then show ?thesis using Some p c PVal by (simp add: reduce_full_def preduce_def R_new_Short Let_def)
  next
    case (PShort q s)
    then have "i \<noteq> 16" using c(2) by (auto simp: pchild_def)
    moreover obtain v f where "resolve db g (ch ! i) pre = Inr (ShortNode q v f)" "R False v s"
      using resolve_Short[OF c(1)[unfolded PShort]] by blast
    ultimately show ?thesis using Some p PShort
      by (simp add: reduce_full_def preduce_def R_new_Short Let_def)
  next
    case (PFull us)
    then have "i \<noteq> 16" using c(2) by (auto simp: pchild_def)
    moreover obtain cs f where "resolve db g (ch ! i) pre = Inr (FullNode cs f)"
      using resolve_Full[OF c(1)[unfolded PFull]] by blast
    ultimately show ?thesis using Some p c PFull
      by (simp add: reduce_full_def preduce_def R_new_Short Let_def)
  qed (use i in simp)
qed

lemma delete_below_short:
  assumes "trie_delete db g c (pre @ p) r = Some (Inr (True, n'))" "R False n' (pdelete t r)" "\<forall>h. n' \<noteq> HashNode h"
    and "r \<noteq> []" "prefixLen (p @ r) p = length p"
  shows "deletes R db tp g (ShortNode p c f) (PShort p t) pre (p @ r)"
proof (cases "pdelete t r")
  case (PShort q s)
  then obtain v f' where "n' = ShortNode q v f'" "R False v s"
    using assms(2,3) by (metis R_Short_cases)
  then show ?thesis using assms PShort by (auto simp: deletes_def trie_delete_simps(3) R_new_Short)
next
  case (PFull us)
  then obtain ch f' where "n' = FullNode ch f'" using assms(2,3) by (metis R_Full_cases)
  then show ?thesis using assms PFull by (auto simp: deletes_def trie_delete_simps(3) R_new_Short)
qed (use assms in \<open>auto simp: deletes_def trie_delete_simps(3) R_new_Short\<close>)

lemma trie_delete_rel: "pslot t k \<Longrightarrow> R tp n t \<Longrightarrow> deletes R db tp g n t pre k"
proof (induction t arbitrary: n k pre g tp)
  case PNil
  then show ?case by (simp add: deletes_def trie_delete_simps)
next
  case (PVal w)
  then show ?case by (simp add: deletes_def trie_delete_simps)
next
  case (PShort p t)
  have ok: "pok (PShort p t)" "hexkey k"
    using PShort.prems(1) by (auto simp: pslot_def ptrie_def split: if_splits)
  have short: "deletes R db tp g (ShortNode p c f) (PShort p t) pre k" if n: "R tp (ShortNode p c f) (PShort p t)" for c f g pre
  proof (cases "prefixLen k p = length p")
    case False
    then have "prefixLen k p < length p" using prefixLen_le[of k p] by simp
    then show ?thesis using False n by (auto simp: deletes_def trie_delete_simps(3) prefixLen_full)
  next
    case True
    then obtain r where r: "k = p @ r" by (metis append_take_drop_id prefixLen_full)
    then have slot: "pslot t r" using pslot_rest ok by metis
    show ?thesis
    proof (cases "r = []")
      case True
      then show ?thesis using r \<open>prefixLen k p = length p\<close> by (simp add: deletes_def trie_delete_simps(3))
    next
      case False
      then obtain ts where t: "t = PFull ts" using slot ok(1)
        by (auto elim!: pok_ShortE simp: pslot_def ptrie_def simp del: pok.simps(3))
      from PShort.IH[OF slot R_Short_val[OF n]] obtain d n' where n':
        "trie_delete db g c (pre @ p) r = Some (Inr (d, n'))" "R False n' (pdelete t r)"
        "if d then \<forall>h. n' \<noteq> HashNode h else pdelete t r = t"
        unfolding deletes_def by blast
      show ?thesis
      proof (cases "d")
        case False
        then show ?thesis using n' r \<open>r \<noteq> []\<close> True n t by (auto simp: deletes_def trie_delete_simps(3))
      next
        case d: True
        then show ?thesis using n' True unfolding r by (intro delete_below_short) (use False in simp_all)
      qed
    qed
  qed
  from PShort.prems(2) show ?case
  proof (cases rule: R_Short_cases)
    case (loaded c f)
    then show ?thesis using short PShort.prems(2) by blast
  next
    case (stored h)
    have "\<exists>rn. resolveHash db g h pre = Inr rn \<and> R tp rn (PShort p t) \<and> deletes R db tp g rn (PShort p t) pre k" for g pre
      using stored(2)[of g pre] short by blast
    then show ?thesis unfolding stored(1) by (rule deletes_stored)
  qed
next
  case (PFull ts)
  have ok: "pok (PFull ts)" "hexkey k"
    using PFull.prems(1) by (auto simp: pslot_def ptrie_def split: if_splits)
  then obtain x r where k: "k = x # r" by (cases k) auto
  note c = pslot_child[OF ok(1) ok(2)[unfolded k]]
  let ?ts = "ts[unat x := pdelete (ts ! unat x) r]"
  have full: "deletes R db tp g (FullNode ch f) (PFull ts) pre k" if n: "R tp (FullNode ch f) (PFull ts)" for ch f g pre
  proof -
    have ch: "list_all2 (R False) ch ts" by (rule R_Full_children[OF n])
    then have len: "length ch = 17" using c(3) by (auto dest: list_all2_lengthD)
    have "R False (ch ! unat x) (ts ! unat x)" using ch c len by (simp add: list_all2_conv_all_nth)
    then have "deletes R db False g (ch ! unat x) (ts ! unat x) (pre @ [x]) r" using PFull.IH c by simp
    then obtain d n' where
      n': "trie_delete db g (ch ! unat x) (pre @ [x]) r = Some (Inr (d, n'))" "R False n' (pdelete (ts ! unat x) r)"
        "if d then \<forall>h. n' \<noteq> HashNode h else pdelete (ts ! unat x) r = ts ! unat x"
      unfolding deletes_def by blast
    show ?thesis
    proof (cases d)
      case True
      have "list_all2 (R False) (ch[unat x := n']) ?ts" by (rule R_update[OF ch n'(2)])
      from reduce_full_rel[OF this _ pchild_pdelete[OF ok(1) ok(2)[unfolded k]], of g pre tp] c(3)
      show ?thesis using n'(1) c len k True by (auto simp: deletes_def trie_delete_simps(4))
    next
      case False
      then have "?ts = ts" using n'(3) by simp
      then have "pdelete (PFull ts) k = PFull ts" using k preduce_pok[OF ok(1)] by simp
      then show ?thesis using n'(1) False c len k n by (auto simp: deletes_def trie_delete_simps(4))
    qed
  qed
  from PFull.prems(2) show ?case
  proof (cases rule: R_Full_cases)
    case (loaded c f)
    then show ?thesis using full PFull.prems(2) by blast
  next
    case (stored h)
    have "\<exists>rn. resolveHash db g h pre = Inr rn \<and> R tp rn (PFull ts) \<and> deletes R db tp g rn (PFull ts) pre k" for g pre
      using stored(2)[of g pre] full by blast
    then show ?thesis unfolding stored(1) by (rule deletes_stored)
  qed
qed

text \<open>The exported operations.\<close>

lemma TryGet_rel:
  assumes "R True (root t) p" "ptrie p" "trie_db t = db"
  shows "\<exists>t'. TryGet t key = Some (Inr (pget p (keybytesToHex key)), t') \<and> R True (root t') p \<and> trie_db t' = db"
  using tryGet_rel[of p 0 "keybytesToHex key" True "root t" "cachegen t"] pslot_root[OF assms(2), of key] assms
  by (auto simp: gets_def TryGet_def)

lemma TryUpdate_rel:
  assumes "R True (root t) p" "ptrie p" "trie_db t = db"
  shows "\<exists>t'. TryUpdate t key val = Some (Inr (), t') \<and> R True (root t') (pupdate p key val) \<and>
    t' = t\<lparr>root := root t'\<rparr>"
  using trie_insert_rel[OF pslot_root[OF assms(2)] assms(1), of "cachegen t" "[]" key val]
    trie_delete_rel[OF pslot_root[OF assms(2)] assms(1), of "cachegen t" "[]" key] assms(3)
  by (auto simp: inserts_def deletes_def TryUpdate_def pupdate_def set_root_def Let_def)

lemma TryDelete_rel:
  assumes "R True (root t) p" "ptrie p" "trie_db t = db"
  shows "\<exists>t'. TryDelete t key = Some (Inr (), t') \<and> R True (root t') (pupdate p key []) \<and> t' = t\<lparr>root := root t'\<rparr>"
  using trie_delete_rel[OF pslot_root[OF assms(2)] assms(1), of "cachegen t" "[]" key] assms(3)
  by (auto simp: deletes_def TryDelete_def pupdate_def set_root_def Let_def)

end

lemma pslot_ptrie: "pslot p (keybytesToHex key) \<Longrightarrow> ptrie p"
  using keybytesToHex_hexkey[of key] by (auto simp: pslot_def split: if_splits)

lemma ptrie_pupdate: "ptrie p \<Longrightarrow> ptrie (pupdate p key val)"
  unfolding pupdate_def
  using pinsert_ok[OF pslot_root, of p val key] pdelete_ok[OF pslot_root, of p key] pslot_ptrie by auto

lemma keybytesToHex_inj: "keybytesToHex a = keybytesToHex b \<longleftrightarrow> a = b"
  by (metis (no_types, lifting) decodeNibbles_split keybytesToHex_def append_same_eq sum.inject(2))

text \<open>The map a tree stands for, over key bytes.\<close>

definition pmap :: "ptree \<Rightarrow> byte list \<rightharpoonup> byte list" where
  "pmap p key = pget p (keybytesToHex key)"

lemma pmap_pupdate: "ptrie p \<Longrightarrow> pmap (pupdate p key val) = (pmap p)(key := if val = [] then None else Some val)"
  using pget_pinsert[of p "keybytesToHex key" val, OF pslot_root] pdelete_ok[OF pslot_root, of p key]
  by (auto simp: fun_eq_iff pmap_def pupdate_def keybytesToHex_inj)

section \<open>The weakest relation\<close>

fun rep :: "database option \<Rightarrow> node \<Rightarrow> ptree \<Rightarrow> bool" where
  "rep db n PNil = (n = NilNode)"
| "rep db n (PVal v) = (n = ValueNode v)"
| "rep db n (PShort p t) = (\<forall>g pre. \<exists>v f. resolve db g n pre = Inr (ShortNode p v f) \<and> rep db v t)"
| "rep db n (PFull ts) = (\<forall>g pre. \<exists>ch f. resolve db g n pre = Inr (FullNode ch f) \<and> list_all2 (rep db) ch ts)"

interpretation weakest: trie_rel db "\<lambda>_. rep db" for db
proof (unfold_locales, goal_cases)
  case (3 tp n p t)
  then show ?case by (cases n) auto
next
  case (4 tp n ts)
  then show ?case by (cases n) auto
next
  case (10 tp ch f ts i c g)
  then have "list_all2 (rep db) ch ts" by simp
  then have "list_all2 (rep db) (ch[i := c]) (ts[i := ts ! i])" using 10(3) by (rule list_all2_update_cong)
  then show ?case by simp
qed auto

definition trie_rep :: "Trie \<Rightarrow> ptree \<Rightarrow> bool" where
  "trie_rep t p \<longleftrightarrow> rep (trie_db t) (root t) p \<and> ptrie p"

section \<open>Dictionaries\<close>

text \<open>
  The contract the users of a trie rely on: an update of a valid store succeeds and changes the content at
  its key alone; an empty val deletes.\<close>

fun run_updates :: "('s \<Rightarrow> 'k \<Rightarrow> 'v \<Rightarrow> 's option) \<Rightarrow> 's \<Rightarrow> ('k \<times> 'v) list \<Rightarrow> 's option" where
  "run_updates upd s [] = Some s"
| "run_updates upd s ((k, v) # us) = Option.bind (upd s k v) (\<lambda>s'. run_updates upd s' us)"

definition put_entry :: "('k \<Rightarrow> 'v list option) \<Rightarrow> 'k \<times> 'v list \<Rightarrow> 'k \<Rightarrow> 'v list option" where
  "put_entry m u = m(fst u := if snd u = [] then None else Some (snd u))"

locale dictionary =
  fixes valid :: "'s \<Rightarrow> bool" and content :: "'s \<Rightarrow> 'k \<Rightarrow> 'v list option"
    and update :: "'s \<Rightarrow> 'k \<Rightarrow> 'v list \<Rightarrow> 's option"
  assumes update_valid: "valid s \<Longrightarrow> \<exists>s'. update s k v = Some s' \<and> valid s' \<and> content s' = put_entry (content s) (k, v)"
begin

lemma run_valid:
  "valid s \<Longrightarrow> \<exists>s'. run_updates update s us = Some s' \<and> valid s' \<and> content s' = foldl put_entry (content s) us"
proof (induction us arbitrary: s)
  case (Cons u us)
  obtain k v where u: "u = (k, v)" by fastforce
  obtain s1 where "update s k v = Some s1" "valid s1" "content s1 = put_entry (content s) (k, v)"
    using update_valid[OF Cons.prems] by blast
  with Cons.IH[of s1] u show ?case by auto
qed simp

lemma updates_commute:
  assumes "valid s" "k \<noteq> l" "run_updates update s [(k, v), (l, w)] = Some s1" "run_updates update s [(l, w), (k, v)] = Some s2"
  shows "content s1 = content s2"
  using run_valid[OF assms(1), of "[(k, v), (l, w)]"] run_valid[OF assms(1), of "[(l, w), (k, v)]"] assms(2-4)
  by (auto simp: put_entry_def fun_eq_iff)

end

definition trie_content :: "Trie \<Rightarrow> byte list \<Rightarrow> byte list option" where
  "trie_content t key = (case TryGet t key of Some (Inr v, _) \<Rightarrow> v | _ \<Rightarrow> None)"

definition trie_update :: "Trie \<Rightarrow> byte list \<Rightarrow> byte list \<Rightarrow> Trie option" where
  "trie_update t key val = (case TryUpdate t key val of Some (Inr _, t') \<Rightarrow> Some t' | _ \<Rightarrow> None)"

lemma trie_content_rep: "trie_rep t p \<Longrightarrow> trie_content t = pmap p"
proof (rule ext)
  fix key assume "trie_rep t p"
  then obtain t' where "TryGet t key = Some (Inr (pget p (keybytesToHex key)), t')"
    using weakest.TryGet_rel[of "trie_db t" t p key] by (auto simp: trie_rep_def)
  then show "trie_content t key = pmap p key" by (simp add: trie_content_def pmap_def)
qed

lemma trie_update_rep:
  assumes "trie_rep t p"
  shows "\<exists>t'. TryUpdate t key val = Some (Inr (), t') \<and> trie_rep t' (pupdate p key val)"
proof -
  obtain t' where t': "TryUpdate t key val = Some (Inr (), t')" "rep (trie_db t) (root t') (pupdate p key val)"
      "t' = t\<lparr>root := root t'\<rparr>"
    using weakest.TryUpdate_rel[of "trie_db t" t p key val] assms by (auto simp: trie_rep_def)
  have "trie_db t' = trie_db (t\<lparr>root := root t'\<rparr>)" by (rule arg_cong[OF t'(3)])
  then have "trie_db t' = trie_db t" by simp
  then show ?thesis using t'(1,2) ptrie_pupdate[of p key val] assms by (auto simp: trie_rep_def)
qed

interpretation trie_dict: dictionary "\<lambda>t. \<exists>p. trie_rep t p" trie_content trie_update
proof
  fix t k v assume "\<exists>p. trie_rep t p"
  then obtain p where p: "trie_rep t p" by blast
  obtain t' where t': "TryUpdate t k v = Some (Inr (), t')" "trie_rep t' (pupdate p k v)"
    using trie_update_rep[OF p] by blast
  have "ptrie p" using p by (simp add: trie_rep_def)
  then have "trie_content t' = put_entry (trie_content t) (k, v)"
    by (simp add: trie_content_rep[OF t'(2)] trie_content_rep[OF p] pmap_pupdate put_entry_def)
  moreover have "trie_update t k v = Some t'" by (simp add: trie_update_def t'(1))
  ultimately show "\<exists>t'. trie_update t k v = Some t' \<and> (\<exists>p. trie_rep t' p) \<and> trie_content t' = put_entry (trie_content t) (k, v)"
    using t'(2) by blast
qed

section \<open>Properties\<close>

text \<open>
  C12: the trie is a map. On every trie whose nodes are in memory or can be loaded, \<^verbatim>\<open>TryGet\<close> terminates
  without an error and returns the stored value, and any sequence of \<^verbatim>\<open>TryUpdate\<close> calls terminates
  without an error and leaves a trie that holds, for every key, the last value written, or nothing when
  that value was empty.\<close>

theorem trie_implements_map:
  assumes "trie_rep t p"
  shows "(\<exists>t' v. TryGet t key = Some (Inr v, t') \<and> v = trie_content t key \<and> trie_rep t' p) \<and>
    (\<exists>t' p'. run_updates trie_update t us = Some t' \<and> trie_rep t' p' \<and>
           trie_content t' = foldl put_entry (trie_content t) us)"
proof
  show "\<exists>t' v. TryGet t key = Some (Inr v, t') \<and> v = trie_content t key \<and> trie_rep t' p"
    using weakest.TryGet_rel[of "trie_db t" t p key] assms trie_content_rep[OF assms]
    by (auto simp: trie_rep_def pmap_def)
  show "\<exists>t' p'. run_updates trie_update t us = Some t' \<and> trie_rep t' p' \<and>
           trie_content t' = foldl put_entry (trie_content t) us"
    using trie_dict.run_valid[of t us] assms by blast
qed

lemma trie_rep_empty:
  "Trie_New (replicate 32 0) db = Inr \<lparr>root = NilNode, trie_db = db, originalRoot = replicate 32 0, cachegen = 0, cachelimit = 0\<rparr>"
  "trie_rep \<lparr>root = NilNode, trie_db = db, originalRoot = r, cachegen = 0, cachelimit = 0\<rparr> PNil"
  by (simp_all add: Trie_New_def Let_def trie_rep_def ptrie_def)

theorem trie_implements_map_witness:
  "\<exists>t t'. Trie_New (replicate 32 0) None = Inr t \<and>
     run_updates trie_update t [([1], [7]), ([2], [8]), ([1], [])] = Some t' \<and>
     trie_content t' [1] = None \<and> trie_content t' [2] = Some [8]"
proof -
  let ?t = "\<lparr>root = NilNode, trie_db = None, originalRoot = replicate 32 0, cachegen = 0, cachelimit = 0\<rparr>"
  have "trie_content ?t = pmap PNil" by (rule trie_content_rep[OF trie_rep_empty(2)])
  with trie_implements_map[OF trie_rep_empty(2)[of None "replicate 32 0"], of "[]" "[([1], [7]), ([2], [8]), ([1], [])]"]
    trie_rep_empty(1)[of None]
  show ?thesis by (auto simp: put_entry_def pmap_def)
qed

end
