(* ===== verification/Trie_Hash.thy ===== *)
theory Trie_Hash
  imports Trie_Refine Block_Types
begin

text \<open>
  Hashing and committing a trie (\<^verbatim>\<open>trie/hasher.go\<close> and \<^verbatim>\<open>Hash\<close>, \<^verbatim>\<open>Commit\<close> of \<^verbatim>\<open>trie/trie.go\<close>). The
  hasher replaces every subtree whose encoding has at least 32 bytes by its hash, keeps the hashes it
  computes in the nodes, and, when it is given a database, writes the encodings there and drops
  subtrees that have not been used for a while.\<close>

section \<open>The hasher\<close>

text \<open>A hash as the 32 bytes of a \<open>HashNode\<close>.\<close>

definition keccak :: "crypto_lib \<Rightarrow> byte list \<Rightarrow> byte list" where
  "keccak K bs = array_bytes 32 (Keccak256 K bs)"

record hasher =
  h_crypto :: crypto_lib
  h_cachegen :: "16 word"
  h_cachelimit :: "16 word"
  put_fails :: "byte list \<Rightarrow> bool" \<comment> \<open>keys for which the database reports an error\<close>

type_synonym 'a hash_m = "(database option, trie_error, 'a) go"

definition db_Put :: "hasher \<Rightarrow> byte list \<Rightarrow> byte list \<Rightarrow> unit hash_m" where
  "db_Put h key val db =
    (case db of
       None \<Rightarrow> (Inl (Panic ''invalid memory address or nil pointer dereference''), db)
     | Some m \<Rightarrow> if put_fails h key then (Inl (Err putError), db) else (Inr (), Some (m(key \<mapsto> val))))"

definition store :: "hasher \<Rightarrow> node \<Rightarrow> bool \<Rightarrow> node hash_m" where
  "store h n force db =
    (case n of
       HashNode _ \<Rightarrow> (Inr n, db)
     | NilNode \<Rightarrow> (Inr n, db)
     | _ \<Rightarrow>
         case Encode (node_rlp n) of
           Inl e \<Rightarrow> (Inl (Panic ''encode error''), db)
         | Inr enc \<Rightarrow>
             if length enc < 32 \<and> \<not> force then (Inr n, db)
             else
               let hash = (case fst (cache n) of Some c \<Rightarrow> c | None \<Rightarrow> keccak (h_crypto h) enc) in
               if db \<noteq> None then bindM (db_Put h hash enc) (\<lambda>_. returnM (HashNode hash)) db
               else (Inr (HashNode hash), db))"

text \<open>\<^verbatim>\<open>cn.flags.hash = cachedHash; if db != nil { cn.flags.dirty = false }\<close>\<close>

definition set_flags :: "node \<Rightarrow> database option \<Rightarrow> nodeFlag \<Rightarrow> nodeFlag" where
  "set_flags hashed db f =
    f\<lparr>flag_hash := (case hashed of HashNode c \<Rightarrow> Some c | _ \<Rightarrow> None), dirty := (if db \<noteq> None then False else dirty f)\<rparr>"

fun cache_hash :: "node \<Rightarrow> database option \<Rightarrow> node \<Rightarrow> node" where
  "cache_hash hashed db (ShortNode k v f) = ShortNode k v (set_flags hashed db f)"
| "cache_hash hashed db (FullNode ch f) = FullNode ch (set_flags hashed db f)"
| "cache_hash hashed db n = n"

text \<open>The answer that the cached hash of a node already gives.\<close>

definition cached_answer :: "hasher \<Rightarrow> node \<Rightarrow> database option \<Rightarrow> (node \<times> node) option" where
  "cached_answer h n db =
    (case cache n of
       (Some c, d) \<Rightarrow>
         if db = None then Some (HashNode c, n)
         else if canUnload n (h_cachegen h) (h_cachelimit h) then Some (HashNode c, HashNode c)
         else if \<not> d then Some (HashNode c, n)
         else None
     | (None, _) \<Rightarrow> None)"

definition compact_key :: "byte list \<Rightarrow> byte list hash_m" where
  "compact_key k = liftM (hexToCompact k)"

lemma size_list_take: "size_list f (take n xs) \<le> size_list f xs"
  by (induction xs arbitrary: n) (auto simp: take_Cons split: nat.splits)

text \<open>
  \<^verbatim>\<open>hash\<close> and \<^verbatim>\<open>hashChildren\<close>. The children of a full node are hashed one after the other; the code may
  hash those of the top node in parallel. A child that fails does not stop the others.\<close>

function (sequential) hasher_hash :: "hasher \<Rightarrow> node \<Rightarrow> bool \<Rightarrow> (node \<times> node) hash_m"
and hashChildren :: "hasher \<Rightarrow> node \<Rightarrow> (node \<times> node) hash_m"
and hashChild_list :: "hasher \<Rightarrow> node list \<Rightarrow> (node list \<times> node list) hash_m" where
  "hasher_hash h NilNode force = panicM ''invalid memory address or nil pointer dereference''"
| "hasher_hash h n force =
    bindM (readM (cached_answer h n)) (\<lambda>ans.
      case ans of
        Some r \<Rightarrow> returnM r
      | None \<Rightarrow>
          bindM (hashChildren h n) (\<lambda>(collapsed, cached).
          bindM (store h collapsed force) (\<lambda>hashed.
          bindM (readM (\<lambda>db. db)) (\<lambda>db. returnM (hashed, cache_hash hashed db cached)))))"
| "hashChildren h (ShortNode k v f) =
    bindM (compact_key k) (\<lambda>ck.
      case v of
        ValueNode w \<Rightarrow> returnM (ShortNode ck v f, ShortNode k v f)
      | _ \<Rightarrow> bindM (hasher_hash h v False) (\<lambda>(cv, cachedv).
               returnM (ShortNode ck (if cv = NilNode then ValueNode [] else cv) f, ShortNode k cachedv f)))"
| "hashChildren h (FullNode ch f) =
    bindM (hashChild_list h (take 16 ch)) (\<lambda>(cs, cacheds).
      returnM (FullNode (cs @ (if ch ! 16 = NilNode then [ValueNode []] else [ch ! 16])) f,
               FullNode (cacheds @ [ch ! 16]) f))"
| "hashChildren h n = returnM (n, n)"
| "hashChild_list h [] = returnM ([], [])"
| "hashChild_list h (c # cs) =
    (\<lambda>db. case (if c = NilNode then returnM (ValueNode [], NilNode) else hasher_hash h c False) db of
       (Inl (Panic m), db1) \<Rightarrow> (Inl (Panic m), db1)
     | (Inl (Err e), db1) \<Rightarrow>
         (case hashChild_list h cs db1 of (Inl e2, db2) \<Rightarrow> (Inl e2, db2) | (Inr _, db2) \<Rightarrow> (Inl (Err e), db2))
     | (Inr (cc, ca), db1) \<Rightarrow>
         bindM (hashChild_list h cs) (\<lambda>(ccs, cas). returnM (cc # ccs, ca # cas)) db1)"
  by pat_completeness auto

termination
  by (relation "measure (case_sum (\<lambda>(h, n, _). 2 * size n + 1)
        (case_sum (\<lambda>(h, n). 2 * size n) (\<lambda>(h, ns). 2 * size_list size ns)))")
     (auto intro: le_less_trans[OF mult_le_mono2[OF size_list_take]])

declare hasher_hash.simps [simp del] hashChildren.simps [simp del] hashChild_list.simps [simp del]

section \<open>Root hash and commit\<close>

definition hashRoot :: "crypto_lib \<Rightarrow> (byte list \<Rightarrow> bool) \<Rightarrow> Trie \<Rightarrow> (node \<times> node) hash_m" where
  "hashRoot K fails t =
    (if root t = NilNode then returnM (HashNode emptyRoot, NilNode)
     else hasher_hash \<lparr>h_crypto = K, h_cachegen = cachegen t, h_cachelimit = cachelimit t, put_fails = fails\<rparr> (root t) True)"

text \<open>\<^verbatim>\<open>common.BytesToHash(hash.(hashNode))\<close>\<close>

definition BytesToHash_bytes :: "byte list \<Rightarrow> byte list" where
  "BytesToHash_bytes b = replicate (32 - length b) 0 @ drop (length b - 32) b"

definition hash_of_node :: "node \<Rightarrow> (trie_error, byte list) result" where
  "hash_of_node n = (case n of HashNode h \<Rightarrow> Inr (BytesToHash_bytes h) | _ \<Rightarrow> Inl (Panic ''interface conversion''))"

definition Trie_Hash :: "crypto_lib \<Rightarrow> Trie \<Rightarrow> (trie_error, byte list) result \<times> Trie" where
  "Trie_Hash K t =
    (case fst (hashRoot K (\<lambda>_. False) t None) of
       Inr (hash, cached) \<Rightarrow> (hash_of_node hash, t\<lparr>root := cached\<rparr>)
     | Inl (Err _) \<Rightarrow> (hash_of_node (HashNode []), t)
     | Inl (Panic m) \<Rightarrow> (Inl (Panic m), t))"

text \<open>\<^verbatim>\<open>CommitTo\<close> returns the database it has written to. A failing write keeps what was written before it.\<close>

definition CommitTo ::
  "crypto_lib \<Rightarrow> (byte list \<Rightarrow> bool) \<Rightarrow> database option \<Rightarrow> Trie \<Rightarrow> (trie_error, byte list) result \<times> database option \<times> Trie" where
  "CommitTo K fails db t =
    (case hashRoot K fails t db of
       (Inl e, db') \<Rightarrow> (Inl e, db', t)
     | (Inr (hash, cached), db') \<Rightarrow> (hash_of_node hash, db', t\<lparr>root := cached, cachegen := cachegen t + 1\<rparr>))"

definition Commit :: "crypto_lib \<Rightarrow> (byte list \<Rightarrow> bool) \<Rightarrow> Trie \<Rightarrow> (trie_error, byte list) result \<times> Trie" where
  "Commit K fails t =
    (if trie_db t = None then (Inl (Panic ''Commit called on trie with nil database''), t)
     else case CommitTo K fails (trie_db t) t of (r, db', t') \<Rightarrow> (r, t'\<lparr>trie_db := db'\<rparr>))"

definition SetCacheLimit :: "16 word \<Rightarrow> Trie \<Rightarrow> Trie" where
  "SetCacheLimit l t = t\<lparr>cachelimit := l\<rparr>"

end
