(* ===== verification/State_DB.thy ===== *)
theory State_DB
  imports RLP_Decode Trie_Hash Chain_Params
begin

text \<open>
  The account state (\<^verbatim>\<open>core/state/statedb.go\<close>, \<^verbatim>\<open>core/state/state_object.go\<close>, \<^verbatim>\<open>core/state/journal.go\<close>):
  accounts are loaded from the account trie into state objects, changed there, and written back by
  \<^verbatim>\<open>Finalise\<close>. Every change is recorded in a journal, from which \<^verbatim>\<open>RevertToSnapshot\<close> undoes it. The
  interfaces \<^verbatim>\<open>Database\<close> and \<^verbatim>\<open>Trie\<close> of \<^verbatim>\<open>core/state/database.go\<close> are the record \<open>Database\<close>.\<close>

section \<open>Accounts and state objects\<close>

text \<open>The methods of the interfaces; a trie is a value, so an operation returns the trie it leaves.\<close>

record 'tr Database =
  db_OpenTrie :: "hash \<Rightarrow> (trie_error, 'tr) result"
  db_OpenStorageTrie :: "hash \<Rightarrow> hash \<Rightarrow> (trie_error, 'tr) result"
  db_ContractCode :: "hash \<Rightarrow> hash \<Rightarrow> (trie_error, byte list) result"
  db_ContractCodeSize :: "hash \<Rightarrow> hash \<Rightarrow> (trie_error, nat) result"
  tr_TryGet :: "'tr \<Rightarrow> byte list \<Rightarrow> (trie_error, byte list) result \<times> 'tr"
  tr_TryUpdate :: "'tr \<Rightarrow> byte list \<Rightarrow> byte list \<Rightarrow> (trie_error, unit) result \<times> 'tr"
  tr_TryDelete :: "'tr \<Rightarrow> byte list \<Rightarrow> (trie_error, unit) result \<times> 'tr"
  tr_Hash :: "'tr \<Rightarrow> (trie_error, hash) result \<times> 'tr"
  tr_CommitTo :: "'tr \<Rightarrow> database \<Rightarrow> (trie_error, hash) result \<times> database \<times> 'tr"
  dbw_fails :: "byte list \<Rightarrow> bool" \<comment> \<open>keys for which \<^verbatim>\<open>Put\<close> of the written database reports an error\<close>
  db_crypto :: crypto_lib
  db_getenv :: environment
  lru_Add :: "(address \<rightharpoonup> byte list) \<Rightarrow> address \<Rightarrow> byte list \<Rightarrow> (address \<rightharpoonup> byte list)"
    \<comment> \<open>the cache of package lru: adds an entry and may drop others\<close>

datatype state_error = trieErr trie_error | openErr trie_error | codeErr trie_error | splitErr "rlp_error fault"

record Account =
  acc_Nonce :: u64
  acc_Balance :: int
  acc_Root :: hash
  acc_CodeHash :: "byte list"

type_synonym Storage = "hash \<rightharpoonup> hash"

record 'tr stateObject =
  so_address :: address
  addrHash :: hash
  so_data :: Account
  so_dbErr :: "state_error option"
  so_trie :: "'tr option"
  so_code :: "byte list option"
  cachedStorage :: Storage
  dirtyStorage :: Storage
  dirtyCode :: bool
  suicided :: bool
  touched :: bool
  deleted :: bool
  onDirty :: bool \<comment> \<open>whether the callback is set\<close>

record Log =
  log_Address :: address
  log_Topics :: "hash list"
  log_Data :: "byte list"
  log_BlockNumber :: u64
  log_TxHash :: hash
  log_TxIndex :: int
  log_BlockHash :: hash
  log_Index :: u64

datatype 'tr journalEntry =
    createObjectChange address
  | resetObjectChange "'tr stateObject"
  | suicideChange address bool int
  | balanceChange address int
  | nonceChange address u64
  | storageChange address hash hash
  | codeChange address "byte list option" "byte list"
  | refundChange u64
  | addLogChange hash
  | addPreimageChange hash
  | touchChange address bool bool

text \<open>
  The package variables \<^verbatim>\<open>contractCodeCache\<close>, \<^verbatim>\<open>params.chiefContractCodeCache\<close> and the list of chief
  contracts are part of the state.\<close>

record 'tr StateDB =
  sdb_trie :: 'tr
  stateObjects :: "address \<rightharpoonup> 'tr stateObject"
  stateObjectsDirty :: "address set"
  sdb_dbErr :: "state_error option"
  refund :: u64
  thash :: hash
  bhash :: hash
  txIndex :: int
  logs :: "hash \<rightharpoonup> Log list"
  logSize :: u64
  preimages :: "hash \<rightharpoonup> byte list"
  journal :: "'tr journalEntry list"
  validRevisions :: "(int \<times> nat) list"
  nextRevisionId :: int
  contractCodeCache :: "(address \<rightharpoonup> byte list) option"
  chiefContractCodeCache :: "address \<rightharpoonup> byte list"
  chief_list :: chief_cache

type_synonym ('tr, 'a) sdb_m = "('tr StateDB, trie_error, 'a) go"
type_synonym ('tr, 'a) obj_m = "('tr stateObject \<times> 'tr StateDB, trie_error, 'a) go"

definition address_bytes :: "address \<Rightarrow> byte list" where
  "address_bytes a = array_bytes 20 a"

definition hash_bytes :: "hash \<Rightarrow> byte list" where
  "hash_bytes h = array_bytes 32 h"

definition BytesToHash :: "byte list \<Rightarrow> hash" where
  "BytesToHash b = word_of_int (be_int (drop (length b - 32) b))"

definition emptyCodeHash :: "crypto_lib \<Rightarrow> byte list" where
  "emptyCodeHash K = hash_bytes (Keccak256 K [])"

definition Keccak256Hash :: "crypto_lib \<Rightarrow> byte list \<Rightarrow> hash" where
  "Keccak256Hash K b = Keccak256 K b"

definition so_empty :: "crypto_lib \<Rightarrow> 'tr stateObject \<Rightarrow> bool" where
  "so_empty K ob \<longleftrightarrow> acc_Nonce (so_data ob) = 0 \<and> acc_Balance (so_data ob) = 0 \<and> acc_CodeHash (so_data ob) = emptyCodeHash K"

text \<open>\<^verbatim>\<open>Account{}\<close> with the defaults that \<^verbatim>\<open>newObject\<close> fills in.\<close>

definition new_account :: "crypto_lib \<Rightarrow> Account" where
  "new_account K = \<lparr>acc_Nonce = 0, acc_Balance = 0, acc_Root = 0, acc_CodeHash = emptyCodeHash K\<rparr>"

definition newObject :: "crypto_lib \<Rightarrow> address \<Rightarrow> Account \<Rightarrow> 'tr stateObject" where
  "newObject K addr data = \<lparr>so_address = addr, addrHash = Keccak256Hash K (address_bytes addr), so_data = data, so_dbErr = None,
     so_trie = None, so_code = None, cachedStorage = Map.empty, dirtyStorage = Map.empty, dirtyCode = False,
     suicided = False, touched = False, deleted = False, onDirty = True\<rparr>"

definition so_setError :: "state_error \<Rightarrow> 'tr stateObject \<Rightarrow> 'tr stateObject" where
  "so_setError e ob = (if so_dbErr ob = None then ob\<lparr>so_dbErr := Some e\<rparr> else ob)"

definition sdb_setError :: "state_error \<Rightarrow> 'tr StateDB \<Rightarrow> 'tr StateDB" where
  "sdb_setError e s = (if sdb_dbErr s = None then s\<lparr>sdb_dbErr := Some e\<rparr> else s)"

definition MarkStateObjectDirty :: "address \<Rightarrow> 'tr StateDB \<Rightarrow> 'tr StateDB" where
  "MarkStateObjectDirty addr s = s\<lparr>stateObjectsDirty := insert addr (stateObjectsDirty s)\<rparr>"

text \<open>\<^verbatim>\<open>if self.onDirty != nil { self.onDirty(self.Address()); self.onDirty = nil }\<close>\<close>

definition call_onDirty :: "('tr, unit) obj_m" where
  "call_onDirty = (\<lambda>(ob, s). (Inr (), if onDirty ob then (ob\<lparr>onDirty := False\<rparr>, MarkStateObjectDirty (so_address ob) s) else (ob, s)))"

definition change_obj :: "('tr stateObject \<Rightarrow> 'tr stateObject) \<Rightarrow> ('tr, unit) obj_m" where
  "change_obj f = modifyM (\<lambda>(ob, s). (f ob, s))"

definition append_journal :: "'tr journalEntry \<Rightarrow> 'tr StateDB \<Rightarrow> 'tr StateDB" where
  "append_journal e s = s\<lparr>journal := journal s @ [e]\<rparr>"

definition journal_obj :: "('tr stateObject \<Rightarrow> 'tr journalEntry) \<Rightarrow> ('tr, unit) obj_m" where
  "journal_obj f = modifyM (\<lambda>(ob, s). (ob, append_journal (f ob) s))"

section \<open>Methods of state objects\<close>

definition markSuicided :: "('tr, unit) obj_m" where
  "markSuicided = bindM (change_obj (\<lambda>ob. ob\<lparr>suicided := True\<rparr>)) (\<lambda>_. call_onDirty)"

text \<open>\<^verbatim>\<open>touch\<close> leaves \<^verbatim>\<open>prev\<close> and \<^verbatim>\<open>prevDirty\<close> at their zero values.\<close>

definition so_touch :: "('tr, unit) obj_m" where
  "so_touch = bindM (journal_obj (\<lambda>ob. touchChange (so_address ob) False False)) (\<lambda>_.
     bindM call_onDirty (\<lambda>_. change_obj (\<lambda>ob. ob\<lparr>touched := True\<rparr>)))"

text \<open>The storage trie, opened on first access. If it cannot be opened an empty one is used and the error kept.\<close>

definition getTrie :: "'tr Database \<Rightarrow> ('tr, 'tr) obj_m" where
  "getTrie B = (\<lambda>(ob, s).
     case so_trie ob of
       Some tr \<Rightarrow> (Inr tr, ob, s)
     | None \<Rightarrow>
         case db_OpenStorageTrie B (addrHash ob) (acc_Root (so_data ob)) of
           Inr tr \<Rightarrow> (Inr tr, ob\<lparr>so_trie := Some tr\<rparr>, s)
         | Inl (Panic m) \<Rightarrow> (Inl (Panic m), ob, s)
         | Inl (Err e) \<Rightarrow>
             case db_OpenStorageTrie B (addrHash ob) 0 of
               Inr tr \<Rightarrow> (Inr tr, so_setError (openErr e) (ob\<lparr>so_trie := Some tr\<rparr>), s)
             | Inl (Panic m) \<Rightarrow> (Inl (Panic m), ob, s)
             | Inl (Err e') \<Rightarrow> (Inl (Panic ''invalid memory address or nil pointer dereference''), so_setError (openErr e) ob, s))"

definition slot_value :: "byte list \<Rightarrow> hash" where
  "slot_value enc = (if enc = [] then 0 else case Split enc of Inr (_, content, _) \<Rightarrow> BytesToHash content | Inl _ \<Rightarrow> 0)"

definition slot_error :: "byte list \<Rightarrow> 'tr stateObject \<Rightarrow> 'tr stateObject" where
  "slot_error enc ob = (if enc = [] then ob else case Split enc of Inl e \<Rightarrow> so_setError (splitErr e) ob | Inr _ \<Rightarrow> ob)"

definition so_GetState :: "'tr Database \<Rightarrow> hash \<Rightarrow> ('tr, hash) obj_m" where
  "so_GetState B key = (\<lambda>(ob, s).
     case cachedStorage ob key of
       Some v \<Rightarrow> (Inr v, ob, s)
     | None \<Rightarrow> bindM (getTrie B) (\<lambda>tr (ob, s).
         case tr_TryGet B tr (hash_bytes key) of
           (Inl (Panic m), tr') \<Rightarrow> (Inl (Panic m), ob\<lparr>so_trie := Some tr'\<rparr>, s)
         | (Inl (Err e), tr') \<Rightarrow> (Inr 0, so_setError (trieErr e) (ob\<lparr>so_trie := Some tr'\<rparr>), s)
         | (Inr enc, tr') \<Rightarrow>
             let ob1 = slot_error enc (ob\<lparr>so_trie := Some tr'\<rparr>); v = slot_value enc
             in (Inr v, if v \<noteq> 0 then ob1\<lparr>cachedStorage := (cachedStorage ob1)(key \<mapsto> v)\<rparr> else ob1, s)) (ob, s))"

definition so_setState :: "hash \<Rightarrow> hash \<Rightarrow> ('tr, unit) obj_m" where
  "so_setState key v = bindM (change_obj (\<lambda>ob. ob\<lparr>cachedStorage := (cachedStorage ob)(key \<mapsto> v), dirtyStorage := (dirtyStorage ob)(key \<mapsto> v)\<rparr>)) (\<lambda>_. call_onDirty)"

definition so_SetState :: "'tr Database \<Rightarrow> hash \<Rightarrow> hash \<Rightarrow> ('tr, unit) obj_m" where
  "so_SetState B key v = bindM (so_GetState B key) (\<lambda>prev.
     bindM (journal_obj (\<lambda>ob. storageChange (so_address ob) key prev)) (\<lambda>_. so_setState key v))"

definition so_setBalance :: "int \<Rightarrow> ('tr, unit) obj_m" where
  "so_setBalance amount = bindM (change_obj (\<lambda>ob. ob\<lparr>so_data := (so_data ob)\<lparr>acc_Balance := amount\<rparr>\<rparr>)) (\<lambda>_. call_onDirty)"

definition so_SetBalance :: "int \<Rightarrow> ('tr, unit) obj_m" where
  "so_SetBalance amount = bindM (journal_obj (\<lambda>ob. balanceChange (so_address ob) (acc_Balance (so_data ob)))) (\<lambda>_. so_setBalance amount)"

definition so_AddBalance :: "crypto_lib \<Rightarrow> int \<Rightarrow> ('tr, unit) obj_m" where
  "so_AddBalance K amount = (\<lambda>(ob, s).
     if amount = 0 then (if so_empty K ob then so_touch else returnM ()) (ob, s)
     else so_SetBalance (acc_Balance (so_data ob) + amount) (ob, s))"

definition so_SubBalance :: "int \<Rightarrow> ('tr, unit) obj_m" where
  "so_SubBalance amount = (\<lambda>(ob, s).
     if amount = 0 then (Inr (), ob, s) else so_SetBalance (acc_Balance (so_data ob) - amount) (ob, s))"

definition so_setNonce :: "u64 \<Rightarrow> ('tr, unit) obj_m" where
  "so_setNonce n = bindM (change_obj (\<lambda>ob. ob\<lparr>so_data := (so_data ob)\<lparr>acc_Nonce := n\<rparr>\<rparr>)) (\<lambda>_. call_onDirty)"

definition so_SetNonce :: "u64 \<Rightarrow> ('tr, unit) obj_m" where
  "so_SetNonce n = bindM (journal_obj (\<lambda>ob. nonceChange (so_address ob) (acc_Nonce (so_data ob)))) (\<lambda>_. so_setNonce n)"

definition getCode :: "'tr Database \<Rightarrow> 'tr stateObject \<Rightarrow> ('tr, byte list) sdb_m" where
  "getCode B ob s =
    (let load = db_ContractCode B (addrHash ob) (BytesToHash (acc_CodeHash (so_data ob))) in
     case contractCodeCache s of
       None \<Rightarrow> (load, s)
     | Some c \<Rightarrow>
         case c (so_address ob) of
           Some code \<Rightarrow> (Inr code, s)
         | None \<Rightarrow>
             case load of
               Inl e \<Rightarrow> (Inl e, s)
             | Inr code \<Rightarrow> (Inr code, s\<lparr>contractCodeCache := Some (lru_Add B c (so_address ob) code)\<rparr>))"

text \<open>The code of a chief contract is kept in a cache of its own.\<close>

definition chief_getCode :: "'tr Database \<Rightarrow> 'tr stateObject \<Rightarrow> ('tr, byte list) sdb_m" where
  "chief_getCode B ob s =
    (case chiefContractCodeCache s (so_address ob) of
       Some code \<Rightarrow> (Inr code, s)
     | None \<Rightarrow>
         case db_ContractCode B (addrHash ob) (BytesToHash (acc_CodeHash (so_data ob))) of
           Inl e \<Rightarrow> (Inl e, s)
         | Inr code \<Rightarrow> (Inr code, s\<lparr>chiefContractCodeCache := (chiefContractCodeCache s)(so_address ob \<mapsto> code)\<rparr>))"

definition so_Code :: "'tr Database \<Rightarrow> ('tr, byte list option) obj_m" where
  "so_Code B = (\<lambda>(ob, s).
     case so_code ob of
       Some c \<Rightarrow> (Inr (Some c), ob, s)
     | None \<Rightarrow>
         if acc_CodeHash (so_data ob) = emptyCodeHash (db_crypto B) then (Inr None, ob, s)
         else
           let (chief, l) = IsChiefAddress (db_getenv B) (chief_list s) (so_address ob);
               s1 = s\<lparr>chief_list := l\<rparr>
           in case (if chief then chief_getCode B ob s1 else getCode B ob s1) of
                (Inl (Panic m), s2) \<Rightarrow> (Inl (Panic m), ob, s2)
              | (Inl (Err e), s2) \<Rightarrow> (Inr None, so_setError (codeErr e) (ob\<lparr>so_code := None\<rparr>), s2)
              | (Inr code, s2) \<Rightarrow> (Inr (Some code), ob\<lparr>so_code := Some code\<rparr>, s2))"

definition so_setCode :: "hash \<Rightarrow> byte list option \<Rightarrow> ('tr, unit) obj_m" where
  "so_setCode codeHash code = bindM (change_obj (\<lambda>ob. ob\<lparr>so_code := code,
     so_data := (so_data ob)\<lparr>acc_CodeHash := hash_bytes codeHash\<rparr>, dirtyCode := True\<rparr>)) (\<lambda>_. call_onDirty)"

definition so_SetCode :: "'tr Database \<Rightarrow> hash \<Rightarrow> byte list option \<Rightarrow> ('tr, unit) obj_m" where
  "so_SetCode B codeHash code = bindM (so_Code B) (\<lambda>prev.
     bindM (journal_obj (\<lambda>ob. codeChange (so_address ob) prev (acc_CodeHash (so_data ob)))) (\<lambda>_. so_setCode codeHash code))"

section \<open>Access to accounts\<close>

definition account_rlp :: "Account \<Rightarrow> rlp_value" where
  "account_rlp d = RList [RUint (acc_Nonce d), RBig (Some (acc_Balance d)), RBytes (hash_bytes (acc_Root d)), RBytes (acc_CodeHash d)]"

definition account_shape :: shape where
  "account_shape = ShStruct [ShUint 64, ShBig, ShArray 32, ShBytes]"

text \<open>\<^verbatim>\<open>rlp.DecodeBytes(enc, &data)\<close>\<close>

definition decode_account :: "byte list \<Rightarrow> (rlp_error, Account) result" where
  "decode_account enc = and_then (DecodeBytes account_shape enc) (\<lambda>v.
     case v of
       RList [RUint n, RBig (Some b), RBytes r, RBytes c] \<Rightarrow>
         Inr \<lparr>acc_Nonce = n, acc_Balance = b, acc_Root = BytesToHash r, acc_CodeHash = c\<rparr>
     | _ \<Rightarrow> Inl (Panic ''reflect''))"

definition setStateObject :: "'tr stateObject \<Rightarrow> 'tr StateDB \<Rightarrow> 'tr StateDB" where
  "setStateObject ob s = s\<lparr>stateObjects := (stateObjects s)(so_address ob \<mapsto> ob)\<rparr>"

text \<open>A method call on an object of the live set: the set holds the object it leaves.\<close>

definition on_object :: "'tr stateObject \<Rightarrow> ('tr, 'a) obj_m \<Rightarrow> ('tr, 'a) sdb_m" where
  "on_object ob m s = (case m (ob, s) of (r, ob', s') \<Rightarrow> (r, setStateObject ob' s'))"

text \<open>\<^verbatim>\<open>newObject\<close> creates the code cache when there is none.\<close>

definition init_code_cache :: "'tr StateDB \<Rightarrow> 'tr StateDB" where
  "init_code_cache s = (if contractCodeCache s = None then s\<lparr>contractCodeCache := Some Map.empty\<rparr> else s)"

definition getStateObject :: "'tr Database \<Rightarrow> address \<Rightarrow> ('tr, 'tr stateObject option) sdb_m" where
  "getStateObject B addr s =
    (case stateObjects s addr of
       Some ob \<Rightarrow> (Inr (if deleted ob then None else Some ob), s)
     | None \<Rightarrow>
         case tr_TryGet B (sdb_trie s) (address_bytes addr) of
           (Inl (Panic m), tr) \<Rightarrow> (Inl (Panic m), s\<lparr>sdb_trie := tr\<rparr>)
         | (Inl (Err e), tr) \<Rightarrow> (Inr None, sdb_setError (trieErr e) (s\<lparr>sdb_trie := tr\<rparr>))
         | (Inr enc, tr) \<Rightarrow>
             let s1 = s\<lparr>sdb_trie := tr\<rparr> in
             if enc = [] then (Inr None, s1)
             else case decode_account enc of
               Inl (Panic m) \<Rightarrow> (Inl (Panic m), s1)
             | Inl (Err _) \<Rightarrow> (Inr None, s1)
             | Inr data \<Rightarrow>
                 let ob = newObject (db_crypto B) addr data in
                 (Inr (Some ob), setStateObject ob (init_code_cache s1)))"

definition createObject :: "'tr Database \<Rightarrow> address \<Rightarrow> ('tr, 'tr stateObject \<times> 'tr stateObject option) sdb_m" where
  "createObject B addr = bindM (getStateObject B addr) (\<lambda>prev s.
     case so_setNonce 0 (newObject (db_crypto B) addr (new_account (db_crypto B)), init_code_cache s) of
       (Inl e, _, s1) \<Rightarrow> (Inl e, s1)
     | (Inr _, newobj, s1) \<Rightarrow>
         let s2 = append_journal (case prev of None \<Rightarrow> createObjectChange addr | Some p \<Rightarrow> resetObjectChange p) s1 in
         (Inr (newobj, prev), setStateObject newobj s2))"

definition GetOrNewStateObject :: "'tr Database \<Rightarrow> address \<Rightarrow> ('tr, 'tr stateObject) sdb_m" where
  "GetOrNewStateObject B addr = bindM (getStateObject B addr) (\<lambda>ob.
     case ob of
       Some ob \<Rightarrow> if deleted ob then bindM (createObject B addr) (\<lambda>(n, _). returnM n) else returnM ob
     | None \<Rightarrow> bindM (createObject B addr) (\<lambda>(n, _). returnM n))"

text \<open>\<^verbatim>\<open>if stateObject != nil { return f(stateObject) }; return dflt\<close>\<close>

definition with_object :: "'tr Database \<Rightarrow> address \<Rightarrow> 'a \<Rightarrow> ('tr, 'a) obj_m \<Rightarrow> ('tr, 'a) sdb_m" where
  "with_object B addr dflt m = bindM (getStateObject B addr) (\<lambda>ob. case ob of None \<Rightarrow> returnM dflt | Some ob \<Rightarrow> on_object ob m)"

definition read_obj :: "('tr stateObject \<Rightarrow> 'a) \<Rightarrow> ('tr, 'a) obj_m" where
  "read_obj f = readM (\<lambda>(ob, s). f ob)"

definition Exist :: "'tr Database \<Rightarrow> address \<Rightarrow> ('tr, bool) sdb_m" where
  "Exist B addr = with_object B addr False (read_obj (\<lambda>_. True))"

definition Empty :: "'tr Database \<Rightarrow> address \<Rightarrow> ('tr, bool) sdb_m" where
  "Empty B addr = with_object B addr True (read_obj (so_empty (db_crypto B)))"

definition GetBalance :: "'tr Database \<Rightarrow> address \<Rightarrow> ('tr, int) sdb_m" where
  "GetBalance B addr = with_object B addr 0 (read_obj (\<lambda>ob. acc_Balance (so_data ob)))"

definition GetNonce :: "'tr Database \<Rightarrow> address \<Rightarrow> ('tr, u64) sdb_m" where
  "GetNonce B addr = with_object B addr 0 (read_obj (\<lambda>ob. acc_Nonce (so_data ob)))"

definition GetCode :: "'tr Database \<Rightarrow> address \<Rightarrow> ('tr, byte list option) sdb_m" where
  "GetCode B addr = with_object B addr None (so_Code B)"

definition GetCodeSize :: "'tr Database \<Rightarrow> address \<Rightarrow> ('tr, nat) sdb_m" where
  "GetCodeSize B addr = bindM (getStateObject B addr) (\<lambda>ob s.
     case ob of
       None \<Rightarrow> (Inr 0, s)
     | Some ob \<Rightarrow>
         case so_code ob of
           Some c \<Rightarrow> (Inr (length c), s)
         | None \<Rightarrow>
             case db_ContractCodeSize B (addrHash ob) (BytesToHash (acc_CodeHash (so_data ob))) of
               Inr n \<Rightarrow> (Inr n, s)
             | Inl (Err e) \<Rightarrow> (Inr 0, sdb_setError (codeErr e) s)
             | Inl (Panic m) \<Rightarrow> (Inl (Panic m), s))"

definition GetCodeHash :: "'tr Database \<Rightarrow> address \<Rightarrow> ('tr, hash) sdb_m" where
  "GetCodeHash B addr = with_object B addr 0 (read_obj (\<lambda>ob. BytesToHash (acc_CodeHash (so_data ob))))"

definition GetState :: "'tr Database \<Rightarrow> address \<Rightarrow> hash \<Rightarrow> ('tr, hash) sdb_m" where
  "GetState B addr key = with_object B addr 0 (so_GetState B key)"

definition HasSuicided :: "'tr Database \<Rightarrow> address \<Rightarrow> ('tr, bool) sdb_m" where
  "HasSuicided B addr = with_object B addr False (read_obj suicided)"

section \<open>Changing accounts\<close>

definition on_new_object :: "'tr Database \<Rightarrow> address \<Rightarrow> ('tr, unit) obj_m \<Rightarrow> ('tr, unit) sdb_m" where
  "on_new_object B addr m = bindM (GetOrNewStateObject B addr) (\<lambda>ob. on_object ob m)"

definition AddBalance :: "'tr Database \<Rightarrow> address \<Rightarrow> int \<Rightarrow> ('tr, unit) sdb_m" where
  "AddBalance B addr amount = on_new_object B addr (so_AddBalance (db_crypto B) amount)"

definition SubBalance :: "'tr Database \<Rightarrow> address \<Rightarrow> int \<Rightarrow> ('tr, unit) sdb_m" where
  "SubBalance B addr amount = on_new_object B addr (so_SubBalance amount)"

definition SetBalance :: "'tr Database \<Rightarrow> address \<Rightarrow> int \<Rightarrow> ('tr, unit) sdb_m" where
  "SetBalance B addr amount = on_new_object B addr (so_SetBalance amount)"

definition SetNonce :: "'tr Database \<Rightarrow> address \<Rightarrow> u64 \<Rightarrow> ('tr, unit) sdb_m" where
  "SetNonce B addr n = on_new_object B addr (so_SetNonce n)"

definition SetCode :: "'tr Database \<Rightarrow> address \<Rightarrow> byte list option \<Rightarrow> ('tr, unit) sdb_m" where
  "SetCode B addr code = on_new_object B addr
     (so_SetCode B (Keccak256Hash (db_crypto B) (case code of None \<Rightarrow> [] | Some c \<Rightarrow> c)) code)"

definition SetState :: "'tr Database \<Rightarrow> address \<Rightarrow> hash \<Rightarrow> hash \<Rightarrow> ('tr, unit) sdb_m" where
  "SetState B addr key v = on_new_object B addr (so_SetState B key v)"

definition Suicide :: "'tr Database \<Rightarrow> address \<Rightarrow> ('tr, bool) sdb_m" where
  "Suicide B addr = with_object B addr False (
     bindM (journal_obj (\<lambda>ob. suicideChange addr (suicided ob) (acc_Balance (so_data ob)))) (\<lambda>_.
     bindM markSuicided (\<lambda>_.
     bindM (change_obj (\<lambda>ob. ob\<lparr>so_data := (so_data ob)\<lparr>acc_Balance := 0\<rparr>\<rparr>)) (\<lambda>_. returnM True))))"

definition CreateAccount :: "'tr Database \<Rightarrow> address \<Rightarrow> ('tr, unit) sdb_m" where
  "CreateAccount B addr = bindM (createObject B addr) (\<lambda>(n, prev).
     case prev of None \<Rightarrow> returnM () | Some p \<Rightarrow> on_object n (so_setBalance (acc_Balance (so_data p))))"

definition AddLog :: "Log \<Rightarrow> ('tr, unit) sdb_m" where
  "AddLog log = modifyM (\<lambda>s.
     let s1 = append_journal (addLogChange (thash s)) s;
         log' = log\<lparr>log_TxHash := thash s, log_BlockHash := bhash s, log_TxIndex := txIndex s, log_Index := logSize s\<rparr>
     in s1\<lparr>logs := (logs s)(thash s \<mapsto> (case logs s (thash s) of None \<Rightarrow> [] | Some l \<Rightarrow> l) @ [log']), logSize := logSize s + 1\<rparr>)"

definition AddPreimage :: "hash \<Rightarrow> byte list \<Rightarrow> ('tr, unit) sdb_m" where
  "AddPreimage hash preimage = modifyM (\<lambda>s.
     if preimages s hash = None
     then (append_journal (addPreimageChange hash) s)\<lparr>preimages := (preimages s)(hash \<mapsto> preimage)\<rparr> else s)"

definition AddRefund :: "u64 \<Rightarrow> ('tr, unit) sdb_m" where
  "AddRefund gas = modifyM (\<lambda>s. (append_journal (refundChange (refund s)) s)\<lparr>refund := refund s + gas\<rparr>)"

definition SubRefund :: "u64 \<Rightarrow> ('tr, unit) sdb_m" where
  "SubRefund gas s =
    (let s1 = append_journal (refundChange (refund s)) s in
     if gas > refund s then (Inl (Panic ''Refund counter below zero''), s1)
     else (Inr (), s1\<lparr>refund := refund s - gas\<rparr>))"

definition GetRefund :: "('tr, u64) sdb_m" where
  "GetRefund = readM refund"

definition GetLogs :: "hash \<Rightarrow> ('tr, Log list option) sdb_m" where
  "GetLogs h = readM (\<lambda>s. logs s h)"

definition sdb_Error :: "('tr, state_error option) sdb_m" where
  "sdb_Error = readM sdb_dbErr"

definition sdb_Prepare :: "hash \<Rightarrow> hash \<Rightarrow> int \<Rightarrow> ('tr, unit) sdb_m" where
  "sdb_Prepare th bh ti = modifyM (\<lambda>s. s\<lparr>thash := th, bhash := bh, txIndex := ti\<rparr>)"

section \<open>The journal\<close>

text \<open>The object must be there: the code dereferences the result of \<^verbatim>\<open>getStateObject\<close>.\<close>

definition undo_object :: "'tr Database \<Rightarrow> address \<Rightarrow> ('tr, unit) obj_m \<Rightarrow> ('tr, unit) sdb_m" where
  "undo_object B addr m = bindM (getStateObject B addr) (\<lambda>ob.
     case ob of None \<Rightarrow> panicM ''invalid memory address or nil pointer dereference'' | Some ob \<Rightarrow> on_object ob m)"

definition ripemd :: address where
  "ripemd = 3"

fun undo :: "'tr Database \<Rightarrow> 'tr journalEntry \<Rightarrow> ('tr, unit) sdb_m" where
  "undo B (createObjectChange addr) = modifyM (\<lambda>s.
     s\<lparr>stateObjects := (stateObjects s)(addr := None), stateObjectsDirty := stateObjectsDirty s - {addr}\<rparr>)"
| "undo B (resetObjectChange prev) = modifyM (setStateObject prev)"
| "undo B (suicideChange addr prev prevbalance) = with_object B addr ()
     (bindM (change_obj (\<lambda>ob. ob\<lparr>suicided := prev\<rparr>)) (\<lambda>_. so_setBalance prevbalance))"
| "undo B (touchChange addr prev prevDirty) =
     (if \<not> prev \<and> addr \<noteq> ripemd
      then bindM (undo_object B addr (change_obj (\<lambda>ob. ob\<lparr>touched := prev\<rparr>))) (\<lambda>_.
        modifyM (\<lambda>s. if \<not> prevDirty then s\<lparr>stateObjectsDirty := stateObjectsDirty s - {addr}\<rparr> else s))
      else returnM ())"
| "undo B (balanceChange addr prev) = undo_object B addr (so_setBalance prev)"
| "undo B (nonceChange addr prev) = undo_object B addr (so_setNonce prev)"
| "undo B (codeChange addr prevcode prevhash) = undo_object B addr (so_setCode (BytesToHash prevhash) prevcode)"
| "undo B (storageChange addr key prevalue) = undo_object B addr (so_setState key prevalue)"
| "undo B (refundChange prev) = modifyM (\<lambda>s. s\<lparr>refund := prev\<rparr>)"
| "undo B (addLogChange txhash) = (\<lambda>s.
     let lgs = (case logs s txhash of None \<Rightarrow> [] | Some l \<Rightarrow> l) in
     if length lgs = 1 then (Inr (), s\<lparr>logs := (logs s)(txhash := None), logSize := logSize s - 1\<rparr>)
     else if lgs = [] then (Inl (Panic ''slice bounds out of range''), s)
     else (Inr (), s\<lparr>logs := (logs s)(txhash \<mapsto> butlast lgs), logSize := logSize s - 1\<rparr>))"
| "undo B (addPreimageChange hash) = modifyM (\<lambda>s. s\<lparr>preimages := (preimages s)(hash := None)\<rparr>)"

fun undo_all :: "'tr Database \<Rightarrow> 'tr journalEntry list \<Rightarrow> ('tr, unit) sdb_m" where
  "undo_all B [] = returnM ()"
| "undo_all B (e # es) = bindM (undo B e) (\<lambda>_. undo_all B es)"

definition Snapshot :: "('tr, int) sdb_m" where
  "Snapshot s = (Inr (nextRevisionId s), s\<lparr>nextRevisionId := nextRevisionId s + 1,
     validRevisions := validRevisions s @ [(nextRevisionId s, length (journal s))]\<rparr>)"

text \<open>\<^verbatim>\<open>sort.Search\<close>: binary search for the first index that satisfies the predicate.\<close>

function search_loop :: "(nat \<Rightarrow> bool) \<Rightarrow> nat \<Rightarrow> nat \<Rightarrow> nat" where
  "search_loop f i j = (if i < j then let h = (i + j) div 2 in if \<not> f h then search_loop f (h + 1) j else search_loop f i h else i)"
  by auto
termination by (relation "measure (\<lambda>(f, i, j). j - i)") auto

declare search_loop.simps [simp del]

definition sort_Search :: "nat \<Rightarrow> (nat \<Rightarrow> bool) \<Rightarrow> nat" where
  "sort_Search n f = search_loop f 0 n"

text \<open>The loop undoes the journal from its end down to the position of the snapshot.\<close>

definition RevertToSnapshot :: "'tr Database \<Rightarrow> int \<Rightarrow> ('tr, unit) sdb_m" where
  "RevertToSnapshot B revid s =
    (let revs = validRevisions s; idx = sort_Search (length revs) (\<lambda>i. fst (revs ! i) \<ge> revid) in
     if idx = length revs \<or> fst (revs ! idx) \<noteq> revid then (Inl (Panic ''revision id cannot be reverted''), s)
     else
       let snapshot = snd (revs ! idx) in
       bindM (undo_all B (rev (drop snapshot (journal s)))) (\<lambda>_.
         modifyM (\<lambda>s. s\<lparr>journal := take snapshot (journal s), validRevisions := take idx (validRevisions s)\<rparr>)) s)"

definition clearJournalAndRefund :: "'tr StateDB \<Rightarrow> 'tr StateDB" where
  "clearJournalAndRefund s = s\<lparr>journal := [], validRevisions := [], refund := 0\<rparr>"

section \<open>Writing to the tries\<close>

text \<open>Go ranges over a map in an unspecified order: the order is an argument, a list of the keys.\<close>

definition trie_result :: "(trie_error, unit) result \<Rightarrow> 'tr \<Rightarrow> ('tr, unit) obj_m" where
  "trie_result r tr = (\<lambda>(ob, s).
     let ob1 = ob\<lparr>so_trie := Some tr\<rparr> in
     case r of Inr _ \<Rightarrow> (Inr (), ob1, s) | Inl (Err e) \<Rightarrow> (Inr (), so_setError (trieErr e) ob1, s) | Inl (Panic m) \<Rightarrow> (Inl (Panic m), ob1, s))"

text \<open>\<^verbatim>\<open>bytes.TrimLeft(value[:], "\x00")\<close>\<close>

definition trim_zeros :: "byte list \<Rightarrow> byte list" where
  "trim_zeros b = dropWhile (\<lambda>x. x = 0) b"

fun updateTrie_loop :: "'tr Database \<Rightarrow> hash list \<Rightarrow> ('tr, unit) obj_m" where
  "updateTrie_loop B [] = returnM ()"
| "updateTrie_loop B (key # keys) = bindM (\<lambda>(ob, s).
     case (dirtyStorage ob key, so_trie ob) of
       (Some v, Some tr) \<Rightarrow>
         let ob1 = ob\<lparr>dirtyStorage := (dirtyStorage ob)(key := None)\<rparr> in
         if v = 0 then (case tr_TryDelete B tr (hash_bytes key) of (r, tr') \<Rightarrow> trie_result r tr' (ob1, s))
         else (case EncodeToBytes (RBytes (trim_zeros (hash_bytes v))) of
                 Inr enc \<Rightarrow> (case tr_TryUpdate B tr (hash_bytes key) enc of (r, tr') \<Rightarrow> trie_result r tr' (ob1, s))
               | Inl _ \<Rightarrow> (case tr_TryUpdate B tr (hash_bytes key) [] of (r, tr') \<Rightarrow> trie_result r tr' (ob1, s)))
     | _ \<Rightarrow> (Inr (), ob, s)) (\<lambda>_. updateTrie_loop B keys)"

definition updateTrie :: "'tr Database \<Rightarrow> hash list \<Rightarrow> ('tr, unit) obj_m" where
  "updateTrie B keys = bindM (getTrie B) (\<lambda>_. updateTrie_loop B keys)"

text \<open>Replaces the trie of the object by the one an operation leaves.\<close>

definition on_trie :: "('tr \<Rightarrow> (trie_error, 'a) result \<times> 'tr) \<Rightarrow> ('tr, 'a) obj_m" where
  "on_trie f = (\<lambda>(ob, s). case so_trie ob of
     None \<Rightarrow> (Inl (Panic ''invalid memory address or nil pointer dereference''), ob, s)
   | Some tr \<Rightarrow> (case f tr of (r, tr') \<Rightarrow> (r, ob\<lparr>so_trie := Some tr'\<rparr>, s)))"

definition updateRoot :: "'tr Database \<Rightarrow> hash list \<Rightarrow> ('tr, unit) obj_m" where
  "updateRoot B keys = bindM (updateTrie B keys) (\<lambda>_. bindM (on_trie (tr_Hash B)) (\<lambda>h.
     change_obj (\<lambda>ob. ob\<lparr>so_data := (so_data ob)\<lparr>acc_Root := h\<rparr>\<rparr>)))"

text \<open>The result of an operation on the account trie.\<close>

definition sdb_trie_result :: "(trie_error, unit) result \<times> 'tr \<Rightarrow> ('tr, unit) sdb_m" where
  "sdb_trie_result rt s =
    (let s1 = s\<lparr>sdb_trie := snd rt\<rparr> in
     case fst rt of Inr _ \<Rightarrow> (Inr (), s1) | Inl (Err e) \<Rightarrow> (Inr (), sdb_setError (trieErr e) s1) | Inl (Panic m) \<Rightarrow> (Inl (Panic m), s1))"

definition updateStateObject :: "'tr Database \<Rightarrow> 'tr stateObject \<Rightarrow> ('tr, unit) sdb_m" where
  "updateStateObject B ob s =
    (case EncodeToBytes (account_rlp (so_data ob)) of
       Inl _ \<Rightarrow> (Inl (Panic ''can't encode object''), s)
     | Inr enc \<Rightarrow> sdb_trie_result (tr_TryUpdate B (sdb_trie s) (address_bytes (so_address ob)) enc) s)"

definition deleteStateObject :: "'tr Database \<Rightarrow> 'tr stateObject \<Rightarrow> ('tr, unit) sdb_m" where
  "deleteStateObject B ob s =
    (let s1 = setStateObject (ob\<lparr>deleted := True\<rparr>) s in
     sdb_trie_result (tr_TryDelete B (sdb_trie s1) (address_bytes (so_address ob))) s1)"

fun Finalise_loop :: "'tr Database \<Rightarrow> bool \<Rightarrow> (address \<Rightarrow> hash list) \<Rightarrow> address list \<Rightarrow> ('tr, unit) sdb_m" where
  "Finalise_loop B del keys [] = returnM ()"
| "Finalise_loop B del keys (addr # addrs) = bindM (\<lambda>s.
     case stateObjects s addr of
       None \<Rightarrow> (Inl (Panic ''invalid memory address or nil pointer dereference''), s)
     | Some ob \<Rightarrow>
         if suicided ob \<or> (del \<and> so_empty (db_crypto B) ob) then deleteStateObject B ob s
         else bindM (on_object ob (bindM (updateRoot B (keys addr)) (\<lambda>_. read_obj id))) (updateStateObject B) s)
     (\<lambda>_. Finalise_loop B del keys addrs)"

definition Finalise :: "'tr Database \<Rightarrow> bool \<Rightarrow> (address \<Rightarrow> hash list) \<Rightarrow> address list \<Rightarrow> ('tr, unit) sdb_m" where
  "Finalise B del keys addrs = bindM (Finalise_loop B del keys addrs) (\<lambda>_. modifyM clearJournalAndRefund)"

definition IntermediateRoot :: "'tr Database \<Rightarrow> bool \<Rightarrow> (address \<Rightarrow> hash list) \<Rightarrow> address list \<Rightarrow> ('tr, hash) sdb_m" where
  "IntermediateRoot B del keys addrs = bindM (Finalise B del keys addrs) (\<lambda>_ s.
     case tr_Hash B (sdb_trie s) of (r, tr) \<Rightarrow> (r, s\<lparr>sdb_trie := tr\<rparr>))"

fun DeleteSuicides_loop :: "address list \<Rightarrow> ('tr, unit) sdb_m" where
  "DeleteSuicides_loop [] = returnM ()"
| "DeleteSuicides_loop (addr # addrs) = bindM (\<lambda>s.
     case stateObjects s addr of
       None \<Rightarrow> (Inl (Panic ''invalid memory address or nil pointer dereference''), s)
     | Some ob \<Rightarrow>
         (Inr (), (if suicided ob then setStateObject (ob\<lparr>deleted := True\<rparr>) s else s)\<lparr>stateObjectsDirty := stateObjectsDirty s - {addr}\<rparr>))
     (\<lambda>_. DeleteSuicides_loop addrs)"

definition DeleteSuicides :: "address list \<Rightarrow> ('tr, unit) sdb_m" where
  "DeleteSuicides addrs = bindM (modifyM clearJournalAndRefund) (\<lambda>_. DeleteSuicides_loop addrs)"

text \<open>Committing also writes to a database, which is returned with the result.\<close>

type_synonym ('tr, 'a) commit_m = "('tr StateDB \<times> database, trie_error, 'a) go"

definition CommitTrie :: "'tr Database \<Rightarrow> hash list \<Rightarrow> 'tr stateObject \<Rightarrow> ('tr, 'tr stateObject) commit_m" where
  "CommitTrie B keys ob = (\<lambda>(s, w).
     case updateTrie B keys (ob, s) of
       (Inl e, ob1, s1) \<Rightarrow> (Inl e, setStateObject ob1 s1, w)
     | (Inr _, ob1, s1) \<Rightarrow>
         case so_dbErr ob1 of
           Some e \<Rightarrow> (Inl (Err (case e of trieErr t \<Rightarrow> t | openErr t \<Rightarrow> t | codeErr t \<Rightarrow> t | splitErr _ \<Rightarrow> decodeError)), setStateObject ob1 s1, w)
         | None \<Rightarrow>
             case so_trie ob1 of
               None \<Rightarrow> (Inl (Panic ''invalid memory address or nil pointer dereference''), setStateObject ob1 s1, w)
             | Some tr \<Rightarrow>
                 case tr_CommitTo B tr w of
                   (Inl e, w', tr') \<Rightarrow> (Inl e, setStateObject (ob1\<lparr>so_trie := Some tr'\<rparr>) s1, w')
                 | (Inr h, w', tr') \<Rightarrow>
                     let ob2 = ob1\<lparr>so_trie := Some tr', so_data := (so_data ob1)\<lparr>acc_Root := h\<rparr>\<rparr> in
                     (Inr ob2, setStateObject ob2 s1, w'))"

definition commit_code :: "'tr Database \<Rightarrow> 'tr stateObject \<Rightarrow> ('tr, 'tr stateObject) commit_m" where
  "commit_code B ob = (\<lambda>(s, w).
     case so_code ob of
       Some c \<Rightarrow>
         if dirtyCode ob then
           let h = acc_CodeHash (so_data ob) in
           if dbw_fails B h then (Inl (Err putError), s, w)
           else let ob1 = ob\<lparr>dirtyCode := False\<rparr> in (Inr ob1, setStateObject ob1 s, w(h \<mapsto> c))
         else (Inr ob, s, w)
     | None \<Rightarrow> (Inr ob, s, w))"

definition on_sdb :: "('tr, 'a) sdb_m \<Rightarrow> ('tr, 'a) commit_m" where
  "on_sdb m = (\<lambda>(s, w). case m s of (r, s') \<Rightarrow> (r, s', w))"

fun CommitTo_loop :: "'tr Database \<Rightarrow> bool \<Rightarrow> (address \<Rightarrow> hash list) \<Rightarrow> address list \<Rightarrow> ('tr, unit) commit_m" where
  "CommitTo_loop B del keys [] = returnM ()"
| "CommitTo_loop B del keys (addr # addrs) = bindM (\<lambda>(s, w).
     case stateObjects s addr of
       None \<Rightarrow> (Inr (), s, w)
     | Some ob \<Rightarrow>
         let isDirty = addr \<in> stateObjectsDirty s in
         bindM (if suicided ob \<or> (isDirty \<and> del \<and> so_empty (db_crypto B) ob) then on_sdb (deleteStateObject B ob)
                else if isDirty then
                  bindM (commit_code B ob) (\<lambda>ob1. bindM (CommitTrie B (keys addr) ob1) (\<lambda>ob2. on_sdb (updateStateObject B ob2)))
                else returnM ())
           (\<lambda>_. modifyM (\<lambda>(s, w). (s\<lparr>stateObjectsDirty := stateObjectsDirty s - {addr}\<rparr>, w))) (s, w))
     (\<lambda>_. CommitTo_loop B del keys addrs)"

text \<open>The deferred call runs whatever the result is.\<close>

definition sdb_CommitTo :: "'tr Database \<Rightarrow> bool \<Rightarrow> (address \<Rightarrow> hash list) \<Rightarrow> address list \<Rightarrow> ('tr, hash) commit_m" where
  "sdb_CommitTo B del keys addrs = (\<lambda>sw.
     case bindM (CommitTo_loop B del keys addrs) (\<lambda>_ (s, w).
         case tr_CommitTo B (sdb_trie s) w of (r, w', tr') \<Rightarrow> (r, s\<lparr>sdb_trie := tr'\<rparr>, w')) sw of
       (r, s', w') \<Rightarrow> (r, clearJournalAndRefund s', w'))"

section \<open>Creation and copies\<close>

definition state_New :: "'tr Database \<Rightarrow> hash \<Rightarrow> 'tr StateDB \<Rightarrow> (trie_error, 'tr StateDB) result" where
  "state_New B rt pkg = and_then (db_OpenTrie B rt) (\<lambda>tr. Inr (pkg\<lparr>sdb_trie := tr, stateObjects := Map.empty, stateObjectsDirty := {},
     sdb_dbErr := None, refund := 0, thash := 0, bhash := 0, txIndex := 0, logs := Map.empty, logSize := 0, preimages := Map.empty,
     journal := [], validRevisions := [], nextRevisionId := 0\<rparr>))"

definition sdb_Reset :: "'tr Database \<Rightarrow> hash \<Rightarrow> ('tr, unit) sdb_m" where
  "sdb_Reset B rt s = (case db_OpenTrie B rt of
     Inl e \<Rightarrow> (Inl e, s)
   | Inr tr \<Rightarrow> (Inr (), clearJournalAndRefund (s\<lparr>sdb_trie := tr, stateObjects := Map.empty, stateObjectsDirty := {},
       thash := 0, bhash := 0, txIndex := 0, logs := Map.empty, logSize := 0, preimages := Map.empty\<rparr>)))"

definition deepCopy :: "crypto_lib \<Rightarrow> 'tr stateObject \<Rightarrow> 'tr stateObject" where
  "deepCopy K ob = (newObject K (so_address ob) (so_data ob))\<lparr>so_trie := so_trie ob, so_code := so_code ob,
     dirtyStorage := dirtyStorage ob, cachedStorage := dirtyStorage ob, suicided := suicided ob, dirtyCode := dirtyCode ob,
     deleted := deleted ob\<rparr>"

text \<open>A dirty address without an object dereferences nil.\<close>

definition sdb_Copy :: "'tr Database \<Rightarrow> 'tr StateDB \<Rightarrow> (trie_error, 'tr StateDB) result" where
  "sdb_Copy B s =
    (if \<exists>addr \<in> stateObjectsDirty s. stateObjects s addr = None then Inl (Panic ''invalid memory address or nil pointer dereference'')
     else Inr (s\<lparr>stateObjects := (\<lambda>addr. if addr \<in> stateObjectsDirty s then map_option (deepCopy (db_crypto B)) (stateObjects s addr) else None),
       sdb_dbErr := None, thash := 0, bhash := 0, txIndex := 0, journal := [], validRevisions := [], nextRevisionId := 0\<rparr>))"

section \<open>Addresses and hashes as bytes\<close>

lemma array_bytes_length [simp]: "length (array_bytes n w) = n"
  by (simp add: array_bytes_def)

lemma uint_drop_bit: "uint (drop_bit k (w :: 'a::len word)) = uint w div 2 ^ k"
  using take_bit_int_eq_self[of "uint w" "LENGTH('a)"]
  by (simp only: unsigned_drop_bit_eq) (simp add: drop_bit_eq_div)

lemma digits_be_int: "map (\<lambda>i. word_of_int (be_int bs div 256 ^ i) :: byte) (rev [0..<length bs]) = bs"
proof (induction bs rule: rev_induct)
  case (snoc b bs)
  have d: "be_int (bs @ [b]) div 256 ^ Suc i = be_int bs div 256 ^ i" for i
  proof -
    have "(be_int bs * 256 + uint b) div 256 = be_int bs" using unsigned_less[of b, where 'a=int] by simp
    then show ?thesis by (simp add: be_int_append zdiv_zmult2_eq)
  qed
  have "(word_of_int (be_int bs * 256 + uint b) :: byte) = b"
  proof -
    have "uint (word_of_int (be_int bs * 256 + uint b) :: byte) = uint b"
      using unsigned_less[of b, where 'a=int] by (subst uint_word_of_int) simp
    then show ?thesis by (simp only: word_uint_eq_iff)
  qed
  moreover have "rev [0..<Suc (length bs)] = map Suc (rev [0..<length bs]) @ [0]"
    by (simp add: rev_map[symmetric] upt_rec[of 0 "Suc (length bs)"] map_Suc_upt del: upt_Suc)
  ultimately show ?case using snoc d by (simp add: be_int_append o_def del: upt_Suc)
qed simp

lemma array_bytes_be_int:
  assumes "length bs = n" "8 * n \<le> LENGTH('a::len)"
  shows "array_bytes n (word_of_int (be_int bs) :: 'a word) = bs"
proof -
  have "(256::int) ^ n = 2 ^ (8 * n)" by (simp add: power_mult)
  also have "\<dots> \<le> 2 ^ LENGTH('a)" using assms(2) by (intro power_increasing) simp_all
  finally have u: "uint (word_of_int (be_int bs) :: 'a word) = be_int bs"
    using be_int_bound[of bs] assms(1) by (simp add: uint_word_of_int)
  have "ucast (drop_bit (8 * i) (word_of_int (be_int bs) :: 'a word)) = (word_of_int (be_int bs div 256 ^ i) :: byte)" for i
  proof -
    have "(2::int) ^ (8 * i) = 256 ^ i" by (simp add: power_mult)
    then show ?thesis using uint_drop_bit[of "8 * i" "word_of_int (be_int bs) :: 'a word"] u by (metis of_int_uint)
  qed
  then show ?thesis using digits_be_int[of bs] assms(1) by (simp add: array_bytes_def)
qed

lemma be_int_array_bytes: "be_int (array_bytes n w) = uint w mod 256 ^ n"
proof (induction n arbitrary: w)
  case (Suc n)
  have "array_bytes (Suc n) w = array_bytes n (drop_bit 8 w) @ [ucast w]"
  proof -
    have "rev [0..<Suc n] = map Suc (rev [0..<n]) @ [0]"
      by (simp add: rev_map[symmetric] upt_rec[of 0 "Suc n"] map_Suc_upt del: upt_Suc)
    then show ?thesis by (simp add: array_bytes_def o_def add.commute del: upt_Suc)
  qed
  moreover have "uint (ucast w :: byte) = uint w mod 256" by (simp add: unsigned_ucast_eq take_bit_eq_mod)
  ultimately show ?case using Suc[of "drop_bit 8 w"] mod_mult2_eq'[of "uint w" 256 "256 ^ n"] uint_drop_bit[of 8 w]
    by (simp add: be_int_append) 
qed (simp add: array_bytes_def)

lemma hash_bytes_BytesToHash: "length h = 32 \<Longrightarrow> hash_bytes (BytesToHash h) = h"
  by (simp add: hash_bytes_def BytesToHash_def array_bytes_be_int)

lemma BytesToHash_hash_bytes [simp]: "BytesToHash (hash_bytes h) = h"
  using unsigned_less[of h, where 'a = int] by (simp add: hash_bytes_def BytesToHash_def be_int_array_bytes array_bytes_length)

end
