(* ===== verification/State_World.thy ===== *)
theory State_World
  imports State_DB
begin

text \<open>
  What a \<^verbatim>\<open>StateDB\<close> promises its clients: the accounts behave as a map of values, a snapshot saves the
  whole map and reverting to it restores the map, whatever happened in between. This theory has the values, the machine that keeps saved
  copies of them, and the effect of undoing a journal entry on the values.\<close>

section \<open>The accounts as values\<close>

record acct =
  a_nonce :: u64
  a_balance :: int
  a_codeHash :: "byte list"
  a_storage :: "hash \<Rightarrow> hash"
  a_suicided :: bool

record world =
  w_accounts :: "address \<rightharpoonup> acct"
  w_refund :: u64
  w_logs :: "hash \<Rightarrow> Log list"
  w_logSize :: u64
  w_preimages :: "hash \<rightharpoonup> byte list"

definition logs_of :: "'tr StateDB \<Rightarrow> hash \<Rightarrow> Log list" where
  "logs_of s h = (case logs s h of None \<Rightarrow> [] | Some l \<Rightarrow> l)"

section \<open>Account data\<close>

lemma account_shape_ok: "shape_ok account_shape"
  by (simp add: account_shape_def)

lemma conforms_account:
  assumes "conforms account_shape v"
  obtains n b r c where "v = RList [RUint n, RBig (Some b), RBytes r, RBytes c]" "0 \<le> b" "length r = 32"
  using assms by (auto simp: account_shape_def split: rlp_value.splits list.splits option.splits)

lemma decode_account_no_panic: "length enc < 2 ^ 64 \<Longrightarrow> decode_account enc \<noteq> Inl (Panic m)"
proof
  assume l: "length enc < 2 ^ 64" and p: "decode_account enc = Inl (Panic m)"
  show False
  proof (cases "DecodeBytes account_shape enc")
    case (Inl f)
    then show False using DecodeBytes_no_panic[OF account_shape_ok l] p by (simp add: decode_account_def)
  next
    case (Inr v)
    then have "conforms account_shape v" using DecodeBytes_canonical_iff[OF account_shape_ok l] by blast
    then show False using Inr p by (elim conforms_account) (simp add: decode_account_def)
  qed
qed

text \<open>
  The content of a storage trie, a storage slot, and the object that \<^verbatim>\<open>getStateObject\<close> finds. The
  argument \<open>content\<close> maps a trie to its entries, with the empty string for an absent key.\<close>

definition opened :: "'tr Database \<Rightarrow> ('tr \<Rightarrow> byte list \<Rightarrow> byte list) \<Rightarrow> hash \<Rightarrow> hash \<Rightarrow> byte list \<Rightarrow> byte list" where
  "opened B content ah r = (case db_OpenStorageTrie B ah r of Inr tr \<Rightarrow> content tr | Inl _ \<Rightarrow> (\<lambda>_. []))"

definition obj_map :: "'tr Database \<Rightarrow> ('tr \<Rightarrow> byte list \<Rightarrow> byte list) \<Rightarrow> 'tr stateObject \<Rightarrow> byte list \<Rightarrow> byte list" where
  "obj_map B content ob = (case so_trie ob of Some tr \<Rightarrow> content tr | None \<Rightarrow> opened B content (addrHash ob) (acc_Root (so_data ob)))"

definition slot :: "'tr Database \<Rightarrow> ('tr \<Rightarrow> byte list \<Rightarrow> byte list) \<Rightarrow> 'tr stateObject \<Rightarrow> hash \<Rightarrow> hash" where
  "slot B content ob k = (case cachedStorage ob k of Some v \<Rightarrow> v | None \<Rightarrow> slot_value (obj_map B content ob (hash_bytes k)))"

definition acct_of :: "'tr Database \<Rightarrow> ('tr \<Rightarrow> byte list \<Rightarrow> byte list) \<Rightarrow> 'tr stateObject \<Rightarrow> acct" where
  "acct_of B content ob = \<lparr>a_nonce = acc_Nonce (so_data ob), a_balance = acc_Balance (so_data ob), a_codeHash = acc_CodeHash (so_data ob),
     a_storage = slot B content ob, a_suicided = suicided ob\<rparr>"

definition load_account :: "(byte list \<Rightarrow> byte list) \<Rightarrow> address \<Rightarrow> Account option" where
  "load_account c a = (if c (address_bytes a) = [] then None else case decode_account (c (address_bytes a)) of Inr d \<Rightarrow> Some d | Inl _ \<Rightarrow> None)"

definition lookup :: "'tr Database \<Rightarrow> ('tr \<Rightarrow> byte list \<Rightarrow> byte list) \<Rightarrow> 'tr StateDB \<Rightarrow> address \<Rightarrow> 'tr stateObject option" where
  "lookup B content s a = (case stateObjects s a of
     Some ob \<Rightarrow> if deleted ob then None else Some ob
   | None \<Rightarrow> map_option (newObject (db_crypto B) a) (load_account (content (sdb_trie s)) a))"

definition world_of :: "'tr Database \<Rightarrow> ('tr \<Rightarrow> byte list \<Rightarrow> byte list) \<Rightarrow> 'tr StateDB \<Rightarrow> world" where
  "world_of B content s = \<lparr>w_accounts = (\<lambda>a. map_option (acct_of B content) (lookup B content s a)), w_refund = refund s,
     w_logs = logs_of s, w_logSize = logSize s, w_preimages = preimages s\<rparr>"

text \<open>Undoing an entry on the values; None where the code would panic.\<close>

definition set_acct :: "address \<Rightarrow> (acct \<Rightarrow> acct) \<Rightarrow> world \<Rightarrow> world" where
  "set_acct a f w = w\<lparr>w_accounts := (w_accounts w)(a := map_option f (w_accounts w a))\<rparr>"

definition undo_acct :: "address \<Rightarrow> (acct \<Rightarrow> acct) \<Rightarrow> world \<Rightarrow> world option" where
  "undo_acct a f w = (if w_accounts w a = None then None else Some (set_acct a f w))"

fun wundo :: "('tr stateObject \<Rightarrow> acct) \<Rightarrow> 'tr journalEntry \<Rightarrow> world \<Rightarrow> world option" where
  "wundo va (createObjectChange a) w = Some (w\<lparr>w_accounts := (w_accounts w)(a := None)\<rparr>)"
| "wundo va (resetObjectChange p) w = Some (w\<lparr>w_accounts := (w_accounts w)(so_address p \<mapsto> va p)\<rparr>)"
| "wundo va (suicideChange a p b) w = Some (set_acct a (\<lambda>x. x\<lparr>a_suicided := p, a_balance := b\<rparr>) w)"
| "wundo va (touchChange a p d) w = (if \<not> p \<and> a \<noteq> ripemd then undo_acct a id w else Some w)"
| "wundo va (balanceChange a b) w = undo_acct a (\<lambda>x. x\<lparr>a_balance := b\<rparr>) w"
| "wundo va (nonceChange a n) w = undo_acct a (\<lambda>x. x\<lparr>a_nonce := n\<rparr>) w"
| "wundo va (codeChange a c h) w = undo_acct a (\<lambda>x. x\<lparr>a_codeHash := h\<rparr>) w"
| "wundo va (storageChange a k v) w = undo_acct a (\<lambda>x. x\<lparr>a_storage := (a_storage x)(k := v)\<rparr>) w"
| "wundo va (refundChange r) w = Some (w\<lparr>w_refund := r\<rparr>)"
| "wundo va (addLogChange h) w = (if w_logs w h = [] then None
     else Some (w\<lparr>w_logs := (w_logs w)(h := butlast (w_logs w h)), w_logSize := w_logSize w - 1\<rparr>))"
| "wundo va (addPreimageChange h) w = Some (w\<lparr>w_preimages := (w_preimages w)(h := None)\<rparr>)"

fun wundos :: "('tr stateObject \<Rightarrow> acct) \<Rightarrow> 'tr journalEntry list \<Rightarrow> world \<Rightarrow> world option" where
  "wundos va [] w = Some w"
| "wundos va (e # es) w = Option.bind (wundo va e w) (wundos va es)"

lemma wundos_append: "wundos va (xs @ ys) w = Option.bind (wundos va xs w) (wundos va ys)"
  by (induction xs arbitrary: w) (auto simp: Option.bind_eq_None_conv split: Option.bind_splits)

section \<open>The contract: a map of values and saved copies of it\<close>

text \<open>A machine that keeps the values, the copies saved by snapshots and the current transaction.\<close>

record machine =
  m_world :: world
  m_saved :: "(int \<times> world) list"
  m_next :: int
  m_tx :: "hash \<times> hash \<times> int"

type_synonym 'a machine_m = "(machine, trie_error, 'a) go"

datatype sop =
    OpExist address
  | OpEmpty address
  | OpGetBalance address
  | OpGetNonce address
  | OpGetCodeHash address
  | OpGetState address hash
  | OpHasSuicided address
  | OpGetRefund
  | OpAddBalance address int
  | OpSubBalance address int
  | OpSetBalance address int
  | OpSetNonce address u64
  | OpSetCode address "byte list option"
  | OpSetState address hash hash
  | OpSuicide address
  | OpCreateAccount address
  | OpAddLog Log
  | OpAddPreimage hash "byte list"
  | OpAddRefund u64
  | OpSubRefund u64
  | OpPrepare hash hash int
  | OpSnapshot
  | OpRevert int

datatype sres = RUnit | RBool bool | RInt int | RU64 u64 | RHash hash

definition retM :: "('s, 'e, 'a) go \<Rightarrow> ('a \<Rightarrow> 'b) \<Rightarrow> ('s, 'e, 'b) go" where
  "retM m f = bindM m (\<lambda>x. returnM (f x))"

lemma retM_run [simp]: "retM m f s = (case m s of (Inl e, s') \<Rightarrow> (Inl e, s') | (Inr v, s') \<Rightarrow> (Inr (f v), s'))"
  by (auto simp: retM_def bindM_run split: prod.splits sum.splits)

fun sop_exec :: "'tr Database \<Rightarrow> sop \<Rightarrow> ('tr, sres) sdb_m" where
  "sop_exec B (OpExist a) = retM (Exist B a) RBool"
| "sop_exec B (OpEmpty a) = retM (Empty B a) RBool"
| "sop_exec B (OpGetBalance a) = retM (GetBalance B a) RInt"
| "sop_exec B (OpGetNonce a) = retM (GetNonce B a) RU64"
| "sop_exec B (OpGetCodeHash a) = retM (GetCodeHash B a) RHash"
| "sop_exec B (OpGetState a k) = retM (GetState B a k) RHash"
| "sop_exec B (OpHasSuicided a) = retM (HasSuicided B a) RBool"
| "sop_exec B OpGetRefund = retM GetRefund RU64"
| "sop_exec B (OpAddBalance a n) = retM (AddBalance B a n) (\<lambda>_. RUnit)"
| "sop_exec B (OpSubBalance a n) = retM (SubBalance B a n) (\<lambda>_. RUnit)"
| "sop_exec B (OpSetBalance a n) = retM (SetBalance B a n) (\<lambda>_. RUnit)"
| "sop_exec B (OpSetNonce a n) = retM (SetNonce B a n) (\<lambda>_. RUnit)"
| "sop_exec B (OpSetCode a c) = retM (SetCode B a c) (\<lambda>_. RUnit)"
| "sop_exec B (OpSetState a k v) = retM (SetState B a k v) (\<lambda>_. RUnit)"
| "sop_exec B (OpSuicide a) = retM (Suicide B a) RBool"
| "sop_exec B (OpCreateAccount a) = retM (CreateAccount B a) (\<lambda>_. RUnit)"
| "sop_exec B (OpAddLog l) = retM (AddLog l) (\<lambda>_. RUnit)"
| "sop_exec B (OpAddPreimage h p) = retM (AddPreimage h p) (\<lambda>_. RUnit)"
| "sop_exec B (OpAddRefund n) = retM (AddRefund n) (\<lambda>_. RUnit)"
| "sop_exec B (OpSubRefund n) = retM (SubRefund n) (\<lambda>_. RUnit)"
| "sop_exec B (OpPrepare th bh ti) = retM (sdb_Prepare th bh ti) (\<lambda>_. RUnit)"
| "sop_exec B OpSnapshot = retM Snapshot RInt"
| "sop_exec B (OpRevert i) = retM (RevertToSnapshot B i) (\<lambda>_. RUnit)"

fun sop_run :: "'tr Database \<Rightarrow> sop list \<Rightarrow> ('tr, sres list) sdb_m" where
  "sop_run B [] = returnM []"
| "sop_run B (p # ps) = bindM (sop_exec B p) (\<lambda>r. bindM (sop_run B ps) (\<lambda>rs. returnM (r # rs)))"

text \<open>The same operations on the machine.\<close>

definition fresh_acct :: "crypto_lib \<Rightarrow> acct" where
  "fresh_acct K = \<lparr>a_nonce = 0, a_balance = 0, a_codeHash = emptyCodeHash K, a_storage = (\<lambda>_. 0), a_suicided = False\<rparr>"

definition put_acct :: "address \<Rightarrow> acct \<Rightarrow> world \<Rightarrow> world" where
  "put_acct a x w = w\<lparr>w_accounts := (w_accounts w)(a \<mapsto> x)\<rparr>"

definition acct_empty :: "crypto_lib \<Rightarrow> acct \<Rightarrow> bool" where
  "acct_empty K x \<longleftrightarrow> a_nonce x = 0 \<and> a_balance x = 0 \<and> a_codeHash x = emptyCodeHash K"

definition m_read :: "address \<Rightarrow> 'a \<Rightarrow> (acct \<Rightarrow> 'a) \<Rightarrow> 'a machine_m" where
  "m_read a d f = readM (\<lambda>m. case w_accounts (m_world m) a of None \<Rightarrow> d | Some x \<Rightarrow> f x)"

definition m_upd :: "(world \<Rightarrow> world) \<Rightarrow> sres machine_m" where
  "m_upd f = (\<lambda>m. (Inr RUnit, m\<lparr>m_world := f (m_world m)\<rparr>))"

definition w_change :: "crypto_lib \<Rightarrow> address \<Rightarrow> (acct \<Rightarrow> acct) \<Rightarrow> world \<Rightarrow> world" where
  "w_change K a f w = put_acct a (f (case w_accounts w a of None \<Rightarrow> fresh_acct K | Some x \<Rightarrow> x)) w"

definition m_log :: "Log \<Rightarrow> hash \<times> hash \<times> int \<Rightarrow> world \<Rightarrow> world" where
  "m_log l tx w = (case tx of (th, bh, ti) \<Rightarrow> w\<lparr>w_logs := (w_logs w)(th := w_logs w th @
     [l\<lparr>log_TxHash := th, log_BlockHash := bh, log_TxIndex := ti, log_Index := w_logSize w\<rparr>]), w_logSize := w_logSize w + 1\<rparr>)"

definition m_revert :: "int \<Rightarrow> sres machine_m" where
  "m_revert i m = (case map_of (m_saved m) i of
     None \<Rightarrow> (Inl (Panic ''revision id cannot be reverted''), m)
   | Some w \<Rightarrow> (Inr RUnit, m\<lparr>m_world := w, m_saved := takeWhile (\<lambda>(j, _). j \<noteq> i) (m_saved m)\<rparr>))"

fun m_exec :: "crypto_lib \<Rightarrow> sop \<Rightarrow> sres machine_m" where
  "m_exec K (OpExist a) = m_read a (RBool False) (\<lambda>_. RBool True)"
| "m_exec K (OpEmpty a) = m_read a (RBool True) (\<lambda>x. RBool (acct_empty K x))"
| "m_exec K (OpGetBalance a) = m_read a (RInt 0) (\<lambda>x. RInt (a_balance x))"
| "m_exec K (OpGetNonce a) = m_read a (RU64 0) (\<lambda>x. RU64 (a_nonce x))"
| "m_exec K (OpGetCodeHash a) = m_read a (RHash 0) (\<lambda>x. RHash (BytesToHash (a_codeHash x)))"
| "m_exec K (OpGetState a k) = m_read a (RHash 0) (\<lambda>x. RHash (a_storage x k))"
| "m_exec K (OpHasSuicided a) = m_read a (RBool False) (\<lambda>x. RBool (a_suicided x))"
| "m_exec K OpGetRefund = readM (\<lambda>m. RU64 (w_refund (m_world m)))"
| "m_exec K (OpAddBalance a n) = m_upd (w_change K a (\<lambda>x. x\<lparr>a_balance := a_balance x + n\<rparr>))"
| "m_exec K (OpSubBalance a n) = m_upd (w_change K a (\<lambda>x. x\<lparr>a_balance := a_balance x - n\<rparr>))"
| "m_exec K (OpSetBalance a n) = m_upd (w_change K a (\<lambda>x. x\<lparr>a_balance := n\<rparr>))"
| "m_exec K (OpSetNonce a n) = m_upd (w_change K a (\<lambda>x. x\<lparr>a_nonce := n\<rparr>))"
| "m_exec K (OpSetCode a c) = m_upd (w_change K a (\<lambda>x. x\<lparr>a_codeHash := keccak K (case c of None \<Rightarrow> [] | Some b \<Rightarrow> b)\<rparr>))"
| "m_exec K (OpSetState a k v) = m_upd (w_change K a (\<lambda>x. x\<lparr>a_storage := (a_storage x)(k := v)\<rparr>))"
| "m_exec K (OpSuicide a) = bindM (m_upd (set_acct a (\<lambda>x. x\<lparr>a_suicided := True, a_balance := 0\<rparr>))) (\<lambda>_.
     m_read a (RBool False) (\<lambda>_. RBool True))"
| "m_exec K (OpCreateAccount a) = m_upd (\<lambda>w. put_acct a (case w_accounts w a of None \<Rightarrow> fresh_acct K | Some x \<Rightarrow> (fresh_acct K)\<lparr>a_balance := a_balance x\<rparr>) w)"
| "m_exec K (OpAddLog l) = (\<lambda>m. m_upd (m_log l (m_tx m)) m)"
| "m_exec K (OpAddPreimage h p) = m_upd (\<lambda>w. if w_preimages w h = None then w\<lparr>w_preimages := (w_preimages w)(h \<mapsto> p)\<rparr> else w)"
| "m_exec K (OpAddRefund n) = m_upd (\<lambda>w. w\<lparr>w_refund := w_refund w + n\<rparr>)"
| "m_exec K (OpSubRefund n) = (\<lambda>m. if n > w_refund (m_world m) then (Inl (Panic ''Refund counter below zero''), m)
     else m_upd (\<lambda>w. w\<lparr>w_refund := w_refund w - n\<rparr>) m)"
| "m_exec K (OpPrepare th bh ti) = (\<lambda>m. (Inr RUnit, m\<lparr>m_tx := (th, bh, ti)\<rparr>))"
| "m_exec K OpSnapshot = (\<lambda>m. (Inr (RInt (m_next m)), m\<lparr>m_saved := m_saved m @ [(m_next m, m_world m)], m_next := m_next m + 1\<rparr>))"
| "m_exec K (OpRevert i) = m_revert i"

fun m_run :: "crypto_lib \<Rightarrow> sop list \<Rightarrow> sres list machine_m" where
  "m_run K [] = returnM []"
| "m_run K (p # ps) = bindM (m_exec K p) (\<lambda>r. bindM (m_run K ps) (\<lambda>rs. returnM (r # rs)))"

section \<open>Binary search\<close>

lemma search_loop_spec:
  assumes "i \<le> j" "\<forall>a b. a \<le> b \<longrightarrow> b < n \<longrightarrow> f a \<longrightarrow> f b" "j \<le> n" "\<forall>a < i. \<not> f a" "j < n \<longrightarrow> f j"
  shows "search_loop f i j \<le> n \<and> (\<forall>a < search_loop f i j. \<not> f a) \<and> (search_loop f i j < n \<longrightarrow> f (search_loop f i j))"
  using assms
proof (induction f i j rule: search_loop.induct)
  case (1 f i j)
  let ?h = "(i + j) div 2"
  show ?case
  proof (cases "i < j")
    case True
    then have h: "i \<le> ?h" "?h < j" by auto
    show ?thesis
    proof (cases "f ?h")
      case f: True
      have "search_loop f i j = search_loop f i ?h" using True f by (simp add: search_loop.simps[of f i j] Let_def)
      moreover have "search_loop f i ?h \<le> n \<and> (\<forall>a < search_loop f i ?h. \<not> f a) \<and> (search_loop f i ?h < n \<longrightarrow> f (search_loop f i ?h))"
        using "1.IH"(2)[OF True refl] f h "1.prems" by simp
      ultimately show ?thesis by simp
    next
      case f: False
      have low: "\<forall>a < ?h + 1. \<not> f a"
      proof (intro allI impI notI)
        fix a assume "a < ?h + 1" "f a"
        then show False using "1.prems"(2,3) h f by (metis le_trans less_or_eq_imp_le Suc_eq_plus1 less_Suc_eq_le order_less_le_trans)
      qed
      have "search_loop f i j = search_loop f (?h + 1) j" using True f by (simp add: search_loop.simps[of f i j] Let_def)
      moreover have "search_loop f (?h + 1) j \<le> n \<and> (\<forall>a < search_loop f (?h + 1) j. \<not> f a) \<and>
          (search_loop f (?h + 1) j < n \<longrightarrow> f (search_loop f (?h + 1) j))"
        using "1.IH"(1)[OF True refl f _ "1.prems"(2,3) low "1.prems"(5)] h by simp
      ultimately show ?thesis by simp
    qed
  next
    case False
    then show ?thesis using "1.prems" by (simp add: search_loop.simps)
  qed
qed

lemma sort_Search_spec:
  assumes "\<forall>a b. a \<le> b \<longrightarrow> b < n \<longrightarrow> f a \<longrightarrow> f b"
  shows "sort_Search n f \<le> n" "\<forall>a < sort_Search n f. \<not> f a" "sort_Search n f < n \<Longrightarrow> f (sort_Search n f)"
  using search_loop_spec[of 0 n n f] assms by (simp_all add: sort_Search_def)

end
