(* ===== verification/State_Revert.thy ===== *)
theory State_Revert
  imports State_World
begin

text \<open>
  The locale \<open>state_reader\<close> states what the state relies on of its database: lookups return the content of a
  trie, storage tries open. Inside it: what \<^verbatim>\<open>getStateObject\<close> finds, the effect of each method of an object
  on the values of the accounts, and that undoing the journal entries it adds leads back.\<close>

locale state_reader =
  fixes B :: "'tr Database" and valid :: "'tr \<Rightarrow> bool" and content :: "'tr \<Rightarrow> byte list \<Rightarrow> byte list" and good_root :: "hash \<Rightarrow> bool"
  assumes TryGet_law: "valid tr \<Longrightarrow> \<exists>tr'. tr_TryGet B tr k = (Inr (content tr k), tr') \<and> valid tr' \<and> content tr' = content tr"
    and content_short: "valid tr \<Longrightarrow> length (content tr k) < 2 ^ 64"
    and Open_law: "good_root r \<Longrightarrow> \<exists>tr. db_OpenStorageTrie B ah r = Inr tr \<and> valid tr"
    and good_zero: "good_root 0"
    and Open_zero: "db_OpenStorageTrie B ah 0 = Inr tr \<Longrightarrow> content tr k = []"
    and Code_law: "db_ContractCode B ah h \<noteq> Inl (Panic m)"
begin

definition obj_ok :: "'tr stateObject \<Rightarrow> bool" where
  "obj_ok ob \<longleftrightarrow> (case so_trie ob of Some tr \<Rightarrow> valid tr | None \<Rightarrow> good_root (acc_Root (so_data ob))) \<and> length (acc_CodeHash (so_data ob)) = 32"

definition trie_ok :: "(byte list \<Rightarrow> byte list) \<Rightarrow> bool" where
  "trie_ok c \<longleftrightarrow> (\<forall>a d. load_account c a = Some d \<longrightarrow> good_root (acc_Root d) \<and> length (acc_CodeHash d) = 32)"

fun entry_ok :: "(byte list \<Rightarrow> byte list) \<Rightarrow> 'tr journalEntry \<Rightarrow> bool" where
  "entry_ok c (createObjectChange a) = (load_account c a = None)"
| "entry_ok c (resetObjectChange p) = (obj_ok p \<and> \<not> deleted p)"
| "entry_ok c (codeChange a pc h) = (length h = 32)"
| "entry_ok c _ = True"

definition rinv :: "'tr StateDB \<Rightarrow> bool" where
  "rinv s \<longleftrightarrow> valid (sdb_trie s) \<and> trie_ok (content (sdb_trie s)) \<and>
     (\<forall>a ob. stateObjects s a = Some ob \<longrightarrow> so_address ob = a \<and> obj_ok ob \<and> (deleted ob \<longrightarrow> load_account (content (sdb_trie s)) a = None)) \<and>
     (\<forall>e \<in> set (journal s). entry_ok (content (sdb_trie s)) e)"

abbreviation "look \<equiv> lookup B content"
abbreviation "wof \<equiv> world_of B content"
abbreviation "va \<equiv> acct_of B content"

text \<open>Fields that are neither part of the values nor of the journal.\<close>

definition book :: "'tr StateDB \<Rightarrow> 'tr journalEntry list \<times> (int \<times> nat) list \<times> int \<times> hash \<times> hash \<times> int" where
  "book s = (journal s, validRevisions s, nextRevisionId s, thash s, bhash s, txIndex s)"

definition core :: "'tr StateDB \<Rightarrow> 'tr StateDB \<Rightarrow> bool" where
  "core s s' \<longleftrightarrow> valid (sdb_trie s') \<and> content (sdb_trie s') = content (sdb_trie s) \<and> stateObjects s' = stateObjects s \<and> refund s' = refund s \<and>
     logs s' = logs s \<and> logSize s' = logSize s \<and> preimages s' = preimages s \<and> book s' = book s"

lemma core_refl: "rinv s \<Longrightarrow> core s s"
  by (simp add: core_def rinv_def)

lemma core_trans: "core s s' \<Longrightarrow> core s' s'' \<Longrightarrow> core s s''"
  by (simp add: core_def)

lemma core_look: "core s s' \<Longrightarrow> look s' = look s"
  by (rule ext) (simp add: core_def lookup_def split: option.splits)

lemma core_wof: "core s s' \<Longrightarrow> wof s' = wof s"
  using core_look[of s s'] by (auto simp: world_of_def core_def logs_of_def fun_eq_iff)

lemma core_rinv: "core s s' \<Longrightarrow> rinv s \<Longrightarrow> rinv s'"
  by (simp add: core_def rinv_def book_def)

lemma look_ok:
  "rinv s \<Longrightarrow> look s a = Some ob \<Longrightarrow> obj_ok ob \<and> so_address ob = a \<and> \<not> deleted ob"
proof (cases "stateObjects s a")
  case (Some ob')
  assume "rinv s" "look s a = Some ob"
  then have "ob' = ob \<and> \<not> deleted ob" using Some by (simp add: lookup_def split: if_splits)
  then show ?thesis using \<open>rinv s\<close> Some unfolding rinv_def by blast
next
  case None
  assume "rinv s" "look s a = Some ob"
  then obtain d where "load_account (content (sdb_trie s)) a = Some d" "ob = newObject (db_crypto B) a d"
    using None by (auto simp: lookup_def)
  then show ?thesis using \<open>rinv s\<close> by (simp add: rinv_def trie_ok_def obj_ok_def newObject_def)
qed

text \<open>Putting an object into the live set.\<close>

definition live :: "'tr stateObject \<Rightarrow> bool" where
  "live ob \<longleftrightarrow> obj_ok ob \<and> \<not> deleted ob"

lemma set_look: "live ob \<Longrightarrow> look (setStateObject ob s) = (look s)(so_address ob \<mapsto> ob)"
  by (rule ext) (simp add: lookup_def setStateObject_def live_def split: option.splits)

lemma set_wof: "live ob \<Longrightarrow> wof (setStateObject ob s) = (wof s)\<lparr>w_accounts := (w_accounts (wof s))(so_address ob \<mapsto> va ob)\<rparr>"
  using set_look[of ob s] by (auto simp: world_of_def setStateObject_def logs_of_def fun_eq_iff)

lemma set_rinv: "live ob \<Longrightarrow> rinv s \<Longrightarrow> rinv (setStateObject ob s)"
  by (auto simp: rinv_def setStateObject_def live_def)

lemma set_book: "book (setStateObject ob s) = book s"
  by (simp add: book_def setStateObject_def)

lemma init_core: "rinv s \<Longrightarrow> core s (init_code_cache s)"
  by (simp add: init_code_cache_def core_def rinv_def book_def)

lemma mark_core: "rinv s \<Longrightarrow> core s (MarkStateObjectDirty a s)"
  by (simp add: MarkStateObjectDirty_def core_def rinv_def book_def)

text \<open>Finding an object.\<close>

definition found :: "'tr StateDB \<Rightarrow> 'tr StateDB \<Rightarrow> bool" where
  "found s s' \<longleftrightarrow> rinv s' \<and> look s' = look s \<and> wof s' = wof s \<and> book s' = book s \<and> content (sdb_trie s') = content (sdb_trie s)"

lemma found_refl: "rinv s \<Longrightarrow> found s s"
  by (simp add: found_def)

lemma core_found: "core s s' \<Longrightarrow> rinv s \<Longrightarrow> found s s'"
  using core_look core_wof core_rinv by (simp add: found_def) (simp add: core_def)

lemma found_trans: "found s s' \<Longrightarrow> found s' s'' \<Longrightarrow> found s s''"
  by (simp add: found_def)

lemma getStateObject_ok:
  assumes "rinv s"
  shows "\<exists>s'. getStateObject B a s = (Inr (look s a), s') \<and> found s s'"
proof (cases "stateObjects s a")
  case (Some ob)
  then show ?thesis using found_refl[OF assms] by (simp add: getStateObject_def lookup_def)
next
  case None
  have v: "valid (sdb_trie s)" using assms by (simp add: rinv_def)
  let ?c = "content (sdb_trie s)"
  obtain tr where tr: "tr_TryGet B (sdb_trie s) (address_bytes a) = (Inr (?c (address_bytes a)), tr)" "valid tr" "content tr = ?c"
    using TryGet_law[OF v] by blast
  let ?s = "s\<lparr>sdb_trie := tr\<rparr>"
  have c: "core s ?s" using tr by (simp add: core_def book_def)
  note f = core_found[OF c assms]
  show ?thesis
  proof (cases "load_account ?c a")
    case N: None
    then have "getStateObject B a s = (Inr None, ?s)"
      using None tr(1) content_short[OF v, of "address_bytes a"]
        decode_account_no_panic[of "?c (address_bytes a)"]
      by (auto simp: getStateObject_def load_account_def Let_def split: if_splits sum.splits fault.splits)
    then show ?thesis using f None N by (auto simp: lookup_def)
  next
    case (Some d)
    let ?ob = "newObject (db_crypto B) a d :: 'tr stateObject"
    let ?t = "init_code_cache ?s"
    have l: "look s a = Some ?ob" using None Some by (simp add: lookup_def)
    have g: "getStateObject B a s = (Inr (Some ?ob), setStateObject ?ob ?t)"
      using None tr(1) Some by (auto simp: getStateObject_def load_account_def Let_def split: if_splits sum.splits)
    have live: "live ?ob" "so_address ?ob = a" using look_ok[OF assms l] by (simp_all add: live_def)
    have r: "rinv ?s" "core ?s ?t" using core_rinv[OF c assms] init_core by auto
    have t: "found s ?t" using found_trans[OF f core_found[OF r(2,1)]] .
    have "rinv (setStateObject ?ob ?t)" using set_rinv[OF live(1)] t by (simp add: found_def)
    moreover have lk: "look (setStateObject ?ob ?t) = look s"
      using set_look[OF live(1), of ?t] t l live(2) by (auto simp: found_def fun_eq_iff)
    moreover have "wof (setStateObject ?ob ?t) = wof s"
      using set_wof[OF live(1), of ?t] t l live(2) by (auto simp: found_def world_of_def fun_eq_iff)
    moreover have "content (sdb_trie (setStateObject ?ob ?t)) = ?c" using t by (simp add: found_def setStateObject_def)
    ultimately have "found s (setStateObject ?ob ?t)" using t by (simp add: found_def set_book)
    then show ?thesis using g l by simp
  qed
qed


text \<open>Methods of objects.\<close>

lemma getTrie_ok:
  assumes "obj_ok ob"
  obtains tr where "getTrie B (ob, s) = (Inr tr, ob\<lparr>so_trie := Some tr\<rparr>, s)" "valid tr" "content tr = obj_map B content ob"
proof (cases "so_trie ob")
  case None
  then obtain tr where "db_OpenStorageTrie B (addrHash ob) (acc_Root (so_data ob)) = Inr tr" "valid tr"
    using assms Open_law by (auto simp: obj_ok_def)
  then show thesis using None by (intro that[of tr]) (simp_all add: getTrie_def obj_map_def opened_def)
next
  case (Some tr)
  then show thesis using assms by (intro that[of tr]) (simp_all add: getTrie_def obj_map_def obj_ok_def)
qed

definition same_obj :: "'tr stateObject \<Rightarrow> 'tr stateObject \<Rightarrow> bool" where
  "same_obj ob ob' \<longleftrightarrow> (\<exists>tr cs e. ob' = ob\<lparr>so_trie := tr, cachedStorage := cs, so_dbErr := e\<rparr>) \<and> obj_ok ob' \<and>
     obj_map B content ob' = obj_map B content ob \<and> slot B content ob' = slot B content ob"

lemma same_obj_va: "same_obj ob ob' \<Longrightarrow> va ob' = va ob \<and> so_address ob' = so_address ob \<and> deleted ob' = deleted ob"
  by (auto simp: same_obj_def acct_of_def)

lemma so_setError_eq: "\<exists>e. so_setError x ob = ob\<lparr>so_dbErr := e\<rparr>"
  by (cases "so_dbErr ob") (auto simp: so_setError_def intro: exI[of _ "so_dbErr ob"])

lemma slot_error_eq: "\<exists>e. slot_error enc ob = ob\<lparr>so_dbErr := e\<rparr>"
proof -
  have "\<exists>e. ob = ob\<lparr>so_dbErr := e\<rparr>" by (rule exI[of _ "so_dbErr ob"]) simp
  then show ?thesis using so_setError_eq[of _ ob] by (simp add: slot_error_def split: sum.splits)
qed

lemma GetState_ok:
  assumes "obj_ok ob"
  shows "\<exists>ob'. so_GetState B k (ob, s) = (Inr (slot B content ob k), ob', s) \<and> same_obj ob ob'"
proof (cases "cachedStorage ob k")
  case (Some v)
  have "ob = ob\<lparr>so_trie := so_trie ob, cachedStorage := cachedStorage ob, so_dbErr := so_dbErr ob\<rparr>" by simp
  then have "same_obj ob ob" using assms unfolding same_obj_def by blast
  then show ?thesis using Some by (simp add: so_GetState_def slot_def)
next
  case None
  obtain tr where tr: "getTrie B (ob, s) = (Inr tr, ob\<lparr>so_trie := Some tr\<rparr>, s)" "valid tr" "content tr = obj_map B content ob"
    using getTrie_ok[OF assms] by blast
  obtain tr' where tr': "tr_TryGet B tr (hash_bytes k) = (Inr (content tr (hash_bytes k)), tr')" "valid tr'" "content tr' = content tr"
    using TryGet_law[OF tr(2)] by blast
  let ?enc = "obj_map B content ob (hash_bytes k)" and ?v = "slot B content ob k"
  have v: "?v = slot_value ?enc" using None by (simp add: slot_def)
  let ?ob1 = "ob\<lparr>so_trie := Some tr'\<rparr>"
  obtain e where e: "slot_error ?enc ?ob1 = ?ob1\<lparr>so_dbErr := e\<rparr>" using slot_error_eq by blast
  let ?ob2 = "?ob1\<lparr>so_dbErr := e\<rparr>"
  let ?ob3 = "if ?v \<noteq> 0 then ?ob2\<lparr>cachedStorage := (cachedStorage ob)(k \<mapsto> ?v)\<rparr> else ?ob2"
  have "so_GetState B k (ob, s) = (Inr ?v, ?ob3, s)"
    using None tr(1,3) tr'(1) e v by (simp add: so_GetState_def Let_def)
  moreover have "same_obj ob ?ob3" unfolding same_obj_def
  proof (intro conjI)
    show "\<exists>tr cs e. ?ob3 = ob\<lparr>so_trie := tr, cachedStorage := cs, so_dbErr := e\<rparr>"
      by (rule exI[of _ "Some tr'"], rule exI[of _ "if ?v \<noteq> 0 then (cachedStorage ob)(k \<mapsto> ?v) else cachedStorage ob"], rule exI[of _ e]) simp
    show "obj_ok ?ob3" using assms tr'(2) by (simp add: obj_ok_def)
    show m: "obj_map B content ?ob3 = obj_map B content ob" using tr'(3) tr(3) by (simp add: obj_map_def)
    show "slot B content ?ob3 = slot B content ob"
    proof
      fix j
      have cs: "cachedStorage ?ob3 = (if ?v \<noteq> 0 then (cachedStorage ob)(k \<mapsto> ?v) else cachedStorage ob)" by simp
      show "slot B content ?ob3 j = slot B content ob j"
        unfolding slot_def[of B content ?ob3] m cs using v None by (cases "j = k") (auto simp: slot_def)
    qed
  qed
  ultimately show ?thesis by blast
qed

definition cache_upd :: "'tr StateDB \<Rightarrow> 'tr StateDB \<Rightarrow> bool" where
  "cache_upd s s' \<longleftrightarrow> (\<exists>l c h. s' = s\<lparr>chief_list := l, contractCodeCache := c, chiefContractCodeCache := h\<rparr>)"

lemma cache_upd_core: "cache_upd s s' \<Longrightarrow> rinv s \<Longrightarrow> core s s'"
  by (auto simp: cache_upd_def core_def rinv_def book_def)

lemma cache_updI [simp]:
  "cache_upd s s" "cache_upd s (s\<lparr>chief_list := l\<rparr>)" "cache_upd s (s\<lparr>contractCodeCache := c\<rparr>)" "cache_upd s (s\<lparr>chiefContractCodeCache := h\<rparr>)"
  unfolding cache_upd_def
  by (rule exI[of _ "chief_list s"], rule exI[of _ "contractCodeCache s"], rule exI[of _ "chiefContractCodeCache s"], simp)
    (rule exI[of _ l], rule exI[of _ "contractCodeCache s"], rule exI[of _ "chiefContractCodeCache s"], simp,
     rule exI[of _ "chief_list s"], rule exI[of _ c], rule exI[of _ "chiefContractCodeCache s"], simp,
     rule exI[of _ "chief_list s"], rule exI[of _ "contractCodeCache s"], rule exI[of _ h], simp)

lemma cache_upd_trans: "cache_upd s s' \<Longrightarrow> cache_upd s' s'' \<Longrightarrow> cache_upd s s''"
  unfolding cache_upd_def by force

lemma Code_ok: "\<exists>c ob' s'. so_Code B (ob, s) = (Inr c, ob', s') \<and> (\<exists>d e. ob' = ob\<lparr>so_code := d, so_dbErr := e\<rparr>) \<and> cache_upd s s'"
proof -
  have id: "\<exists>d e. ob = ob\<lparr>so_code := d, so_dbErr := e\<rparr>" by (rule exI[of _ "so_code ob"], rule exI[of _ "so_dbErr ob"]) simp
  obtain chief l where ch: "IsChiefAddress (db_getenv B) (chief_list s) (so_address ob) = (chief, l)" by fastforce
  let ?s = "s\<lparr>chief_list := l\<rparr>"
  let ?r = "if chief then chief_getCode B ob ?s else getCode B ob ?s"
  have r: "cache_upd ?s (snd ?r)" "fst ?r \<noteq> Inl (Panic m)" for m
    using Code_law[of "addrHash ob" "BytesToHash (acc_CodeHash (so_data ob))" m]
    by (auto simp: chief_getCode_def getCode_def Let_def split: option.splits sum.splits)
  show ?thesis
  proof (cases "so_code ob = None \<and> acc_CodeHash (so_data ob) \<noteq> emptyCodeHash (db_crypto B)")
    case False
    then show ?thesis using id by (auto simp: so_Code_def split: option.splits)
  next
    case True
    obtain x t where x: "?r = (x, t)" by fastforce
    then have t: "cache_upd s t" using r(1) cache_upd_trans[of s ?s t] by simp
    show ?thesis
    proof (cases x)
      case (Inl f)
      then obtain e where e: "f = Err e" using r(2) x by (cases f) auto
      obtain e' where "so_setError (codeErr e) (ob\<lparr>so_code := None\<rparr>) = ob\<lparr>so_code := None, so_dbErr := e'\<rparr>"
        using so_setError_eq[of "codeErr e" "ob\<lparr>so_code := None\<rparr>"] by auto
      then show ?thesis using True ch x Inl e t by (auto simp: so_Code_def)
    next
      case (Inr c)
      have "\<exists>d e. ob\<lparr>so_code := Some c\<rparr> = ob\<lparr>so_code := d, so_dbErr := e\<rparr>"
        by (rule exI[of _ "Some c"], rule exI[of _ "so_dbErr ob"]) simp
      then show ?thesis using True ch x Inr t by (auto simp: so_Code_def)
    qed
  qed
qed


text \<open>A sequence of changes: the entries it adds to the journal lead back to the values before.\<close>

definition steps :: "'tr StateDB \<Rightarrow> 'tr StateDB \<Rightarrow> 'tr journalEntry list \<Rightarrow> bool" where
  "steps s s' js \<longleftrightarrow> rinv s' \<and> wundos va (rev js) (wof s') = Some (wof s) \<and> content (sdb_trie s') = content (sdb_trie s) \<and>
     book s' = (journal s @ js, snd (book s))"

lemma found_steps: "found s s' \<Longrightarrow> steps s s' []"
  by (simp add: found_def steps_def book_def)

lemma steps_trans: "steps s s' js \<Longrightarrow> steps s' s'' js' \<Longrightarrow> steps s s'' (js @ js')"
  by (auto simp: steps_def wundos_append book_def)

lemma wof_look: "look s a = Some ob \<Longrightarrow> w_accounts (wof s) a = Some (va ob)" "look s a = None \<Longrightarrow> w_accounts (wof s) a = None"
  by (simp_all add: world_of_def)

lemma call_onDirty_eq:
  "call_onDirty (ob, s) = (Inr (), ob\<lparr>onDirty := False\<rparr>, if onDirty ob then MarkStateObjectDirty (so_address ob) s else s)"
  by (cases ob) (simp add: call_onDirty_def)

lemma live_upd [simp]:
  "live (ob\<lparr>onDirty := b\<rparr>) = live ob" "live (ob\<lparr>touched := b\<rparr>) = live ob" "live (ob\<lparr>suicided := b\<rparr>) = live ob"
  "live (ob\<lparr>dirtyCode := b\<rparr>) = live ob" "live (ob\<lparr>so_code := c\<rparr>) = live ob" "live (ob\<lparr>so_dbErr := e\<rparr>) = live ob"
  "live (ob\<lparr>cachedStorage := cs\<rparr>) = live ob" "live (ob\<lparr>dirtyStorage := cs\<rparr>) = live ob"
  "acc_Root d = acc_Root (so_data ob) \<Longrightarrow> length (acc_CodeHash d) = length (acc_CodeHash (so_data ob)) \<Longrightarrow> live (ob\<lparr>so_data := d\<rparr>) = live ob"
  by (simp_all add: live_def obj_ok_def split: option.splits)

lemma obj_map_upd [simp]:
  "obj_map B content (ob\<lparr>onDirty := b\<rparr>) = obj_map B content ob" "obj_map B content (ob\<lparr>touched := b\<rparr>) = obj_map B content ob"
  "obj_map B content (ob\<lparr>suicided := b\<rparr>) = obj_map B content ob" "obj_map B content (ob\<lparr>dirtyCode := b\<rparr>) = obj_map B content ob"
  "obj_map B content (ob\<lparr>so_code := c\<rparr>) = obj_map B content ob" "obj_map B content (ob\<lparr>so_dbErr := e\<rparr>) = obj_map B content ob"
  "obj_map B content (ob\<lparr>cachedStorage := cs\<rparr>) = obj_map B content ob" "obj_map B content (ob\<lparr>dirtyStorage := cs\<rparr>) = obj_map B content ob"
  "acc_Root d = acc_Root (so_data ob) \<Longrightarrow> obj_map B content (ob\<lparr>so_data := d\<rparr>) = obj_map B content ob"
  by (simp_all add: obj_map_def split: option.splits)

lemma put_step:
  assumes s: "rinv s" and c: "core (s\<lparr>journal := journal s @ js\<rparr>) s1" and e: "\<forall>e \<in> set js. entry_ok (content (sdb_trie s)) e"
    and ob': "live ob'" "so_address ob' = a"
    and u: "wundos va (rev js) ((wof s)\<lparr>w_accounts := (w_accounts (wof s))(a \<mapsto> va ob')\<rparr>) = Some (wof s)"
  shows "steps s (setStateObject ob' s1) js" "look (setStateObject ob' s1) = (look s)(a \<mapsto> ob')"
    "wof (setStateObject ob' s1) = (wof s)\<lparr>w_accounts := (w_accounts (wof s))(a \<mapsto> va ob')\<rparr>"
proof -
  let ?j = "s\<lparr>journal := journal s @ js\<rparr>" and ?s = "setStateObject ob' s1"
  have "rinv ?j" using s(1) e by (auto simp: rinv_def)
  then have r: "rinv s1" using core_rinv[OF c] by simp
  have lj: "look ?j = look s" by (rule ext) (simp add: lookup_def split: option.splits)
  have wj: "wof ?j = wof s" using lj by (simp add: world_of_def logs_of_def[abs_def] fun_eq_iff)
  show "look ?s = (look s)(a \<mapsto> ob')" using set_look[OF ob'(1), of s1] core_look[OF c] lj ob'(2) by simp
  show w: "wof ?s = (wof s)\<lparr>w_accounts := (w_accounts (wof s))(a \<mapsto> va ob')\<rparr>"
    using set_wof[OF ob'(1), of s1] core_wof[OF c] wj ob'(2) by simp
  have "content (sdb_trie ?s) = content (sdb_trie s)" using c by (simp add: core_def setStateObject_def)
  moreover have "book ?s = (journal s @ js, snd (book s))" using c by (simp add: set_book core_def) (simp add: book_def)
  ultimately show "steps s ?s js" using set_rinv[OF ob'(1) r] u w by (simp add: steps_def)
qed

abbreviation "empty_acct \<equiv> fresh_acct (db_crypto B)"

definition new_ob :: "address \<Rightarrow> 'tr stateObject" where
  "new_ob a = (newObject (db_crypto B) a (new_account (db_crypto B)))\<lparr>onDirty := False\<rparr>"

lemma slot_value_Nil [simp]: "slot_value [] = 0"
  by (simp add: slot_value_def)

lemma new_ob_ok: "live (new_ob a)" "va (new_ob a) = empty_acct" "so_address (new_ob a) = a"
proof -
  show "live (new_ob a)" "so_address (new_ob a) = a" using good_zero
    by (simp_all add: new_ob_def live_def obj_ok_def newObject_def new_account_def emptyCodeHash_def hash_bytes_def)
  obtain tr where "db_OpenStorageTrie B (addrHash (new_ob a)) 0 = Inr tr" using Open_law[OF good_zero] by blast
  then have "obj_map B content (new_ob a) = (\<lambda>_. [])" using Open_zero
    by (auto simp: obj_map_def opened_def new_ob_def newObject_def new_account_def)
  then have "slot B content (new_ob a) = (\<lambda>_. 0)"
    by (auto simp: slot_def fun_eq_iff) (simp add: new_ob_def newObject_def)
  then show "va (new_ob a) = empty_acct"
    by (simp add: acct_of_def fresh_acct_def) (simp add: new_ob_def newObject_def new_account_def)
qed

lemma world_upd_idem: "(w\<lparr>w_accounts := f\<rparr>)\<lparr>w_accounts := g\<rparr> = w\<lparr>w_accounts := g\<rparr>" "w\<lparr>w_accounts := w_accounts w\<rparr> = (w :: world)"
  by simp_all

lemma createObject_entry:
  assumes "rinv s"
  shows "\<exists>s'. createObject B a s = (Inr (new_ob a, look s a), s') \<and>
    steps s s' [case look s a of None \<Rightarrow> createObjectChange a | Some p \<Rightarrow> resetObjectChange p] \<and> look s' = (look s)(a \<mapsto> new_ob a) \<and>
    wof s' = (wof s)\<lparr>w_accounts := (w_accounts (wof s))(a \<mapsto> empty_acct)\<rparr>"
proof -
  obtain s0 where g: "getStateObject B a s = (Inr (look s a), s0)" "found s s0" using getStateObject_ok[OF assms(1)] by blast
  then have r0: "rinv s0" "look s0 = look s" "wof s0 = wof s" by (simp_all add: found_def)
  let ?e = "case look s a of None \<Rightarrow> createObjectChange a | Some p \<Rightarrow> resetObjectChange p"
  let ?s1 = "MarkStateObjectDirty a (init_code_cache s0)"
  have n: "so_setNonce 0 (newObject (db_crypto B) a (new_account (db_crypto B)), init_code_cache s0) = (Inr (), new_ob a, ?s1)"
    by (simp add: so_setNonce_def change_obj_def call_onDirty_eq) (simp add: new_ob_def newObject_def new_account_def)
  have run: "createObject B a s = (Inr (new_ob a, look s a), setStateObject (new_ob a) (append_journal ?e ?s1))"
    using g(1) n by (simp add: createObject_def Let_def)
  have e: "entry_ok (content (sdb_trie s0)) ?e"
  proof (cases "look s a")
    case None
    then have "look s0 a = None" using r0(2) by simp
    then have "load_account (content (sdb_trie s0)) a = None" using r0(1) unfolding rinv_def lookup_def
      by (cases "stateObjects s0 a") (auto split: if_splits)
    then show ?thesis using None by simp
  next
    case (Some p)
    then show ?thesis using look_ok[OF assms(1) Some] by (simp add: live_def)
  qed
  have c: "core (s0\<lparr>journal := journal s0 @ [?e]\<rparr>) (append_journal ?e ?s1)"
    using r0(1) by (simp add: core_def append_journal_def MarkStateObjectDirty_def init_code_cache_def book_def rinv_def)
  have u: "wundos va (rev [?e]) ((wof s0)\<lparr>w_accounts := (w_accounts (wof s0))(a \<mapsto> va (new_ob a))\<rparr>) = Some (wof s0)"
  proof (cases "look s a")
    case None
    then have "(w_accounts (wof s0))(a := None) = w_accounts (wof s0)" using wof_look(2)[of s0 a] r0(2) by (simp add: fun_upd_idem)
    then show ?thesis using None by simp
  next
    case (Some p)
    then have "(w_accounts (wof s0))(a \<mapsto> va p) = w_accounts (wof s0)" using wof_look(1)[of s0 a p] r0(2) by (simp add: fun_upd_idem)
    then show ?thesis using Some look_ok[OF assms(1) Some] by simp
  qed
  note p = put_step[OF r0(1) c _ new_ob_ok(1,3) u]
  have "steps s (setStateObject (new_ob a) (append_journal ?e ?s1)) ([] @ [?e])"
    using steps_trans[OF found_steps[OF g(2)] p(1)] e by simp
  then show ?thesis using run p(2,3) e r0 new_ob_ok(2) by auto
qed

lemma createObject_ok:
  assumes "rinv s"
  shows "\<exists>s' js. createObject B a s = (Inr (new_ob a, look s a), s') \<and> steps s s' js \<and> look s' = (look s)(a \<mapsto> new_ob a) \<and>
    wof s' = (wof s)\<lparr>w_accounts := (w_accounts (wof s))(a \<mapsto> empty_acct)\<rparr>"
  using createObject_entry[OF assms] by blast

lemma GetOrNew_ok:
  assumes "rinv s"
  shows "\<exists>ob s' js. GetOrNewStateObject B a s = (Inr ob, s') \<and> steps s s' js \<and> look s' a = Some ob \<and>
    wof s' = (if w_accounts (wof s) a = None then (wof s)\<lparr>w_accounts := (w_accounts (wof s))(a \<mapsto> empty_acct)\<rparr> else wof s)"
proof -
  obtain s0 where g: "getStateObject B a s = (Inr (look s a), s0)" "found s s0" using getStateObject_ok[OF assms(1)] by blast
  then have r0: "rinv s0" "look s0 = look s" "wof s0 = wof s" by (simp_all add: found_def)
  show ?thesis
  proof (cases "look s a")
    case None
    obtain s' js where c: "createObject B a s0 = (Inr (new_ob a, look s0 a), s')" "steps s0 s' js" "look s' = (look s0)(a \<mapsto> new_ob a)"
      "wof s' = (wof s0)\<lparr>w_accounts := (w_accounts (wof s0))(a \<mapsto> empty_acct)\<rparr>" using createObject_ok[OF r0(1)] by blast
    have "steps s s' ([] @ js)" by (rule steps_trans[OF found_steps[OF g(2)] c(2)])
    then show ?thesis using g(1) c None r0 wof_look(2)[OF None] by (auto simp: GetOrNewStateObject_def)
  next
    case (Some ob)
    then show ?thesis using g r0 found_steps[OF g(2)] look_ok[OF assms Some] wof_look(1)[OF Some]
      by (auto simp: GetOrNewStateObject_def)
  qed
qed


text \<open>A method that answers with \<open>r\<close> of the account and changes it by \<open>f\<close>.\<close>

definition meth :: "address \<Rightarrow> ('tr, 'b) obj_m \<Rightarrow> (acct \<Rightarrow> 'b) \<Rightarrow> (acct \<Rightarrow> acct) \<Rightarrow> bool" where
  "meth a m r f \<longleftrightarrow> (\<forall>s ob. rinv s \<longrightarrow> look s a = Some ob \<longrightarrow> (\<exists>ob' s1 js. m (ob, s) = (Inr (r (va ob)), ob', s1) \<and>
     core (s\<lparr>journal := journal s @ js\<rparr>) s1 \<and> (\<forall>e \<in> set js. entry_ok (content (sdb_trie s)) e) \<and> live ob' \<and> so_address ob' = a \<and>
     va ob' = f (va ob) \<and> wundos va (rev js) (put_acct a (f (va ob)) (wof s)) = Some (wof s)))"

lemma methI:
  assumes "\<And>s ob. rinv s \<Longrightarrow> look s a = Some ob \<Longrightarrow> live ob \<Longrightarrow> so_address ob = a \<Longrightarrow> w_accounts (wof s) a = Some (va ob) \<Longrightarrow>
    \<exists>ob' s1 js. m (ob, s) = (Inr (r (va ob)), ob', s1) \<and> core (s\<lparr>journal := journal s @ js\<rparr>) s1 \<and>
      (\<forall>e \<in> set js. entry_ok (content (sdb_trie s)) e) \<and> live ob' \<and> so_address ob' = a \<and>
      va ob' = f (va ob) \<and> wundos va (rev js) (put_acct a (f (va ob)) (wof s)) = Some (wof s)"
  shows "meth a m r f"
  unfolding meth_def using assms look_ok wof_look(1) by (simp add: live_def)

lemma on_object_ok:
  assumes "meth a m r f" "rinv s" "look s a = Some ob"
  shows "\<exists>s' js. on_object ob m s = (Inr (r (va ob)), s') \<and> steps s s' js \<and> wof s' = put_acct a (f (va ob)) (wof s)"
proof -
  obtain ob' s1 js where m: "m (ob, s) = (Inr (r (va ob)), ob', s1)" "core (s\<lparr>journal := journal s @ js\<rparr>) s1"
      "\<forall>e \<in> set js. entry_ok (content (sdb_trie s)) e" "live ob'" "so_address ob' = a" "va ob' = f (va ob)"
      "wundos va (rev js) (put_acct a (f (va ob)) (wof s)) = Some (wof s)"
    using assms unfolding meth_def by blast
  note p = put_step[OF assms(2) m(2,3,4,5) m(7)[folded m(6), unfolded put_acct_def]]
  show ?thesis using m(1,6) p(1,3) by (auto simp: on_object_def put_acct_def)
qed

lemma with_object_ok:
  assumes "meth a m r f" "rinv s"
  shows "\<exists>s' js. with_object B a d m s = (Inr (case w_accounts (wof s) a of None \<Rightarrow> d | Some x \<Rightarrow> r x), s') \<and> steps s s' js \<and>
    wof s' = (case w_accounts (wof s) a of None \<Rightarrow> wof s | Some x \<Rightarrow> put_acct a (f x) (wof s))"
proof -
  obtain s0 where g: "getStateObject B a s = (Inr (look s a), s0)" "found s s0" using getStateObject_ok[OF assms(2)] by blast
  then have r0: "rinv s0" "look s0 = look s" "wof s0 = wof s" by (simp_all add: found_def)
  show ?thesis
  proof (cases "look s a")
    case None
    then show ?thesis using g r0 found_steps[OF g(2)] wof_look(2)[OF None] by (auto simp: with_object_def)
  next
    case (Some ob)
    then obtain s' js where o: "on_object ob m s0 = (Inr (r (va ob)), s')" "steps s0 s' js" "wof s' = put_acct a (f (va ob)) (wof s0)"
      using on_object_ok[OF assms(1) r0(1), of ob] r0(2) by auto
    have "steps s s' ([] @ js)" by (rule steps_trans[OF found_steps[OF g(2)] o(2)])
    then show ?thesis using g o Some r0 wof_look(1)[OF Some] by (auto simp: with_object_def)
  qed
qed

lemma on_new_object_ok:
  assumes "meth a m (\<lambda>_. ()) f" "rinv s"
  shows "\<exists>s' js. on_new_object B a m s = (Inr (), s') \<and> steps s s' js \<and>
    wof s' = put_acct a (f (case w_accounts (wof s) a of None \<Rightarrow> empty_acct | Some x \<Rightarrow> x)) (wof s)"
proof -
  obtain ob s0 js where g: "GetOrNewStateObject B a s = (Inr ob, s0)" "steps s s0 js" "look s0 a = Some ob"
    "wof s0 = (if w_accounts (wof s) a = None then (wof s)\<lparr>w_accounts := (w_accounts (wof s))(a \<mapsto> empty_acct)\<rparr> else wof s)"
    using GetOrNew_ok[OF assms(2)] by blast
  then have r0: "rinv s0" by (simp add: steps_def)
  obtain s' js' where o: "on_object ob m s0 = (Inr (), s')" "steps s0 s' js'" "wof s' = put_acct a (f (va ob)) (wof s0)"
    using on_object_ok[OF assms(1) r0 g(3)] by auto
  have v: "va ob = (case w_accounts (wof s) a of None \<Rightarrow> empty_acct | Some x \<Rightarrow> x)"
    using wof_look(1)[OF g(3)] g(4) by (auto split: option.splits if_splits)
  have "wof s' = put_acct a (f (va ob)) (wof s)" using o(3) g(4) by (simp add: put_acct_def)
  then show ?thesis using g(1) o(1) steps_trans[OF g(2) o(2)] v by (auto simp: on_new_object_def)
qed

lemma put_same: "w_accounts w a = Some x \<Longrightarrow> put_acct a x w = w"
  by (simp add: put_acct_def fun_upd_idem)

lemma undo_put:
  "undo_acct a g (put_acct a x w) = Some (put_acct a (g x) w)" "set_acct a g (put_acct a x w) = put_acct a (g x) w"
  by (simp_all add: undo_acct_def set_acct_def put_acct_def)

lemma meth_read: "(\<And>ob. g ob = r (va ob)) \<Longrightarrow> meth a (read_obj g) r id"
proof (rule methI)
  fix s ob assume "rinv s" "look s a = Some ob" "live ob" "so_address ob = a" "w_accounts (wof s) a = Some (va ob)" "\<And>ob. g ob = r (va ob)"
  then show "\<exists>ob' s1 js. read_obj g (ob, s) = (Inr (r (va ob)), ob', s1) \<and> core (s\<lparr>journal := journal s @ js\<rparr>) s1 \<and>
      (\<forall>e \<in> set js. entry_ok (content (sdb_trie s)) e) \<and> live ob' \<and> so_address ob' = a \<and>
      va ob' = id (va ob) \<and> wundos va (rev js) (put_acct a (id (va ob)) (wof s)) = Some (wof s)"
    by (intro exI[of _ ob] exI[of _ s] exI[of _ "[]"]) (simp add: read_obj_def core_refl put_same)
qed

text \<open>One entry and one change.\<close>

lemma meth_change:
  assumes "\<And>ob s. m (ob, s) = (Inr (r (va ob)), g ob, if onDirty ob then MarkStateObjectDirty (so_address ob) (append_journal (e ob) s)
      else append_journal (e ob) s)"
    and "\<And>ob. live ob \<Longrightarrow> live (g ob)" "\<And>ob. so_address (g ob) = so_address ob" "\<And>ob. live ob \<Longrightarrow> va (g ob) = f (va ob)"
    and "\<And>c ob. live ob \<Longrightarrow> entry_ok c (e ob)"
    and "\<And>ob w. so_address ob = a \<Longrightarrow> wundo va (e ob) (put_acct a (f (va ob)) w) = Some (put_acct a (va ob) w)"
  shows "meth a m r f"
proof (rule methI)
  fix s ob assume s: "rinv s" "look s a = Some ob" "live ob" "so_address ob = a" "w_accounts (wof s) a = Some (va ob)"
  let ?s = "if onDirty ob then MarkStateObjectDirty (so_address ob) (append_journal (e ob) s) else append_journal (e ob) s"
  have "core (s\<lparr>journal := journal s @ [e ob]\<rparr>) ?s"
    using s(1) by (simp add: core_def append_journal_def MarkStateObjectDirty_def book_def rinv_def)
  then show "\<exists>ob' s1 js. m (ob, s) = (Inr (r (va ob)), ob', s1) \<and> core (s\<lparr>journal := journal s @ js\<rparr>) s1 \<and>
      (\<forall>e \<in> set js. entry_ok (content (sdb_trie s)) e) \<and> live ob' \<and> so_address ob' = a \<and>
      va ob' = f (va ob) \<and> wundos va (rev js) (put_acct a (f (va ob)) (wof s)) = Some (wof s)"
    using s assms by (intro exI[of _ "g ob"] exI[of _ ?s] exI[of _ "[e ob]"]) (simp add: put_same)
qed

lemma slot_upd [simp]:
  "slot B content (ob\<lparr>onDirty := b\<rparr>) = slot B content ob" "slot B content (ob\<lparr>touched := b\<rparr>) = slot B content ob"
  "slot B content (ob\<lparr>suicided := b\<rparr>) = slot B content ob" "slot B content (ob\<lparr>dirtyCode := b\<rparr>) = slot B content ob"
  "slot B content (ob\<lparr>so_code := c\<rparr>) = slot B content ob" "slot B content (ob\<lparr>so_dbErr := e\<rparr>) = slot B content ob"
  "slot B content (ob\<lparr>dirtyStorage := ds\<rparr>) = slot B content ob"
  "acc_Root d = acc_Root (so_data ob) \<Longrightarrow> slot B content (ob\<lparr>so_data := d\<rparr>) = slot B content ob"
  "cs = (cachedStorage ob)(k \<mapsto> v) \<Longrightarrow> slot B content (ob\<lparr>cachedStorage := cs\<rparr>) = (slot B content ob)(k := v)"
  by (simp_all add: slot_def fun_eq_iff split: option.splits)

lemma meth_SetBalance: "meth a (so_SetBalance n) (\<lambda>_. ()) (\<lambda>x. x\<lparr>a_balance := n\<rparr>)"
  by (rule meth_change[where g = "\<lambda>ob. ob\<lparr>so_data := so_data ob\<lparr>acc_Balance := n\<rparr>, onDirty := False\<rparr>" and e = "\<lambda>ob. balanceChange (so_address ob) (acc_Balance (so_data ob))"])
    (simp_all add: so_SetBalance_def so_setBalance_def change_obj_def journal_obj_def call_onDirty_eq acct_of_def undo_put)

lemma meth_SetNonce: "meth a (so_SetNonce n) (\<lambda>_. ()) (\<lambda>x. x\<lparr>a_nonce := n\<rparr>)"
  by (rule meth_change[where g = "\<lambda>ob. ob\<lparr>so_data := so_data ob\<lparr>acc_Nonce := n\<rparr>, onDirty := False\<rparr>" and e = "\<lambda>ob. nonceChange (so_address ob) (acc_Nonce (so_data ob))"])
    (simp_all add: so_SetNonce_def so_setNonce_def change_obj_def journal_obj_def call_onDirty_eq acct_of_def undo_put)

lemma meth_touch: "meth a so_touch (\<lambda>_. ()) id"
  by (rule meth_change[where g = "\<lambda>ob. ob\<lparr>onDirty := False, touched := True\<rparr>" and e = "\<lambda>ob. touchChange (so_address ob) False False"])
    (simp_all add: so_touch_def change_obj_def journal_obj_def call_onDirty_eq acct_of_def undo_put)

lemma meth_suicide: "meth a (bindM (journal_obj (\<lambda>ob. suicideChange a (suicided ob) (acc_Balance (so_data ob)))) (\<lambda>_.
     bindM markSuicided (\<lambda>_.
     bindM (change_obj (\<lambda>ob. ob\<lparr>so_data := (so_data ob)\<lparr>acc_Balance := 0\<rparr>\<rparr>)) (\<lambda>_. returnM True)))) (\<lambda>_. True) (\<lambda>x. x\<lparr>a_suicided := True, a_balance := 0\<rparr>)"
  by (rule meth_change[where g = "\<lambda>ob. ob\<lparr>suicided := True, onDirty := False, so_data := so_data ob\<lparr>acc_Balance := 0\<rparr>\<rparr>" and e = "\<lambda>ob. suicideChange a (suicided ob) (acc_Balance (so_data ob))"])
    (simp_all add: markSuicided_def change_obj_def journal_obj_def call_onDirty_eq acct_of_def undo_put)


lemma meth_SetState: "meth a (so_SetState B k v) (\<lambda>_. ()) (\<lambda>x. x\<lparr>a_storage := (a_storage x)(k := v)\<rparr>)"
proof (rule methI)
  fix s ob assume s: "rinv s" "look s a = Some ob" "live ob" "so_address ob = a" "w_accounts (wof s) a = Some (va ob)"
  obtain ob1 where g: "so_GetState B k (ob, s) = (Inr (slot B content ob k), ob1, s)" "same_obj ob ob1"
    using GetState_ok[of ob k s] s(3) by (auto simp: live_def)
  let ?e = "storageChange a k (slot B content ob k)"
  let ?ob = "ob1\<lparr>cachedStorage := (cachedStorage ob1)(k \<mapsto> v), dirtyStorage := (dirtyStorage ob1)(k \<mapsto> v), onDirty := False\<rparr>"
  let ?s = "if onDirty ob1 then MarkStateObjectDirty a (append_journal ?e s) else append_journal ?e s"
  have ob1: "so_address ob1 = a" "va ob1 = va ob" "live ob1" using same_obj_va[OF g(2)] g(2) s(3,4) by (auto simp: live_def same_obj_def)
  have "so_SetState B k v (ob, s) = (Inr (), ?ob, ?s)"
    using g(1) ob1(1) by (simp add: so_SetState_def so_setState_def journal_obj_def change_obj_def call_onDirty_eq)
  moreover have "core (s\<lparr>journal := journal s @ [?e]\<rparr>) ?s"
    using s(1) by (simp add: core_def append_journal_def MarkStateObjectDirty_def book_def rinv_def)
  moreover have "slot B content ob1 = slot B content ob" using g(2) by (simp add: same_obj_def)
  then have "va ?ob = (va ob)\<lparr>a_storage := (a_storage (va ob))(k := v)\<rparr>" using ob1(2) by (simp add: acct_of_def)
  moreover have "wundos va (rev [?e]) (put_acct a ((va ob)\<lparr>a_storage := (a_storage (va ob))(k := v)\<rparr>) (wof s)) = Some (wof s)"
    using put_same[OF s(5)] by (simp add: undo_put acct_of_def)
  ultimately show "\<exists>ob' s1 js. so_SetState B k v (ob, s) = (Inr (), ob', s1) \<and> core (s\<lparr>journal := journal s @ js\<rparr>) s1 \<and>
      (\<forall>e \<in> set js. entry_ok (content (sdb_trie s)) e) \<and> live ob' \<and> so_address ob' = a \<and>
      va ob' = (va ob)\<lparr>a_storage := (a_storage (va ob))(k := v)\<rparr> \<and>
      wundos va (rev js) (put_acct a ((va ob)\<lparr>a_storage := (a_storage (va ob))(k := v)\<rparr>) (wof s)) = Some (wof s)"
    using ob1 by (intro exI[of _ ?ob] exI[of _ ?s] exI[of _ "[?e]"]) simp
qed

lemma meth_GetState: "meth a (so_GetState B k) (\<lambda>x. a_storage x k) id"
proof (rule methI)
  fix s ob assume s: "rinv s" "look s a = Some ob" "live ob" "so_address ob = a" "w_accounts (wof s) a = Some (va ob)"
  obtain ob1 where g: "so_GetState B k (ob, s) = (Inr (slot B content ob k), ob1, s)" "same_obj ob ob1"
    using GetState_ok[of ob k s] s(3) by (auto simp: live_def)
  have ob1: "so_address ob1 = a" "va ob1 = va ob" "live ob1" using same_obj_va[OF g(2)] g(2) s(3,4) by (auto simp: live_def same_obj_def)
  then show "\<exists>ob' s1 js. so_GetState B k (ob, s) = (Inr (a_storage (va ob) k), ob', s1) \<and> core (s\<lparr>journal := journal s @ js\<rparr>) s1 \<and>
      (\<forall>e \<in> set js. entry_ok (content (sdb_trie s)) e) \<and> live ob' \<and> so_address ob' = a \<and>
      va ob' = id (va ob) \<and> wundos va (rev js) (put_acct a (id (va ob)) (wof s)) = Some (wof s)"
    using s g(1) by (intro exI[of _ ob1] exI[of _ s] exI[of _ "[]"]) (simp add: core_refl put_same, simp add: acct_of_def)
qed

lemma hash_bytes_length [simp]: "length (hash_bytes h) = 32"
  by (simp add: hash_bytes_def)

lemma meth_SetCode: "meth a (so_SetCode B h c) (\<lambda>_. ()) (\<lambda>x. x\<lparr>a_codeHash := hash_bytes h\<rparr>)"
proof (rule methI)
  fix s ob assume s: "rinv s" "look s a = Some ob" "live ob" "so_address ob = a" "w_accounts (wof s) a = Some (va ob)"
  obtain p s0 d x where g: "so_Code B (ob, s) = (Inr p, ob\<lparr>so_code := d, so_dbErr := x\<rparr>, s0)" "cache_upd s s0"
    using Code_ok[of ob s] by blast
  let ?e = "codeChange a p (acc_CodeHash (so_data ob))"
  let ?ob = "ob\<lparr>so_code := c, so_dbErr := x, so_data := so_data ob\<lparr>acc_CodeHash := hash_bytes h\<rparr>, dirtyCode := True, onDirty := False\<rparr>"
  let ?s = "if onDirty ob then MarkStateObjectDirty a (append_journal ?e s0) else append_journal ?e s0"
  have l: "length (acc_CodeHash (so_data ob)) = 32" using s(3) by (simp add: live_def obj_ok_def)
  have "so_SetCode B h c (ob, s) = (Inr (), ?ob, ?s)"
    using g(1) s(4) by (simp add: so_SetCode_def so_setCode_def journal_obj_def change_obj_def call_onDirty_eq)
  moreover have "core (s\<lparr>journal := journal s @ [?e]\<rparr>) ?s"
    using g(2) s(1) by (auto simp: core_def append_journal_def MarkStateObjectDirty_def book_def rinv_def cache_upd_def)
  moreover have "va ?ob = (va ob)\<lparr>a_codeHash := hash_bytes h\<rparr>" by (simp add: acct_of_def)
  moreover have "wundos va (rev [?e]) (put_acct a ((va ob)\<lparr>a_codeHash := hash_bytes h\<rparr>) (wof s)) = Some (wof s)"
    using put_same[OF s(5)] by (simp add: undo_put acct_of_def)
  ultimately show "\<exists>ob' s1 js. so_SetCode B h c (ob, s) = (Inr (), ob', s1) \<and> core (s\<lparr>journal := journal s @ js\<rparr>) s1 \<and>
      (\<forall>e \<in> set js. entry_ok (content (sdb_trie s)) e) \<and> live ob' \<and> so_address ob' = a \<and>
      va ob' = (va ob)\<lparr>a_codeHash := hash_bytes h\<rparr> \<and>
      wundos va (rev js) (put_acct a ((va ob)\<lparr>a_codeHash := hash_bytes h\<rparr>) (wof s)) = Some (wof s)"
    using s(3,4) l by (intro exI[of _ ?ob] exI[of _ ?s] exI[of _ "[?e]"]) simp
qed

lemma so_empty_va: "so_empty K ob \<longleftrightarrow> a_nonce (va ob) = 0 \<and> a_balance (va ob) = 0 \<and> a_codeHash (va ob) = emptyCodeHash K"
  by (simp add: so_empty_def acct_of_def)

lemma meth_if:
  assumes "\<And>s ob. m (ob, s) = (if P (va ob) then m1 (ob, s) else m2 (va ob) (ob, s))" "meth a m1 r1 f1" "\<And>x. meth a (m2 x) r2 (f2 x)"
  shows "meth a m (\<lambda>x. if P x then r1 x else r2 x) (\<lambda>x. if P x then f1 x else f2 x x)"
  unfolding meth_def
proof (intro allI impI)
  fix s ob assume s: "rinv s" "look s a = Some ob"
  show "\<exists>ob' s1 js. m (ob, s) = (Inr (if P (va ob) then r1 (va ob) else r2 (va ob)), ob', s1) \<and>
     core (s\<lparr>journal := journal s @ js\<rparr>) s1 \<and> (\<forall>e \<in> set js. entry_ok (content (sdb_trie s)) e) \<and> live ob' \<and> so_address ob' = a \<and>
     va ob' = (if P (va ob) then f1 (va ob) else f2 (va ob) (va ob)) \<and>
     wundos va (rev js) (put_acct a (if P (va ob) then f1 (va ob) else f2 (va ob) (va ob)) (wof s)) = Some (wof s)"
    using assms(2)[unfolded meth_def, rule_format, OF s] assms(3)[of "va ob", unfolded meth_def, rule_format, OF s] assms(1)
    by (cases "P (va ob)") simp_all
qed

lemma meth_return: "meth a (returnM v) (\<lambda>_. v) id"
proof (rule methI)
  fix s ob assume s: "rinv s" "look s a = Some ob" "live ob" "so_address ob = a" "w_accounts (wof s) a = Some (va ob)"
  then show "\<exists>ob' s1 js. returnM v (ob, s) = (Inr v, ob', s1) \<and> core (s\<lparr>journal := journal s @ js\<rparr>) s1 \<and>
      (\<forall>e \<in> set js. entry_ok (content (sdb_trie s)) e) \<and> live ob' \<and> so_address ob' = a \<and>
      va ob' = id (va ob) \<and> wundos va (rev js) (put_acct a (id (va ob)) (wof s)) = Some (wof s)"
    by (intro exI[of _ ob] exI[of _ s] exI[of _ "[]"]) (simp add: core_refl put_same)
qed

lemma meth_cong: "meth a m r f \<Longrightarrow> (\<And>x. r x = r' x) \<Longrightarrow> (\<And>x. f x = f' x) \<Longrightarrow> meth a m r' f'"
  by (simp add: meth_def)

lemma meth_AddBalance: "meth a (so_AddBalance (db_crypto B) n) (\<lambda>_. ()) (\<lambda>x. x\<lparr>a_balance := a_balance x + n\<rparr>)"
proof (cases "n = 0")
  case False
  have e: "so_AddBalance (db_crypto B) n (ob, s) = (if False then returnM () (ob, s) else so_SetBalance (a_balance (va ob) + n) (ob, s))" for ob s
    using False by (simp add: so_AddBalance_def acct_of_def)
  from meth_if[where P = "\<lambda>_. False", OF e meth_return meth_SetBalance] show ?thesis by simp
next
  case True
  have e: "so_AddBalance (db_crypto B) n (ob, s) = (if acct_empty (db_crypto B) (va ob) then so_touch (ob, s) else returnM () (ob, s))" for ob s
    using True by (simp add: so_AddBalance_def so_empty_va acct_empty_def)
  from meth_if[where P = "acct_empty (db_crypto B)", OF e meth_touch meth_return] show ?thesis using True by simp
qed

lemma meth_SubBalance: "meth a (so_SubBalance n) (\<lambda>_. ()) (\<lambda>x. x\<lparr>a_balance := a_balance x - n\<rparr>)"
proof -
  have e: "so_SubBalance n (ob, s) = (if n = 0 then returnM () (ob, s) else so_SetBalance (a_balance (va ob) - n) (ob, s))" for ob s
    by (simp add: so_SubBalance_def acct_of_def)
  from meth_if[where P = "\<lambda>_. n = 0", OF e meth_return meth_SetBalance] show ?thesis by (cases "n = 0") simp_all
qed

text \<open>Undoing an entry.\<close>

definition undone :: "'tr StateDB \<Rightarrow> 'tr StateDB \<Rightarrow> world \<Rightarrow> bool" where
  "undone s s' w \<longleftrightarrow> rinv s' \<and> wof s' = w \<and> book s' = book s \<and> content (sdb_trie s') = content (sdb_trie s)"

lemma put_plain:
  assumes "rinv s" "core s s1" "live ob'" "so_address ob' = a"
  shows "undone s (setStateObject ob' s1) (put_acct a (va ob') (wof s))"
  using set_rinv[OF assms(3)] core_rinv[OF assms(2,1)] set_wof[OF assms(3), of s1] core_wof[OF assms(2)] assms(2,4)
  by (simp add: undone_def set_book put_acct_def) (simp add: core_def setStateObject_def)

lemma undo_object_ok:
  assumes "rinv s" "w_accounts (wof s) a = Some x"
    and m: "\<And>ob s. m (ob, s) = (Inr (), g ob, if d \<and> onDirty ob then MarkStateObjectDirty (so_address ob) s else s)"
    and g: "\<And>ob. live ob \<Longrightarrow> live (g ob) \<and> so_address (g ob) = so_address ob \<and> va (g ob) = f (va ob)"
  shows "\<exists>s'. undo_object B a m s = (Inr (), s') \<and> undone s s' (put_acct a (f x) (wof s))"
    "\<exists>s'. with_object B a () m s = (Inr (), s') \<and> undone s s' (put_acct a (f x) (wof s))"
proof -
  obtain s0 where s0: "getStateObject B a s = (Inr (look s a), s0)" "found s s0" using getStateObject_ok[OF assms(1)] by blast
  obtain ob where ob: "look s a = Some ob" "va ob = x" using assms(2) by (auto simp: world_of_def)
  have r0: "rinv s0" "wof s0 = wof s" using s0(2) by (simp_all add: found_def)
  let ?s = "if d \<and> onDirty ob then MarkStateObjectDirty (so_address ob) s0 else s0"
  have "core s0 ?s" using mark_core[OF r0(1)] core_refl[OF r0(1)] by simp
  moreover have "live ob" "so_address ob = a" using look_ok[OF assms(1) ob(1)] by (simp_all add: live_def)
  ultimately have u: "undone s0 (setStateObject (g ob) ?s) (put_acct a (f x) (wof s))"
    using put_plain[OF r0(1), of ?s "g ob" a] g[of ob] ob(2) r0(2) by simp
  then have "undone s (setStateObject (g ob) ?s) (put_acct a (f x) (wof s))" using s0(2) by (simp add: undone_def found_def)
  then show "\<exists>s'. undo_object B a m s = (Inr (), s') \<and> undone s s' (put_acct a (f x) (wof s))"
    "\<exists>s'. with_object B a () m s = (Inr (), s') \<and> undone s s' (put_acct a (f x) (wof s))"
    using s0(1) ob(1) m by (simp_all add: undo_object_def with_object_def on_object_def)
qed

lemma undo_acct_Some: "undo_acct a f w = Some w' \<longleftrightarrow> (\<exists>x. w_accounts w a = Some x \<and> w' = put_acct a (f x) w)"
  by (auto simp: undo_acct_def set_acct_def put_acct_def)

lemma undo_setters:
  assumes "rinv s"
  shows "undo_acct a (\<lambda>x. x\<lparr>a_balance := b\<rparr>) (wof s) = Some w \<Longrightarrow> \<exists>s'. undo B (balanceChange a b) s = (Inr (), s') \<and> undone s s' w"
    "undo_acct a (\<lambda>x. x\<lparr>a_nonce := n\<rparr>) (wof s) = Some w \<Longrightarrow> \<exists>s'. undo B (nonceChange a n) s = (Inr (), s') \<and> undone s s' w"
    "undo_acct a (\<lambda>x. x\<lparr>a_codeHash := h\<rparr>) (wof s) = Some w \<Longrightarrow> length h = 32 \<Longrightarrow> \<exists>s'. undo B (codeChange a c h) s = (Inr (), s') \<and> undone s s' w"
    "undo_acct a (\<lambda>x. x\<lparr>a_storage := (a_storage x)(k := v)\<rparr>) (wof s) = Some w \<Longrightarrow> \<exists>s'. undo B (storageChange a k v) s = (Inr (), s') \<and> undone s s' w"
proof -
  assume "undo_acct a (\<lambda>x. x\<lparr>a_balance := b\<rparr>) (wof s) = Some w"
  then obtain x where x: "w_accounts (wof s) a = Some x" "w = put_acct a (x\<lparr>a_balance := b\<rparr>) (wof s)" by (auto simp: undo_acct_Some)
  show "\<exists>s'. undo B (balanceChange a b) s = (Inr (), s') \<and> undone s s' w" unfolding x(2) undo.simps
    by (rule undo_object_ok(1)[OF assms x(1), where d = True and g = "\<lambda>ob. ob\<lparr>so_data := so_data ob\<lparr>acc_Balance := b\<rparr>, onDirty := False\<rparr>"])
      (simp_all add: so_setBalance_def change_obj_def call_onDirty_eq acct_of_def)
next
  assume "undo_acct a (\<lambda>x. x\<lparr>a_nonce := n\<rparr>) (wof s) = Some w"
  then obtain x where x: "w_accounts (wof s) a = Some x" "w = put_acct a (x\<lparr>a_nonce := n\<rparr>) (wof s)" by (auto simp: undo_acct_Some)
  show "\<exists>s'. undo B (nonceChange a n) s = (Inr (), s') \<and> undone s s' w" unfolding x(2) undo.simps
    by (rule undo_object_ok(1)[OF assms x(1), where d = True and g = "\<lambda>ob. ob\<lparr>so_data := so_data ob\<lparr>acc_Nonce := n\<rparr>, onDirty := False\<rparr>"])
      (simp_all add: so_setNonce_def change_obj_def call_onDirty_eq acct_of_def)
next
  assume "undo_acct a (\<lambda>x. x\<lparr>a_codeHash := h\<rparr>) (wof s) = Some w" and h: "length h = 32"
  then obtain x where x: "w_accounts (wof s) a = Some x" "w = put_acct a (x\<lparr>a_codeHash := h\<rparr>) (wof s)" by (auto simp: undo_acct_Some)
  have "live (ob\<lparr>so_code := c, so_data := so_data ob\<lparr>acc_CodeHash := h\<rparr>, dirtyCode := True, onDirty := False\<rparr>)" if "live ob" for ob
    using that h by (simp add: live_def obj_ok_def split: option.splits)
  then show "\<exists>s'. undo B (codeChange a c h) s = (Inr (), s') \<and> undone s s' w" unfolding x(2) undo.simps
    by (intro undo_object_ok(1)[OF assms x(1), where d = True and g = "\<lambda>ob. ob\<lparr>so_code := c, so_data := so_data ob\<lparr>acc_CodeHash := h\<rparr>, dirtyCode := True, onDirty := False\<rparr>"])
      (simp_all add: so_setCode_def change_obj_def call_onDirty_eq acct_of_def hash_bytes_BytesToHash[OF h])
next
  assume "undo_acct a (\<lambda>x. x\<lparr>a_storage := (a_storage x)(k := v)\<rparr>) (wof s) = Some w"
  then obtain x where x: "w_accounts (wof s) a = Some x" "w = put_acct a (x\<lparr>a_storage := (a_storage x)(k := v)\<rparr>) (wof s)" by (auto simp: undo_acct_Some)
  show "\<exists>s'. undo B (storageChange a k v) s = (Inr (), s') \<and> undone s s' w" unfolding x(2) undo.simps
    by (rule undo_object_ok(1)[OF assms x(1), where d = True and
        g = "\<lambda>ob. ob\<lparr>cachedStorage := (cachedStorage ob)(k \<mapsto> v), dirtyStorage := (dirtyStorage ob)(k \<mapsto> v), onDirty := False\<rparr>"])
      (simp_all add: so_setState_def change_obj_def call_onDirty_eq acct_of_def fun_upd_def)
qed

lemma plain_undone:
  assumes "rinv s" "sdb_trie s' = sdb_trie s" "stateObjects s' = stateObjects s" "book s' = book s"
  shows "undone s s' ((wof s)\<lparr>w_refund := refund s', w_logs := logs_of s', w_logSize := logSize s', w_preimages := preimages s'\<rparr>)"
proof -
  have "look s' = look s" using assms by (intro ext) (simp add: lookup_def split: option.splits)
  moreover have "rinv s'" using assms by (simp add: rinv_def book_def)
  ultimately show ?thesis using assms by (simp add: undone_def world_of_def)
qed

lemma undone_dirty: "rinv s \<Longrightarrow> undone s (s\<lparr>stateObjectsDirty := D\<rparr>) (wof s)"
  using plain_undone[of s "s\<lparr>stateObjectsDirty := D\<rparr>"] by (simp add: book_def world_of_def logs_of_def[abs_def])

lemma undo_log:
  assumes "rinv s" "logs_of s h \<noteq> []"
  shows "\<exists>s'. undo B (addLogChange h) s = (Inr (), s') \<and>
    undone s s' ((wof s)\<lparr>w_logs := (logs_of s)(h := butlast (logs_of s h)), w_logSize := logSize s - 1\<rparr>)"
proof -
  let ?L = "logs_of s h"
  let ?s = "s\<lparr>logs := (logs s)(h := if length ?L = 1 then None else Some (butlast ?L)), logSize := logSize s - 1\<rparr>"
  have "undo B (addLogChange h) s = (Inr (), ?s)" using assms(2) by (auto simp: logs_of_def Let_def)
  moreover have "logs_of ?s = (logs_of s)(h := butlast ?L)"
    by (rule ext) (cases ?L; auto simp: logs_of_def)
  ultimately show ?thesis using plain_undone[OF assms(1), of ?s] by (auto simp: book_def world_of_def)
qed

lemma undo_create_look:
  assumes "rinv s" "load_account (content (sdb_trie s)) a = None"
  shows "undone s (s\<lparr>stateObjects := (stateObjects s)(a := None), stateObjectsDirty := D\<rparr>) ((wof s)\<lparr>w_accounts := (w_accounts (wof s))(a := None)\<rparr>)"
proof -
  let ?s = "s\<lparr>stateObjects := (stateObjects s)(a := None), stateObjectsDirty := D\<rparr>"
  have l: "look ?s = (look s)(a := None)" using assms(2) by (intro ext) (simp add: lookup_def split: option.splits)
  have "rinv ?s" using assms by (auto simp: rinv_def)
  then show ?thesis using l by (auto simp: undone_def world_of_def book_def logs_of_def fun_eq_iff)
qed

lemma undo_ok:
  assumes s: "rinv s" and w: "wundo va e (wof s) = Some w" and e: "entry_ok (content (sdb_trie s)) e"
  shows "\<exists>s'. undo B e s = (Inr (), s') \<and> undone s s' w"
proof (cases e)
  case (createObjectChange a)
  then show ?thesis using undo_create_look[OF s, of a] e w by auto
next
  case (resetObjectChange p)
  then show ?thesis using put_plain[OF s core_refl[OF s], of p "so_address p"] e w by (auto simp: live_def put_acct_def)
next
  case (suicideChange a p b)
  show ?thesis
  proof (cases "w_accounts (wof s) a")
    case None
    then obtain s0 where "getStateObject B a s = (Inr None, s0)" "found s s0"
      using getStateObject_ok[OF s, of a] by (auto simp: world_of_def)
    moreover have "w = wof s" using w None suicideChange by (simp add: set_acct_def fun_upd_idem)
    ultimately show ?thesis using suicideChange by (auto simp: with_object_def undone_def found_def)
  next
    case (Some x)
    then have "w = put_acct a (x\<lparr>a_suicided := p, a_balance := b\<rparr>) (wof s)" using w suicideChange by (simp add: set_acct_def put_acct_def)
    then show ?thesis unfolding suicideChange undo.simps
      by (simp only:) (rule undo_object_ok(2)[OF s Some, where d = True and g = "\<lambda>ob. ob\<lparr>suicided := p, so_data := so_data ob\<lparr>acc_Balance := b\<rparr>, onDirty := False\<rparr>"],
        simp_all add: so_setBalance_def change_obj_def call_onDirty_eq acct_of_def)
  qed
next
  case (touchChange a p d)
  show ?thesis
  proof (cases "\<not> p \<and> a \<noteq> ripemd")
    case False
    then show ?thesis using touchChange w s by (auto simp: undone_def)
  next
    case True
    then obtain x where x: "w_accounts (wof s) a = Some x" "w = put_acct a x (wof s)" using w touchChange by (auto simp: undo_acct_Some)
    obtain s' where s': "undo_object B a (change_obj (\<lambda>ob. ob\<lparr>touched := p\<rparr>)) s = (Inr (), s')" "undone s s' (put_acct a (id x) (wof s))"
      using undo_object_ok(1)[OF s x(1), where d = False and g = "\<lambda>ob. ob\<lparr>touched := p\<rparr>" and f = id and m = "change_obj (\<lambda>ob. ob\<lparr>touched := p\<rparr>)"]
      by (auto simp: change_obj_def acct_of_def)
    let ?t = "if \<not> d then s'\<lparr>stateObjectsDirty := stateObjectsDirty s' - {a}\<rparr> else s'"
    have "undone s' ?t (wof s')" using s'(2) undone_dirty[of s' "stateObjectsDirty s' - {a}"] undone_dirty[of s' "stateObjectsDirty s'"]
      by (simp add: undone_def)
    then have "undone s ?t w" using s'(2) x(2) by (simp add: undone_def)
    then show ?thesis using s'(1) touchChange True by (auto simp: bindM_def)
  qed
next
  case (addLogChange h)
  then show ?thesis using undo_log[OF s, of h] w by (auto simp: world_of_def simp del: undo.simps split: if_splits)
next
  case (refundChange r)
  then show ?thesis using plain_undone[OF s, of "s\<lparr>refund := r\<rparr>"] w by (simp add: book_def world_of_def logs_of_def[abs_def])
next
  case (addPreimageChange h)
  then show ?thesis using plain_undone[OF s, of "s\<lparr>preimages := (preimages s)(h := None)\<rparr>"] w by (simp add: book_def world_of_def logs_of_def[abs_def])
qed (use undo_setters[OF s] w e in simp_all)

end

end
