(* ===== verification/State_Sim.thy ===== *)
theory State_Sim
  imports State_Revert
begin

text \<open>
  The simulation between \<^verbatim>\<open>StateDB\<close> and the machine with saved copies, for any database that satisfies the
  locale \<open>state_reader\<close>: each operation and each run gives the same result on both sides.\<close>

section \<open>Finding a revision\<close>

lemma search_loop_le: "i \<le> j \<Longrightarrow> search_loop f i j \<le> j"
proof (induction f i j rule: search_loop.induct)
  case (1 f i j)
  show ?case
  proof (cases "i < j")
    case True
    have "(i + j) div 2 < j" "i \<le> (i + j) div 2" using True by auto
    then show ?thesis using "1.IH"[OF True refl] True by (cases "f ((i + j) div 2)") (simp_all add: search_loop.simps[of f i j] Let_def)
  qed (use "1.prems" in \<open>simp add: search_loop.simps\<close>)
qed

lemma sort_Search_le: "sort_Search n f \<le> n"
  by (simp add: sort_Search_def search_loop_le)

lemma revision_lookup:
  fixes xs :: "(int \<times> 'b) list"
  assumes "sorted_wrt (<) (map fst xs)" "k < length xs"
  shows "map_of xs (fst (xs ! k)) = Some (snd (xs ! k))" "takeWhile (\<lambda>(j, _). j \<noteq> fst (xs ! k)) xs = take k xs"
proof -
  have "distinct (map fst xs)" using assms(1) strict_sorted_iff by blast
  then show "map_of xs (fst (xs ! k)) = Some (snd (xs ! k))" using assms(2) by simp
  have "fst (xs ! i) < fst (xs ! k)" if "i < k" for i
    using that assms sorted_wrt_nth_less[OF assms(1), of i k] by simp
  then show "takeWhile (\<lambda>(j, _). j \<noteq> fst (xs ! k)) xs = take k xs" using assms(2)
    by (intro takeWhile_eq_take_P_nth) (auto split: prod.splits, metis fst_conv less_irrefl)
qed

lemma revision_search:
  fixes xs :: "(int \<times> 'b) list" and r :: int
  assumes "sorted_wrt (<) (map fst xs)"
  defines "idx \<equiv> sort_Search (length xs) (\<lambda>i. fst (xs ! i) \<ge> r)"
  shows "idx < length xs \<and> fst (xs ! idx) = r \<or> (idx = length xs \<or> fst (xs ! idx) \<noteq> r) \<and> map_of xs r = None"
proof (cases "map_of xs r")
  case (Some v)
  then obtain k where k: "k < length xs" "fst (xs ! k) = r" by (metis in_set_conv_nth map_of_SomeD fst_conv)
  have mono: "fst (xs ! a) < fst (xs ! b)" if "a < b" "b < length xs" for a b
    using sorted_wrt_nth_less[OF assms(1), of a b] that by simp
  have m: "\<forall>a b. a \<le> b \<longrightarrow> b < length xs \<longrightarrow> fst (xs ! a) \<ge> r \<longrightarrow> fst (xs ! b) \<ge> r"
    using mono by (metis le_eq_less_or_eq order.strict_trans1 order.strict_implies_order)
  note sp = sort_Search_spec[of "length xs" "\<lambda>i. fst (xs ! i) \<ge> r", OF m, folded idx_def]
  have "idx \<le> k" using sp(2) k by (metis not_le order_refl)
  moreover have "\<not> idx < k" using sp(3) k mono[of idx k] by auto
  ultimately show ?thesis using k by auto
next
  case None
  then have "r \<notin> fst ` set xs" by (simp add: map_of_eq_None_iff)
  moreover have "idx \<le> length xs" unfolding idx_def sort_Search_def
    using sort_Search_le[of "length xs" "\<lambda>i. fst (xs ! i) \<ge> r"] by (simp add: sort_Search_def)
  ultimately show ?thesis using None nth_mem[of idx xs] by (auto simp: le_eq_less_or_eq)
qed

context state_reader
begin

definition saves :: "'tr StateDB \<Rightarrow> int \<times> nat \<Rightarrow> int \<times> world \<Rightarrow> bool" where
  "saves s r x \<longleftrightarrow> fst r = fst x \<and> snd r \<le> length (journal s) \<and> wundos va (rev (drop (snd r) (journal s))) (wof s) = Some (snd x)"

definition revs_ok :: "'tr StateDB \<Rightarrow> (int \<times> world) list \<Rightarrow> bool" where
  "revs_ok s saved \<longleftrightarrow> list_all2 (saves s) (validRevisions s) saved \<and> sorted (map snd (validRevisions s)) \<and>
     sorted_wrt (<) (map fst (validRevisions s)) \<and> (\<forall>r \<in> set (validRevisions s). fst r < nextRevisionId s)"

definition sim :: "'tr StateDB \<Rightarrow> machine \<Rightarrow> bool" where
  "sim s m \<longleftrightarrow> rinv s \<and> m_world m = wof s \<and> m_next m = nextRevisionId s \<and> m_tx m = (thash s, bhash s, txIndex s) \<and> revs_ok s (m_saved m)"

definition agree :: "('e + 'b) \<times> 'tr StateDB \<Rightarrow> ('e + 'b) \<times> machine \<Rightarrow> bool" where
  "agree x y \<longleftrightarrow> fst x = fst y \<and> ((\<exists>v. fst x = Inr v) \<longrightarrow> sim (snd x) (snd y))"

lemma sim_steps:
  assumes "sim s m" "steps s s' js"
  shows "sim s' (m\<lparr>m_world := wof s'\<rparr>)"
proof -
  have b: "journal s' = journal s @ js" "validRevisions s' = validRevisions s" "nextRevisionId s' = nextRevisionId s"
    "thash s' = thash s" "bhash s' = bhash s" "txIndex s' = txIndex s" "rinv s'"
    "wundos va (rev js) (wof s') = Some (wof s)" using assms(2) by (simp_all add: steps_def book_def)
  have "saves s' r x" if "saves s r x" for r x using that b(1,8) by (simp add: saves_def wundos_append)
  then have "revs_ok s' (m_saved m)"
    using assms(1) b(2,3) list_all2_mono[of "saves s" "validRevisions s" "m_saved m" "saves s'"] by (simp add: sim_def revs_ok_def)
  then show ?thesis using assms(1) b by (simp add: sim_def)
qed

lemma agree_steps:
  assumes "sim s m" "x = (Inr r, s')" "steps s s' js" "y = (Inr r, m\<lparr>m_world := wof s'\<rparr>)"
  shows "agree x y"
  using sim_steps[OF assms(1,3)] assms(2,4) by (simp add: agree_def)

lemma agree_read:
  assumes "sim s m" "meth a b r id"
  shows "agree (retM (with_object B a d b) c s) (m_read a (c d) (\<lambda>x. c (r x)) m)"
proof -
  have s: "rinv s" "m_world m = wof s" using assms(1) by (simp_all add: sim_def)
  obtain s' js where o: "with_object B a d b s = (Inr (case w_accounts (wof s) a of None \<Rightarrow> d | Some x \<Rightarrow> r x), s')" "steps s s' js"
    "wof s' = (case w_accounts (wof s) a of None \<Rightarrow> wof s | Some x \<Rightarrow> put_acct a (id x) (wof s))"
    using with_object_ok[OF assms(2) s(1)] by blast
  have "wof s' = wof s" using o(3) by (simp add: put_same split: option.splits)
  then have "m = m\<lparr>m_world := wof s'\<rparr>" using s(2) by simp
  then show ?thesis using o(1,2) s(2) by (intro agree_steps[OF assms(1) _ o(2)]) (auto simp: m_read_def readM_def split: option.splits)
qed

lemma agree_change:
  assumes "sim s m" "meth a b (\<lambda>_. ()) f"
  shows "agree (retM (on_new_object B a b) (\<lambda>_. RUnit) s) (m_upd (w_change (db_crypto B) a f) m)"
proof -
  have s: "rinv s" "m_world m = wof s" using assms(1) by (simp_all add: sim_def)
  obtain s' js where o: "on_new_object B a b s = (Inr (), s')" "steps s s' js"
    "wof s' = put_acct a (f (case w_accounts (wof s) a of None \<Rightarrow> empty_acct | Some x \<Rightarrow> x)) (wof s)"
    using on_new_object_ok[OF assms(2) s(1)] by blast
  then show ?thesis using s(2) by (intro agree_steps[OF assms(1) _ o(2)]) (auto simp: m_upd_def w_change_def)
qed

lemma agree_Suicide:
  assumes "sim s m"
  shows "agree (sop_exec B (OpSuicide a) s) (m_exec (db_crypto B) (OpSuicide a) m)"
proof -
  have s: "rinv s" "m_world m = wof s" using assms(1) by (simp_all add: sim_def)
  obtain s' js where o: "Suicide B a s = (Inr (case w_accounts (wof s) a of None \<Rightarrow> False | Some x \<Rightarrow> True), s')" "steps s s' js"
    "wof s' = (case w_accounts (wof s) a of None \<Rightarrow> wof s | Some x \<Rightarrow> put_acct a (x\<lparr>a_suicided := True, a_balance := 0\<rparr>) (wof s))"
    using with_object_ok[OF meth_suicide s(1), of a False] unfolding Suicide_def by blast
  have w: "wof s' = set_acct a (\<lambda>x. x\<lparr>a_suicided := True, a_balance := 0\<rparr>) (wof s)"
    using o(3) by (auto simp: set_acct_def put_acct_def fun_upd_idem split: option.splits)
  show ?thesis using s(2) o(1) w
    by (intro agree_steps[OF assms(1) _ o(2)]) (auto simp: m_upd_def m_read_def bindM_run readM_def set_acct_def split: option.splits)
qed

lemma agree_CreateAccount:
  assumes "sim s m"
  shows "agree (sop_exec B (OpCreateAccount a) s) (m_exec (db_crypto B) (OpCreateAccount a) m)"
proof -
  have s: "rinv s" "m_world m = wof s" using assms(1) by (simp_all add: sim_def)
  obtain s0 where c: "createObject B a s = (Inr (new_ob a, look s a), s0)"
    "steps s s0 [case look s a of None \<Rightarrow> createObjectChange a | Some p \<Rightarrow> resetObjectChange p]" "look s0 = (look s)(a \<mapsto> new_ob a)"
    "wof s0 = put_acct a empty_acct (wof s)" using createObject_entry[OF s(1)] unfolding put_acct_def by blast
  show ?thesis
  proof (cases "look s a")
    case None
    then show ?thesis using c(1,4) wof_look(2)[OF None] s(2)
      by (intro agree_steps[OF assms(1) _ c(2)]) (auto simp: CreateAccount_def m_upd_def bindM_run returnM_def)
  next
    case (Some p)
    let ?ob = "(new_ob a)\<lparr>so_data := (so_data (new_ob a))\<lparr>acc_Balance := acc_Balance (so_data p)\<rparr>, onDirty := False\<rparr>"
    have d: "onDirty (new_ob a) = False" by (simp add: new_ob_def)
    have r0: "rinv s0" using c(2) by (simp add: steps_def)
    have v: "va ?ob = empty_acct\<lparr>a_balance := acc_Balance (so_data p)\<rparr>" using new_ob_ok(2)[of a] by (simp add: acct_of_def fresh_acct_def)
    have pl: "undone s0 (setStateObject ?ob s0) (put_acct a (va ?ob) (wof s0))"
      by (rule put_plain[OF r0 core_refl[OF r0]]) (simp_all add: new_ob_ok)
    have "steps s (setStateObject ?ob s0) [resetObjectChange p]"
      using pl c(2,4) Some wof_look(1)[OF Some] look_ok[OF s(1) Some]
      by (auto simp: steps_def undone_def put_acct_def fun_upd_idem)
    moreover have "CreateAccount B a s = (Inr (), setStateObject ?ob s0)" using c(1) Some d
      by (simp add: CreateAccount_def bindM_run on_object_def so_setBalance_def change_obj_def call_onDirty_eq)
    ultimately show ?thesis using pl c(4) wof_look(1)[OF Some] s(2) v
      by (intro agree_steps[OF assms(1)]) (auto simp: m_upd_def undone_def put_acct_def acct_of_def)
  qed
qed

text \<open>Operations that leave the accounts alone.\<close>

lemma plain_steps:
  assumes "rinv s" "sdb_trie s' = sdb_trie s" "stateObjects s' = stateObjects s" "journal s' = journal s @ [e]" "snd (book s') = snd (book s)"
    "entry_ok (content (sdb_trie s)) e" "wundo va e (wof s') = Some (wof s)"
  shows "steps s s' [e]"
proof -
  have "rinv s'" using assms(1-4,6) by (auto simp: rinv_def)
  then show ?thesis using assms by (simp add: steps_def) (simp add: book_def)
qed

lemma look_same: "sdb_trie s' = sdb_trie s \<Longrightarrow> stateObjects s' = stateObjects s \<Longrightarrow> look s' = look s"
  by (intro ext) (simp add: lookup_def split: option.splits)

lemma wof_plain:
  "sdb_trie s' = sdb_trie s \<Longrightarrow> stateObjects s' = stateObjects s \<Longrightarrow>
   wof s' = (wof s)\<lparr>w_refund := refund s', w_logs := logs_of s', w_logSize := logSize s', w_preimages := preimages s'\<rparr>"
  using look_same[of s' s] by (simp add: world_of_def)

lemma logs_of_upd: "logs_of (s\<lparr>logs := (logs s)(h \<mapsto> l)\<rparr>) = (logs_of s)(h := l)" "logs_of (append_journal e s) = logs_of s"
  by (auto simp: logs_of_def append_journal_def)

lemma agree_plain:
  assumes m: "sim s m" and s': "sdb_trie s' = sdb_trie s" "stateObjects s' = stateObjects s" "journal s' = journal s @ [e]" "snd (book s') = snd (book s)"
    and e: "entry_ok (content (sdb_trie s)) e" "wundo va e (wof s') = Some (wof s)" and x: "x = (Inr RUnit, s')" and f: "f (wof s) = wof s'"
  shows "agree x (m_upd f m)"
proof (rule agree_steps[OF m x])
  have r: "rinv s" "m_world m = wof s" using m by (simp_all add: sim_def)
  show "steps s s' [e]" by (rule plain_steps[OF r(1) s' e])
  show "m_upd f m = (Inr RUnit, m\<lparr>m_world := wof s'\<rparr>)" using r(2) f by (simp add: m_upd_def)
qed

lemma agree_AddLog:
  assumes "sim s m"
  shows "agree (sop_exec B (OpAddLog l) s) (m_exec (db_crypto B) (OpAddLog l) m)"
proof -
  let ?l = "l\<lparr>log_TxHash := thash s, log_BlockHash := bhash s, log_TxIndex := txIndex s, log_Index := logSize s\<rparr>"
  let ?s = "(append_journal (addLogChange (thash s)) s)\<lparr>logs := (logs s)(thash s \<mapsto> logs_of s (thash s) @ [?l]), logSize := logSize s + 1\<rparr>"
  have lo: "logs_of ?s = (logs_of s)(thash s := logs_of s (thash s) @ [?l])" by (auto simp: logs_of_def append_journal_def)
  have w: "wof ?s = (wof s)\<lparr>w_logs := (logs_of s)(thash s := logs_of s (thash s) @ [?l]), w_logSize := logSize s + 1\<rparr>"
    using wof_plain[of ?s s] lo by (simp add: append_journal_def) (simp add: world_of_def)
  have tx: "m_tx m = (thash s, bhash s, txIndex s)" using assms by (simp add: sim_def)
  show ?thesis unfolding m_exec.simps tx
  proof (rule agree_plain[OF assms, where e = "addLogChange (thash s)"])
    show "sop_exec B (OpAddLog l) s = (Inr RUnit, ?s)" by (simp add: AddLog_def modifyM_def logs_of_def Let_def)
    show "wundo va (addLogChange (thash s)) (wof ?s) = Some (wof s)" using w by (simp add: world_of_def)
    show "m_log l (thash s, bhash s, txIndex s) (wof s) = wof ?s" using w by (simp add: m_log_def) (simp add: world_of_def)
  qed (simp_all add: append_journal_def book_def)
qed

lemma agree_refund:
  assumes "sim s m" and f: "\<And>w. f w = w\<lparr>w_refund := g (w_refund w)\<rparr>"
  shows "agree (Inr RUnit, (append_journal (refundChange (refund s)) s)\<lparr>refund := g (refund s)\<rparr>) (m_upd f m)"
proof -
  let ?s = "(append_journal (refundChange (refund s)) s)\<lparr>refund := g (refund s)\<rparr>"
  have w: "wof ?s = (wof s)\<lparr>w_refund := g (refund s)\<rparr>"
    using wof_plain[of ?s s] by (simp add: append_journal_def) (simp add: world_of_def logs_of_def[abs_def])
  show ?thesis
    by (rule agree_plain[OF assms(1), of ?s "refundChange (refund s)"])
      (use w in \<open>simp_all add: append_journal_def book_def f\<close>, simp_all add: world_of_def)
qed

lemma agree_AddPreimage:
  assumes "sim s m"
  shows "agree (sop_exec B (OpAddPreimage h p) s) (m_exec (db_crypto B) (OpAddPreimage h p) m)"
proof (cases "preimages s h")
  case None
  let ?s = "(append_journal (addPreimageChange h) s)\<lparr>preimages := (preimages s)(h \<mapsto> p)\<rparr>"
  have w: "wof ?s = (wof s)\<lparr>w_preimages := (preimages s)(h \<mapsto> p)\<rparr>"
    using wof_plain[of ?s s] by (simp add: append_journal_def) (simp add: world_of_def logs_of_def[abs_def])
  have i: "(preimages s)(h := None) = preimages s" using None by (simp add: fun_upd_idem)
  show ?thesis unfolding m_exec.simps
    by (rule agree_plain[OF assms, of ?s "addPreimageChange h"])
      (use w None in \<open>simp_all add: AddPreimage_def modifyM_def append_journal_def book_def\<close>, simp_all add: world_of_def i)
next
  case (Some q)
  have m: "rinv s" "m_world m = wof s" using assms by (simp_all add: sim_def)
  have "m = m\<lparr>m_world := wof s\<rparr>" using m(2) by simp
  then show ?thesis using Some m
    by (intro agree_steps[OF assms _ found_steps[OF found_refl[OF m(1)]]]) (auto simp: AddPreimage_def modifyM_def m_upd_def world_of_def)
qed

lemma rev_bound:
  assumes "revs_ok s saved"
  shows "n \<in> set (map snd (validRevisions s)) \<Longrightarrow> n \<le> length (journal s)" "i \<in> set (map fst (validRevisions s)) \<Longrightarrow> i < nextRevisionId s"
proof -
  have "\<forall>x \<in> set (validRevisions s). snd x \<le> length (journal s)"
    using assms unfolding revs_ok_def list_all2_conv_all_nth all_set_conv_all_nth by (simp add: saves_def)
  then show "n \<in> set (map snd (validRevisions s)) \<Longrightarrow> n \<le> length (journal s)" by auto
  show "i \<in> set (map fst (validRevisions s)) \<Longrightarrow> i < nextRevisionId s" using assms by (auto simp: revs_ok_def)
qed

lemma agree_Snapshot:
  assumes "sim s m"
  shows "agree (sop_exec B OpSnapshot s) (m_exec (db_crypto B) OpSnapshot m)"
proof -
  let ?s = "s\<lparr>nextRevisionId := nextRevisionId s + 1, validRevisions := validRevisions s @ [(nextRevisionId s, length (journal s))]\<rparr>"
  have "rinv ?s" using assms by (simp add: sim_def rinv_def)
  moreover have w: "wof ?s = wof s" using wof_plain[of ?s s] by (simp add: world_of_def logs_of_def[abs_def])
  moreover have "revs_ok ?s (m_saved m @ [(nextRevisionId s, wof s)])"
  proof -
    have r: "revs_ok s (m_saved m)" using assms by (simp add: sim_def)
    have sv: "saves ?s = saves s" using w by (intro ext) (simp add: saves_def)
    have "saves s (nextRevisionId s, length (journal s)) (nextRevisionId s, wof s)" by (simp add: saves_def)
    then have "list_all2 (saves ?s) (validRevisions ?s) (m_saved m @ [(nextRevisionId s, wof s)])"
      using r sv by (simp add: revs_ok_def list_all2_appendI)
    moreover have "\<forall>x \<in> set (validRevisions s). fst x < nextRevisionId s + 1" using r by (fastforce simp: revs_ok_def)
    ultimately show ?thesis using r rev_bound[OF r] by (auto simp: revs_ok_def sorted_append sorted_wrt_append)
  qed
  ultimately have "sim ?s (m\<lparr>m_saved := m_saved m @ [(m_next m, m_world m)], m_next := m_next m + 1\<rparr>)"
    using assms by (simp add: sim_def)
  moreover have "m_next m = nextRevisionId s" using assms by (simp add: sim_def)
  ultimately show ?thesis by (simp add: agree_def Snapshot_def)
qed

lemma undo_all_ok:
  assumes "rinv s" "\<forall>e \<in> set es. entry_ok (content (sdb_trie s)) e" "wundos va es (wof s) = Some w"
  shows "\<exists>s'. undo_all B es s = (Inr (), s') \<and> undone s s' w"
  using assms
proof (induction es arbitrary: s)
  case Nil
  then show ?case by (simp add: undone_def returnM_def)
next
  case (Cons e es)
  then obtain w1 where w1: "wundo va e (wof s) = Some w1" "wundos va es w1 = Some w" by (auto split: Option.bind_splits)
  obtain s1 where s1: "undo B e s = (Inr (), s1)" "undone s s1 w1" using undo_ok[OF Cons.prems(1) w1(1)] Cons.prems(2) by auto
  obtain s' where "undo_all B es s1 = (Inr (), s')" "undone s1 s' w"
    using Cons.IH[of s1] s1(2) w1(2) Cons.prems(2) by (auto simp: undone_def)
  then show ?case using s1 by (auto simp: bindM_run undone_def)
qed

lemma agree_Revert:
  assumes "sim s m"
  shows "agree (sop_exec B (OpRevert i) s) (m_exec (db_crypto B) (OpRevert i) m)"
proof -
  let ?rv = "validRevisions s" and ?J = "journal s"
  define idx where "idx = sort_Search (length ?rv) (\<lambda>k. fst (?rv ! k) \<ge> i)"
  have r: "rinv s" "m_world m = wof s" "revs_ok s (m_saved m)" using assms by (simp_all add: sim_def)
  have len: "length ?rv = length (m_saved m)" and sv: "k < length ?rv \<Longrightarrow> saves s (?rv ! k) (m_saved m ! k)" for k
    using r(3) by (simp_all add: revs_ok_def list_all2_conv_all_nth)
  have ids: "map fst (m_saved m) = map fst ?rv" using len sv by (intro nth_equalityI) (simp_all add: saves_def)
  have srt: "sorted_wrt (<) (map fst ?rv)" "sorted (map snd ?rv)" using r(3) by (simp_all add: revs_ok_def)
  consider (found) "idx < length ?rv" "fst (?rv ! idx) = i" | (missing) "idx = length ?rv \<or> fst (?rv ! idx) \<noteq> i" "map_of ?rv i = None"
    using revision_search[OF srt(1), of i] by (auto simp: idx_def)
  then show ?thesis
  proof cases
    case missing
    have "map_of (m_saved m) i = None" using missing(2) ids by (metis map_of_eq_None_iff list.set_map)
    then show ?thesis using missing(1) by (auto simp: RevertToSnapshot_def Let_def idx_def[symmetric] agree_def m_revert_def)
  next
    case found
    let ?n = "snd (?rv ! idx)" and ?w = "snd (m_saved m ! idx)"
    have n: "?n \<le> length ?J" "wundos va (rev (drop ?n ?J)) (wof s) = Some ?w" "fst (m_saved m ! idx) = i"
      using sv[OF found(1)] found(2) by (simp_all add: saves_def)
    have "\<forall>e \<in> set (rev (drop ?n ?J)). entry_ok (content (sdb_trie s)) e" using r(1) by (auto simp: rinv_def dest: in_set_dropD)
    then obtain s' where u: "undo_all B (rev (drop ?n ?J)) s = (Inr (), s')" "undone s s' ?w" using undo_all_ok[OF r(1) _ n(2)] by blast
    let ?s = "s'\<lparr>journal := take ?n ?J, validRevisions := take idx ?rv\<rparr>"
    have b: "journal s' = ?J" "validRevisions s' = ?rv" "nextRevisionId s' = nextRevisionId s" "thash s' = thash s" "bhash s' = bhash s"
      "txIndex s' = txIndex s" "wof s' = ?w" "rinv s'" using u(2) by (simp_all add: undone_def book_def)
    have run: "sop_exec B (OpRevert i) s = (Inr RUnit, ?s)"
      using found u(1) b by (simp add: RevertToSnapshot_def Let_def idx_def[symmetric] bindM_run modifyM_def)
    have w: "wof ?s = ?w" using wof_plain[of ?s s'] b(7) by (simp add: world_of_def logs_of_def[abs_def])
    have "rinv ?s" using b(1,8) by (auto simp: rinv_def dest: in_set_takeD)
    moreover have "saves ?s (?rv ! k) (m_saved m ! k)" if k: "k < idx" for k
    proof -
      have le: "snd (?rv ! k) \<le> ?n" using srt(2) k found(1) sorted_nth_mono[of "map snd ?rv" k idx] by simp
      have "drop (snd (?rv ! k)) ?J = drop (snd (?rv ! k)) (take ?n ?J) @ drop ?n ?J"
        using le n(1) by (metis append_take_drop_id drop_append diff_is_0_eq drop_0 length_take min.absorb2)
      then show ?thesis using sv[of k] k found(1) n w le by (simp add: saves_def wundos_append)
    qed
    ultimately have "sim ?s (m\<lparr>m_world := ?w, m_saved := take idx (m_saved m)\<rparr>)"
      using assms b w len found(1) srt r(3)
      by (auto simp: sim_def revs_ok_def list_all2_conv_all_nth take_map[symmetric] sorted_wrt_take dest: in_set_takeD)
    moreover have "m_exec (db_crypto B) (OpRevert i) m = (Inr RUnit, m\<lparr>m_world := ?w, m_saved := take idx (m_saved m)\<rparr>)"
      using revision_lookup[of "m_saved m" idx] srt(1) ids len found(1) n(3) by (simp add: m_revert_def)
    ultimately show ?thesis using run by (simp add: agree_def)
  qed
qed

lemma exec_agree:
  assumes "sim s m"
  shows "agree (sop_exec B p s) (m_exec (db_crypto B) p m)"
proof (cases p)
  case (OpExist a)
  then show ?thesis using agree_read[OF assms meth_read[of "\<lambda>_. True" "\<lambda>_. True" a], of False RBool] by (simp add: Exist_def)
next
  case (OpEmpty a)
  have "meth a (read_obj (so_empty (db_crypto B))) (acct_empty (db_crypto B)) id"
    by (rule meth_read) (simp add: so_empty_va acct_empty_def)
  from agree_read[OF assms this, of True RBool] show ?thesis using OpEmpty by (simp add: Empty_def)
next
  case (OpGetBalance a)
  have "meth a (read_obj (\<lambda>ob. acc_Balance (so_data ob))) a_balance id" by (rule meth_read) (simp add: acct_of_def)
  from agree_read[OF assms this, of 0 RInt] show ?thesis using OpGetBalance by (simp add: GetBalance_def)
next
  case (OpGetNonce a)
  have "meth a (read_obj (\<lambda>ob. acc_Nonce (so_data ob))) a_nonce id" by (rule meth_read) (simp add: acct_of_def)
  from agree_read[OF assms this, of 0 RU64] show ?thesis using OpGetNonce by (simp add: GetNonce_def)
next
  case (OpGetCodeHash a)
  have "meth a (read_obj (\<lambda>ob. BytesToHash (acc_CodeHash (so_data ob)))) (\<lambda>x. BytesToHash (a_codeHash x)) id"
    by (rule meth_read) (simp add: acct_of_def)
  from agree_read[OF assms this, of 0 RHash] show ?thesis using OpGetCodeHash by (simp add: GetCodeHash_def)
next
  case (OpGetState a k)
  from agree_read[OF assms meth_GetState[of a k], of 0 RHash] show ?thesis using OpGetState by (simp add: GetState_def)
next
  case (OpHasSuicided a)
  have "meth a (read_obj suicided) a_suicided id" by (rule meth_read) (simp add: acct_of_def)
  from agree_read[OF assms this, of False RBool] show ?thesis using OpHasSuicided by (simp add: HasSuicided_def)
next
  case OpGetRefund
  then show ?thesis using assms by (simp add: agree_def GetRefund_def readM_def sim_def world_of_def)
next
  case (OpAddBalance a n)
  then show ?thesis using agree_change[OF assms meth_AddBalance[of a n]] by (simp add: AddBalance_def)
next
  case (OpSubBalance a n)
  then show ?thesis using agree_change[OF assms meth_SubBalance[of a n]] by (simp add: SubBalance_def)
next
  case (OpSetBalance a n)
  then show ?thesis using agree_change[OF assms meth_SetBalance[of a n]] by (simp add: SetBalance_def)
next
  case (OpSetNonce a n)
  then show ?thesis using agree_change[OF assms meth_SetNonce[of a n]] by (simp add: SetNonce_def)
next
  case (OpSetCode a c)
  then show ?thesis using agree_change[OF assms meth_SetCode[of a "Keccak256Hash (db_crypto B) (case c of None \<Rightarrow> [] | Some b \<Rightarrow> b)" c]]
    by (simp add: SetCode_def Keccak256Hash_def keccak_def hash_bytes_def)
next
  case (OpSetState a k v)
  then show ?thesis using agree_change[OF assms meth_SetState[of a k v]] by (simp add: SetState_def)
next
  case (OpAddRefund n)
  then show ?thesis using agree_refund[OF assms, of _ "\<lambda>r. r + n"] by (simp add: AddRefund_def modifyM_def)
next
  case (OpSubRefund n)
  then show ?thesis using agree_refund[OF assms, of _ "\<lambda>r. r - n"] assms by (auto simp: SubRefund_def Let_def agree_def sim_def world_of_def)
next
  case (OpPrepare th bh ti)
  let ?s = "s\<lparr>thash := th, bhash := bh, txIndex := ti\<rparr>"
  have w: "wof ?s = wof s" using wof_plain[of ?s s] by (simp add: world_of_def logs_of_def[abs_def])
  then have "saves ?s = saves s" by (intro ext) (simp add: saves_def)
  then have "sim ?s (m\<lparr>m_tx := (th, bh, ti)\<rparr>)" using assms w by (simp add: sim_def revs_ok_def rinv_def)
  then show ?thesis using OpPrepare by (simp add: agree_def sdb_Prepare_def modifyM_def)
qed (simp_all only: agree_Suicide[OF assms] agree_CreateAccount[OF assms] agree_AddLog[OF assms] agree_AddPreimage[OF assms]
    agree_Snapshot[OF assms] agree_Revert[OF assms])

theorem run_agree: "sim s m \<Longrightarrow> agree (sop_run B ps s) (m_run (db_crypto B) ps m)"
proof (induction ps arbitrary: s m)
  case Nil
  then show ?case by (simp add: agree_def returnM_def)
next
  case (Cons p ps)
  obtain x s1 where x: "sop_exec B p s = (x, s1)" by fastforce
  obtain y m1 where y: "m_exec (db_crypto B) p m = (y, m1)" by fastforce
  have a: "agree (x, s1) (y, m1)" using exec_agree[OF Cons.prems, of p] x y by simp
  show ?case
  proof (cases x)
    case (Inl e)
    then show ?thesis using a x y by (auto simp: agree_def bindM_run)
  next
    case (Inr v)
    then have "y = Inr v" "sim s1 m1" using a by (auto simp: agree_def)
    then show ?thesis using Cons.IH[of s1 m1] x y Inr
      by (cases "sop_run B ps s1"; cases "m_run (db_crypto B) ps m1"; cases "fst (sop_run B ps s1)")
        (auto simp: agree_def bindM_run returnM_def)
  qed
qed

text \<open>A state that has no pending snapshot.\<close>

definition machine_of :: "'tr StateDB \<Rightarrow> machine" where
  "machine_of s = \<lparr>m_world = wof s, m_saved = [], m_next = nextRevisionId s, m_tx = (thash s, bhash s, txIndex s)\<rparr>"

lemma sim_start: "rinv s \<Longrightarrow> validRevisions s = [] \<Longrightarrow> sim s (machine_of s)"
  by (simp add: sim_def machine_of_def revs_ok_def)

end

end
