(* ===== verification/Trie_Merkle.thy ===== *)
theory Trie_Merkle
  imports Trie_Hash
begin

text \<open>
  What the root hash of a trie means. \<open>penc\<close> is the encoding of a Patricia tree in which every
  subtree of 32 bytes or more is replaced by its hash. \<open>tinv\<close> says that the hashes cached in the
  nodes of a trie are those of the tree it stands for and that what is not in memory, or is clean, is
  in the database.\<close>

section \<open>The encoding of a tree\<close>

definition compact :: "byte list \<Rightarrow> byte list" where
  "compact p = (case hexToCompact p of Inr c \<Rightarrow> c | Inl _ \<Rightarrow> [])"

definition collapse :: "crypto_lib \<Rightarrow> rlp_value \<Rightarrow> rlp_value" where
  "collapse K v = (case v of
     RList _ \<Rightarrow> if length (rlp_enc v) < 32 then v else RBytes (keccak K (rlp_enc v))
   | _ \<Rightarrow> v)"

fun pval :: "crypto_lib \<Rightarrow> ptree \<Rightarrow> rlp_value" where
  "pval K PNil = RBytes []"
| "pval K (PVal v) = RBytes v"
| "pval K (PShort p t) = RList [RBytes (compact p), collapse K (pval K t)]"
| "pval K (PFull ts) = RList (map (\<lambda>t. collapse K (pval K t)) ts)"

definition penc :: "crypto_lib \<Rightarrow> ptree \<Rightarrow> byte list" where
  "penc K t = rlp_enc (pval K t)"

text \<open>The encodings of all nodes of a tree.\<close>

fun pencs :: "crypto_lib \<Rightarrow> ptree \<Rightarrow> byte list set" where
  "pencs K PNil = {}"
| "pencs K (PVal v) = {}"
| "pencs K (PShort p t) = insert (penc K (PShort p t)) (pencs K t)"
| "pencs K (PFull ts) = insert (penc K (PFull ts)) (\<Union>t \<in> set ts. pencs K t)"

definition psmall :: "crypto_lib \<Rightarrow> ptree \<Rightarrow> bool" where
  "psmall K t \<longleftrightarrow> (\<forall>e \<in> pencs K t. length e < 2 ^ 64)"

definition root_hash :: "crypto_lib \<Rightarrow> ptree \<Rightarrow> byte list" where
  "root_hash K t = (if t = PNil then emptyRoot else keccak K (penc K t))"

lemma length_keccak [simp]: "length (keccak K e) = 32"
  by (simp add: keccak_def array_bytes_def)

lemma keccak_not_Nil [simp]: "keccak K e \<noteq> []"
  using length_keccak[of K e] by (metis list.size(3) zero_neq_numeral)

lemma psmall_simps [simp]:
  "psmall K PNil" "psmall K (PVal v)"
  "psmall K (PShort p t) \<longleftrightarrow> length (penc K (PShort p t)) < 2 ^ 64 \<and> psmall K t"
  "psmall K (PFull ts) \<longleftrightarrow> length (penc K (PFull ts)) < 2 ^ 64 \<and> (\<forall>t \<in> set ts. psmall K t)"
  by (auto simp: psmall_def)

lemma compact_ok:
  assumes "hexkey k \<or> nibbles k"
  shows "hexToCompact k = Inr (compact k)" "compactToHex (compact k) = Inr k" "compact k \<noteq> []"
proof -
  obtain c where "hexToCompact k = Inr c" "compactToHex c = Inr k" "c \<noteq> []" by (rule compact_roundtrip[OF assms])
  then show "hexToCompact k = Inr (compact k)" "compactToHex (compact k) = Inr k" "compact k \<noteq> []"
    by (simp_all add: compact_def)
qed

lemma decodeNibbles_length: "decodeNibbles ns = Inr bs \<Longrightarrow> 2 * length bs \<le> length ns + 1"
  by (induction ns arbitrary: bs rule: decodeNibbles.induct) (auto simp: result_simps)

lemma compact_length: "length (compact k) \<le> length k + 1"
proof (cases "hexToCompact k")
  case (Inr c)
  obtain ns x bs where "decodeNibbles ns = Inr bs" "c = x # bs" "length ns \<le> length k"
    using Inr by (auto simp: hexToCompact_def Let_def and_then_Inr_iff split: if_splits)
  then show ?thesis using Inr decodeNibbles_length[of ns bs] by (simp add: compact_def)
qed (simp add: compact_def)

lemma pok_path: "pok (PShort p t) \<Longrightarrow> hexkey p \<or> nibbles p"
  by (auto elim: pok_ShortE simp del: pok.simps(3))

lemma penc_Short: "penc K (PShort p t) = enc_list (enc_str (compact p) @ rlp_enc (collapse K (pval K t)))"
  by (simp add: penc_def)

lemma penc_Full: "penc K (PFull ts) = enc_list (concat (map (\<lambda>t. rlp_enc (collapse K (pval K t))) ts))"
  by (simp add: penc_def comp_def)

lemma collapse_leaf [simp]: "collapse K (RBytes b) = RBytes b"
  by (simp add: collapse_def)

text \<open>A reference to a node: its encoding, or the hash of it.\<close>

lemma collapse_node:
  assumes "pok t"
  shows "collapse K (pval K t) = (if length (penc K t) < 32 then pval K t else RBytes (keccak K (penc K t)))"
  using assms by (cases t) (simp_all add: collapse_def penc_def del: pok.simps(3))

section \<open>What is stored\<close>

fun stored :: "crypto_lib \<Rightarrow> database \<Rightarrow> ptree \<Rightarrow> bool" where
  "stored K m PNil = True"
| "stored K m (PVal v) = True"
| "stored K m (PShort p t) = ((32 \<le> length (penc K (PShort p t)) \<longrightarrow>
     m (keccak K (penc K (PShort p t))) = Some (penc K (PShort p t))) \<and> stored K m t)"
| "stored K m (PFull ts) = ((32 \<le> length (penc K (PFull ts)) \<longrightarrow>
     m (keccak K (penc K (PFull ts))) = Some (penc K (PFull ts))) \<and> (\<forall>t \<in> set ts. stored K m t))"

definition stored_root :: "crypto_lib \<Rightarrow> database \<Rightarrow> ptree \<Rightarrow> bool" where
  "stored_root K m t \<longleftrightarrow> m (keccak K (penc K t)) = Some (penc K t) \<and> stored K m t"

lemma stored_mono: "stored K m t \<Longrightarrow> m \<subseteq>\<^sub>m m' \<Longrightarrow> stored K m' t"
  by (induction t) (auto simp: map_le_def dom_def)

lemma stored_root_mono: "stored_root K m t \<Longrightarrow> m \<subseteq>\<^sub>m m' \<Longrightarrow> stored_root K m' t"
  by (auto simp: stored_root_def stored_mono map_le_def dom_def)

lemma stored_long: "pok t \<Longrightarrow> stored K m t \<Longrightarrow> 32 \<le> length (penc K t) \<Longrightarrow> stored_root K m t"
  by (cases t) (auto simp: stored_root_def)

section \<open>The invariant of nodes\<close>

definition hash_known :: "crypto_lib \<Rightarrow> bool \<Rightarrow> byte list \<Rightarrow> ptree \<Rightarrow> bool" where
  "hash_known K tp h t \<longleftrightarrow> h = keccak K (penc K t) \<and> (tp \<or> 32 \<le> length (penc K t))"

definition flag_ok :: "crypto_lib \<Rightarrow> database \<Rightarrow> bool \<Rightarrow> nodeFlag \<Rightarrow> ptree \<Rightarrow> bool" where
  "flag_ok K m tp f t \<longleftrightarrow>
    (case flag_hash f of None \<Rightarrow> dirty f \<or> \<not> tp \<and> length (penc K t) < 32 | Some h \<Rightarrow> hash_known K tp h t \<and> (\<not> dirty f \<longrightarrow> stored_root K m t))"

definition unloaded :: "crypto_lib \<Rightarrow> database \<Rightarrow> bool \<Rightarrow> node \<Rightarrow> ptree \<Rightarrow> bool" where
  "unloaded K m tp n t \<longleftrightarrow>
    (\<exists>h. n = HashNode h \<and> hash_known K tp h t \<and> stored_root K m t \<and> pok t \<and> psmall K t)"

fun tinv :: "crypto_lib \<Rightarrow> database \<Rightarrow> bool \<Rightarrow> node \<Rightarrow> ptree \<Rightarrow> bool" where
  "tinv K m tp n PNil = (n = NilNode)"
| "tinv K m tp n (PVal v) = (n = ValueNode v)"
| "tinv K m tp n (PShort p t) = (unloaded K m tp n (PShort p t) \<or>
     (\<exists>v f. n = ShortNode p v f \<and> tinv K m False v t \<and> flag_ok K m tp f (PShort p t)))"
| "tinv K m tp n (PFull ts) = (unloaded K m tp n (PFull ts) \<or>
     (\<exists>ch f. n = FullNode ch f \<and> list_all2 (tinv K m False) ch ts \<and> flag_ok K m tp f (PFull ts)))"

lemma flag_ok_mono: "flag_ok K m tp f t \<Longrightarrow> m \<subseteq>\<^sub>m m' \<Longrightarrow> flag_ok K m' tp f t"
  by (auto simp: flag_ok_def stored_root_mono split: option.splits)

lemma unloaded_mono: "unloaded K m tp n t \<Longrightarrow> m \<subseteq>\<^sub>m m' \<Longrightarrow> unloaded K m' tp n t"
  by (auto simp: unloaded_def stored_root_mono)

lemma tinv_mono: "tinv K m tp n t \<Longrightarrow> m \<subseteq>\<^sub>m m' \<Longrightarrow> tinv K m' tp n t"
proof (induction t arbitrary: n tp)
  case (PShort p t)
  then show ?case
    by (auto simp: unloaded_mono flag_ok_mono)
next
  case (PFull ts)
  have "list_all2 (tinv K m' False) ch ts" if "list_all2 (tinv K m False) ch ts" for ch
    using that PFull.IH PFull.prems(2) by (auto simp: list_all2_conv_all_nth)
  then show ?case using PFull.prems
    by (auto simp: unloaded_mono flag_ok_mono)
qed simp_all

lemma tinv_loaded:
  "tinv K m tp n (PShort p t) \<Longrightarrow> \<forall>h. n \<noteq> HashNode h \<Longrightarrow> \<exists>v f. n = ShortNode p v f"
  "tinv K m tp n (PFull ts) \<Longrightarrow> \<forall>h. n \<noteq> HashNode h \<Longrightarrow> \<exists>ch f. n = FullNode ch f"
  by (auto simp: unloaded_def)

lemma tinv_HashNode: "tinv K m tp (HashNode h) t \<longleftrightarrow> unloaded K m tp (HashNode h) t"
  by (cases t) (auto simp: unloaded_def)

lemma tinv_ShortNode:
  "tinv K m tp (ShortNode k v f) (PShort p t) \<longleftrightarrow> k = p \<and> tinv K m False v t \<and> flag_ok K m tp f (PShort p t)"
  by (auto simp: unloaded_def)

lemma tinv_FullNode:
  "tinv K m tp (FullNode ch f) (PFull ts) \<longleftrightarrow> list_all2 (tinv K m False) ch ts \<and> flag_ok K m tp f (PFull ts)"
  by (auto simp: unloaded_def)

declare tinv.simps(3,4) [simp del]

section \<open>Reading a node back\<close>

lemma SplitList_enc: "length (enc_list c @ r) < 2 ^ 64 \<Longrightarrow> SplitList (enc_list c @ r) = Inr (c, r)"
  using Split_enc[of List c r] by (simp add: SplitList_def enc_kind_def kind_ok_def)

lemma Split_str: "length (enc_str c @ r) < 2 ^ 64 \<Longrightarrow>
    Split (enc_str c @ r) = Inr (if single c then Byte else String, c, r)"
  using Split_enc[OF enc_str_kind(2)] unfolding enc_str_kind(1) .

lemma SplitString_enc: "length (enc_str c @ r) < 2 ^ 64 \<Longrightarrow> SplitString (enc_str c @ r) = Inr (c, r)"
  by (simp add: SplitString_def Split_str)

lemma count_items:
  assumes "list_all is_item vs" "length (concat (map rlp_enc vs)) < 2 ^ 64"
  shows "count_or_0 (concat (map rlp_enc vs)) = length vs"
  using CountValues_loop_items[OF assms, of _ 0] by (simp add: CountValues_def count_or_0_def)

lemma collapse_item [simp]: "is_item (collapse K (pval K t))"
  by (cases t) (auto simp: collapse_def)

text \<open>The encoding of a reference, and what reading it gives.\<close>

definition pref :: "crypto_lib \<Rightarrow> ptree \<Rightarrow> byte list" where
  "pref K t = rlp_enc (collapse K (pval K t))"

definition reads_back :: "crypto_lib \<Rightarrow> database \<Rightarrow> ptree \<Rightarrow> bool" where
  "reads_back K m t \<longleftrightarrow> (\<forall>ho tp g r. pok t \<longrightarrow> psmall K t \<longrightarrow> stored K m t \<longrightarrow> length (penc K t @ r) < 2 ^ 64 \<longrightarrow>
     flag_ok K m tp (decode_flag ho g) t \<longrightarrow>
     (\<exists>n. decodeNode ho (penc K t @ r) g = Inr n \<and> tinv K m tp n t \<and> (\<forall>h. n \<noteq> HashNode h)))"

lemma pref_simps [simp]: "pref K PNil = enc_str []" "pref K (PVal v) = enc_str v"
  by (simp_all add: pref_def collapse_def)

lemma pref_node: "pok t \<Longrightarrow> pref K t = (if length (penc K t) < 32 then penc K t else enc_str (keccak K (penc K t)))"
  by (simp add: pref_def collapse_node penc_def)

lemma penc_list: "pok t \<Longrightarrow> \<exists>c. penc K t = enc_list c"
  by (cases t) (auto simp: penc_def)

lemma decodeRef_pref:
  assumes t: "t = PNil \<or> pok t" and rb: "reads_back K m t" and "psmall K t" "stored K m t"
    and len: "length (pref K t @ r) < 2 ^ 64"
  shows "\<exists>n. decodeRef (pref K t @ r) g = Inr (n, r) \<and> tinv K m False n t"
proof (cases "t = PNil")
  case True
  then show ?thesis using len by (simp add: decodeRef.simps Split_str single_def)
next
  case False
  then have ok: "pok t" using t by simp
  show ?thesis
  proof (cases "length (penc K t) < 32")
    case True
    obtain c where c: "penc K t = enc_list c" using penc_list[OF ok] by blast
    have e: "pref K t = penc K t" using True ok by (simp add: pref_node)
    have "Split (penc K t @ r) = Inr (List, c, r)"
      using Split_enc[of List c r] len unfolding e c by (simp add: enc_kind_def kind_ok_def)
    moreover have "flag_ok K m False (decode_flag None g) t" using True by (simp add: flag_ok_def decode_flag_def)
    then obtain n where "decodeNode None (penc K t @ r) g = Inr n" "tinv K m False n t"
      using rb len assms(3,4) ok unfolding reads_back_def e by blast
    ultimately show ?thesis using True by (simp add: e decodeRef.simps)
  next
    case False
    then have e: "pref K t = enc_str (keccak K (penc K t))" using ok by (simp add: pref_node)
    have "unloaded K m False (HashNode (keccak K (penc K t))) t"
      using False ok assms(3,4) by (simp add: unloaded_def hash_known_def stored_long)
    then have "tinv K m False (HashNode (keccak K (penc K t))) t" by (simp add: tinv_HashNode)
    then show ?thesis using len unfolding e by (simp add: decodeRef.simps Split_str single_def)
  qed
qed

lemma decodeFull_loop_prefs:
  assumes "\<forall>t \<in> set ts. (t = PNil \<or> pok t) \<and> reads_back K m t \<and> psmall K t \<and> stored K m t"
    and "length (concat (map (pref K) ts) @ r) < 2 ^ 64"
  shows "\<exists>cs. decodeFull_loop (length ts) (concat (map (pref K) ts) @ r) g = Inr (cs, r) \<and> list_all2 (tinv K m False) cs ts"
  using assms
proof (induction ts)
  case (Cons t ts)
  let ?r = "concat (map (pref K) ts) @ r"
  obtain cs where cs: "decodeFull_loop (length ts) ?r g = Inr (cs, r)" "list_all2 (tinv K m False) cs ts"
    using Cons by auto
  moreover obtain n where "decodeRef (pref K t @ ?r) g = Inr (n, ?r)" "tinv K m False n t"
    using decodeRef_pref[of t K m ?r g] Cons.prems by auto
  ultimately show ?case by (simp add: decodeFull_loop.simps[of "Suc _"])
qed (simp add: decodeFull_loop.simps)

lemma decodeNode_list:
  assumes "length (enc_list (concat (map rlp_enc vs)) @ r) < 2 ^ 64" "list_all is_item vs"
  shows "decodeNode ho (enc_list (concat (map rlp_enc vs)) @ r) g =
    (if length vs = 2 then decodeShort ho (concat (map rlp_enc vs)) g
     else if length vs = 17 then decodeFull ho (concat (map rlp_enc vs)) g
     else Inl (Err decodeError))"
proof -
  have "length (concat (map rlp_enc vs)) < 2 ^ 64"
    using assms(1) enc_kind_length[of "concat (map rlp_enc vs)" List] by (simp add: enc_kind_def)
  moreover have "enc_list (concat (map rlp_enc vs)) \<noteq> []"
    using enc_kind_nonempty[of List] by (simp add: enc_kind_def kind_ok_def)
  ultimately show ?thesis using assms
    by (subst decodeNode.simps) (simp add: SplitList_enc count_items)
qed

lemma reads_back_Short:
  assumes "reads_back K m t"
  shows "reads_back K m (PShort p t)"
  unfolding reads_back_def
proof (intro allI impI)
  fix ho tp g r
  assume ok: "pok (PShort p t)" and sm: "psmall K (PShort p t)" and st: "stored K m (PShort p t)"
    and len: "length (penc K (PShort p t) @ r) < 2 ^ 64" and f: "flag_ok K m tp (decode_flag ho g) (PShort p t)"
  let ?vs = "[RBytes (compact p), collapse K (pval K t)]"
  have e: "penc K (PShort p t) = enc_list (concat (map rlp_enc ?vs))" by (simp add: penc_def)
  have c: "concat (map rlp_enc ?vs) = enc_str (compact p) @ pref K t" by (simp add: pref_def)
  have d: "decodeNode ho (penc K (PShort p t) @ r) g = decodeShort ho (enc_str (compact p) @ pref K t) g"
    using decodeNode_list[of ?vs r ho g] len unfolding e c by simp
  have l: "length (enc_str (compact p) @ pref K t) < 2 ^ 64"
    using enc_kind_length[of "concat (map rlp_enc ?vs)" List] len unfolding e c by (simp add: enc_kind_def)
  note k = SplitString_enc[OF l] compact_ok(2)[OF pok_path[OF ok]]
  show "\<exists>n. decodeNode ho (penc K (PShort p t) @ r) g = Inr n \<and> tinv K m tp n (PShort p t) \<and> (\<forall>h. n \<noteq> HashNode h)"
  proof (cases rule: pok_ShortE[OF ok])
    case (1 v)
    then have "SplitString (pref K t) = Inr (v, [])" using SplitString_enc[of v "[]"] l by simp
    then have "decodeShort ho (enc_str (compact p) @ pref K t) g = Inr (ShortNode p (ValueNode v) (decode_flag ho g))"
      using k 1(2) by (simp add: decodeShort.simps hexkey_term)
    then show ?thesis unfolding d using 1(1) f by (simp add: tinv_ShortNode)
  next
    case (2 us)
    then have "\<exists>n. decodeRef (pref K t @ []) g = Inr (n, []) \<and> tinv K m False n t"
      using assms sm st l by (intro decodeRef_pref) simp_all
    then obtain n where "decodeRef (pref K t) g = Inr (n, [])" "tinv K m False n t" by auto
    moreover from this(1) have "decodeShort ho (enc_str (compact p) @ pref K t) g = Inr (ShortNode p n (decode_flag ho g))"
      using k 2(3) by (simp add: decodeShort.simps nibbles_no_term)
    ultimately show ?thesis unfolding d using f by (simp add: tinv_ShortNode)
  qed
qed

lemma reads_back_Full:
  assumes "\<And>t. t \<in> set ts \<Longrightarrow> reads_back K m t"
  shows "reads_back K m (PFull ts)"
  unfolding reads_back_def
proof (intro allI impI)
  fix ho tp g r
  assume ok: "pok (PFull ts)" and sm: "psmall K (PFull ts)" and st: "stored K m (PFull ts)"
    and len: "length (penc K (PFull ts) @ r) < 2 ^ 64" and f: "flag_ok K m tp (decode_flag ho g) (PFull ts)"
  let ?vs = "map (\<lambda>t. collapse K (pval K t)) ts"
  have ts: "length ts = 17" "\<forall>i < 17. pchild i (ts ! i)" using ok by (auto simp: pok_Full)
  then have sp: "ts = take 16 ts @ [ts ! 16]" using take_Suc_conv_app_nth[of 16 ts] by simp
  have e: "penc K (PFull ts) = enc_list (concat (map rlp_enc ?vs))" by (simp add: penc_def)
  have "concat (map rlp_enc ?vs) = concat (map (pref K) ts)" by (simp add: pref_def [abs_def] comp_def)
  also have "\<dots> = concat (map (pref K) (take 16 ts)) @ pref K (ts ! 16)" by (subst sp) simp
  finally have c: "concat (map rlp_enc ?vs) = concat (map (pref K) (take 16 ts)) @ pref K (ts ! 16)" .
  have d: "decodeNode ho (penc K (PFull ts) @ r) g = decodeFull ho (concat (map (pref K) (take 16 ts)) @ pref K (ts ! 16)) g"
    using decodeNode_list[of ?vs r ho g] len ts unfolding e c by (simp add: list_all_iff)
  have l: "length (concat (map (pref K) (take 16 ts)) @ pref K (ts ! 16)) < 2 ^ 64"
    using enc_kind_length[of "concat (map rlp_enc ?vs)" List] len unfolding e c by (simp add: enc_kind_def)
  have "\<forall>t \<in> set (take 16 ts). (t = PNil \<or> pok t) \<and> reads_back K m t \<and> psmall K t \<and> stored K m t"
  proof
    fix t assume "t \<in> set (take 16 ts)"
    then have t: "t \<in> set ts" and "\<exists>i < 16. t = ts ! i"
      using ts(1) by (auto dest: in_set_takeD) (auto simp: in_set_conv_nth)
    then obtain i where "i < 16" "t = ts ! i" by blast
    then have "t = PNil \<or> pok t" using ts(2)[rule_format, of i] by (simp add: pchild_def)
    then show "(t = PNil \<or> pok t) \<and> reads_back K m t \<and> psmall K t \<and> stored K m t"
      using sm st assms[OF t] t by simp
  qed
  from decodeFull_loop_prefs[OF this l, of g] ts obtain cs where cs:
    "decodeFull_loop 16 (concat (map (pref K) (take 16 ts)) @ pref K (ts ! 16)) g = Inr (cs, pref K (ts ! 16))"
    "list_all2 (tinv K m False) cs (take 16 ts)"
    by auto
  have "pchild 16 (ts ! 16)" using ts by simp
  then obtain v where v: "pref K (ts ! 16) = enc_str v"
      "tinv K m False (if length v > 0 then ValueNode v else NilNode) (ts ! 16)"
    by (auto simp: pchild_def)
  have "SplitString (enc_str v) = Inr (v, [])" using SplitString_enc[of v "[]"] l unfolding v(1) by simp
  then have n: "decodeNode ho (penc K (PFull ts) @ r) g = Inr (FullNode (cs @ [if length v > 0 then ValueNode v else NilNode]) (decode_flag ho g))"
    using cs(1) unfolding v(1) d by (simp add: decodeFull.simps)
  have "list_all2 (tinv K m False) (cs @ [if length v > 0 then ValueNode v else NilNode]) (take 16 ts @ [ts ! 16])"
    using cs(2) v(2) by (intro list_all2_appendI) auto
  then show "\<exists>n. decodeNode ho (penc K (PFull ts) @ r) g = Inr n \<and> tinv K m tp n (PFull ts) \<and> (\<forall>h. n \<noteq> HashNode h)"
    using n f unfolding sp[symmetric] by (simp add: tinv_FullNode)
qed

lemma reads_back: "reads_back K m t"
proof (induction t)
  case (PShort p t)
  then show ?case by (rule reads_back_Short)
next
  case (PFull ts)
  then show ?case by (rule reads_back_Full)
qed (simp_all add: reads_back_def)

lemma resolveHash_tinv:
  assumes "unloaded K m tp (HashNode h) t"
  shows "\<exists>n. resolveHash (Some m) g h pre = Inr n \<and> tinv K m tp n t \<and> (\<forall>h. n \<noteq> HashNode h)"
proof -
  have h: "h = keccak K (penc K t)" "stored_root K m t" "pok t" "psmall K t" "hash_known K tp h t"
    using assms by (auto simp: unloaded_def hash_known_def)
  have "length (penc K t @ []) < 2 ^ 64" using h(3,4) by (cases t) auto
  moreover have "flag_ok K m tp (decode_flag (Some h) g) t" using h by (simp add: flag_ok_def decode_flag_def)
  ultimately obtain n where n: "decodeNode (Some h) (penc K t @ []) g = Inr n" "tinv K m tp n t" "\<forall>h. n \<noteq> HashNode h"
    using reads_back[of K m t] h(2-4) unfolding reads_back_def stored_root_def by blast
  moreover have "m h = Some (penc K t)" using h by (simp add: stored_root_def)
  ultimately show ?thesis by (simp add: resolveHash_def mustDecodeNode_def)
qed

definition db_map :: "database option \<Rightarrow> database" where
  "db_map db = (case db of None \<Rightarrow> Map.empty | Some m \<Rightarrow> m)"

lemma resolveHash_db_map:
  assumes "unloaded K (db_map db) tp (HashNode h) t"
  shows "\<exists>n. resolveHash db g h pre = Inr n \<and> tinv K (db_map db) tp n t \<and> (\<forall>h. n \<noteq> HashNode h)"
  using assms resolveHash_tinv[of K "db_map db" tp h t]
  by (cases db) (simp_all add: db_map_def unloaded_def stored_root_def)

lemma tinv_new [simp]: "flag_ok K m tp (newFlag g) t"
  by (simp add: flag_ok_def newFlag_def)

lemma tinv_gen [simp]: "flag_ok K m tp (f\<lparr>flag_gen := g\<rparr>) t = flag_ok K m tp f t"
  by (simp add: flag_ok_def split: option.splits)

lemma tinv_unloaded_Short:
  assumes "tinv K (db_map db) tp (HashNode h) (PShort p t)"
  shows "\<exists>v f. resolveHash db g h pre = Inr (ShortNode p v f) \<and> tinv K (db_map db) tp (ShortNode p v f) (PShort p t)"
  using resolveHash_db_map[OF assms[unfolded tinv_HashNode], of g pre] tinv_loaded(1) by blast

lemma tinv_unloaded_Full:
  assumes "tinv K (db_map db) tp (HashNode h) (PFull ts)"
  shows "\<exists>ch f. resolveHash db g h pre = Inr (FullNode ch f) \<and> tinv K (db_map db) tp (FullNode ch f) (PFull ts)"
  using resolveHash_db_map[OF assms[unfolded tinv_HashNode], of g pre] tinv_loaded(2) by blast

lemma tinv_load_Full:
  assumes "tinv K m tp (FullNode ch f) (PFull ts)" "tinv K m False c (ts ! i)"
  shows "tinv K m tp (FullNode (ch[i := c]) (f\<lparr>flag_gen := g\<rparr>)) (PFull ts)"
proof -
  have "list_all2 (tinv K m False) (ch[i := c]) (ts[i := ts ! i])"
    using assms by (intro list_all2_update_cong) (auto simp: tinv_FullNode)
  then show ?thesis using assms(1) by (simp add: tinv_FullNode)
qed

interpretation merkle: trie_rel db "tinv K (db_map db)" for db K
proof (unfold_locales, goal_cases)
  case (3 tp n p t)
  show ?case
  proof (cases n)
    case (HashNode h)
    then show ?thesis using tinv_unloaded_Short[of K db tp h p t] 3 by simp
  qed (use tinv_loaded(1)[OF 3] in simp_all)
next
  case (4 tp n ts)
  show ?case
  proof (cases n)
    case (HashNode h)
    then show ?thesis using tinv_unloaded_Full[of K db tp h ts] 4 by simp
  qed (use tinv_loaded(2)[OF 4] in simp_all)
next
  case (10 tp ch f ts i c g)
  show ?case by (rule tinv_load_Full[OF 10(1,3)])
qed (simp_all add: tinv_ShortNode tinv_FullNode)

end
