(* ===== verification/Trie_Commit.thy ===== *)
theory Trie_Commit
  imports Trie_Merkle
begin

text \<open>
  The hasher computes the root hash of \<open>Trie_Merkle\<close>, keeps the invariant \<open>tinv\<close> and, when it
  commits, leaves every node of the tree in the database. From this: the root hash depends on the content
  of a trie alone, and a committed trie can be opened again from its root hash.\<close>

section \<open>Nodes and their children\<close>

fun nkids :: "node \<Rightarrow> node list" where
  "nkids (ShortNode k v f) = [v]"
| "nkids (FullNode ch f) = ch"
| "nkids n = []"

fun pkids :: "ptree \<Rightarrow> ptree list" where
  "pkids (PShort p t) = [t]"
| "pkids (PFull ts) = ts"
| "pkids t = []"

fun shape :: "node \<Rightarrow> ptree \<Rightarrow> bool" where
  "shape (ShortNode k v f) (PShort p t) = (k = p)"
| "shape (FullNode ch f) (PFull ts) = True"
| "shape n t = False"

fun node_flags :: "node \<Rightarrow> nodeFlag" where
  "node_flags (ShortNode k v f) = f"
| "node_flags (FullNode ch f) = f"
| "node_flags n = newFlag 0"

definition sub_inv :: "crypto_lib \<Rightarrow> database \<Rightarrow> node \<Rightarrow> ptree \<Rightarrow> bool" where
  "sub_inv K m n t \<longleftrightarrow> shape n t \<and> list_all2 (tinv K m False) (nkids n) (pkids t)"

lemma tinv_node: "shape n t \<Longrightarrow> tinv K m tp n t \<longleftrightarrow> sub_inv K m n t \<and> flag_ok K m tp (node_flags n) t"
  by (cases "(n, t)" rule: shape.cases) (auto simp: sub_inv_def tinv_ShortNode tinv_FullNode)

lemma shape_cache_hash [simp]:
  "shape (cache_hash hn db n) t = shape n t" "nkids (cache_hash hn db n) = nkids n"
  by (cases "(n, t)" rule: shape.cases; simp) (cases n; simp)

lemma sub_inv_cache_hash [simp]: "sub_inv K m (cache_hash hn db n) t = sub_inv K m n t"
  by (simp add: sub_inv_def)

lemma node_flags_cache_hash: "shape n t \<Longrightarrow> node_flags (cache_hash hn db n) = set_flags hn db (node_flags n)"
  by (cases n) auto

lemma cache_flags: "shape n t \<Longrightarrow> cache n = (flag_hash (node_flags n), dirty (node_flags n))"
  by (cases n) auto

lemma sub_inv_mono: "sub_inv K m n t \<Longrightarrow> m \<subseteq>\<^sub>m m' \<Longrightarrow> sub_inv K m' n t"
  unfolding sub_inv_def by (auto elim!: list_all2_mono intro: tinv_mono)

lemma stored_kids: "shape n t \<Longrightarrow> stored K m t \<longleftrightarrow>
    (32 \<le> length (penc K t) \<longrightarrow> m (keccak K (penc K t)) = Some (penc K t)) \<and> (\<forall>c \<in> set (pkids t). stored K m c)"
  by (cases t) auto

lemma pencs_kids: "shape n t \<Longrightarrow> pencs K t = insert (penc K t) (\<Union>c \<in> set (pkids t). pencs K c)"
  by (cases t) auto

lemma tinv_shape: "tinv K m tp n t \<Longrightarrow> pok t \<Longrightarrow> unloaded K m tp n t \<or> shape n t"
  by (cases t) (auto simp: tinv.simps(3,4))

section \<open>Storing a node\<close>

lemma collapse_encodable: "rlp_encodable v \<Longrightarrow> rlp_encodable (collapse K v)"
  by (cases v) (simp_all add: collapse_def)

lemma pval_encodable: "rlp_encodable (pval K t)"
  by (induction t) (auto simp: collapse_encodable list_all_iff)

definition put_node :: "crypto_lib \<Rightarrow> ptree \<Rightarrow> database option \<Rightarrow> database option" where
  "put_node K t db = map_option (\<lambda>m. m(keccak K (penc K t) \<mapsto> penc K t)) db"

lemma store_node:
  assumes "shape n0 t" "psmall K t" "h_crypto h = K" "\<forall>k. \<not> put_fails h k"
    and col: "node_rlp n = pval K t" "cache n = (ho, d)" "\<forall>c. ho = Some c \<longrightarrow> c = keccak K (penc K t)"
    and n: "\<forall>b. n \<noteq> HashNode b" "n \<noteq> NilNode"
  shows "store h n force db =
    (if length (penc K t) < 32 \<and> \<not> force then (Inr n, db) else (Inr (HashNode (keccak K (penc K t))), put_node K t db))"
proof -
  have "length (rlp_enc (pval K t)) < 2 ^ 64" using assms(1,2) by (cases t) (auto simp: penc_def)
  then have e: "Encode (node_rlp n) = Inr (penc K t)"
    unfolding col(1) penc_def by (intro EncodeToBytes_enc pval_encodable)
  have k: "(case fst (cache n) of None \<Rightarrow> keccak (h_crypto h) (penc K t) | Some c \<Rightarrow> c) = keccak K (penc K t)"
    using col(2,3) assms(3) by (auto split: option.splits)
  have "store h n force db = (if length (penc K t) < 32 \<and> \<not> force then (Inr n, db)
      else if db \<noteq> None then bindM (db_Put h (keccak K (penc K t)) (penc K t)) (\<lambda>_. returnM (HashNode (keccak K (penc K t)))) db
      else (Inr (HashNode (keccak K (penc K t))), db))"
    using n e k by (cases n) (simp_all add: store_def Let_def)
  then show ?thesis using assms(4)
    by (cases db) (simp_all add: put_node_def db_Put_def bindM_run)
qed

section \<open>Content-addressed databases\<close>

text \<open>
  Every entry is an encoding of \<open>S\<close>, stored under its hash. When no two members of \<open>S\<close> have the
  same hash, writing one of them never overwrites another entry.\<close>

definition addressed :: "crypto_lib \<Rightarrow> byte list set \<Rightarrow> database \<Rightarrow> bool" where
  "addressed K S m \<longleftrightarrow> inj_on (keccak K) S \<and> (\<forall>h e. m h = Some e \<longrightarrow> e \<in> S \<and> h = keccak K e)"

lemma addressed_put:
  assumes "addressed K S m" "e \<in> S"
  shows "m \<subseteq>\<^sub>m m(keccak K e \<mapsto> e)" "addressed K S (m(keccak K e \<mapsto> e))"
proof -
  have "e' = e" if "m (keccak K e) = Some e'" for e'
    using assms that by (metis addressed_def inj_onD)
  then show "m \<subseteq>\<^sub>m m(keccak K e \<mapsto> e)" by (auto simp: map_le_def dom_def)
  show "addressed K S (m(keccak K e \<mapsto> e))" using assms by (auto simp: addressed_def)
qed

text \<open>
  The hasher writes to \<open>db\<close>; what is read is \<open>m0\<close> overlaid by it. Without a database nothing is
  written and nothing needs to be known about it.\<close>

definition view :: "database \<Rightarrow> database option \<Rightarrow> database" where
  "view m0 db = m0 ++ db_map db"

definition writable :: "crypto_lib \<Rightarrow> byte list set \<Rightarrow> database \<Rightarrow> database option \<Rightarrow> ptree \<Rightarrow> bool" where
  "writable K S m0 db t \<longleftrightarrow> db = None \<or> (addressed K S (view m0 db) \<and> pencs K t \<subseteq> S)"

definition grows :: "crypto_lib \<Rightarrow> byte list set \<Rightarrow> database \<Rightarrow> database option \<Rightarrow> database option \<Rightarrow> bool" where
  "grows K S m0 db db' \<longleftrightarrow> (db' = None \<longleftrightarrow> db = None) \<and> view m0 db \<subseteq>\<^sub>m view m0 db' \<and>
     (db \<noteq> None \<longrightarrow> addressed K S (view m0 db'))"

lemma grows_refl: "writable K S m0 db t \<Longrightarrow> grows K S m0 db db"
  by (auto simp: grows_def writable_def)

lemma grows_trans: "grows K S m0 db db1 \<Longrightarrow> grows K S m0 db1 db2 \<Longrightarrow> grows K S m0 db db2"
  unfolding grows_def using map_le_trans by blast

lemma grows_writable: "grows K S m0 db db1 \<Longrightarrow> writable K S m0 db t \<Longrightarrow> writable K S m0 db1 t"
  by (auto simp: grows_def writable_def)

lemma view_Some: "view m0 (Some m) = m0 ++ m"
  by (simp add: view_def db_map_def)

lemma grows_put:
  assumes "writable K S m0 db t" "shape n t"
  shows "grows K S m0 db (put_node K t db)"
    and "db \<noteq> None \<Longrightarrow> view m0 (put_node K t db) (keccak K (penc K t)) = Some (penc K t)"
proof -
  have "penc K t \<in> pencs K t" using pencs_kids[OF assms(2)] by blast
  then show "grows K S m0 db (put_node K t db)"
    using assms(1) addressed_put[of K S "view m0 db" "penc K t"]
    by (cases db) (auto simp: writable_def grows_def put_node_def view_Some)
qed (auto simp: put_node_def view_Some)

section \<open>The hasher\<close>

definition hashed :: "crypto_lib \<Rightarrow> bool \<Rightarrow> node \<Rightarrow> ptree \<Rightarrow> bool" where
  "hashed K tp hn t \<longleftrightarrow> hn \<noteq> NilNode \<and> (tp \<or> 32 \<le> length (penc K t) \<longrightarrow> hn = HashNode (keccak K (penc K t))) \<and>
     (\<not> tp \<longrightarrow> node_rlp hn = collapse K (pval K t))"

definition hash_result ::
  "crypto_lib \<Rightarrow> byte list set \<Rightarrow> database \<Rightarrow> bool \<Rightarrow> ptree \<Rightarrow> database option \<Rightarrow>
     (trie_error, node \<times> node) result \<times> database option \<Rightarrow> bool" where
  "hash_result K S m0 tp t db res \<longleftrightarrow>
    (\<exists>hn n' db'. res = (Inr (hn, n'), db') \<and> hashed K tp hn t \<and> tinv K (view m0 db') tp n' t \<and>
       grows K S m0 db db' \<and> (db \<noteq> None \<longrightarrow> stored K (view m0 db') t \<and> (tp \<longrightarrow> stored_root K (view m0 db') t)))"

definition kids_result ::
  "crypto_lib \<Rightarrow> byte list set \<Rightarrow> database \<Rightarrow> node \<Rightarrow> ptree \<Rightarrow> database option \<Rightarrow>
     (trie_error, node \<times> node) result \<times> database option \<Rightarrow> bool" where
  "kids_result K S m0 n t db res \<longleftrightarrow>
    (\<exists>col cch db'. res = (Inr (col, cch), db') \<and> node_rlp col = pval K t \<and> cache col = cache n \<and>
       (\<forall>b. col \<noteq> HashNode b) \<and> col \<noteq> NilNode \<and> node_flags cch = node_flags n \<and>
       sub_inv K (view m0 db') cch t \<and> grows K S m0 db db' \<and>
       (db \<noteq> None \<longrightarrow> (\<forall>c \<in> set (pkids t). stored K (view m0 db') c)))"

definition hash_sound :: "crypto_lib \<Rightarrow> byte list set \<Rightarrow> database \<Rightarrow> hasher \<Rightarrow> ptree \<Rightarrow> bool" where
  "hash_sound K S m0 h t \<longleftrightarrow> (\<forall>n tp db. tinv K (view m0 db) tp n t \<longrightarrow> writable K S m0 db t \<longrightarrow>
     hash_result K S m0 tp t db (hasher_hash h n tp db))"

lemma hashed_HashNode: "hash_known K tp c t \<Longrightarrow> pok t \<Longrightarrow> hashed K tp (HashNode c) t"
  by (auto simp: hashed_def hash_known_def collapse_node)

lemma hasher_hash_HashNode: "hasher_hash h (HashNode b) tp db = (Inr (HashNode b, HashNode b), db)"
  by (simp add: hasher_hash.simps hashChildren.simps cached_answer_def store_def)

lemma hash_unloaded:
  assumes "unloaded K (view m0 db) tp n t" "writable K S m0 db t"
  shows "hash_result K S m0 tp t db (hasher_hash h n tp db)"
proof -
  obtain b where n: "n = HashNode b" "hash_known K tp b t" "stored_root K (view m0 db) t" "pok t"
    using assms(1) by (auto simp: unloaded_def)
  moreover have "tinv K (view m0 db) tp n t" using assms(1) unfolding n(1) by (simp add: tinv_HashNode)
  ultimately show ?thesis using grows_refl[OF assms(2)]
    by (simp add: hash_result_def hasher_hash_HashNode hashed_HashNode stored_root_def)
qed

lemma hash_cached:
  assumes t: "shape n t" "tinv K (view m0 db) tp n t" "pok t" "psmall K t" and w: "writable K S m0 db t"
    and a: "cached_answer h n db = Some r"
  shows "hash_result K S m0 tp t db (Inr r, db)"
proof -
  let ?f = "node_flags n"
  obtain c where c: "flag_hash ?f = Some c" using a cache_flags[OF t(1)] by (auto simp: cached_answer_def split: option.splits)
  then have f: "hash_known K tp c t" "\<not> dirty ?f \<Longrightarrow> stored_root K (view m0 db) t"
    using t(2) tinv_node[OF t(1)] by (auto simp: flag_ok_def)
  consider "r = (HashNode c, n)" "db \<noteq> None \<longrightarrow> \<not> dirty ?f" | "r = (HashNode c, HashNode c)" "\<not> dirty ?f"
    using a c cache_flags[OF t(1)] t(1)
    by (cases n) (auto simp: cached_answer_def flag_canUnload_def split: if_splits)
  then show ?thesis
  proof cases
    case 1
    then show ?thesis using f t(2,3) grows_refl[OF w]
      by (auto simp: hash_result_def hashed_HashNode stored_root_def)
  next
    case 2
    then have "tinv K (view m0 db) tp (HashNode c) t"
      using f t(3,4) by (simp add: tinv_HashNode unloaded_def)
    then show ?thesis using 2 f t(3) grows_refl[OF w]
      by (auto simp: hash_result_def hashed_HashNode stored_root_def)
  qed
qed

lemma hasher_hash_node:
  assumes "shape n t" "cached_answer h n db = None" "hashChildren h n db = (Inr (col, cch), db1)"
    and "store h col tp db1 = (Inr hn, db2)"
  shows "hasher_hash h n tp db = (Inr (hn, cache_hash hn db2 cch), db2)"
  using assms by (cases n) (simp_all add: hasher_hash.simps)

lemma hash_loaded:
  assumes t: "shape n t" "tinv K (view m0 db) tp n t" "pok t" "psmall K t" and w: "writable K S m0 db t"
    and h: "h_crypto h = K" "\<forall>k. \<not> put_fails h k"
    and kids: "kids_result K S m0 n t db (hashChildren h n db)"
  shows "hash_result K S m0 tp t db (hasher_hash h n tp db)"
proof (cases "cached_answer h n db")
  case (Some r)
  then have "hasher_hash h n tp db = (Inr r, db)" using t(1) by (cases n) (simp_all add: hasher_hash.simps)
  then show ?thesis using hash_cached[OF t w Some] by simp
next
  case None
  obtain col cch db1 where k: "hashChildren h n db = (Inr (col, cch), db1)" "node_rlp col = pval K t" "cache col = cache n"
      "\<forall>b. col \<noteq> HashNode b" "col \<noteq> NilNode" "node_flags cch = node_flags n" "sub_inv K (view m0 db1) cch t"
      "grows K S m0 db db1" "db \<noteq> None \<longrightarrow> (\<forall>c \<in> set (pkids t). stored K (view m0 db1) c)"
    using kids unfolding kids_result_def by blast
  have sh: "shape cch t" using k(7) by (simp add: sub_inv_def)
  have "\<forall>c. flag_hash (node_flags n) = Some c \<longrightarrow> c = keccak K (penc K t)"
    using t(2) tinv_node[OF t(1)] by (auto simp: flag_ok_def hash_known_def)
  from store_node[OF t(1,4) h k(2) k(3)[unfolded cache_flags[OF t(1)]] this k(4,5), of tp db1]
  have st: "store h col tp db1 = (if length (penc K t) < 32 \<and> \<not> tp then (Inr col, db1)
      else (Inr (HashNode (keccak K (penc K t))), put_node K t db1))" .
  have w1: "writable K S m0 db1 t" by (rule grows_writable[OF k(8) w])
  note g = grows_put[OF w1 t(1)]
  note inv = tinv_node[of "cache_hash hn db' cch" t for hn db'] sh node_flags_cache_hash[OF sh]
  show ?thesis
  proof (cases "length (penc K t) < 32 \<and> \<not> tp")
    case True
    have "hasher_hash h n tp db = (Inr (col, cache_hash col db1 cch), db1)"
      using hasher_hash_node[OF t(1) None k(1)] st True by simp
    moreover have "tinv K (view m0 db1) tp (cache_hash col db1 cch) t"
      using inv k(4,7) True by (simp add: flag_ok_def set_flags_def split: node.splits)
    moreover have "hashed K tp col t" using True k(2,5) t(3) by (simp add: hashed_def collapse_node)
    moreover have "db \<noteq> None \<longrightarrow> stored K (view m0 db1) t" using k(9) True by (simp add: stored_kids[OF t(1)])
    ultimately show ?thesis using True k(8) unfolding hash_result_def by blast
  next
    case False
    let ?hn = "HashNode (keccak K (penc K t))" and ?db = "put_node K t db1"
    have gr: "grows K S m0 db ?db" by (rule grows_trans[OF k(8) g(1)])
    have le: "view m0 db1 \<subseteq>\<^sub>m view m0 ?db" using g(1) by (simp add: grows_def)
    have sr: "stored_root K (view m0 ?db) t" if "db \<noteq> None"
    proof -
      have "db1 \<noteq> None" using that k(8) by (auto simp: grows_def)
      then show ?thesis using g(2) k(9) that stored_mono[OF _ le] by (auto simp: stored_root_def stored_kids[OF t(1)])
    qed
    have "hash_known K tp (keccak K (penc K t)) t" using False by (auto simp: hash_known_def)
    moreover have "?db \<noteq> None \<Longrightarrow> db \<noteq> None" using gr by (auto simp: grows_def)
    moreover have "dirty (node_flags n)" if "db = None"
      using that None False t(2) tinv_node[OF t(1)] by (auto simp: cached_answer_def cache_flags[OF t(1)] flag_ok_def split: option.splits)
    ultimately have "flag_ok K (view m0 ?db) tp (set_flags ?hn ?db (node_flags cch)) t"
      using sr k(6) by (cases "db = None") (auto simp: flag_ok_def set_flags_def)
    then have "tinv K (view m0 ?db) tp (cache_hash ?hn ?db cch) t"
      using inv sub_inv_mono[OF k(7) le] by simp
    moreover have "hasher_hash h n tp db = (Inr (?hn, cache_hash ?hn ?db cch), ?db)"
      using hasher_hash_node[OF t(1) None k(1)] st False by auto
    moreover have "hashed K tp ?hn t" using hashed_HashNode t(3) \<open>hash_known K tp _ t\<close> by blast
    ultimately show ?thesis using gr sr unfolding hash_result_def stored_root_def by blast
  qed
qed

lemma kids_Short:
  assumes ok: "pok (PShort p t)" and v: "tinv K (view m0 db) False v t" and w: "writable K S m0 db (PShort p t)"
    and IH: "pok t \<Longrightarrow> hash_sound K S m0 h t"
  shows "kids_result K S m0 (ShortNode p v f) (PShort p t) db (hashChildren h (ShortNode p v f) db)"
proof -
  have ck: "compact_key p db = (Inr (compact p), db)"
    using compact_ok(1)[OF pok_path[OF ok]] by (simp add: compact_key_def)
  show ?thesis
  proof (cases rule: pok_ShortE[OF ok])
    case (1 u)
    then have "hashChildren h (ShortNode p v f) db = (Inr (ShortNode (compact p) (ValueNode u) f, ShortNode p (ValueNode u) f), db)"
      using v ck by (simp add: hashChildren.simps)
    then show ?thesis using 1 v grows_refl[OF w] by (simp add: kids_result_def sub_inv_def)
  next
    case (2 ts)
    have "writable K S m0 db t" using w by (auto simp: writable_def)
    then have "hash_result K S m0 False t db (hasher_hash h v False db)"
      using IH v 2(1,4) by (simp add: hash_sound_def)
    then obtain hn n' db' where r: "hasher_hash h v False db = (Inr (hn, n'), db')" "hashed K False hn t"
        "tinv K (view m0 db') False n' t" "grows K S m0 db db'" "db \<noteq> None \<longrightarrow> stored K (view m0 db') t"
      unfolding hash_result_def by blast
    have "\<forall>u. v \<noteq> ValueNode u" using v 2(1) by (auto simp: tinv.simps unloaded_def)
    then have "hashChildren h (ShortNode p v f) db = (Inr (ShortNode (compact p) hn f, ShortNode p n' f), db')"
      using ck r(1,2) by (cases v) (simp_all add: hashChildren.simps hashed_def)
    then show ?thesis using r(2-5) by (auto simp: kids_result_def sub_inv_def hashed_def)
  qed
qed

definition list_result ::
  "crypto_lib \<Rightarrow> byte list set \<Rightarrow> database \<Rightarrow> ptree list \<Rightarrow> database option \<Rightarrow>
     (trie_error, node list \<times> node list) result \<times> database option \<Rightarrow> bool" where
  "list_result K S m0 ts db res \<longleftrightarrow>
    (\<exists>cs ca db'. res = (Inr (cs, ca), db') \<and> map node_rlp cs = map (\<lambda>t. collapse K (pval K t)) ts \<and>
       list_all2 (tinv K (view m0 db') False) ca ts \<and> grows K S m0 db db' \<and>
       (db \<noteq> None \<longrightarrow> (\<forall>t \<in> set ts. stored K (view m0 db') t)))"

lemma hashChild_list_ok:
  assumes "\<forall>t \<in> set ts. (t = PNil \<or> hash_sound K S m0 h t) \<and> writable K S m0 db t"
    and "list_all2 (tinv K (view m0 db) False) ns ts" "grows K S m0 db db"
  shows "list_result K S m0 ts db (hashChild_list h ns db)"
  using assms
proof (induction ts arbitrary: ns db)
  case (Cons t ts)
  obtain n ns' where ns: "ns = n # ns'" "tinv K (view m0 db) False n t" "list_all2 (tinv K (view m0 db) False) ns' ts"
    using Cons.prems(2) by (auto simp: list_all2_Cons2)
  have "\<exists>hn n' db1. (if n = NilNode then returnM (ValueNode [], NilNode) else hasher_hash h n False) db = (Inr (hn, n'), db1) \<and>
      node_rlp hn = collapse K (pval K t) \<and> tinv K (view m0 db1) False n' t \<and> grows K S m0 db db1 \<and>
      (db \<noteq> None \<longrightarrow> stored K (view m0 db1) t)"
  proof (cases "t = PNil")
    case True
    then show ?thesis using ns(2) Cons.prems(3) by simp
  next
    case False
    then have "n \<noteq> NilNode" using ns(2) merkle.R_Nil_iff[of K "Some (view m0 db)" False n t] by (simp add: db_map_def)
    moreover have "hash_result K S m0 False t db (hasher_hash h n False db)"
      using Cons.prems(1) ns(2) False by (simp add: hash_sound_def)
    ultimately show ?thesis by (auto simp: hash_result_def hashed_def)
  qed
  then obtain hn n' db1 where r:
      "(if n = NilNode then returnM (ValueNode [], NilNode) else hasher_hash h n False) db = (Inr (hn, n'), db1)"
      "node_rlp hn = collapse K (pval K t)" "tinv K (view m0 db1) False n' t" "grows K S m0 db db1"
      "db \<noteq> None \<longrightarrow> stored K (view m0 db1) t"
    by blast
  have le: "view m0 db \<subseteq>\<^sub>m view m0 db1" and g1: "grows K S m0 db1 db1" using r(4) by (auto simp: grows_def)
  have "list_all2 (tinv K (view m0 db1) False) ns' ts"
    using ns(3) by (rule list_all2_mono) (rule tinv_mono[OF _ le])
  moreover have "\<forall>t \<in> set ts. (t = PNil \<or> hash_sound K S m0 h t) \<and> writable K S m0 db1 t"
    using Cons.prems(1) grows_writable[OF r(4)] by simp
  ultimately have "list_result K S m0 ts db1 (hashChild_list h ns' db1)" using Cons.IH g1 by simp
  then obtain cs ca db2 where l: "hashChild_list h ns' db1 = (Inr (cs, ca), db2)"
      "map node_rlp cs = map (\<lambda>t. collapse K (pval K t)) ts" "list_all2 (tinv K (view m0 db2) False) ca ts"
      "grows K S m0 db1 db2" "db1 \<noteq> None \<longrightarrow> (\<forall>t \<in> set ts. stored K (view m0 db2) t)"
    unfolding list_result_def by blast
  have le2: "view m0 db1 \<subseteq>\<^sub>m view m0 db2" using l(4) by (simp add: grows_def)
  have "hashChild_list h ns db = (Inr (hn # cs, n' # ca), db2)"
    using r(1) l(1) by (simp add: ns(1) hashChild_list.simps)
  moreover have "map node_rlp (hn # cs) = map (\<lambda>t. collapse K (pval K t)) (t # ts)" using r(2) l(2) by simp
  moreover have "list_all2 (tinv K (view m0 db2) False) (n' # ca) (t # ts)" using l(3) tinv_mono[OF r(3) le2] by simp
  moreover have "db \<noteq> None \<longrightarrow> (\<forall>t \<in> set (t # ts). stored K (view m0 db2) t)"
    using r(4,5) l(5) stored_mono[OF _ le2] by (auto simp: grows_def)
  ultimately show ?case using grows_trans[OF r(4) l(4)] unfolding list_result_def by blast
qed (simp add: hashChild_list.simps list_result_def)

lemma kids_Full:
  assumes ok: "pok (PFull ts)" and ch: "list_all2 (tinv K (view m0 db) False) ch ts" and w: "writable K S m0 db (PFull ts)"
    and IH: "\<And>t. t \<in> set ts \<Longrightarrow> pok t \<Longrightarrow> hash_sound K S m0 h t"
  shows "kids_result K S m0 (FullNode ch f) (PFull ts) db (hashChildren h (FullNode ch f) db)"
proof -
  have ts: "length ts = 17" "\<forall>i < 17. pchild i (ts ! i)" using ok by (auto simp: pok_Full)
  then have sp: "ts = take 16 ts @ [ts ! 16]" using take_Suc_conv_app_nth[of 16 ts] by simp
  have "\<forall>t \<in> set (take 16 ts). (t = PNil \<or> hash_sound K S m0 h t) \<and> writable K S m0 db t"
  proof
    fix t assume "t \<in> set (take 16 ts)"
    then have t: "t \<in> set ts" and "\<exists>i < 16. t = ts ! i"
      using ts(1) by (auto dest: in_set_takeD) (auto simp: in_set_conv_nth)
    then obtain i where "i < 16" "t = ts ! i" by blast
    then have "t = PNil \<or> pok t" using ts(2)[rule_format, of i] by (simp add: pchild_def)
    moreover have "writable K S m0 db t" using w t by (auto simp: writable_def)
    ultimately show "(t = PNil \<or> hash_sound K S m0 h t) \<and> writable K S m0 db t" using IH[OF t] by blast
  qed
  moreover have "list_all2 (tinv K (view m0 db) False) (take 16 ch) (take 16 ts)" using ch by (rule list_all2_takeI)
  ultimately have "list_result K S m0 (take 16 ts) db (hashChild_list h (take 16 ch) db)"
    using hashChild_list_ok grows_refl[OF w] by blast
  then obtain cs ca db' where l: "hashChild_list h (take 16 ch) db = (Inr (cs, ca), db')"
      "map node_rlp cs = map (\<lambda>t. collapse K (pval K t)) (take 16 ts)" "list_all2 (tinv K (view m0 db') False) ca (take 16 ts)"
      "grows K S m0 db db'" "db \<noteq> None \<longrightarrow> (\<forall>t \<in> set (take 16 ts). stored K (view m0 db') t)"
    unfolding list_result_def by blast
  have "tinv K (view m0 db) False (ch ! 16) (ts ! 16)" using ch ts(1) by (simp add: list_all2_conv_all_nth)
  moreover have "pchild 16 (ts ! 16)" using ts(2) by simp
  ultimately have c16: "tinv K m False (ch ! 16) (ts ! 16)" "stored K m (ts ! 16)"
      "node_rlp (if ch ! 16 = NilNode then ValueNode [] else ch ! 16) = collapse K (pval K (ts ! 16))" for m
    by (auto simp: pchild_def)
  let ?c = "if ch ! 16 = NilNode then ValueNode [] else ch ! 16"
  have h: "hashChildren h (FullNode ch f) db = (Inr (FullNode (cs @ [?c]) f, FullNode (ca @ [ch ! 16]) f), db')"
    using l(1) by (simp add: hashChildren.simps)
  have "map node_rlp (cs @ [?c]) = map (\<lambda>t. collapse K (pval K t)) (take 16 ts @ [ts ! 16])"
    using l(2) c16(3) by simp
  then have r: "node_rlp (FullNode (cs @ [?c]) f) = pval K (PFull ts)" unfolding sp[symmetric] by simp
  have "list_all2 (tinv K (view m0 db') False) (ca @ [ch ! 16]) (take 16 ts @ [ts ! 16])"
    using l(3) c16(1) by (intro list_all2_appendI) auto
  then have i: "sub_inv K (view m0 db') (FullNode (ca @ [ch ! 16]) f) (PFull ts)" unfolding sp[symmetric] by (simp add: sub_inv_def)
  have "\<forall>t \<in> set (take 16 ts @ [ts ! 16]). stored K (view m0 db') t" if "db \<noteq> None"
    using l(5) that c16(2) by auto
  then have st: "db \<noteq> None \<longrightarrow> (\<forall>t \<in> set ts. stored K (view m0 db') t)" unfolding sp[symmetric] by blast
  show ?thesis unfolding h kids_result_def using r i st l(4) by simp
qed

lemma hasher_sound:
  assumes "h_crypto h = K" "\<forall>k. \<not> put_fails h k"
  shows "pok t \<Longrightarrow> psmall K t \<Longrightarrow> hash_sound K S m0 h t"
proof (induction t)
  case (PShort p t)
  show ?case unfolding hash_sound_def
  proof (intro allI impI)
    fix n tp db
    assume n: "tinv K (view m0 db) tp n (PShort p t)" and w: "writable K S m0 db (PShort p t)"
    show "hash_result K S m0 tp (PShort p t) db (hasher_hash h n tp db)"
    proof (cases "unloaded K (view m0 db) tp n (PShort p t)")
      case False
      then obtain v f where v: "n = ShortNode p v f" "tinv K (view m0 db) False v t"
        using n by (auto simp: tinv.simps(3))
      have "hash_sound K S m0 h t" if "pok t" using PShort that by simp
      then have "kids_result K S m0 n (PShort p t) db (hashChildren h n db)"
        unfolding v(1) by (intro kids_Short PShort.prems v w)
      then show ?thesis using n w PShort.prems assms v(1) by (intro hash_loaded) simp_all
    qed (rule hash_unloaded[OF _ w])
  qed
next
  case (PFull ts)
  show ?case unfolding hash_sound_def
  proof (intro allI impI)
    fix n tp db
    assume n: "tinv K (view m0 db) tp n (PFull ts)" and w: "writable K S m0 db (PFull ts)"
    show "hash_result K S m0 tp (PFull ts) db (hasher_hash h n tp db)"
    proof (cases "unloaded K (view m0 db) tp n (PFull ts)")
      case False
      then obtain ch f where c: "n = FullNode ch f" "list_all2 (tinv K (view m0 db) False) ch ts"
        using n by (auto simp: tinv.simps(4))
      have "hash_sound K S m0 h t" if "t \<in> set ts" "pok t" for t
        using PFull.IH that PFull.prems(2) by simp
      then have "kids_result K S m0 n (PFull ts) db (hashChildren h n db)"
        unfolding c(1) by (intro kids_Full PFull.prems c w)
      then show ?thesis using n w PFull.prems assms c(1) by (intro hash_loaded) simp_all
    qed (rule hash_unloaded[OF _ w])
  qed
qed simp_all

section \<open>Hash and Commit\<close>

lemma BytesToHash_bytes_32 [simp]: "length b = 32 \<Longrightarrow> BytesToHash_bytes b = b"
  by (simp add: BytesToHash_bytes_def)

lemma hashRoot_ok:
  assumes "tinv K (view m0 db) True (root t) p" "ptrie p" "psmall K p" "writable K S m0 db p" "\<forall>k. \<not> fails k"
  shows "\<exists>n' db'. hashRoot K fails t db = (Inr (HashNode (root_hash K p), n'), db') \<and> tinv K (view m0 db') True n' p \<and>
    grows K S m0 db db' \<and> (p \<noteq> PNil \<and> db \<noteq> None \<longrightarrow> stored_root K (view m0 db') p)"
proof (cases "p = PNil")
  case True
  then show ?thesis using assms(1) grows_refl[OF assms(4)] by (simp add: hashRoot_def root_hash_def)
next
  case False
  let ?h = "\<lparr>h_crypto = K, h_cachegen = cachegen t, h_cachelimit = cachelimit t, put_fails = fails\<rparr>"
  have "pok p" using False assms(2) by (simp add: ptrie_def)
  then have "hash_sound K S m0 ?h p" using assms(3,5) by (intro hasher_sound) simp_all
  then have "hash_result K S m0 True p db (hasher_hash ?h (root t) True db)"
    using assms(1,4) by (simp add: hash_sound_def)
  moreover have "root t \<noteq> NilNode"
    using False assms(1) merkle.R_Nil_iff[of K "Some (view m0 db)" True "root t" p] by (simp add: db_map_def)
  ultimately show ?thesis using False by (auto simp: hashRoot_def hash_result_def hashed_def root_hash_def)
qed

lemma length_root_hash [simp]: "length (root_hash K p) = 32"
  by (simp add: root_hash_def emptyRoot_def)

lemma Trie_Hash_ok:
  assumes "tinv K (db_map (trie_db t)) True (root t) p" "ptrie p" "psmall K p"
  shows "\<exists>n'. Trie_Hash K t = (Inr (root_hash K p), t\<lparr>root := n'\<rparr>) \<and> tinv K (db_map (trie_db t)) True n' p"
proof -
  let ?m = "db_map (trie_db t)"
  have v: "view ?m None = ?m" by (simp add: view_def db_map_def)
  obtain n' db' where "hashRoot K (\<lambda>_. False) t None = (Inr (HashNode (root_hash K p), n'), db')"
      "tinv K (view ?m db') True n' p" "grows K {} ?m None db'"
    using hashRoot_ok[of K ?m None t p "{}" "\<lambda>_. False"] assms unfolding v by (auto simp: writable_def)
  moreover from this(3) have "db' = None" by (simp add: grows_def)
  ultimately show ?thesis by (auto simp: Trie_Hash_def hash_of_node_def v)
qed

lemma Commit_ok:
  assumes "tinv K m True (root t) p" "ptrie p" "psmall K p" "trie_db t = Some m" "addressed K S m" "pencs K p \<subseteq> S"
    and "\<forall>k. \<not> fails k"
  shows "\<exists>n' m'. Commit K fails t = (Inr (root_hash K p), t\<lparr>root := n', cachegen := cachegen t + 1, trie_db := Some m'\<rparr>) \<and>
    tinv K m' True n' p \<and> m \<subseteq>\<^sub>m m' \<and> addressed K S m' \<and> (p \<noteq> PNil \<longrightarrow> stored_root K m' p)"
proof -
  have v: "view Map.empty (Some m') = m'" for m' by (simp add: view_Some)
  have "writable K S Map.empty (Some m) p" using assms(5,6) by (simp add: writable_def v)
  with hashRoot_ok[of K Map.empty "Some m" t p S fails] assms(1-3,7) obtain n' db' where
    r: "hashRoot K fails t (Some m) = (Inr (HashNode (root_hash K p), n'), db')" "tinv K (view Map.empty db') True n' p"
      "grows K S Map.empty (Some m) db'" "p \<noteq> PNil \<longrightarrow> stored_root K (view Map.empty db') p"
    unfolding v by auto
  from r(3) obtain m' where "db' = Some m'" by (cases db') (auto simp: grows_def)
  with r assms(4) show ?thesis
    by (auto simp: Commit_def CommitTo_def hash_of_node_def v grows_def)
qed

end
