(* ===== verification/Trie_Runs.thy ===== *)
theory Trie_Runs
  imports Trie_Commit
begin

text \<open>
  Runs of a trie: any sequence of lookups, updates, deletions, hashes, commits and reopenings. The
  content is always the one the updates describe, the root hash depends on the content alone, two
  tries with one root hash have one content, and a committed trie is opened again by its hash.\<close>

section \<open>Sizes\<close>

text \<open>Keys and values of less than \<open>2 ^ 56\<close> bytes keep every encoding below \<open>2 ^ 64\<close>.\<close>

definition pgood :: "ptree \<Rightarrow> bool" where
  "pgood p \<longleftrightarrow> ptrie p \<and> (\<forall>k v. pget p k = Some v \<longrightarrow> (\<exists>key. k = keybytesToHex key \<and> length key < 2 ^ 56) \<and> length v < 2 ^ 56)"

lemma length_keybytesToHex: "length (keybytesToHex s) = 2 * length s + 1"
  by (induction s) (simp_all add: keybytesToHex_def)

lemma enc_head_length: "length (puthead a b s) \<le> 9"
  using intsize_bounds(2)[of s] by (simp add: puthead_def length_putint)

lemma enc_length: "length (enc_str c) \<le> length c + 9" "length (enc_list c) \<le> length c + 9"
  using enc_head_length by (auto simp: enc_str_def enc_list_def)

definition plimit :: "ptree \<Rightarrow> bool" where
  "plimit p \<longleftrightarrow> (\<forall>k v. pget p k = Some v \<longrightarrow> length k < 2 ^ 58 \<and> length v < 2 ^ 56)"

lemma pref_length: "pok t \<Longrightarrow> length (pref K t) \<le> 41"
  using enc_length(1)[of "keccak K (penc K t)"] by (auto simp: pref_node)

lemma psmall_limit: "pok t \<Longrightarrow> plimit t \<Longrightarrow> psmall K t"
proof (induction t)
  case (PShort p t)
  have c: "length (compact p) \<le> length p + 1" by (rule compact_length)
  have e: "length (penc K (PShort p t)) \<le> length p + 19 + length (pref K t)"
    using enc_length(2)[of "enc_str (compact p) @ pref K t"] enc_length(1)[of "compact p"] c
    by (simp add: penc_def pref_def)
  show ?case
  proof (cases rule: pok_ShortE[OF PShort.prems(1)])
    case (1 v)
    then have "length p < 2 ^ 58" "length v < 2 ^ 56"
      using PShort.prems(2)[unfolded plimit_def, rule_format, of p v] by simp_all
    then show ?thesis using e 1(1) enc_length(1)[of v] by simp
  next
    case (2 ts)
    then obtain k v where k: "pget t k = Some v" using pok_nonempty by blast
    have "plimit t" unfolding plimit_def
    proof (intro allI impI)
      fix k' v' assume "pget t k' = Some v'"
      then show "length k' < 2 ^ 58 \<and> length v' < 2 ^ 56"
        using PShort.prems(2)[unfolded plimit_def, rule_format, of "p @ k'" v'] by simp
    qed
    moreover have "length p < 2 ^ 58"
      using k PShort.prems(2)[unfolded plimit_def, rule_format, of "p @ k" v] by simp
    ultimately show ?thesis using e 2(1,4) PShort.IH pref_length[of t K] by simp
  qed
next
  case (PFull ts)
  have ts: "length ts = 17" "\<forall>i < 17. pchild i (ts ! i)" using PFull.prems by (auto simp: pok_Full)
  have lim: "plimit (ts ! i)" if "i < 17" for i unfolding plimit_def
  proof (intro allI impI)
    fix k v assume "pget (ts ! i) k = Some v"
    then have "pget (PFull ts) (word_of_nat i # k) = Some v" using that ts(1) by (simp only: pget_Full_nth)
    from PFull.prems(2)[unfolded plimit_def, rule_format, OF this]
    show "length k < 2 ^ 58 \<and> length v < 2 ^ 56" by simp
  qed
  have sm: "psmall K t" if "t \<in> set ts" for t
  proof -
    obtain i where i: "i < 17" "t = ts ! i" using \<open>t \<in> set ts\<close> ts by (auto simp: in_set_conv_nth)
    then have "pchild i t" "plimit t" using ts lim by auto
    then show ?thesis using PFull.IH[OF that] by (auto simp: pchild_def split: if_splits)
  qed
  have "length (pref K t) \<le> 2 ^ 56 + 9" if "t \<in> set ts" for t
  proof -
    obtain i where i: "i < 17" "t = ts ! i" using \<open>t \<in> set ts\<close> ts by (auto simp: in_set_conv_nth)
    then have "pchild i t" "plimit t" using ts lim by auto
    then consider "t = PNil" | v where "t = PVal v" "length v < 2 ^ 56" | "pok t"
      by (auto simp: pchild_def plimit_def split: if_splits)
    then show ?thesis
    proof cases
      case (2 v)
      then show ?thesis using enc_length(1)[of v] by simp
    qed (use enc_length(1)[of "[]"] pref_length[of t K] in auto)
  qed
  then have "sum_list (map (\<lambda>t. length (pref K t)) ts) \<le> 17 * (2 ^ 56 + 9)"
    using sum_list_mono[of ts "\<lambda>t. length (pref K t)" "\<lambda>_. 2 ^ 56 + 9"] ts(1) by (simp add: sum_list_triv)
  moreover have "penc K (PFull ts) = enc_list (concat (map (pref K) ts))" by (simp add: penc_def pref_def [abs_def] comp_def)
  ultimately have "length (penc K (PFull ts)) < 2 ^ 64"
    using enc_length(2)[of "concat (map (pref K) ts)"] by (simp add: length_concat comp_def)
  then show ?case using sm by simp
qed simp_all

lemma pgood_small: "pgood p \<Longrightarrow> psmall K p"
proof (cases "p = PNil")
  case False
  assume g: "pgood p"
  have "plimit p" unfolding plimit_def
  proof (intro allI impI)
    fix k v assume "pget p k = Some v"
    then obtain key where "k = keybytesToHex key" "length key < 2 ^ 56" "length v < 2 ^ 56"
      using g unfolding pgood_def by blast
    then show "length k < 2 ^ 58 \<and> length v < 2 ^ 56" by (simp add: length_keybytesToHex)
  qed
  then show ?thesis using False g psmall_limit by (simp add: pgood_def ptrie_def)
qed simp

lemma pgood_pupdate:
  assumes "pgood p" "length key < 2 ^ 56" "length val < 2 ^ 56"
  shows "pgood (pupdate p key val)"
proof -
  have p: "ptrie p" using assms(1) by (simp add: pgood_def)
  note ins = pget_pinsert[OF pslot_root[OF p], of key val] and del = pdelete_ok[OF pslot_root[OF p], of key]
  have "(\<exists>key. k = keybytesToHex key \<and> length key < 2 ^ 56) \<and> length v < 2 ^ 56"
    if "pget (pupdate p key val) k = Some v" for k v
  proof (cases "k = keybytesToHex key")
    case True
    then show ?thesis using that assms ins del by (auto simp: pupdate_def split: if_splits)
  next
    case False
    then have "pget p k = Some v" using that ins del by (auto simp: pupdate_def split: if_splits)
    then show ?thesis using assms(1) unfolding pgood_def by blast
  qed
  then show ?thesis using ptrie_pupdate[OF p] unfolding pgood_def by blast
qed

text \<open>The content, over key bytes, determines the tree.\<close>

lemma pgood_inj:
  assumes "pgood p" "pgood q" "pmap p = pmap q"
  shows "p = q"
proof -
  have get: "pget p k = pget q k" for k
  proof (cases "\<exists>key. k = keybytesToHex key")
    case True
    then show ?thesis using fun_cong[OF assms(3)] by (auto simp: pmap_def)
  next
    case False
    then have "pget p k = None" "pget q k = None"
      using assms(1,2) unfolding pgood_def by (metis not_None_eq)+
    then show ?thesis by simp
  qed
  have "p = PNil \<longleftrightarrow> q = PNil"
    using pok_nonempty[of p] pok_nonempty[of q] get assms(1,2) by (auto simp: pgood_def ptrie_def)
  then show ?thesis using pget_inj[of p q] get assms(1,2) by (auto simp: pgood_def ptrie_def)
qed

section \<open>Runs\<close>

text \<open>
  \<open>trie_run K S t p\<close>: the trie \<open>t\<close> has been reached from an empty one over a content-addressed
  database, and \<open>p\<close> is the tree of the updates so far. \<open>S\<close> holds the encodings in the database.\<close>

inductive trie_run :: "crypto_lib \<Rightarrow> byte list set \<Rightarrow> Trie \<Rightarrow> ptree \<Rightarrow> bool" for K S where
  run_new: "addressed K S m \<Longrightarrow> Trie_New emptyRoot (Some m) = Inr t \<Longrightarrow> trie_run K S t PNil"
| run_limit: "trie_run K S t p \<Longrightarrow> trie_run K S (SetCacheLimit l t) p"
| run_get: "trie_run K S t p \<Longrightarrow> TryGet t key = Some (Inr v, t') \<Longrightarrow> trie_run K S t' p"
| run_update: "trie_run K S t p \<Longrightarrow> TryUpdate t key val = Some (Inr (), t') \<Longrightarrow> length key < 2 ^ 56 \<Longrightarrow> length val < 2 ^ 56 \<Longrightarrow>
    trie_run K S t' (pupdate p key val)"
| run_delete: "trie_run K S t p \<Longrightarrow> TryDelete t key = Some (Inr (), t') \<Longrightarrow> length key < 2 ^ 56 \<Longrightarrow>
    trie_run K S t' (pupdate p key [])"
| run_hash: "trie_run K S t p \<Longrightarrow> Trie_Hash K t = (Inr h, t') \<Longrightarrow> trie_run K S t' p"
| run_commit: "trie_run K S t p \<Longrightarrow> pencs K p \<subseteq> S \<Longrightarrow> Commit K (\<lambda>_. False) t = (Inr h, t') \<Longrightarrow> trie_run K S t' p"
| run_open: "trie_run K S t p \<Longrightarrow> pencs K p \<subseteq> S \<Longrightarrow> Commit K (\<lambda>_. False) t = (Inr h, t1) \<Longrightarrow>
    h \<noteq> replicate 32 0 \<Longrightarrow> h = emptyRoot \<longleftrightarrow> p = PNil \<Longrightarrow> Trie_New h (trie_db t1) = Inr t' \<Longrightarrow> trie_run K S t' p"

definition run_inv :: "crypto_lib \<Rightarrow> byte list set \<Rightarrow> Trie \<Rightarrow> ptree \<Rightarrow> bool" where
  "run_inv K S t p \<longleftrightarrow> pgood p \<and> (\<exists>m. trie_db t = Some m \<and> addressed K S m \<and> tinv K m True (root t) p)"

lemma run_inv_rel: "run_inv K S t p \<Longrightarrow> tinv K (db_map (trie_db t)) True (root t) p \<and> ptrie p \<and> pgood p"
  by (auto simp: run_inv_def db_map_def pgood_def)

lemma Trie_New_stored:
  assumes "p \<noteq> PNil \<longrightarrow> stored_root K m p" "pgood p" "root_hash K p \<noteq> replicate 32 0" "root_hash K p = emptyRoot \<longleftrightarrow> p = PNil"
  shows "\<exists>t. Trie_New (root_hash K p) (Some m) = Inr t \<and> trie_db t = Some m \<and> tinv K m True (root t) p"
proof (cases "p = PNil")
  case False
  then have "unloaded K m True (HashNode (root_hash K p)) p"
    using assms(1,2) pgood_small[of p K] by (auto simp: unloaded_def hash_known_def root_hash_def pgood_def ptrie_def)
  from resolveHash_tinv[OF this, of 0 "[]"] False assms(3,4) show ?thesis by (auto simp: Trie_New_def Let_def)
qed (use assms(4) in \<open>auto simp: Trie_New_def Let_def\<close>)

lemma run_inv_update:
  assumes "run_inv K S t p" "t' = t\<lparr>root := root t'\<rparr>" "tinv K (db_map (trie_db t)) True (root t') q" "pgood q"
  shows "run_inv K S t' q"
proof -
  have "trie_db t' = trie_db t" using arg_cong[OF assms(2), of trie_db] by simp
  then show ?thesis using assms(1,3,4) by (auto simp: run_inv_def db_map_def)
qed

lemma trie_run_inv: "trie_run K S t p \<Longrightarrow> run_inv K S t p"
proof (induction rule: trie_run.induct)
  case (run_new m t)
  then show ?case by (auto simp: run_inv_def Trie_New_def Let_def pgood_def ptrie_def)
next
  case (run_limit t p l)
  then show ?case by (simp add: run_inv_def SetCacheLimit_def)
next
  case (run_get t p key v t')
  then show ?case using merkle.TryGet_rel[of K "trie_db t" t p key] run_inv_rel[OF run_get.IH]
    by (auto simp: run_inv_def db_map_def)
next
  case (run_update t p key val t')
  note inv = run_inv_rel[OF run_update.IH]
  obtain t1 where "TryUpdate t key val = Some (Inr (), t1)" "tinv K (db_map (trie_db t)) True (root t1) (pupdate p key val)"
      "t1 = t\<lparr>root := root t1\<rparr>"
    using merkle.TryUpdate_rel[of K "trie_db t" t p key val] inv by blast
  moreover have "pgood (pupdate p key val)" using run_update.hyps inv by (intro pgood_pupdate) simp_all
  ultimately show ?case using run_inv_update[OF run_update.IH] run_update.hyps(2) by simp
next
  case (run_delete t p key t')
  note inv = run_inv_rel[OF run_delete.IH]
  obtain t1 where "TryDelete t key = Some (Inr (), t1)" "tinv K (db_map (trie_db t)) True (root t1) (pupdate p key [])"
      "t1 = t\<lparr>root := root t1\<rparr>"
    using merkle.TryDelete_rel[of K "trie_db t" t p key] inv by blast
  moreover have "pgood (pupdate p key [])" using run_delete.hyps inv by (intro pgood_pupdate) simp_all
  ultimately show ?case using run_inv_update[OF run_delete.IH] run_delete.hyps(2) by simp
next
  case (run_hash t p h t')
  then show ?case using Trie_Hash_ok[of K t p] run_inv_rel[OF run_hash.IH] pgood_small[of p K]
    by (auto simp: run_inv_def db_map_def)
next
  case (run_commit t p h t')
  obtain m where m: "trie_db t = Some m" "addressed K S m" "tinv K m True (root t) p" "pgood p"
    using run_commit.IH by (auto simp: run_inv_def)
  then show ?case using Commit_ok[of K m t p S "\<lambda>_. False"] pgood_small[of p K] run_commit.hyps
    by (auto simp: run_inv_def pgood_def)
next
  case (run_open t p h t1 t')
  obtain m where m: "trie_db t = Some m" "addressed K S m" "tinv K m True (root t) p" "pgood p"
    using run_open.IH by (auto simp: run_inv_def)
  then obtain m' where "trie_db t1 = Some m'" "addressed K S m'" "p \<noteq> PNil \<longrightarrow> stored_root K m' p" "h = root_hash K p"
    using Commit_ok[of K m t p S "\<lambda>_. False"] pgood_small[of p K] run_open.hyps by (auto simp: pgood_def)
  then show ?case using Trie_New_stored[of p K m'] m(4) run_open.hyps by (auto simp: run_inv_def)
qed

section \<open>The root hash\<close>

lemma trie_run_get:
  assumes "trie_run K S t p"
  shows "\<exists>t'. TryGet t key = Some (Inr (pmap p key), t')"
  using merkle.TryGet_rel[of K "trie_db t" t p key] run_inv_rel[OF trie_run_inv[OF assms]]
  by (auto simp: pmap_def)

lemma trie_run_hash:
  assumes "trie_run K S t p"
  shows "fst (Trie_Hash K t) = Inr (root_hash K p)"
  using Trie_Hash_ok[of K t p] run_inv_rel[OF trie_run_inv[OF assms]] pgood_small[of p K] by auto

lemma stored_pencs: "(\<forall>e \<in> pencs K t. m (keccak K e) = Some e) \<Longrightarrow> stored K m t"
  by (induction t) auto

lemma penc_not_empty_string: "pok p \<Longrightarrow> penc K p \<noteq> [0x80]"
proof
  assume "pok p" "penc K p = [0x80]"
  then obtain c where "enc_list c = [0x80]" using penc_list by metis
  then show False by (auto simp: enc_list_def puthead_def split: if_splits)
qed

text \<open>
  Two trees with the same root hash: both are read back from the same database entry, and a lookup
  there has one answer.\<close>

lemma root_hash_inj:
  assumes "pgood p" "pgood q" and inj: "inj_on (keccak K) (insert [0x80] (pencs K p \<union> pencs K q))"
    and empty: "keccak K [0x80] = emptyRoot" and eq: "root_hash K p = root_hash K q"
  shows "pmap p = pmap q"
proof -
  let ?S = "insert [0x80] (pencs K p \<union> pencs K q)"
  have mem: "penc K t \<in> pencs K t" if "pok t" for t using that by (cases t) auto
  have ok: "t = PNil \<or> pok t" if "pgood t" for t using that by (simp add: pgood_def ptrie_def)
  have nil: "root_hash K t \<noteq> emptyRoot" if "pok t" "t = p \<or> t = q" for t
    using inj_onD[OF inj, of "penc K t" "[0x80]"] mem[OF that(1)] penc_not_empty_string[OF that(1)] that empty
    by (auto simp: root_hash_def)
  show ?thesis
  proof (cases "p = PNil \<or> q = PNil")
    case True
    then have "p = PNil \<and> q = PNil" using eq nil ok assms(1,2) by (metis root_hash_def)
    then show ?thesis by simp
  next
    case False
    then have pq: "pok p" "pok q" using ok assms(1,2) by auto
    define m where "m h = (if h \<in> keccak K ` ?S then Some (inv_into ?S (keccak K) h) else None)" for h
    have m: "m (keccak K e) = Some e" if "e \<in> ?S" for e
      using that inv_into_f_f[OF inj that] by (auto simp: m_def)
    have u: "unloaded K m True (HashNode (root_hash K t)) t" if "pok t" "pgood t" "t = p \<or> t = q" for t
    proof -
      have "stored K m t" using that(3) m by (intro stored_pencs) auto
      moreover have "penc K t \<in> ?S" using mem[OF that(1)] that(3) by auto
      ultimately show ?thesis using m that(1,2) pgood_small[of t K]
        by (auto simp: unloaded_def hash_known_def stored_root_def root_hash_def)
    qed
    have "tinv K (db_map (Some m)) True (HashNode (root_hash K p)) p"
      using u[of p] pq assms(1) by (simp add: tinv_HashNode db_map_def)
    moreover have "tinv K (db_map (Some m)) True (HashNode (root_hash K p)) q"
      using u[of q] pq assms(2) unfolding eq by (simp add: tinv_HashNode db_map_def)
    moreover define t where "t = \<lparr>root = HashNode (root_hash K p), trie_db = Some m, originalRoot = [], cachegen = 0, cachelimit = 0\<rparr>"
    ultimately have "\<exists>t'. TryGet t key = Some (Inr (pmap p key), t')" "\<exists>t'. TryGet t key = Some (Inr (pmap q key), t')" for key
      using merkle.TryGet_rel[of K "Some m" t p key] merkle.TryGet_rel[of K "Some m" t q key] assms(1,2)
      by (auto simp: pmap_def pgood_def)
    then show ?thesis by (metis ext option.inject prod.inject sum.inject(2))
  qed
qed

lemma trie_run_reopen:
  assumes run: "trie_run K S t p" and S: "pencs K p \<subseteq> S" "[0x80] \<in> S" and K: "keccak K [0x80] = emptyRoot"
    and z: "root_hash K p \<noteq> replicate 32 0"
  shows "\<exists>t1 t2 m m'. Commit K (\<lambda>_. False) t = (Inr (root_hash K p), t1) \<and> trie_db t = Some m \<and> trie_db t1 = Some m' \<and>
    m \<subseteq>\<^sub>m m' \<and> Trie_New (root_hash K p) (trie_db t1) = Inr t2 \<and> trie_run K S t1 p \<and> trie_run K S t2 p"
proof -
  obtain m where m: "trie_db t = Some m" "addressed K S m" "tinv K m True (root t) p" "pgood p"
    using trie_run_inv[OF run] by (auto simp: run_inv_def)
  then obtain n' m' where c0: "Commit K (\<lambda>_. False) t
      = (Inr (root_hash K p), t\<lparr>root := n', cachegen := cachegen t + 1, trie_db := Some m'\<rparr>)" "m \<subseteq>\<^sub>m m'"
      "p \<noteq> PNil \<longrightarrow> stored_root K m' p"
    using Commit_ok[of K m t p S "\<lambda>_. False"] pgood_small[of p K] S(1) unfolding pgood_def by blast
  define t1 where "t1 = t\<lparr>root := n', cachegen := cachegen t + 1, trie_db := Some m'\<rparr>"
  have c: "Commit K (\<lambda>_. False) t = (Inr (root_hash K p), t1)" "trie_db t1 = Some m'" using c0(1) by (simp_all add: t1_def)
  have "penc K p \<in> S" if "pok p" using that S(1) by (cases p) auto
  then have "root_hash K p \<noteq> emptyRoot" if "pok p"
    using that inj_onD[of "keccak K" S "penc K p" "[0x80]"] m(2) S(2) K penc_not_empty_string[OF that, of K]
    by (auto simp: root_hash_def addressed_def)
  then have e: "root_hash K p = emptyRoot \<longleftrightarrow> p = PNil"
    using m(4) by (auto simp: root_hash_def pgood_def ptrie_def)
  obtain t2 where "Trie_New (root_hash K p) (trie_db t1) = Inr t2"
    using Trie_New_stored[OF c0(3) m(4) z e] c(2) by auto
  moreover from this have "trie_run K S t2 p" using run_open[OF run S(1) c(1) z e] by blast
  ultimately show ?thesis using run_commit[OF run S(1) c(1)] c c0(2) m(1) by blast
qed

lemma trie_run_content: "trie_run K S t p \<Longrightarrow> trie_content t = pmap p"
proof
  fix key assume "trie_run K S t p"
  then obtain t' where "TryGet t key = Some (Inr (pmap p key), t')" using trie_run_get by blast
  then show "trie_content t key = pmap p key" by (simp add: trie_content_def)
qed

section \<open>An example\<close>

definition example_K :: crypto_lib where
  "example_K = \<lparr>Keccak256 = (\<lambda>b. if b = [0x80] then 0x56e81f171bcc55a6ff8345e692c0f86e5b48e01b996cadc001622fb5e363b421 else 1),
     Ecrecover = (\<lambda>_ _. None), crypto_Sign = (\<lambda>_ _. None), FromECDSAPub = (\<lambda>_. [])\<rparr>"

definition example_tree :: ptree where
  "example_tree = PShort [0, 1, 16] (PVal [7])"

lemma example_bytes:
  "array_bytes 32 (0x56e81f171bcc55a6ff8345e692c0f86e5b48e01b996cadc001622fb5e363b421 :: hash) = emptyRoot"
  "array_bytes 32 (1 :: hash) = replicate 31 0 @ [1]"
  by code_simp+

lemma example_keccak: "keccak example_K [0x80] = emptyRoot" "e \<noteq> [0x80] \<Longrightarrow> keccak example_K e = replicate 31 0 @ [1]"
  by (simp_all add: keccak_def example_K_def example_bytes)

lemma example_update: "pupdate PNil [1] [7] = example_tree"
  by (simp add: pupdate_def example_tree_def keybytesToHex_def pext_def)

lemma example_pencs: "pencs example_K example_tree = {[0xC4, 0x82, 0x20, 1, 7]}"
  by (simp add: example_tree_def penc_def compact_def hexToCompact_def hasTerm_def enc_list_def enc_str_def puthead_def result_simps)

lemma run_from_empty: "addressed K S Map.empty \<Longrightarrow> \<exists>t. trie_run K S t PNil"
  by (intro exI run_new[of K S Map.empty]) (simp_all add: Trie_New_def Let_def)

lemma run_one_more:
  assumes "trie_run K S t p" "length key < 2 ^ 56" "length val < 2 ^ 56"
  shows "\<exists>t'. trie_run K S t' (pupdate p key val)"
  using merkle.TryUpdate_rel[of K "trie_db t" t p key val] run_inv_rel[OF trie_run_inv[OF assms(1)]]
    run_update[OF assms(1) _ assms(2,3)] by blast

definition example_S :: "byte list set" where
  "example_S = {[0x80], [0xC4, 0x82, 0x20, 1, 7]}"

lemma example_inj: "inj_on (keccak example_K) example_S"
  by (simp add: inj_on_def example_S_def example_keccak) (simp add: emptyRoot_def numeral_eq_Suc)

lemma example_run: "\<exists>t. trie_run example_K example_S t example_tree"
proof -
  have "addressed example_K example_S Map.empty" by (simp add: addressed_def example_inj)
  then show ?thesis using run_from_empty run_one_more[where key = "[1]" and val = "[7]"] unfolding example_update[symmetric]
    by fastforce
qed

section \<open>Properties\<close>

text \<open>
  C11: At every moment of a run a lookup returns what the updates so far have put there, and \<^verbatim>\<open>Hash\<close>
  returns the Merkle root of that content: the hash of the canonical tree in which every subtree of
  32 bytes or more is replaced by its hash. Caching, unloading, commits and reopening do not show.\<close>

theorem trie_run_root:
  assumes "trie_run K S t p"
  shows "(\<exists>t'. TryGet t key = Some (Inr (pmap p key), t')) \<and> fst (Trie_Hash K t) = Inr (root_hash K p)"
  using trie_run_get[OF assms] trie_run_hash[OF assms] by simp

theorem trie_run_root_witness:
  "\<exists>t t'. TryGet t [1] = Some (Inr (Some [7]), t') \<and> fst (Trie_Hash example_K t) = Inr (replicate 31 0 @ [1])"
proof -
  obtain t where t: "trie_run example_K example_S t example_tree" using example_run by blast
  have "root_hash example_K example_tree = replicate 31 0 @ [1]"
    using example_pencs by (simp add: root_hash_def example_tree_def example_keccak)
  moreover have "pmap example_tree [1] = Some [7]" by (simp add: pmap_def example_tree_def keybytesToHex_def)
  ultimately show ?thesis using trie_run_root[OF t, of "[1]"] by auto
qed

text \<open>
  C10: The root hash depends on the content alone: two tries with the same content have the same root
  hash, whatever sequences of operations led to them.\<close>

theorem root_hash_history:
  assumes "trie_run K S t p" "trie_run K S' t' p'" "trie_content t = trie_content t'"
  shows "fst (Trie_Hash K t) = fst (Trie_Hash K t')"
proof -
  have "pgood p" "pgood p'" using run_inv_rel trie_run_inv assms(1,2) by blast+
  then have "p = p'" using assms by (intro pgood_inj) (simp_all add: trie_run_content)
  then show ?thesis using trie_run_hash[OF assms(1)] trie_run_hash[OF assms(2)] by simp
qed

theorem root_hash_history_witness:
  "\<exists>t t'. trie_run example_K {} t (pupdate (pupdate PNil [1] [7]) [2] [8]) \<and>
     trie_run example_K {} t' (pupdate (pupdate PNil [2] [8]) [1] [7]) \<and>
     fst (Trie_Hash example_K t) = fst (Trie_Hash example_K t')"
proof -
  have "addressed example_K {} Map.empty" by (simp add: addressed_def)
  then obtain t0 where t0: "trie_run example_K {} t0 PNil" using run_from_empty by blast
  obtain t1 t2 where "trie_run example_K {} t1 (pupdate PNil [1] [7])" "trie_run example_K {} t2 (pupdate PNil [2] [8])"
    using run_one_more[OF t0, of "[1]" "[7]"] run_one_more[OF t0, of "[2]" "[8]"] by auto
  then obtain t t' where t: "trie_run example_K {} t (pupdate (pupdate PNil [1] [7]) [2] [8])"
      "trie_run example_K {} t' (pupdate (pupdate PNil [2] [8]) [1] [7])"
    using run_one_more[of example_K "{}" t1 _ "[2]" "[8]"] run_one_more[of example_K "{}" t2 _ "[1]" "[7]"] by fastforce
  have "ptrie PNil" by (simp add: ptrie_def)
  then have "trie_content t = trie_content t'"
    using t by (simp add: trie_run_content pmap_pupdate ptrie_pupdate fun_upd_twist)
  then show ?thesis using root_hash_history[OF t] t by blast
qed

text \<open>
  C8: The root hash commits to the content: as long as no two of the encodings involved have the same
  hash, two tries with the same root hash have the same content.\<close>

theorem root_hash_binding:
  assumes "trie_run K S t p" "trie_run K S' t' p'" "keccak K [0x80] = emptyRoot"
    and "inj_on (keccak K) (insert [0x80] (pencs K p \<union> pencs K p'))"
    and "fst (Trie_Hash K t) = fst (Trie_Hash K t')"
  shows "trie_content t = trie_content t'"
proof -
  have "pgood p" "pgood p'" using run_inv_rel trie_run_inv assms(1,2) by blast+
  moreover have "root_hash K p = root_hash K p'"
    using assms(5) trie_run_hash[OF assms(1)] trie_run_hash[OF assms(2)] by simp
  ultimately show ?thesis
    using root_hash_inj[OF _ _ assms(4,3)] assms(1,2) by (simp add: trie_run_content)
qed

theorem root_hash_binding_witness:
  "\<exists>t t'. trie_run example_K example_S t example_tree \<and> trie_run example_K example_S t' example_tree \<and>
     fst (Trie_Hash example_K t) = Inr (replicate 31 0 @ [1]) \<and> trie_content t = trie_content t'"
proof -
  obtain t where t: "trie_run example_K example_S t example_tree" using example_run by blast
  have h: "fst (Trie_Hash example_K t) = Inr (replicate 31 0 @ [1])"
    using trie_run_hash[OF t] example_pencs by (simp add: root_hash_def example_tree_def example_keccak)
  obtain t' where "Trie_Hash example_K t = (Inr (replicate 31 0 @ [1]), t')" using h by (metis prod.collapse)
  then have t': "trie_run example_K example_S t' example_tree" by (rule run_hash[OF t])
  have "inj_on (keccak example_K) (insert [0x80] (pencs example_K example_tree \<union> pencs example_K example_tree))"
    using example_inj by (simp add: example_pencs example_S_def)
  from root_hash_binding[OF t t' example_keccak(1) this] show ?thesis
    using t t' h trie_run_hash[OF t] trie_run_hash[OF t'] by auto
qed

text \<open>
  C9: Commit and reopening: \<^verbatim>\<open>Commit\<close> returns the root hash and keeps every entry the database had,
  and \<^verbatim>\<open>New\<close> with this hash on the database it leaves opens a trie with the same content and the same
  root hash, provided that no two encodings in the database have the same hash.\<close>

theorem commit_reopen:
  assumes "trie_run K S t p" "pencs K p \<subseteq> S" "[0x80] \<in> S" "keccak K [0x80] = emptyRoot" "root_hash K p \<noteq> replicate 32 0"
  shows "\<exists>h t1 t2 m m'. Commit K (\<lambda>_. False) t = (Inr h, t1) \<and> trie_db t = Some m \<and> trie_db t1 = Some m' \<and> m \<subseteq>\<^sub>m m' \<and>
    Trie_New h (Some m') = Inr t2 \<and> trie_content t2 = trie_content t \<and> fst (Trie_Hash K t2) = Inr h"
proof -
  obtain t1 t2 m m' where r: "Commit K (\<lambda>_. False) t = (Inr (root_hash K p), t1)" "trie_db t = Some m" "trie_db t1 = Some m'"
      "m \<subseteq>\<^sub>m m'" "Trie_New (root_hash K p) (trie_db t1) = Inr t2" "trie_run K S t2 p"
    using trie_run_reopen[OF assms] by blast
  moreover have "trie_content t2 = trie_content t" "fst (Trie_Hash K t2) = Inr (root_hash K p)"
    using r(6) assms(1) by (simp_all add: trie_run_content trie_run_hash)
  ultimately show ?thesis by auto
qed

theorem commit_reopen_witness:
  "\<exists>t h t1 t2. trie_run example_K example_S t example_tree \<and> Commit example_K (\<lambda>_. False) t = (Inr h, t1) \<and>
     Trie_New h (trie_db t1) = Inr t2 \<and> trie_content t2 [1] = Some [7]"
proof -
  obtain t where t: "trie_run example_K example_S t example_tree" using example_run by blast
  have "root_hash example_K example_tree = replicate 31 0 @ [1]"
    using example_pencs by (simp add: root_hash_def example_tree_def example_keccak)
  then have "root_hash example_K example_tree \<noteq> replicate 32 0" by (simp add: numeral_eq_Suc)
  from commit_reopen[OF t _ _ example_keccak(1) this] obtain h t1 t2 where
    "Commit example_K (\<lambda>_. False) t = (Inr h, t1)" "Trie_New h (trie_db t1) = Inr t2" "trie_content t2 = trie_content t"
    by (auto simp: example_pencs example_S_def)
  moreover have "trie_content t [1] = Some [7]"
    using t by (simp add: trie_run_content pmap_def example_tree_def keybytesToHex_def)
  ultimately show ?thesis using t by auto
qed

end
