(* ===== verification/Secure_Trie.thy ===== *)
theory Secure_Trie
  imports State_Sim Trie_Runs
begin

text \<open>
  The trie under keccak-hashed keys (\<^verbatim>\<open>trie/secure_trie.go\<close>) and the database of the state, which keeps
  recently committed tries (\<^verbatim>\<open>core/state/database.go\<close>).\<close>

section \<open>Tries with hashed keys\<close>

text \<open>
  A trie is a value: instead of the pointer \<^verbatim>\<open>secKeyCacheOwner\<close> the record says whether it points to the
  trie itself. The buffers for hashes carry nothing from one call to the next.\<close>

record SecureTrie =
  st_trie :: Trie
  secKeyCache :: "byte list \<rightharpoonup> byte list"
  secKeyCacheOwner :: bool

definition secureKeyPrefix :: "byte list" where
  "secureKeyPrefix = [115, 101, 99, 117, 114, 101, 45, 107, 101, 121, 45]"

definition NewSecure :: "byte list \<Rightarrow> database option \<Rightarrow> 16 word \<Rightarrow> (trie_error, SecureTrie) result" where
  "NewSecure rt db limit =
    (if db = None then Inl (Panic ''NewSecure called with nil database'')
     else and_then (Trie_New rt db) (\<lambda>t.
       Inr \<lparr>st_trie = SetCacheLimit limit t, secKeyCache = Map.empty, secKeyCacheOwner = False\<rparr>))"

definition secKey :: "byte list \<Rightarrow> byte list" where
  "secKey key = secureKeyPrefix @ key"

definition hashKey :: "crypto_lib \<Rightarrow> byte list \<Rightarrow> byte list" where
  "hashKey K key = keccak K key"

definition getSecKeyCache :: "SecureTrie \<Rightarrow> SecureTrie" where
  "getSecKeyCache t = (if secKeyCacheOwner t then t else t\<lparr>secKeyCacheOwner := True, secKeyCache := Map.empty\<rparr>)"

definition st_TryGet :: "crypto_lib \<Rightarrow> SecureTrie \<Rightarrow> byte list \<Rightarrow> ((trie_error, byte list option) result \<times> SecureTrie) option" where
  "st_TryGet K t key = map_option (\<lambda>(r, tr). (r, t\<lparr>st_trie := tr\<rparr>)) (TryGet (st_trie t) (hashKey K key))"

definition st_Get :: "crypto_lib \<Rightarrow> SecureTrie \<Rightarrow> byte list \<Rightarrow> ((trie_error, byte list option) result \<times> SecureTrie) option" where
  "st_Get K t key = map_option (\<lambda>(r, t'). (log_error r None, t')) (st_TryGet K t key)"

definition st_TryUpdate :: "crypto_lib \<Rightarrow> SecureTrie \<Rightarrow> byte list \<Rightarrow> byte list \<Rightarrow> ((trie_error, unit) result \<times> SecureTrie) option" where
  "st_TryUpdate K t key val =
    (let hk = hashKey K key in
     map_option (\<lambda>(r, tr).
       let t1 = t\<lparr>st_trie := tr\<rparr> in
       case r of
         Inl e \<Rightarrow> (Inl e, t1)
       | Inr _ \<Rightarrow> let t2 = getSecKeyCache t1 in (Inr (), t2\<lparr>secKeyCache := (secKeyCache t2)(hk \<mapsto> key)\<rparr>))
     (TryUpdate (st_trie t) hk val))"

definition st_Update :: "crypto_lib \<Rightarrow> SecureTrie \<Rightarrow> byte list \<Rightarrow> byte list \<Rightarrow> ((trie_error, unit) result \<times> SecureTrie) option" where
  "st_Update K t key val = map_option (\<lambda>(r, t'). (log_error r (), t')) (st_TryUpdate K t key val)"

definition st_TryDelete :: "crypto_lib \<Rightarrow> SecureTrie \<Rightarrow> byte list \<Rightarrow> ((trie_error, unit) result \<times> SecureTrie) option" where
  "st_TryDelete K t key =
    (let hk = hashKey K key; t1 = getSecKeyCache t; t2 = t1\<lparr>secKeyCache := (secKeyCache t1)(hk := None)\<rparr> in
     map_option (\<lambda>(r, tr). (r, t2\<lparr>st_trie := tr\<rparr>)) (TryDelete (st_trie t2) hk))"

definition st_Delete :: "crypto_lib \<Rightarrow> SecureTrie \<Rightarrow> byte list \<Rightarrow> ((trie_error, unit) result \<times> SecureTrie) option" where
  "st_Delete K t key = map_option (\<lambda>(r, t'). (log_error r (), t')) (st_TryDelete K t key)"

definition st_GetKey :: "SecureTrie \<Rightarrow> byte list \<Rightarrow> (trie_error, byte list option) result \<times> SecureTrie" where
  "st_GetKey t shaKey =
    (let t1 = getSecKeyCache t in
     case secKeyCache t1 shaKey of
       Some key \<Rightarrow> (Inr (Some key), t1)
     | None \<Rightarrow>
         case trie_db (st_trie t1) of
           None \<Rightarrow> (Inl (Panic ''invalid memory address or nil pointer dereference''), t1)
         | Some m \<Rightarrow> (Inr (m (secKey shaKey)), t1))"

definition st_Hash :: "crypto_lib \<Rightarrow> SecureTrie \<Rightarrow> (trie_error, hash) result \<times> SecureTrie" where
  "st_Hash K t = (case Trie_Hash K (st_trie t) of (r, tr) \<Rightarrow> (and_then r (\<lambda>h. Inr (BytesToHash h)), t\<lparr>st_trie := tr\<rparr>))"

definition st_Copy :: "SecureTrie \<Rightarrow> SecureTrie" where
  "st_Copy t = t\<lparr>secKeyCacheOwner := False\<rparr>"

text \<open>Writes the preimages of the keys, in the order \<open>hks\<close> of a range over the cache.\<close>

fun commit_keys :: "(byte list \<Rightarrow> bool) \<Rightarrow> (byte list \<rightharpoonup> byte list) \<Rightarrow> byte list list \<Rightarrow> database \<Rightarrow> (trie_error, unit) result \<times> database" where
  "commit_keys fails c [] w = (Inr (), w)"
| "commit_keys fails c (hk # hks) w =
    (case c hk of
       None \<Rightarrow> commit_keys fails c hks w
     | Some key \<Rightarrow>
         if fails (secKey hk) then (Inl (Err putError), w) else commit_keys fails c hks (w(secKey hk \<mapsto> key)))"

definition st_CommitTo ::
  "crypto_lib \<Rightarrow> (byte list \<Rightarrow> bool) \<Rightarrow> byte list list \<Rightarrow> SecureTrie \<Rightarrow> database \<Rightarrow> (trie_error, hash) result \<times> database \<times> SecureTrie" where
  "st_CommitTo K fails hks t w =
    (let t1 = getSecKeyCache t in
     case commit_keys fails (secKeyCache t1) hks w of
       (Inl e, w1) \<Rightarrow> (Inl e, w1, t1)
     | (Inr _, w1) \<Rightarrow>
         let t2 = t1\<lparr>secKeyCache := Map.empty\<rparr> in
         case CommitTo K fails (Some w1) (st_trie t2) of
           (r, w2, tr) \<Rightarrow> (and_then r (\<lambda>h. Inr (BytesToHash h)), case w2 of Some w' \<Rightarrow> w' | None \<Rightarrow> w1, t2\<lparr>st_trie := tr\<rparr>))"

definition st_Commit :: "crypto_lib \<Rightarrow> (byte list \<Rightarrow> bool) \<Rightarrow> byte list list \<Rightarrow> SecureTrie \<Rightarrow> (trie_error, hash) result \<times> SecureTrie" where
  "st_Commit K fails hks t =
    (case trie_db (st_trie t) of
       None \<Rightarrow> (Inl (Panic ''invalid memory address or nil pointer dereference''), t)
     | Some w \<Rightarrow>
         case st_CommitTo K fails hks t w of
           (r, w', t') \<Rightarrow> (r, t'\<lparr>st_trie := (st_trie t')\<lparr>trie_db := Some w'\<rparr>\<rparr>))"

definition st_Root :: "crypto_lib \<Rightarrow> SecureTrie \<Rightarrow> (trie_error, byte list) result \<times> SecureTrie" where
  "st_Root K t = (case st_Hash K t of (r, t') \<Rightarrow> (and_then r (\<lambda>h. Inr (hash_bytes h)), t'))"

section \<open>The database of the state\<close>

record cachingDB =
  cdb_db :: database
  pastTries :: "SecureTrie list"
  codeSizeCache :: "hash \<rightharpoonup> nat"

definition maxPastTries :: nat where
  "maxPastTries = 12"

definition MaxTrieCacheGen :: "16 word" where
  "MaxTrieCacheGen = 120"

text \<open>The loop over the past tries, the newest first; \<^verbatim>\<open>Hash\<close> may leave them with more hashes cached.\<close>

fun find_past :: "crypto_lib \<Rightarrow> hash \<Rightarrow> SecureTrie list \<Rightarrow> (trie_error, SecureTrie option) result \<times> SecureTrie list" where
  "find_past K rt [] = (Inr None, [])"
| "find_past K rt (t # ts) =
    (case st_Hash K t of
       (Inl e, t') \<Rightarrow> (Inl e, t' # ts)
     | (Inr h, t') \<Rightarrow>
         if h = rt then (Inr (Some (st_Copy t')), t' # ts)
         else case find_past K rt ts of (r, ts') \<Rightarrow> (r, t' # ts'))"

definition OpenTrie :: "crypto_lib \<Rightarrow> hash \<Rightarrow> cachingDB \<Rightarrow> (trie_error, SecureTrie) result \<times> cachingDB" where
  "OpenTrie K rt db =
    (case find_past K rt (rev (pastTries db)) of
       (r, ts) \<Rightarrow>
         let db' = db\<lparr>pastTries := rev ts\<rparr> in
         case r of
           Inl e \<Rightarrow> (Inl e, db')
         | Inr (Some t) \<Rightarrow> (Inr t, db')
         | Inr None \<Rightarrow> (NewSecure (hash_bytes rt) (Some (cdb_db db')) MaxTrieCacheGen, db'))"

definition pushTrie :: "SecureTrie \<Rightarrow> cachingDB \<Rightarrow> cachingDB" where
  "pushTrie t db = db\<lparr>pastTries :=
     if length (pastTries db) \<ge> maxPastTries then (tl (pastTries db) @ [last (pastTries db)])[length (pastTries db) - 1 := t]
     else pastTries db @ [t]\<rparr>"

definition OpenStorageTrie :: "cachingDB \<Rightarrow> hash \<Rightarrow> hash \<Rightarrow> (trie_error, SecureTrie) result" where
  "OpenStorageTrie db ah rt = NewSecure (hash_bytes rt) (Some (cdb_db db)) 0"

definition CopyTrie :: "SecureTrie \<Rightarrow> SecureTrie" where
  "CopyTrie t = st_Copy t"

definition ContractCode :: "(hash \<Rightarrow> nat \<Rightarrow> (hash \<rightharpoonup> nat) \<Rightarrow> (hash \<rightharpoonup> nat)) \<Rightarrow> hash \<Rightarrow> hash \<Rightarrow> cachingDB \<Rightarrow> (trie_error, byte list) result \<times> cachingDB" where
  "ContractCode add ah codeHash db =
    (case cdb_db db (hash_bytes codeHash) of
       None \<Rightarrow> (Inl (Err getError), db)
     | Some code \<Rightarrow> (Inr code, db\<lparr>codeSizeCache := add codeHash (length code) (codeSizeCache db)\<rparr>))"

definition ContractCodeSize :: "(hash \<Rightarrow> nat \<Rightarrow> (hash \<rightharpoonup> nat) \<Rightarrow> (hash \<rightharpoonup> nat)) \<Rightarrow> hash \<Rightarrow> hash \<Rightarrow> cachingDB \<Rightarrow> (trie_error, nat) result \<times> cachingDB" where
  "ContractCodeSize add ah codeHash db =
    (case codeSizeCache db codeHash of
       Some cached \<Rightarrow> (Inr cached, db)
     | None \<Rightarrow>
         case ContractCode add ah codeHash db of
           (Inl e, db1) \<Rightarrow> (Inl e, db1)
         | (Inr code, db1) \<Rightarrow> (Inr (length code), db1\<lparr>codeSizeCache := add codeHash (length code) (codeSizeCache db1)\<rparr>))"

definition cached_CommitTo ::
  "crypto_lib \<Rightarrow> (byte list \<Rightarrow> bool) \<Rightarrow> byte list list \<Rightarrow> SecureTrie \<Rightarrow> database \<Rightarrow> cachingDB \<Rightarrow> (trie_error, hash) result \<times> database \<times> SecureTrie \<times> cachingDB" where
  "cached_CommitTo K fails hks t w db =
    (case st_CommitTo K fails hks t w of
       (r, w', t') \<Rightarrow> (r, w', t', case r of Inr _ \<Rightarrow> pushTrie t' db | Inl _ \<Rightarrow> db))"

text \<open>
  The interface that a \<^verbatim>\<open>StateDB\<close> calls. What is not of this package is an argument: the cache of
  package lru, the environment, the order of a range over a map. A recursion that does not end
  exhausts the stack.\<close>

record state_env =
  env_vars :: environment
  env_lru_Add :: "(address \<rightharpoonup> byte list) \<Rightarrow> address \<Rightarrow> byte list \<Rightarrow> (address \<rightharpoonup> byte list)"
  env_size_Add :: "hash \<Rightarrow> nat \<Rightarrow> (hash \<rightharpoonup> nat) \<Rightarrow> (hash \<rightharpoonup> nat)"
  env_range :: "(byte list \<rightharpoonup> byte list) \<Rightarrow> byte list list"
  env_fails :: "byte list \<Rightarrow> bool"

definition or_overflow :: "'s \<Rightarrow> ((trie_error, 'a) result \<times> 's) option \<Rightarrow> (trie_error, 'a) result \<times> 's" where
  "or_overflow s r = (case r of Some x \<Rightarrow> x | None \<Rightarrow> (Inl (Panic ''stack overflow''), s))"

definition nil_bytes :: "byte list option \<Rightarrow> byte list" where
  "nil_bytes b = (case b of None \<Rightarrow> [] | Some v \<Rightarrow> v)"

definition caching_Database :: "crypto_lib \<Rightarrow> state_env \<Rightarrow> cachingDB \<Rightarrow> SecureTrie Database" where
  "caching_Database K E db = \<lparr>
     db_OpenTrie = (\<lambda>rt. fst (OpenTrie K rt db)),
     db_OpenStorageTrie = OpenStorageTrie db,
     db_ContractCode = (\<lambda>ah h. fst (ContractCode (env_size_Add E) ah h db)),
     db_ContractCodeSize = (\<lambda>ah h. fst (ContractCodeSize (env_size_Add E) ah h db)),
     tr_TryGet = (\<lambda>t key. case or_overflow t (st_TryGet K t key) of (r, t') \<Rightarrow> (and_then r (\<lambda>v. Inr (nil_bytes v)), t')),
     tr_TryUpdate = (\<lambda>t key v. or_overflow t (st_TryUpdate K t key v)),
     tr_TryDelete = (\<lambda>t key. or_overflow t (st_TryDelete K t key)),
     tr_Hash = st_Hash K,
     tr_CommitTo = (\<lambda>t w. st_CommitTo K (env_fails E) (env_range E (secKeyCache (getSecKeyCache t))) t w),
     dbw_fails = env_fails E,
     db_crypto = K,
     db_getenv = env_vars E,
     lru_Add = env_lru_Add E\<rparr>"

section \<open>What the state reads\<close>

definition sec_rel :: "crypto_lib \<Rightarrow> SecureTrie \<Rightarrow> ptree \<Rightarrow> bool" where
  "sec_rel K t p \<longleftrightarrow> pgood p \<and> (\<exists>m. trie_db (st_trie t) = Some m \<and> tinv K m True (root (st_trie t)) p)"

definition sec_valid :: "crypto_lib \<Rightarrow> SecureTrie \<Rightarrow> bool" where
  "sec_valid K t \<longleftrightarrow> (\<exists>p. sec_rel K t p)"

definition sec_content :: "crypto_lib \<Rightarrow> SecureTrie \<Rightarrow> byte list \<Rightarrow> byte list" where
  "sec_content K t key = nil_bytes (trie_content (st_trie t) (hashKey K key))"

definition sec_root :: "crypto_lib \<Rightarrow> database \<Rightarrow> hash \<Rightarrow> bool" where
  "sec_root K m rt \<longleftrightarrow> (\<exists>t. NewSecure (hash_bytes rt) (Some m) 0 = Inr t \<and> sec_valid K t)"

lemma sec_rel_get:
  assumes "sec_rel K t p"
  shows "\<exists>t'. TryGet (st_trie t) key = Some (Inr (pmap p key), t') \<and> sec_rel K (t\<lparr>st_trie := t'\<rparr>) p"
proof -
  obtain m where m: "trie_db (st_trie t) = Some m" "tinv K m True (root (st_trie t)) p" "pgood p" using assms by (auto simp: sec_rel_def)
  then show ?thesis using merkle.TryGet_rel[of K "Some m" "st_trie t" p key]
    by (auto simp: sec_rel_def pmap_def db_map_def pgood_def)
qed

lemma sec_rel_content: "sec_rel K t p \<Longrightarrow> sec_content K t key = nil_bytes (pmap p (hashKey K key))"
  using sec_rel_get[of K t p "hashKey K key"] by (auto simp: sec_content_def trie_content_def)

lemma sec_rel_empty: "NewSecure (replicate 32 0) (Some m) l = Inr t \<Longrightarrow> sec_rel K t PNil"
  by (auto simp: NewSecure_def Trie_New_def Let_def sec_rel_def SetCacheLimit_def pgood_def ptrie_def)

lemma NewSecure_zero: "\<exists>t. NewSecure (replicate 32 0) (Some m) l = Inr t"
  by (simp add: NewSecure_def Trie_New_def Let_def)

lemma hash_bytes_0: "hash_bytes 0 = replicate 32 0"
  by (simp add: hash_bytes_def array_bytes_def map_replicate_const)

lemma caching_TryGet:
  assumes "sec_valid K t"
  shows "\<exists>t'. tr_TryGet (caching_Database K E db) t key = (Inr (sec_content K t key), t') \<and> sec_valid K t' \<and> sec_content K t' = sec_content K t"
proof -
  obtain p where p: "sec_rel K t p" using assms by (auto simp: sec_valid_def)
  obtain t' where t': "TryGet (st_trie t) (hashKey K key) = Some (Inr (pmap p (hashKey K key)), t')" "sec_rel K (t\<lparr>st_trie := t'\<rparr>) p"
    using sec_rel_get[OF p] by blast
  then show ?thesis using sec_rel_content[OF p] sec_rel_content[OF t'(2)]
    by (auto simp: caching_Database_def st_TryGet_def or_overflow_def sec_valid_def fun_eq_iff)
qed

interpretation caching: state_reader "caching_Database K E db" "sec_valid K" "sec_content K" "sec_root K (cdb_db db)" for K E db
proof
  fix tr k assume v: "sec_valid K tr"
  show "\<exists>tr'. tr_TryGet (caching_Database K E db) tr k = (Inr (sec_content K tr k), tr') \<and> sec_valid K tr' \<and> sec_content K tr' = sec_content K tr"
    by (rule caching_TryGet[OF v])
  obtain p where p: "sec_rel K tr p" using v by (auto simp: sec_valid_def)
  have "length (nil_bytes (pmap p (hashKey K k))) < 2 ^ 56"
    using p by (auto simp: sec_rel_def pgood_def pmap_def nil_bytes_def split: option.splits)
  then show "length (sec_content K tr k) < 2 ^ 64" using sec_rel_content[OF p] by simp
next
  fix r ah assume "sec_root K (cdb_db db) r"
  then show "\<exists>tr. db_OpenStorageTrie (caching_Database K E db) ah r = Inr tr \<and> sec_valid K tr"
    by (auto simp: sec_root_def caching_Database_def OpenStorageTrie_def)
next
  show "sec_root K (cdb_db db) 0"
    using NewSecure_zero[of "cdb_db db" 0] sec_rel_empty unfolding sec_root_def sec_valid_def hash_bytes_0 by blast
next
  fix ah tr k assume "db_OpenStorageTrie (caching_Database K E db) ah 0 = Inr tr"
  then have "sec_rel K tr PNil" using sec_rel_empty by (simp add: caching_Database_def OpenStorageTrie_def hash_bytes_0)
  then show "sec_content K tr k = []" by (simp add: sec_rel_content nil_bytes_def pmap_def)
next
  fix ah h m
  show "db_ContractCode (caching_Database K E db) ah h \<noteq> Inl (Panic m)"
    by (simp add: caching_Database_def ContractCode_def split: option.splits)
qed

end
