(* ===== verification/State_Snapshots.thy ===== *)
theory State_Snapshots
  imports Secure_Trie
begin

text \<open>
  The state on the tries of the chain: what a client of \<^verbatim>\<open>StateDB\<close> observes, and two runs in which the
  code does not do what it means to.\<close>

section \<open>A state that has just been opened\<close>

text \<open>The root is in the database, and so is the storage of every account.\<close>

definition stored_state :: "crypto_lib \<Rightarrow> cachingDB \<Rightarrow> hash \<Rightarrow> bool" where
  "stored_state K db rt \<longleftrightarrow> (\<exists>t. fst (OpenTrie K rt db) = Inr t \<and> sec_valid K t \<and>
     (\<forall>a d. load_account (sec_content K t) a = Some d \<longrightarrow> sec_root K (cdb_db db) (acc_Root d) \<and> length (acc_CodeHash d) = 32))"

definition stored_acct :: "crypto_lib \<Rightarrow> cachingDB \<Rightarrow> Account \<Rightarrow> acct" where
  "stored_acct K db d = \<lparr>a_nonce = acc_Nonce d, a_balance = acc_Balance d, a_codeHash = acc_CodeHash d,
     a_storage = (\<lambda>k. case OpenStorageTrie db 0 (acc_Root d) of Inr t \<Rightarrow> slot_value (sec_content K t (hash_bytes k)) | Inl _ \<Rightarrow> 0),
     a_suicided = False\<rparr>"

definition stored_machine :: "crypto_lib \<Rightarrow> cachingDB \<Rightarrow> hash \<Rightarrow> machine" where
  "stored_machine K db rt = \<lparr>m_world = \<lparr>w_accounts = (\<lambda>a. case fst (OpenTrie K rt db) of
        Inr t \<Rightarrow> map_option (stored_acct K db) (load_account (sec_content K t) a) | Inl _ \<Rightarrow> None),
      w_refund = 0, w_logs = (\<lambda>_. []), w_logSize = 0, w_preimages = Map.empty\<rparr>,
     m_saved = [], m_next = 0, m_tx = (0, 0, 0)\<rparr>"

lemma state_New_ok:
  assumes "stored_state K db rt" "state_New (caching_Database K E db) rt pkg = Inr s"
  shows "caching.rinv K db s" "caching.machine_of K E db s = stored_machine K db rt" "validRevisions s = []"
proof -
  obtain t where t: "fst (OpenTrie K rt db) = Inr t" "sec_valid K t"
    "\<forall>a d. load_account (sec_content K t) a = Some d \<longrightarrow> sec_root K (cdb_db db) (acc_Root d) \<and> length (acc_CodeHash d) = 32"
    using assms(1) by (auto simp: stored_state_def)
  have o: "db_OpenTrie (caching_Database K E db) rt = Inr t" using t(1) by (simp add: caching_Database_def)
  have s: "sdb_trie s = t" "stateObjects s = Map.empty" "refund s = 0" "logs s = Map.empty" "logSize s = 0" "preimages s = Map.empty"
      "journal s = []" "validRevisions s = []" "nextRevisionId s = 0" "thash s = 0" "bhash s = 0" "txIndex s = 0"
    using assms(2) o by (auto simp: state_New_def)
  show "validRevisions s = []" by (rule s)
  show "caching.rinv K db s" using s t by (simp add: caching.rinv_def caching.trie_ok_def)
  have "acct_of (caching_Database K E db) (sec_content K) (newObject K a d) = stored_acct K db d" for a d
    by (auto simp: acct_of_def newObject_def stored_acct_def slot_def obj_map_def opened_def caching_Database_def OpenStorageTrie_def
        slot_value_def fun_eq_iff split: sum.splits)
  moreover have "db_crypto (caching_Database K E db) = K" by (simp add: caching_Database_def)
  ultimately show "caching.machine_of K E db s = stored_machine K db rt" using s t(1)
    by (simp add: caching.machine_of_def stored_machine_def world_of_def lookup_def logs_of_def[abs_def] option.map_comp comp_def)
qed

lemma run_fst:
  assumes "stored_state K db rt" "state_New (caching_Database K E db) rt pkg = Inr s"
  shows "fst (sop_run (caching_Database K E db) ps s) = fst (m_run K ps (stored_machine K db rt))"
proof -
  note n = state_New_ok[OF assms]
  have "db_crypto (caching_Database K E db) = K" by (simp add: caching_Database_def)
  then show ?thesis using caching.run_agree[OF caching.sim_start[OF n(1,3)], where ps = ps and E = E] n(2) by (simp add: caching.agree_def)
qed

lemma m_exec_panic:
  "fst (m_exec K p m) = Inl f \<Longrightarrow> (\<exists>n. p = OpSubRefund n \<and> w_refund (m_world m) < n \<and> f = Panic ''Refund counter below zero'') \<or>
    (\<exists>i. p = OpRevert i \<and> map_of (m_saved m) i = None \<and> f = Panic ''revision id cannot be reverted'')"
  by (cases p) (auto simp: m_read_def m_upd_def readM_def m_revert_def bindM_run split: option.splits if_splits)

lemma m_run_panic: "fst (m_run K ps m) = Inl f \<Longrightarrow>
    f = Panic ''Refund counter below zero'' \<and> (\<exists>n. OpSubRefund n \<in> set ps) \<or> f = Panic ''revision id cannot be reverted'' \<and> (\<exists>i. OpRevert i \<in> set ps)"
proof (induction ps arbitrary: m)
  case (Cons p ps)
  obtain y m1 where y: "m_exec K p m = (y, m1)" by fastforce
  show ?case
  proof (cases y)
    case (Inl e)
    then have "f = e" using Cons.prems y by (simp add: bindM_run)
    then show ?thesis using m_exec_panic[of K p m f] y Inl by auto
  next
    case (Inr v)
    then have "fst (m_run K ps m1) = Inl f" using Cons.prems y by (cases "m_run K ps m1"; cases "fst (m_run K ps m1)") (auto simp: bindM_run returnM_def)
    then show ?thesis using Cons.IH by fastforce
  qed
qed (simp add: returnM_def)

definition example_env :: state_env where
  "example_env = \<lparr>env_vars = (\<lambda>_. []), env_lru_Add = (\<lambda>c a code. c(a \<mapsto> code)), env_size_Add = (\<lambda>h n c. c(h \<mapsto> n)),
     env_range = (\<lambda>_. []), env_fails = (\<lambda>_. False)\<rparr>"

definition empty_db :: cachingDB where
  "empty_db = \<lparr>cdb_db = Map.empty, pastTries = [], codeSizeCache = Map.empty\<rparr>"

lemma empty_db_open: "\<exists>t. fst (OpenTrie K 0 empty_db) = Inr t \<and> sec_rel K t PNil"
proof -
  obtain t where t: "NewSecure (replicate 32 0) (Some Map.empty) MaxTrieCacheGen = Inr t" using NewSecure_zero by blast
  then have "fst (OpenTrie K 0 empty_db) = Inr t" by (simp add: OpenTrie_def empty_db_def hash_bytes_0)
  then show ?thesis using sec_rel_empty[OF t] by blast
qed

lemma empty_db_stored: "stored_state K empty_db 0" "stored_machine K empty_db 0 = \<lparr>m_world = \<lparr>w_accounts = Map.empty,
      w_refund = 0, w_logs = (\<lambda>_. []), w_logSize = 0, w_preimages = Map.empty\<rparr>, m_saved = [], m_next = 0, m_tx = (0, 0, 0)\<rparr>"
proof -
  obtain t where t: "fst (OpenTrie K 0 empty_db) = Inr t" "sec_rel K t PNil" using empty_db_open by blast
  have c: "sec_content K t k = []" for k using t(2) by (simp add: sec_rel_content nil_bytes_def pmap_def)
  then have l: "load_account (sec_content K t) a = None" for a by (simp add: load_account_def)
  then show "stored_state K empty_db 0" using t by (auto simp: stored_state_def sec_valid_def)
  show "stored_machine K empty_db 0 = \<lparr>m_world = \<lparr>w_accounts = Map.empty,
      w_refund = 0, w_logs = (\<lambda>_. []), w_logSize = 0, w_preimages = Map.empty\<rparr>, m_saved = [], m_next = 0, m_tx = (0, 0, 0)\<rparr>"
    using t(1) l by (simp add: stored_machine_def)
qed

lemma empty_db_New: "\<exists>s. state_New (caching_Database K E empty_db) 0 pkg = Inr s"
  using empty_db_open[of K] by (auto simp: state_New_def caching_Database_def)





section \<open>A reverted touch\<close>

lemma touch_run:
  assumes "stateObjects s a = Some ob" "\<not> deleted ob" "so_address ob = a" "so_empty (db_crypto B) ob" "\<not> onDirty ob"
  shows "AddBalance B a 0 s = (Inr (), s\<lparr>journal := journal s @ [touchChange a False False], stateObjects := (stateObjects s)(a \<mapsto> ob\<lparr>touched := True\<rparr>)\<rparr>)"
proof -
  have "ob\<lparr>onDirty := False, touched := True\<rparr> = ob\<lparr>touched := True\<rparr>" using assms(5) by (cases ob) simp
  then show ?thesis using assms
  by (simp add: AddBalance_def on_new_object_def GetOrNewStateObject_def getStateObject_def on_object_def so_AddBalance_def so_touch_def
      journal_obj_def append_journal_def change_obj_def call_onDirty_def setStateObject_def returnM_def)
qed

lemma add_run:
  assumes "stateObjects s a = Some ob" "\<not> deleted ob" "so_address ob = a" "n \<noteq> 0" "\<not> onDirty ob"
  shows "AddBalance B a n s = (Inr (), s\<lparr>journal := journal s @ [balanceChange a (acc_Balance (so_data ob))],
    stateObjects := (stateObjects s)(a \<mapsto> ob\<lparr>so_data := (so_data ob)\<lparr>acc_Balance := acc_Balance (so_data ob) + n\<rparr>\<rparr>)\<rparr>)"
proof -
  have "ob\<lparr>so_data := d, onDirty := False\<rparr> = ob\<lparr>so_data := d\<rparr>" for d using assms(5) by (cases ob) simp
  then show ?thesis using assms
  by (simp add: AddBalance_def on_new_object_def GetOrNewStateObject_def getStateObject_def on_object_def so_AddBalance_def so_SetBalance_def
      so_setBalance_def journal_obj_def append_journal_def change_obj_def call_onDirty_def setStateObject_def returnM_def)
qed

text \<open>The steps of the run, on a state in which the account is not there yet.\<close>

definition ghost_ops :: "address \<Rightarrow> sop list" where
  "ghost_ops a = [OpCreateAccount a, OpSnapshot, OpAddBalance a 0, OpRevert 0, OpAddBalance a 5, OpGetBalance a]"



section \<open>The cache of contract code\<close>


definition coded :: "byte list \<Rightarrow> SecureTrie stateObject" where
  "coded h = (newObject example_K 0 \<lparr>acc_Nonce = 1, acc_Balance = 0, acc_Root = 0, acc_CodeHash = h\<rparr>)"

definition code_db :: cachingDB where
  "code_db = \<lparr>cdb_db = [replicate 32 1 \<mapsto> [0x60], replicate 32 2 \<mapsto> [0x61]], pastTries = [], codeSizeCache = Map.empty\<rparr>"

lemma coded_simps: "so_address (coded h) = 0" "so_code (coded h) = None" "acc_CodeHash (so_data (coded h)) = h"
  by (simp_all add: coded_def newObject_def)


end
