(* ===== verification/EVM_Memory.thy ===== *)
theory EVM_Memory
  imports State_Snapshots
begin

text \<open>
  The data of a running contract (\<^verbatim>\<open>core/vm\<close>): the stack, the memory, the helpers of \<^verbatim>\<open>common.go\<close> and the
  analysis of jump destinations. The arithmetic of package \<^verbatim>\<open>uint256\<close> is not part of the repository: its
  functions are the fields of \<open>uint256_lib\<close>.\<close>

unbundle bit_operations_syntax

type_synonym u256 = "256 word"

record uint256_lib =
  u_Add :: "u256 \<Rightarrow> u256 \<Rightarrow> u256"
  u_Sub :: "u256 \<Rightarrow> u256 \<Rightarrow> u256"
  u_Mul :: "u256 \<Rightarrow> u256 \<Rightarrow> u256"
  u_Div :: "u256 \<Rightarrow> u256 \<Rightarrow> u256"
  u_SDiv :: "u256 \<Rightarrow> u256 \<Rightarrow> u256"
  u_Mod :: "u256 \<Rightarrow> u256 \<Rightarrow> u256"
  u_SMod :: "u256 \<Rightarrow> u256 \<Rightarrow> u256"
  u_Exp :: "u256 \<Rightarrow> u256 \<Rightarrow> u256"
  u_ExtendSign :: "u256 \<Rightarrow> u256 \<Rightarrow> u256"
  u_Not :: "u256 \<Rightarrow> u256"
  u_And :: "u256 \<Rightarrow> u256 \<Rightarrow> u256"
  u_Or :: "u256 \<Rightarrow> u256 \<Rightarrow> u256"
  u_Xor :: "u256 \<Rightarrow> u256 \<Rightarrow> u256"
  u_Byte :: "u256 \<Rightarrow> u256 \<Rightarrow> u256" \<comment> \<open>value and position\<close>
  u_AddMod :: "u256 \<Rightarrow> u256 \<Rightarrow> u256 \<Rightarrow> u256"
  u_MulMod :: "u256 \<Rightarrow> u256 \<Rightarrow> u256 \<Rightarrow> u256"
  u_Lsh :: "u256 \<Rightarrow> u64 \<Rightarrow> u256"
  u_Rsh :: "u256 \<Rightarrow> u64 \<Rightarrow> u256"
  u_SRsh :: "u256 \<Rightarrow> u64 \<Rightarrow> u256"
  u_Lt :: "u256 \<Rightarrow> u256 \<Rightarrow> bool"
  u_Gt :: "u256 \<Rightarrow> u256 \<Rightarrow> bool"
  u_Slt :: "u256 \<Rightarrow> u256 \<Rightarrow> bool"
  u_Sgt :: "u256 \<Rightarrow> u256 \<Rightarrow> bool"
  u_Eq :: "u256 \<Rightarrow> u256 \<Rightarrow> bool"
  u_IsZero :: "u256 \<Rightarrow> bool"
  u_Sign :: "u256 \<Rightarrow> int"
  u_BitLen :: "u256 \<Rightarrow> nat"
  u_IsUint64 :: "u256 \<Rightarrow> bool"
  u_Uint64 :: "u256 \<Rightarrow> u64"
  u_Uint64WithOverflow :: "u256 \<Rightarrow> u64 \<times> bool"
  u_LtUint64 :: "u256 \<Rightarrow> u64 \<Rightarrow> bool"
  u_GtUint64 :: "u256 \<Rightarrow> u64 \<Rightarrow> bool"
  u_Clear :: u256
  u_SetOne :: u256
  u_SetAllOne :: u256
  u_SetUint64 :: "u64 \<Rightarrow> u256"
  u_SetBytes :: "byte list \<Rightarrow> u256"
  u_FromBig :: "int \<Rightarrow> u256"
  u_ToBig :: "u256 \<Rightarrow> int"
  u_Bytes20 :: "u256 \<Rightarrow> address"
  u_Bytes32 :: "u256 \<Rightarrow> hash"
  u_WriteToSlice :: "u256 \<Rightarrow> byte list" \<comment> \<open>the bytes it writes\<close>

datatype evm_error =
    ErrOutOfGas
  | ErrCodeStoreOutOfGas
  | ErrDepth
  | ErrInsufficientBalance
  | ErrContractAddressCollision
  | ErrExecutionReverted
  | ErrMaxCodeSizeExceeded
  | ErrInvalidJump
  | ErrWriteProtection
  | ErrReturnDataOutOfBounds
  | ErrGasUintOverflow
  | ErrStackUnderflow nat nat
  | ErrStackOverflow nat nat
  | ErrInvalidOpCode byte
  | errPrecompiled \<comment> \<open>an error of a precompiled contract\<close>

section \<open>The stack\<close>

text \<open>The list is the slice \<^verbatim>\<open>data\<close> read from its end: the top of the stack is the head.\<close>

type_synonym Stack = "u256 list"

definition StackLimit :: nat where
  "StackLimit = 1024"

text \<open>The panic of an access below the bottom of the stack.\<close>

definition stack_fault :: string where
  "stack_fault = ''index out of range [-1]''"

definition stack_pop :: "Stack \<Rightarrow> (evm_error, u256 \<times> Stack) result" where
  "stack_pop st = (case st of [] \<Rightarrow> Inl (Panic stack_fault) | x # xs \<Rightarrow> Inr (x, xs))"

definition stack_push :: "u256 \<Rightarrow> Stack \<Rightarrow> Stack" where
  "stack_push d st = d # st"

definition stack_Back :: "nat \<Rightarrow> Stack \<Rightarrow> (evm_error, u256) result" where
  "stack_Back n st = (if n < length st then Inr (st ! n) else Inl (Panic stack_fault))"

definition stack_peek :: "Stack \<Rightarrow> (evm_error, u256) result" where
  "stack_peek st = stack_Back 0 st"

definition stack_swap :: "nat \<Rightarrow> Stack \<Rightarrow> (evm_error, Stack) result" where
  "stack_swap n st = (if 0 < n \<and> n \<le> length st then Inr (st[n - 1 := st ! 0, 0 := st ! (n - 1)]) else Inl (Panic stack_fault))"

definition stack_dup :: "nat \<Rightarrow> Stack \<Rightarrow> (evm_error, Stack) result" where
  "stack_dup n st = (if 0 < n \<and> n \<le> length st then Inr (stack_push (st ! (n - 1)) st) else Inl (Panic stack_fault))"

definition maxStack :: "nat \<Rightarrow> nat \<Rightarrow> nat" where
  "maxStack pop push = StackLimit + pop - push"

definition minStack :: "nat \<Rightarrow> nat \<Rightarrow> nat" where
  "minStack pops push = pops"

definition minSwapStack :: "nat \<Rightarrow> nat" where
  "minSwapStack n = minStack n n"

definition maxSwapStack :: "nat \<Rightarrow> nat" where
  "maxSwapStack n = maxStack n n"

definition minDupStack :: "nat \<Rightarrow> nat" where
  "minDupStack n = minStack n (n + 1)"

definition maxDupStack :: "nat \<Rightarrow> nat" where
  "maxDupStack n = maxStack n (n + 1)"

section \<open>Integers\<close>

definition SafeSub :: "u64 \<Rightarrow> u64 \<Rightarrow> u64 \<times> bool" where
  "SafeSub x y = (x - y, x < y)"

definition SafeAdd :: "u64 \<Rightarrow> u64 \<Rightarrow> u64 \<times> bool" where
  "SafeAdd x y = (x + y, y > - 1 - x)"

definition SafeMul :: "u64 \<Rightarrow> u64 \<Rightarrow> u64 \<times> bool" where
  "SafeMul x y = (if x = 0 \<or> y = 0 then (0, False) else (x * y, y > - 1 div x))"

definition toWordSize :: "u64 \<Rightarrow> u64" where
  "toWordSize sz = (if sz > - 1 - 31 then - 1 div 32 + 1 else (sz + 31) div 32)"

definition calcMemSize64WithUint :: "uint256_lib \<Rightarrow> u256 \<Rightarrow> u64 \<Rightarrow> u64 \<times> bool" where
  "calcMemSize64WithUint U off length64 =
    (if length64 = 0 then (0, False)
     else let (offset64, overflow) = u_Uint64WithOverflow U off in
       if overflow then (0, True) else let val = offset64 + length64 in (val, val < offset64))"

definition calcMemSize64 :: "uint256_lib \<Rightarrow> u256 \<Rightarrow> u256 \<Rightarrow> u64 \<times> bool" where
  "calcMemSize64 U off l = (if \<not> u_IsUint64 U l then (0, True) else calcMemSize64WithUint U off (u_Uint64 U l))"

section \<open>Slices\<close>

text \<open>\<^verbatim>\<open>b[lo:hi]\<close> on 64-bit bounds. Memory is only addressed below its length, so capacity is not modelled.\<close>

definition slice :: "byte list \<Rightarrow> int \<Rightarrow> int \<Rightarrow> (evm_error, byte list) result" where
  "slice b lo hi = (if 0 \<le> lo \<and> lo \<le> hi \<and> hi \<le> int (length b) then Inr (take (nat (hi - lo)) (drop (nat lo) b))
     else Inl (Panic ''slice bounds out of range''))"

definition RightPadBytes :: "byte list \<Rightarrow> int \<Rightarrow> byte list" where
  "RightPadBytes b l = (if l \<le> int (length b) then b else b @ replicate (nat l - length b) 0)"

definition getData :: "byte list \<Rightarrow> u64 \<Rightarrow> u64 \<Rightarrow> (evm_error, byte list) result" where
  "getData data start sz =
    (let len = word_of_nat (length data) :: u64;
         start = if start > len then len else start;
         stop = start + sz;
         stop = if stop > len then len else stop
     in and_then (slice data (uint start) (uint stop)) (\<lambda>b. Inr (RightPadBytes b (sint sz))))"

section \<open>Memory\<close>

record Memory =
  mem_store :: "byte list"
  lastGasCost :: u64

definition NewMemory :: Memory where
  "NewMemory = \<lparr>mem_store = [], lastGasCost = 0\<rparr>"

definition mem_len :: "Memory \<Rightarrow> nat" where
  "mem_len m = length (mem_store m)"

text \<open>\<^verbatim>\<open>copy(store[off:], value)\<close>, no more than \<open>n\<close> bytes.\<close>

definition overwrite :: "byte list \<Rightarrow> nat \<Rightarrow> nat \<Rightarrow> byte list \<Rightarrow> byte list" where
  "overwrite b off n x = (let v = take n x in take off b @ v @ drop (off + length v) b)"

definition Memory_Set :: "u64 \<Rightarrow> u64 \<Rightarrow> byte list \<Rightarrow> Memory \<Rightarrow> (evm_error, Memory) result" where
  "Memory_Set off sz val m =
    (if unat sz > mem_len m then Inl (Panic ''INVALID memory: store empty'')
     else if sz > 0 then
       and_then (slice (mem_store m) (uint off) (uint (off + sz))) (\<lambda>_.
         Inr (m\<lparr>mem_store := overwrite (mem_store m) (unat off) (unat sz) val\<rparr>))
     else Inr m)"

definition Memory_Set32 :: "uint256_lib \<Rightarrow> u64 \<Rightarrow> u256 \<Rightarrow> Memory \<Rightarrow> (evm_error, Memory) result" where
  "Memory_Set32 U off val m =
    (if unat (off + 32) > mem_len m then Inl (Panic ''invalid memory: store empty'')
     else and_then (slice (mem_store m) (uint off) (uint (off + 32))) (\<lambda>_.
       let s1 = overwrite (mem_store m) (unat off) 32 (replicate 32 0)
       in Inr (m\<lparr>mem_store := overwrite s1 (unat off) (length s1 - unat off) (u_WriteToSlice U val)\<rparr>)))"

text \<open>A length that does not fit an \<^verbatim>\<open>int\<close> makes \<^verbatim>\<open>make\<close> panic.\<close>

definition Memory_Resize :: "u64 \<Rightarrow> Memory \<Rightarrow> (evm_error, Memory) result" where
  "Memory_Resize sz m =
    (if mem_len m < unat sz then
       if unat sz - mem_len m \<ge> 2 ^ 63 then Inl (Panic ''makeslice: len out of range'')
       else Inr (m\<lparr>mem_store := mem_store m @ replicate (unat sz - mem_len m) 0\<rparr>)
     else Inr m)"

text \<open>\<^verbatim>\<open>Get\<close> and \<^verbatim>\<open>GetCopy\<close> return a copy, \<^verbatim>\<open>GetPtr\<close> the part of the memory itself; the bytes are the same.\<close>

definition Memory_GetPtr :: "int \<Rightarrow> int \<Rightarrow> Memory \<Rightarrow> (evm_error, byte list) result" where
  "Memory_GetPtr off sz m =
    (if sz = 0 then Inr []
     else if int (mem_len m) > off then slice (mem_store m) off (i64 (off + sz))
     else Inr [])"

definition Memory_GetCopy :: "int \<Rightarrow> int \<Rightarrow> Memory \<Rightarrow> (evm_error, byte list) result" where
  "Memory_GetCopy off sz m =
    (if sz = 0 then Inr []
     else if int (mem_len m) > off then
       if sz < 0 then Inl (Panic ''makeslice: len out of range'')
       else slice (mem_store m) off (i64 (off + sz))
     else Inr [])"

section \<open>Jump destinations\<close>

type_synonym bitvec = "byte list"

definition bits_or :: "nat \<Rightarrow> byte \<Rightarrow> bitvec \<Rightarrow> (evm_error, bitvec) result" where
  "bits_or i b bits = (if i < length bits then Inr (bits[i := (bits ! i) OR b]) else Inl (Panic ''index out of range''))"

definition bits_set :: "nat \<Rightarrow> bitvec \<Rightarrow> (evm_error, bitvec) result" where
  "bits_set pos bits = bits_or (pos div 8) (drop_bit (pos mod 8) 0x80) bits"

definition bits_set8 :: "nat \<Rightarrow> bitvec \<Rightarrow> (evm_error, bitvec) result" where
  "bits_set8 pos bits = and_then (bits_or (pos div 8) (drop_bit (pos mod 8) 0xFF) bits) (\<lambda>bits.
     bits_or (pos div 8 + 1) (NOT (drop_bit (pos mod 8) 0xFF)) bits)"

definition codeSegment :: "bitvec \<Rightarrow> nat \<Rightarrow> (evm_error, bool) result" where
  "codeSegment bits pos = (if pos div 8 < length bits then Inr ((bits ! (pos div 8)) AND (drop_bit (pos mod 8) 0x80) = 0)
     else Inl (Panic ''index out of range''))"

definition PUSH1 :: byte where "PUSH1 = 0x60"
definition PUSH32 :: byte where "PUSH32 = 0x7f"
definition JUMPDEST :: byte where "JUMPDEST = 0x5b"

function set_data :: "nat \<Rightarrow> nat \<Rightarrow> bitvec \<Rightarrow> (evm_error, bitvec) result" where
  "set_data numbits pc bits =
    (if numbits \<ge> 8 then and_then (bits_set8 pc bits) (set_data (numbits - 8) (pc + 8))
     else if numbits > 0 then and_then (bits_set pc bits) (set_data (numbits - 1) (pc + 1))
     else Inr bits)"
  by auto
termination by (relation "measure (\<lambda>(n, pc, bits). n)") auto

declare set_data.simps [simp del]

function codeBitmap_loop :: "byte list \<Rightarrow> nat \<Rightarrow> bitvec \<Rightarrow> (evm_error, bitvec) result" where
  "codeBitmap_loop code pc bits =
    (if pc < length code then
       let op = code ! pc in
       if op \<ge> PUSH1 \<and> op \<le> PUSH32 then
         let numbits = unat (op - PUSH1 + 1) in
         and_then (set_data numbits (pc + 1) bits) (codeBitmap_loop code (pc + 1 + numbits))
       else codeBitmap_loop code (pc + 1) bits
     else Inr bits)"
  by auto
termination by (relation "measure (\<lambda>(code, pc, bits). length code - pc)") auto

declare codeBitmap_loop.simps [simp del]

definition codeBitmap :: "byte list \<Rightarrow> (evm_error, bitvec) result" where
  "codeBitmap code = codeBitmap_loop code 0 (replicate (length code div 8 + 1 + 4) 0)"

section \<open>The analysis finds the instructions\<close>

text \<open>The positions at which an instruction starts: behind a push come its bytes of data.\<close>

definition push_len :: "byte \<Rightarrow> nat" where
  "push_len op = (if op \<ge> PUSH1 \<and> op \<le> PUSH32 then unat (op - PUSH1 + 1) else 0)"

inductive instruction_at :: "byte list \<Rightarrow> nat \<Rightarrow> bool" for code where
  instruction_0: "instruction_at code 0"
| instruction_next: "instruction_at code pc \<Longrightarrow> pc < length code \<Longrightarrow> instruction_at code (pc + 1 + push_len (code ! pc))"

lemma push_len_le: "push_len op \<le> 32"
  by (auto simp: push_len_def PUSH1_def PUSH32_def word_le_nat_alt unat_word_ariths unat_sub)

definition bit_of :: "bitvec \<Rightarrow> nat \<Rightarrow> bool" where
  "bit_of bits pos \<longleftrightarrow> bit (bits ! (pos div 8)) (7 - pos mod 8)"

lemma bit_drop_80: "k < 8 \<Longrightarrow> bit (drop_bit k (0x80 :: byte)) j \<longleftrightarrow> j + k = 7"
proof -
  have "bit (0x80 :: byte) n \<longleftrightarrow> n = 7" for n
    using bit_exp_iff[where 'a = byte, of 7 n] by auto
  then show ?thesis by (simp add: bit_drop_bit_eq add.commute)
qed

lemma bit_drop_FF: "bit (drop_bit k (0xFF :: byte)) j \<longleftrightarrow> j + k < 8"
proof -
  have "bit (0xFF :: byte) n \<longleftrightarrow> n < 8" for n
    using bit_mask_iff[where 'a = byte, of 8 n] by (simp add: mask_eq_exp_minus_1)
  then show ?thesis by (simp add: bit_drop_bit_eq add.commute)
qed

lemma bit_of_or:
  assumes "bits_or i b bits = Inr bits'"
  shows "length bits' = length bits" "bit_of bits' p \<longleftrightarrow> bit_of bits p \<or> p div 8 = i \<and> bit b (7 - p mod 8)"
  using assms by (auto simp: bits_or_def bit_of_def bit_or_iff nth_list_update split: if_splits)

lemma bits_set_ok:
  assumes "pos div 8 < length bits"
  shows "\<exists>bits'. bits_set pos bits = Inr bits' \<and> length bits' = length bits \<and> (\<forall>p. bit_of bits' p \<longleftrightarrow> bit_of bits p \<or> p = pos)"
proof -
  obtain bits' where b: "bits_set pos bits = Inr bits'" using assms by (simp add: bits_set_def bits_or_def)
  have "p div 8 = pos div 8 \<and> bit (drop_bit (pos mod 8) (0x80 :: byte)) (7 - p mod 8) \<longleftrightarrow> p = pos" for p
  proof -
    have "p mod 8 < 8" "pos mod 8 < 8" "8 * (p div 8) + p mod 8 = p" "8 * (pos div 8) + pos mod 8 = pos" by simp_all
    moreover have "bit (drop_bit (pos mod 8) (0x80 :: byte)) (7 - p mod 8) \<longleftrightarrow> 7 - p mod 8 + pos mod 8 = 7" by (rule bit_drop_80) simp
    moreover have "7 - p mod 8 + pos mod 8 = 7 \<longleftrightarrow> p mod 8 = pos mod 8" using calculation(1,2) by linarith
    ultimately show ?thesis by metis
  qed
  then show ?thesis using b bit_of_or[of "pos div 8" "drop_bit (pos mod 8) 0x80" bits bits'] by (auto simp: bits_set_def)
qed

lemma bits_set8_ok:
  assumes "pos div 8 + 1 < length bits"
  shows "\<exists>bits'. bits_set8 pos bits = Inr bits' \<and> length bits' = length bits \<and> (\<forall>p. bit_of bits' p \<longleftrightarrow> bit_of bits p \<or> pos \<le> p \<and> p < pos + 8)"
proof -
  let ?m = "drop_bit (pos mod 8) 0xFF :: byte"
  obtain b1 where b1: "bits_or (pos div 8) ?m bits = Inr b1" using assms by (simp add: bits_or_def)
  have l1: "length b1 = length bits" using bit_of_or(1)[OF b1] .
  obtain b2 where b2: "bits_or (pos div 8 + 1) (NOT ?m) b1 = Inr b2" using assms l1 by (simp add: bits_or_def)
  have "bit_of b2 p \<longleftrightarrow> bit_of bits p \<or> pos \<le> p \<and> p < pos + 8" for p
  proof -
    have "p mod 8 < 8" "pos mod 8 < 8" "8 * (p div 8) + p mod 8 = p" "8 * (pos div 8) + pos mod 8 = pos" by simp_all
    moreover have "bit ?m (7 - p mod 8) \<longleftrightarrow> 7 - p mod 8 + pos mod 8 < 8" by (rule bit_drop_FF)
    moreover have "bit (NOT ?m) (7 - p mod 8) \<longleftrightarrow> \<not> 7 - p mod 8 + pos mod 8 < 8" using bit_drop_FF[of "pos mod 8" "7 - p mod 8"] by (auto simp: bit_not_iff)
    moreover have "bit_of b2 p \<longleftrightarrow> (bit_of bits p \<or> p div 8 = pos div 8 \<and> bit ?m (7 - p mod 8)) \<or> p div 8 = pos div 8 + 1 \<and> bit (NOT ?m) (7 - p mod 8)"
      using bit_of_or(2)[OF b2] bit_of_or(2)[OF b1] by simp
    ultimately show ?thesis by linarith
  qed
  then show ?thesis using b1 b2 l1 bit_of_or(1)[OF b2] by (simp add: bits_set8_def)
qed

lemma set_data_ok:
  "pc + n < 8 * length bits \<Longrightarrow> \<exists>bits'. set_data n pc bits = Inr bits' \<and> length bits' = length bits \<and>
    (\<forall>p. bit_of bits' p \<longleftrightarrow> bit_of bits p \<or> pc \<le> p \<and> p < pc + n)"
proof (induction n pc bits rule: set_data.induct)
  case (1 n pc bits)
  consider "n \<ge> 8" | "0 < n" "n < 8" | "n = 0" by linarith
  then show ?case
  proof cases
    case 1
    have "pc div 8 + 1 < length bits" using 1 "1.prems" by linarith
    then obtain b1 where b1: "bits_set8 pc bits = Inr b1" "length b1 = length bits" "\<forall>p. bit_of b1 p \<longleftrightarrow> bit_of bits p \<or> pc \<le> p \<and> p < pc + 8"
      using bits_set8_ok[of pc bits] by blast
    obtain b2 where b2: "set_data (n - 8) (pc + 8) b1 = Inr b2" "length b2 = length b1" "\<forall>p. bit_of b2 p \<longleftrightarrow> bit_of b1 p \<or> pc + 8 \<le> p \<and> p < pc + 8 + (n - 8)"
      using "1.IH"(1)[OF 1, of b1] "1.prems" 1 b1(2) by auto
    have "(pc \<le> p \<and> p < pc + 8) \<or> (pc + 8 \<le> p \<and> p < pc + 8 + (n - 8)) \<longleftrightarrow> pc \<le> p \<and> p < pc + n" for p using 1 by auto
    then show ?thesis using b1 b2 1 by (auto simp: set_data.simps[of n pc bits])
  next
    case 2
    have "pc div 8 < length bits" using 2 "1.prems" by linarith
    then obtain b1 where b1: "bits_set pc bits = Inr b1" "length b1 = length bits" "\<forall>p. bit_of b1 p \<longleftrightarrow> bit_of bits p \<or> p = pc"
      using bits_set_ok[of pc bits] by blast
    obtain b2 where b2: "set_data (n - 1) (pc + 1) b1 = Inr b2" "length b2 = length b1" "\<forall>p. bit_of b2 p \<longleftrightarrow> bit_of b1 p \<or> pc + 1 \<le> p \<and> p < pc + 1 + (n - 1)"
      using "1.IH"(2)[of b1] "1.prems" 2 b1(2) by auto
    have "p = pc \<or> (pc + 1 \<le> p \<and> p < pc + 1 + (n - 1)) \<longleftrightarrow> pc \<le> p \<and> p < pc + n" for p using 2 by auto
    then show ?thesis using b1 b2 2 by (auto simp: set_data.simps[of n pc bits])
  next
    case 3
    then show ?thesis by (auto simp: set_data.simps)
  qed
qed

text \<open>The instructions form a chain.\<close>

definition next_instruction :: "byte list \<Rightarrow> nat \<Rightarrow> nat" where
  "next_instruction code pc = (if pc < length code then pc + 1 + push_len (code ! pc) else pc)"

lemma instruction_chain: "instruction_at code p \<longleftrightarrow> (\<exists>n. p = (next_instruction code ^^ n) 0)"
proof
  assume "instruction_at code p"
  then show "\<exists>n. p = (next_instruction code ^^ n) 0"
  proof induction
    case instruction_0
    show ?case by (rule exI[of _ 0]) simp
  next
    case (instruction_next pc)
    then obtain n where "pc = (next_instruction code ^^ n) 0" by blast
    then have "pc + 1 + push_len (code ! pc) = next_instruction code ((next_instruction code ^^ n) 0)"
      using instruction_next.hyps(2) by (simp add: next_instruction_def[of code "(next_instruction code ^^ n) 0"])
    then show ?case by (intro exI[of _ "Suc n"]) simp
  qed
next
  assume "\<exists>n. p = (next_instruction code ^^ n) 0"
  then obtain n where "p = (next_instruction code ^^ n) 0" by blast
  then show "instruction_at code p"
  proof (induction n arbitrary: p)
    case (Suc n)
    then show ?case using instruction_next[of code "(next_instruction code ^^ n) 0"]
      by (simp add: next_instruction_def[of code "(next_instruction code ^^ n) 0"])
  qed (simp add: instruction_0)
qed

lemma chain_mono: "m \<le> n \<Longrightarrow> (next_instruction code ^^ m) 0 \<le> (next_instruction code ^^ n) 0"
proof (induction n)
  case (Suc n)
  have "x \<le> next_instruction code x" for x by (simp add: next_instruction_def)
  then show ?case using Suc by (cases "m = Suc n") (auto intro: order_trans)
qed simp

lemma instruction_gap:
  assumes "instruction_at code a" "a < length code" "instruction_at code b"
  shows "b \<le> a \<or> a + 1 + push_len (code ! a) \<le> b"
proof -
  obtain i j where ij: "a = (next_instruction code ^^ i) 0" "b = (next_instruction code ^^ j) 0" using assms(1,3) instruction_chain by blast
  show ?thesis
  proof (cases "j \<le> i")
    case True
    then show ?thesis using chain_mono ij by blast
  next
    case False
    then have "(next_instruction code ^^ Suc i) 0 \<le> b" using chain_mono[of "Suc i" j code] ij by simp
    moreover have "(next_instruction code ^^ Suc i) 0 = a + 1 + push_len (code ! a)" using ij assms(2) by (simp add: next_instruction_def)
    ultimately show ?thesis by simp
  qed
qed

lemma codeBitmap_loop_ok:
  assumes "instruction_at code pc" "length bits = length code div 8 + 5" "pc \<le> length code + 32"
    "\<forall>p < pc. bit_of bits p \<longleftrightarrow> \<not> instruction_at code p" "\<forall>p \<ge> pc. p < 8 * length bits \<longrightarrow> \<not> bit_of bits p"
  shows "\<exists>bits'. codeBitmap_loop code pc bits = Inr bits' \<and> length bits' = length bits \<and>
    (\<forall>p < length code. bit_of bits' p \<longleftrightarrow> \<not> instruction_at code p)"
  using assms
proof (induction code pc bits rule: codeBitmap_loop.induct)
  case (1 code pc bits)
  let ?n = "push_len (code ! pc)"
  show ?case
  proof (cases "pc < length code")
    case False
    then show ?thesis using "1.prems" by (auto simp: codeBitmap_loop.simps)
  next
    case True
    have nx: "instruction_at code (pc + 1 + ?n)" using instruction_next[OF "1.prems"(1) True] .
    have bnd: "pc + 1 + ?n \<le> length code + 32" using True push_len_le[of "code ! pc"] by linarith
    have bnd8: "pc + 1 + ?n < 8 * length bits" using bnd "1.prems"(2) by linarith
    obtain b1 where b1: "set_data ?n (pc + 1) bits = Inr b1" "length b1 = length bits"
        "\<forall>p. bit_of b1 p \<longleftrightarrow> bit_of bits p \<or> pc + 1 \<le> p \<and> p < pc + 1 + ?n"
      using set_data_ok[OF bnd8] by blast
    have low: "bit_of b1 p \<longleftrightarrow> \<not> instruction_at code p" if p: "p < pc + 1 + ?n" for p
    proof -
      consider "p < pc" | "p = pc" | "pc < p" by linarith
      then show ?thesis
      proof cases
        case 1
        then show ?thesis using b1(3) "1.prems"(4) by auto
      next
        case 2
        then show ?thesis using b1(3) "1.prems"(1,5) bnd8 by auto
      next
        case 3
        then show ?thesis using b1(3) p instruction_gap[OF "1.prems"(1) True, of p] by auto
      qed
    qed
    have high: "\<forall>p \<ge> pc + 1 + ?n. p < 8 * length b1 \<longrightarrow> \<not> bit_of b1 p" using b1 "1.prems"(5) by auto
    have step: "codeBitmap_loop code pc bits = codeBitmap_loop code (pc + 1 + ?n) b1"
      using True b1(1) by (auto simp: codeBitmap_loop.simps[of code pc bits] Let_def push_len_def set_data.simps[of 0])
    show ?thesis
    proof (cases "code ! pc \<ge> PUSH1 \<and> code ! pc \<le> PUSH32")
      case push: True
      then have n: "?n = unat (code ! pc - PUSH1 + 1)" by (simp add: push_len_def)
      show ?thesis unfolding step
        using "1.IH"(1)[OF True refl push refl, of b1] nx bnd low high b1(2) "1.prems"(2) unfolding n by simp
    next
      case other: False
      then have n: "?n = 0" "b1 = bits" using b1(1) by (auto simp: push_len_def set_data.simps[of 0])
      show ?thesis unfolding step
        using "1.IH"(2)[OF True refl other] nx bnd low high b1(2) "1.prems"(2) unfolding n by simp
    qed
  qed
qed

lemma and_zero_iff: "(a AND b = 0) \<longleftrightarrow> (\<forall>j. \<not> (bit a j \<and> bit b j))" for a b :: byte
proof
  assume "a AND b = 0"
  then have "\<not> bit (a AND b) j" for j by simp
  then show "\<forall>j. \<not> (bit a j \<and> bit b j)" by (simp add: bit_and_iff)
next
  assume "\<forall>j. \<not> (bit a j \<and> bit b j)"
  then show "a AND b = 0" by (intro bit_eqI) (simp add: bit_and_iff)
qed

lemma codeBitmap_ok:
  "\<exists>bits. codeBitmap code = Inr bits \<and> length bits = length code div 8 + 5 \<and>
    (\<forall>pos < length code. codeSegment bits pos = Inr (instruction_at code pos))"
proof -
  have z: "\<not> bit_of (replicate n 0) p" if "p < 8 * n" for n p
  proof -
    have "p div 8 < n" using that by auto
    then show ?thesis by (simp add: bit_of_def)
  qed
  obtain bits where b: "codeBitmap code = Inr bits" "length bits = length code div 8 + 5"
      "\<forall>p < length code. bit_of bits p \<longleftrightarrow> \<not> instruction_at code p"
    using codeBitmap_loop_ok[OF instruction_0, of "replicate (length code div 8 + 1 + 4) 0" code] z
    by (auto simp: codeBitmap_def)
  have "codeSegment bits pos = Inr (instruction_at code pos)" if "pos < length code" for pos
  proof -
    have l: "pos div 8 < length bits" using that b(2) by (simp add: div_le_mono le_imp_less_Suc less_imp_le_nat trans_le_add1)
    have "bits ! (pos div 8) AND drop_bit (pos mod 8) 0x80 = 0 \<longleftrightarrow> \<not> bit_of bits pos"
    proof -
      have "bits ! (pos div 8) AND drop_bit (pos mod 8) 0x80 = 0 \<longleftrightarrow> (\<forall>j. \<not> (bit (bits ! (pos div 8)) j \<and> j + pos mod 8 = 7))"
        using and_zero_iff[of "bits ! (pos div 8)" "drop_bit (pos mod 8) 0x80"] bit_drop_80[of "pos mod 8"] by simp
      also have "\<dots> \<longleftrightarrow> \<not> bit_of bits pos"
      proof -
        have "j + pos mod 8 = 7 \<longleftrightarrow> j = 7 - pos mod 8" for j using pos_mod_bound by auto
        then show ?thesis by (auto simp: bit_of_def)
      qed
      finally show ?thesis .
    qed
    then show ?thesis using l b(3) that by (simp add: codeSegment_def)
  qed
  then show ?thesis using b by blast
qed

end
