(* ===== verification/EVM_Gas.thy ===== *)
theory EVM_Gas
  imports EVM_Memory
begin

text \<open>
  Contracts, the state of the machine and its gas (\<^verbatim>\<open>contract.go\<close>, \<^verbatim>\<open>gas.go\<close>, \<^verbatim>\<open>gas_table.go\<close>,
  \<^verbatim>\<open>memory_table.go\<close>).\<close>

section \<open>Contracts\<close>

record Contract =
  CallerAddress :: address
  c_self :: address
  analysis :: "bitvec option"
  c_Code :: "byte list"
  c_CodeHash :: hash
  CodeAddr :: "address option"
  c_Input :: "byte list"
  c_Gas :: u64
  c_value :: "int option"
  c_DelegateCall :: bool

datatype ContractRef = AccountRef address | ContractOf Contract

fun ref_Address :: "ContractRef \<Rightarrow> address" where
  "ref_Address (AccountRef a) = a"
| "ref_Address (ContractOf c) = c_self c"

definition NewContract :: "ContractRef \<Rightarrow> address \<Rightarrow> int option \<Rightarrow> u64 \<Rightarrow> Contract" where
  "NewContract caller object val gas = \<lparr>CallerAddress = ref_Address caller, c_self = object, analysis = None, c_Code = [], c_CodeHash = 0,
     CodeAddr = None, c_Input = [], c_Gas = gas, c_value = val, c_DelegateCall = False\<rparr>"

text \<open>The caller must be a contract: the code asserts its type.\<close>

definition AsDelegate :: "ContractRef \<Rightarrow> Contract \<Rightarrow> (evm_error, Contract) result" where
  "AsDelegate caller c = (case caller of
     AccountRef _ \<Rightarrow> Inl (Panic ''interface conversion'')
   | ContractOf parent \<Rightarrow> Inr (c\<lparr>c_DelegateCall := True, CallerAddress := CallerAddress parent, c_value := c_value parent\<rparr>))"

definition GetByte :: "Contract \<Rightarrow> u64 \<Rightarrow> byte" where
  "GetByte c n = (if unat n < length (c_Code c) then c_Code c ! unat n else 0)"

definition GetOp :: "Contract \<Rightarrow> u64 \<Rightarrow> byte" where
  "GetOp c n = GetByte c n"

definition UseGas :: "u64 \<Rightarrow> Contract \<Rightarrow> bool \<times> Contract" where
  "UseGas gas c = (if c_Gas c < gas then (False, c) else (True, c\<lparr>c_Gas := c_Gas c - gas\<rparr>))"

definition SetCallCode :: "address \<Rightarrow> hash \<Rightarrow> byte list \<Rightarrow> Contract \<Rightarrow> Contract" where
  "SetCallCode addr h code c = c\<lparr>c_Code := code, c_CodeHash := h, CodeAddr := Some addr\<rparr>"

section \<open>The machine\<close>

text \<open>
  The fields that change of \<^verbatim>\<open>EVM\<close> and its \<^verbatim>\<open>Interpreter\<close>, with the set \<^verbatim>\<open>createSync\<close> of the package. All
  contracts of one outer call share the map \<^verbatim>\<open>jumpdests\<close>.\<close>

record 'tr EVM =
  evm_sdb :: "'tr StateDB"
  evm_depth :: int
  evm_readOnly :: bool
  evm_returnData :: "byte list"
  DisableGasMetering :: bool
  callGasTemp :: u64
  createSync :: "address set"
  jumpdests :: "hash \<rightharpoonup> bitvec"
  evm_abort :: bool

text \<open>Native code that is called by the precompiled contracts and not modelled: hash functions and the curve bn256.\<close>

record native_lib =
  n_sha256 :: "byte list \<Rightarrow> byte list"
  n_ripemd160 :: "byte list \<Rightarrow> byte list"
  n_bn256Add :: "byte list \<Rightarrow> byte list \<Rightarrow> byte list option"
  n_bn256ScalarMul :: "byte list \<Rightarrow> int \<Rightarrow> byte list option"
  n_bn256Pairing :: "(byte list \<times> byte list) list \<Rightarrow> bool option"

text \<open>What does not change during a call: the context, the configuration and the libraries.\<close>

record 'tr evm_env =
  ev_db :: "'tr Database"
  ev_u :: uint256_lib
  ev_native :: native_lib
  ev_config :: ChainConfig
  ev_GetHash :: "u64 \<Rightarrow> hash"
  ev_Origin :: address
  ev_GasPrice :: int
  ev_Coinbase :: address
  ev_GasLimit :: int
  ev_BlockNumber :: int
  ev_Time :: int
  ev_Difficulty :: int
  NoRecursion :: bool
  EnablePreimageRecording :: bool

definition chainRules :: "'tr evm_env \<Rightarrow> Rules" where
  "chainRules E = Rules_at (ev_config E) (Some (ev_BlockNumber E))"

text \<open>One call of the interpreter: the program counter and \<^verbatim>\<open>ScopeContext\<close>, with the machine.\<close>

record 'tr frame =
  fr_pc :: u64
  fr_stack :: Stack
  fr_mem :: Memory
  fr_contract :: Contract
  fr_evm :: "'tr EVM"

type_synonym ('tr, 'a) evm_m = "('tr EVM, evm_error, 'a) go"
type_synonym ('tr, 'a) frame_m = "('tr frame, evm_error, 'a) go"

text \<open>A method of the state. None of those that are called here returns an error; a panic is marked as one of the state.\<close>

definition on_state :: "('tr, 'a) sdb_m \<Rightarrow> ('tr, 'a) evm_m" where
  "on_state m e = (case m (evm_sdb e) of
     (Inr v, s) \<Rightarrow> (Inr v, e\<lparr>evm_sdb := s\<rparr>)
   | (Inl (Panic msg), s) \<Rightarrow> (Inl (Panic (''state: '' @ msg)), e\<lparr>evm_sdb := s\<rparr>)
   | (Inl (Err _), s) \<Rightarrow> (Inl (Panic ''state: unexpected error''), e\<lparr>evm_sdb := s\<rparr>))"

definition on_evm :: "('tr, 'a) evm_m \<Rightarrow> ('tr, 'a) frame_m" where
  "on_evm m f = (case m (fr_evm f) of (r, e) \<Rightarrow> (r, f\<lparr>fr_evm := e\<rparr>))"

abbreviation state_op :: "('tr, 'a) sdb_m \<Rightarrow> ('tr, 'a) frame_m" where
  "state_op m \<equiv> on_evm (on_state m)"

definition pop :: "('tr, u256) frame_m" where
  "pop f = (case stack_pop (fr_stack f) of Inl e \<Rightarrow> (Inl e, f) | Inr (x, st) \<Rightarrow> (Inr x, f\<lparr>fr_stack := st\<rparr>))"

definition push :: "u256 \<Rightarrow> ('tr, unit) frame_m" where
  "push x = modifyM (\<lambda>f. f\<lparr>fr_stack := stack_push x (fr_stack f)\<rparr>)"

definition Back :: "nat \<Rightarrow> ('tr, u256) frame_m" where
  "Back n f = (stack_Back n (fr_stack f), f)"

definition peek :: "('tr, u256) frame_m" where
  "peek f = (stack_peek (fr_stack f), f)"

text \<open>Writing through the pointer that \<^verbatim>\<open>peek\<close> returns.\<close>

definition set_peek :: "u256 \<Rightarrow> ('tr, unit) frame_m" where
  "set_peek x f = (case fr_stack f of [] \<Rightarrow> (Inl (Panic stack_fault), f) | _ # st \<Rightarrow> (Inr (), f\<lparr>fr_stack := x # st\<rparr>))"

definition on_stack :: "(Stack \<Rightarrow> (evm_error, Stack) result) \<Rightarrow> ('tr, unit) frame_m" where
  "on_stack g f = (case g (fr_stack f) of Inl e \<Rightarrow> (Inl e, f) | Inr st \<Rightarrow> (Inr (), f\<lparr>fr_stack := st\<rparr>))"

definition on_mem :: "(Memory \<Rightarrow> (evm_error, Memory) result) \<Rightarrow> ('tr, unit) frame_m" where
  "on_mem g f = (case g (fr_mem f) of Inl e \<Rightarrow> (Inl e, f) | Inr m \<Rightarrow> (Inr (), f\<lparr>fr_mem := m\<rparr>))"

definition read_mem :: "(Memory \<Rightarrow> (evm_error, 'a) result) \<Rightarrow> ('tr, 'a) frame_m" where
  "read_mem g f = (g (fr_mem f), f)"

definition contract_of :: "(Contract \<Rightarrow> 'a) \<Rightarrow> ('tr, 'a) frame_m" where
  "contract_of g = readM (\<lambda>f. g (fr_contract f))"

definition on_contract :: "(Contract \<Rightarrow> Contract) \<Rightarrow> ('tr, unit) frame_m" where
  "on_contract g = modifyM (\<lambda>f. f\<lparr>fr_contract := g (fr_contract f)\<rparr>)"

definition set_pc :: "u64 \<Rightarrow> ('tr, unit) frame_m" where
  "set_pc p = modifyM (\<lambda>f. f\<lparr>fr_pc := p\<rparr>)"

text \<open>The analysis of the code is looked up in the contract, then under its hash, and made when it is missing.\<close>

definition isCode :: "u64 \<Rightarrow> ('tr, bool) frame_m" where
  "isCode udest f =
    (let c = fr_contract f; e = fr_evm f in
     case analysis c of
       Some a \<Rightarrow> (codeSegment a (unat udest), f)
     | None \<Rightarrow>
         if c_CodeHash c \<noteq> 0 then
           case jumpdests e (c_CodeHash c) of
             Some a \<Rightarrow> (codeSegment a (unat udest), f\<lparr>fr_contract := c\<lparr>analysis := Some a\<rparr>\<rparr>)
           | None \<Rightarrow>
               case codeBitmap (c_Code c) of
                 Inl x \<Rightarrow> (Inl x, f)
               | Inr a \<Rightarrow> (codeSegment a (unat udest),
                   f\<lparr>fr_contract := c\<lparr>analysis := Some a\<rparr>, fr_evm := e\<lparr>jumpdests := (jumpdests e)(c_CodeHash c \<mapsto> a)\<rparr>\<rparr>)
         else
           case codeBitmap (c_Code c) of
             Inl x \<Rightarrow> (Inl x, f)
           | Inr a \<Rightarrow> (codeSegment a (unat udest), f\<lparr>fr_contract := c\<lparr>analysis := Some a\<rparr>\<rparr>))"

definition validJumpdest :: "uint256_lib \<Rightarrow> u256 \<Rightarrow> ('tr, bool) frame_m" where
  "validJumpdest U dest = bindM (contract_of c_Code) (\<lambda>code.
     let (udest, overflow) = u_Uint64WithOverflow U dest in
     if overflow \<or> unat udest \<ge> length code then returnM False
     else if code ! unat udest \<noteq> JUMPDEST then returnM False
     else isCode udest)"

section \<open>Gas prices\<close>

definition GasQuickStep :: u64 where "GasQuickStep = 2"
definition GasFastestStep :: u64 where "GasFastestStep = 3"
definition GasFastStep :: u64 where "GasFastStep = 5"
definition GasMidStep :: u64 where "GasMidStep = 8"
definition GasSlowStep :: u64 where "GasSlowStep = 10"
definition GasExtStep :: u64 where "GasExtStep = 20"

definition callGas :: "uint256_lib \<Rightarrow> bool \<Rightarrow> u64 \<Rightarrow> u64 \<Rightarrow> u256 \<Rightarrow> (evm_error, u64) result" where
  "callGas U isEip150 availableGas base callCost =
    (let available = availableGas - base; gas = available - available div 64 in
     if isEip150 \<and> (\<not> u_IsUint64 U callCost \<or> gas < u_Uint64 U callCost) then Inr gas
     else if \<not> u_IsUint64 U callCost then Inl (Err ErrGasUintOverflow)
     else Inr (u_Uint64 U callCost))"

definition memoryGasCost :: "u64 \<Rightarrow> Memory \<Rightarrow> (evm_error, u64 \<times> Memory) result" where
  "memoryGasCost newMemSize m =
    (if newMemSize = 0 then Inr (0, m)
     else if newMemSize > 0x1FFFFFFFE0 then Inl (Err ErrGasUintOverflow)
     else
       let newMemSizeWords = toWordSize newMemSize; newMemSize = newMemSizeWords * 32 in
       if unat newMemSize > mem_len m then
         let square = newMemSizeWords * newMemSizeWords;
             linCoef = newMemSizeWords * 3;
             quadCoef = square div 512;
             newTotalFee = linCoef + quadCoef
         in Inr (newTotalFee - lastGasCost m, m\<lparr>lastGasCost := newTotalFee\<rparr>)
       else Inr (0, m))"

definition mem_gas :: "u64 \<Rightarrow> ('tr, u64) frame_m" where
  "mem_gas memorySize f = (case memoryGasCost memorySize (fr_mem f) of Inl e \<Rightarrow> (Inl e, f) | Inr (g, m) \<Rightarrow> (Inr g, f\<lparr>fr_mem := m\<rparr>))"

text \<open>\<^verbatim>\<open>if gas, overflow = math.SafeAdd(..); overflow { return 0, ErrGasUintOverflow }\<close>\<close>

definition or_overflows :: "u64 \<times> bool \<Rightarrow> ('tr, u64) frame_m" where
  "or_overflows r = (if snd r then errM ErrGasUintOverflow else returnM (fst r))"

definition memoryCopierGas :: "uint256_lib \<Rightarrow> nat \<Rightarrow> u64 \<Rightarrow> ('tr, u64) frame_m" where
  "memoryCopierGas U stackpos memorySize = bindM (mem_gas memorySize) (\<lambda>gas. bindM (Back stackpos) (\<lambda>x.
     bindM (or_overflows (u_Uint64WithOverflow U x)) (\<lambda>words.
     bindM (or_overflows (SafeMul (toWordSize words) 3)) (\<lambda>words. or_overflows (SafeAdd gas words)))))"

definition gasSStore :: "'tr evm_env \<Rightarrow> u64 \<Rightarrow> ('tr, u64) frame_m" where
  "gasSStore E memorySize = bindM (Back 1) (\<lambda>y. bindM (Back 0) (\<lambda>x. bindM (contract_of c_self) (\<lambda>self.
     bindM (state_op (GetState (ev_db E) self (u_Bytes32 (ev_u E) x))) (\<lambda>val.
     if val = 0 \<and> u_Sign (ev_u E) y \<noteq> 0 then returnM 20000
     else if val \<noteq> 0 \<and> u_Sign (ev_u E) y = 0 then bindM (state_op (AddRefund 15000)) (\<lambda>_. returnM 5000)
     else returnM 5000))))"

definition makeGasLog :: "uint256_lib \<Rightarrow> u64 \<Rightarrow> u64 \<Rightarrow> ('tr, u64) frame_m" where
  "makeGasLog U n memorySize = bindM (Back 1) (\<lambda>x. bindM (or_overflows (u_Uint64WithOverflow U x)) (\<lambda>requestedSize.
     bindM (mem_gas memorySize) (\<lambda>gas. bindM (or_overflows (SafeAdd gas 375)) (\<lambda>gas. bindM (or_overflows (SafeAdd gas (n * 375))) (\<lambda>gas.
     bindM (or_overflows (SafeMul requestedSize 8)) (\<lambda>memorySizeGas. or_overflows (SafeAdd gas memorySizeGas)))))))"

definition gasSha3 :: "uint256_lib \<Rightarrow> u64 \<Rightarrow> ('tr, u64) frame_m" where
  "gasSha3 U memorySize = bindM (mem_gas memorySize) (\<lambda>gas. bindM (Back 1) (\<lambda>x. bindM (or_overflows (u_Uint64WithOverflow U x)) (\<lambda>wordGas.
     bindM (or_overflows (SafeMul (toWordSize wordGas) 6)) (\<lambda>wordGas. or_overflows (SafeAdd gas wordGas)))))"

definition pureMemoryGascost :: "u64 \<Rightarrow> ('tr, u64) frame_m" where
  "pureMemoryGascost memorySize = mem_gas memorySize"

definition gasCreate2 :: "uint256_lib \<Rightarrow> u64 \<Rightarrow> ('tr, u64) frame_m" where
  "gasCreate2 U memorySize = bindM (mem_gas memorySize) (\<lambda>gas. bindM (Back 2) (\<lambda>x. bindM (or_overflows (u_Uint64WithOverflow U x)) (\<lambda>wordGas.
     bindM (or_overflows (SafeMul (toWordSize wordGas) 6)) (\<lambda>wordGas. or_overflows (SafeAdd gas wordGas)))))"

definition gas_exp :: "uint256_lib \<Rightarrow> u64 \<Rightarrow> u64 \<Rightarrow> ('tr, u64) frame_m" where
  "gas_exp U expByte memorySize = bindM (Back 1) (\<lambda>x.
     let expByteLen = word_of_nat ((u_BitLen U x + 7) div 8) in or_overflows (SafeAdd (expByteLen * expByte) 10))"

definition gasExpFrontier :: "uint256_lib \<Rightarrow> u64 \<Rightarrow> ('tr, u64) frame_m" where
  "gasExpFrontier U = gas_exp U 10"

definition gasExpEIP158 :: "uint256_lib \<Rightarrow> u64 \<Rightarrow> ('tr, u64) frame_m" where
  "gasExpEIP158 U = gas_exp U 50"

text \<open>The common end of the prices of calls: the gas for the callee is kept in \<^verbatim>\<open>callGasTemp\<close> and added.\<close>

definition call_gas :: "'tr evm_env \<Rightarrow> u64 \<Rightarrow> ('tr, u64) frame_m" where
  "call_gas E gas = bindM (contract_of c_Gas) (\<lambda>available. bindM (Back 0) (\<lambda>callCost.
     bindM (\<lambda>f. case callGas (ev_u E) (r_IsEIP150 (chainRules E)) available gas callCost of
         Inl e \<Rightarrow> (Inl e, f\<lparr>fr_evm := (fr_evm f)\<lparr>callGasTemp := 0\<rparr>\<rparr>)
       | Inr g \<Rightarrow> (Inr g, f\<lparr>fr_evm := (fr_evm f)\<lparr>callGasTemp := g\<rparr>\<rparr>)) (\<lambda>temp.
     or_overflows (SafeAdd gas temp))))"

definition gasCall :: "'tr evm_env \<Rightarrow> u64 \<Rightarrow> ('tr, u64) frame_m" where
  "gasCall E memorySize = bindM (Back 2) (\<lambda>v. bindM (Back 1) (\<lambda>a.
     let transfersValue = \<not> u_IsZero (ev_u E) v; addr = u_Bytes20 (ev_u E) a in
     bindM (if r_IsEIP158 (chainRules E) then
              if transfersValue then bindM (state_op (Empty (ev_db E) addr)) (\<lambda>e. returnM (if e then 25000 else 0)) else returnM 0
            else bindM (state_op (Exist (ev_db E) addr)) (\<lambda>e. returnM (if \<not> e then 25000 else 0))) (\<lambda>gas.
     let gas = if transfersValue then gas + 9000 else gas in
     bindM (mem_gas memorySize) (\<lambda>memoryGas. bindM (or_overflows (SafeAdd gas memoryGas)) (call_gas E)))))"

definition gasCallCode :: "'tr evm_env \<Rightarrow> u64 \<Rightarrow> ('tr, u64) frame_m" where
  "gasCallCode E memorySize = bindM (mem_gas memorySize) (\<lambda>memoryGas. bindM (Back 2) (\<lambda>v.
     let gas = if u_Sign (ev_u E) v \<noteq> 0 then 9000 else 0 in
     bindM (or_overflows (SafeAdd gas memoryGas)) (call_gas E)))"

definition gasDelegateCall :: "'tr evm_env \<Rightarrow> u64 \<Rightarrow> ('tr, u64) frame_m" where
  "gasDelegateCall E memorySize = bindM (mem_gas memorySize) (call_gas E)"

definition gasStaticCall :: "'tr evm_env \<Rightarrow> u64 \<Rightarrow> ('tr, u64) frame_m" where
  "gasStaticCall E memorySize = bindM (mem_gas memorySize) (call_gas E)"

definition gasSelfdestruct :: "'tr evm_env \<Rightarrow> u64 \<Rightarrow> ('tr, u64) frame_m" where
  "gasSelfdestruct E memorySize = bindM (contract_of c_self) (\<lambda>self.
     bindM (if r_IsEIP150 (chainRules E) then
         bindM (Back 0) (\<lambda>a. let addr = u_Bytes20 (ev_u E) a in
           if r_IsEIP158 (chainRules E) then
             bindM (state_op (Empty (ev_db E) addr)) (\<lambda>e.
               if e then bindM (state_op (GetBalance (ev_db E) self)) (\<lambda>b. returnM (if b \<noteq> 0 then 5000 + 25000 else 5000)) else returnM 5000)
           else bindM (state_op (Exist (ev_db E) addr)) (\<lambda>e. returnM (if \<not> e then 5000 + 25000 else 5000)))
       else returnM 0) (\<lambda>gas.
     bindM (state_op (HasSuicided (ev_db E) self)) (\<lambda>d.
     bindM (if \<not> d then state_op (AddRefund 24000) else returnM ()) (\<lambda>_. returnM gas))))"

section \<open>Memory sizes\<close>

definition mem_range :: "uint256_lib \<Rightarrow> nat \<Rightarrow> nat \<Rightarrow> Stack \<Rightarrow> (evm_error, u64 \<times> bool) result" where
  "mem_range U i j st = and_then (stack_Back i st) (\<lambda>off. and_then (stack_Back j st) (\<lambda>len. Inr (calcMemSize64 U off len)))"

definition mem_fixed :: "uint256_lib \<Rightarrow> u64 \<Rightarrow> Stack \<Rightarrow> (evm_error, u64 \<times> bool) result" where
  "mem_fixed U n st = and_then (stack_Back 0 st) (\<lambda>off. Inr (calcMemSize64WithUint U off n))"

definition mem_max :: "(evm_error, u64 \<times> bool) result \<Rightarrow> (evm_error, u64 \<times> bool) result \<Rightarrow> (evm_error, u64 \<times> bool) result" where
  "mem_max r1 r2 = and_then r1 (\<lambda>(x, overflow). if overflow then Inr (0, True) else
     and_then r2 (\<lambda>(y, overflow). if overflow then Inr (0, True) else if x > y then Inr (x, False) else Inr (y, False)))"

definition memorySha3 where "memorySha3 U = mem_range U 0 1"
definition memoryCallDataCopy where "memoryCallDataCopy U = mem_range U 0 2"
definition memoryReturnDataCopy where "memoryReturnDataCopy U = mem_range U 0 2"
definition memoryCodeCopy where "memoryCodeCopy U = mem_range U 0 2"
definition memoryExtCodeCopy where "memoryExtCodeCopy U = mem_range U 1 3"
definition memoryMLoad where "memoryMLoad U = mem_fixed U 32"
definition memoryMStore8 where "memoryMStore8 U = mem_fixed U 1"
definition memoryMStore where "memoryMStore U = mem_fixed U 32"
definition memoryCreate where "memoryCreate U = mem_range U 1 2"
definition memoryCreate2 where "memoryCreate2 U = mem_range U 1 2"
definition memoryCall where "memoryCall U st = mem_max (mem_range U 5 6 st) (mem_range U 3 4 st)"
definition memoryDelegateCall where "memoryDelegateCall U st = mem_max (mem_range U 4 5 st) (mem_range U 2 3 st)"
definition memoryStaticCall where "memoryStaticCall U st = mem_max (mem_range U 4 5 st) (mem_range U 2 3 st)"
definition memoryReturn where "memoryReturn U = mem_range U 0 1"
definition memoryRevert where "memoryRevert U = mem_range U 0 1"
definition memoryLog where "memoryLog U = mem_range U 0 1"

end
