(* ===== verification/EVM_Ops.thy ===== *)
theory EVM_Ops
  imports EVM_Gas
begin

text \<open>
  The instructions of the machine (\<^verbatim>\<open>core/vm/instructions.go\<close>). The calls back into \<^verbatim>\<open>EVM\<close> are an argument,
  tied together with the interpreter later.\<close>

record 'tr evm_calls =
  cl_Call :: "ContractRef \<Rightarrow> address \<Rightarrow> byte list \<Rightarrow> u64 \<Rightarrow> int \<Rightarrow> ('tr, byte list \<times> u64 \<times> evm_error option) evm_m"
  cl_CallCode :: "ContractRef \<Rightarrow> address \<Rightarrow> byte list \<Rightarrow> u64 \<Rightarrow> int \<Rightarrow> ('tr, byte list \<times> u64 \<times> evm_error option) evm_m"
  cl_DelegateCall :: "ContractRef \<Rightarrow> address \<Rightarrow> byte list \<Rightarrow> u64 \<Rightarrow> ('tr, byte list \<times> u64 \<times> evm_error option) evm_m"
  cl_StaticCall :: "ContractRef \<Rightarrow> address \<Rightarrow> byte list \<Rightarrow> u64 \<Rightarrow> ('tr, byte list \<times> u64 \<times> evm_error option) evm_m"
  cl_Create :: "ContractRef \<Rightarrow> byte list \<Rightarrow> u64 \<Rightarrow> int \<Rightarrow> ('tr, byte list \<times> address \<times> u64 \<times> evm_error option) evm_m"
  cl_Create2 :: "ContractRef \<Rightarrow> byte list \<Rightarrow> u64 \<Rightarrow> int \<Rightarrow> u256 \<Rightarrow> ('tr, byte list \<times> address \<times> u64 \<times> evm_error option) evm_m"

type_synonym 'tr exec = "('tr, byte list) frame_m"

definition done_op :: "('tr, unit) frame_m \<Rightarrow> 'tr exec" where
  "done_op m = bindM m (\<lambda>_. returnM [])"

section \<open>Arithmetic and comparison\<close>

text \<open>\<^verbatim>\<open>x, y := scope.Stack.pop(), scope.Stack.peek()\<close> and a result written to \<open>y\<close>\<close>

definition op_2 :: "(u256 \<Rightarrow> u256 \<Rightarrow> u256) \<Rightarrow> 'tr exec" where
  "op_2 g = done_op (bindM pop (\<lambda>x. bindM peek (\<lambda>y. set_peek (g x y))))"

definition op_1 :: "(u256 \<Rightarrow> u256) \<Rightarrow> 'tr exec" where
  "op_1 g = done_op (bindM peek (\<lambda>x. set_peek (g x)))"

definition op_3 :: "(u256 \<Rightarrow> u256 \<Rightarrow> u256 \<Rightarrow> u256) \<Rightarrow> 'tr exec" where
  "op_3 g = done_op (bindM pop (\<lambda>x. bindM pop (\<lambda>y. bindM peek (\<lambda>z. set_peek (g x y z)))))"

definition u_bool :: "uint256_lib \<Rightarrow> bool \<Rightarrow> u256" where
  "u_bool U b = (if b then u_SetOne U else u_Clear U)"

definition opAdd where "opAdd U = op_2 (u_Add U)"
definition opSub where "opSub U = op_2 (u_Sub U)"
definition opMul where "opMul U = op_2 (u_Mul U)"
definition opDiv where "opDiv U = op_2 (u_Div U)"
definition opSdiv where "opSdiv U = op_2 (u_SDiv U)"
definition opMod where "opMod U = op_2 (u_Mod U)"
definition opSmod where "opSmod U = op_2 (u_SMod U)"
definition opExp where "opExp U = op_2 (u_Exp U)"
definition opSignExtend where "opSignExtend U = op_2 (\<lambda>back num. u_ExtendSign U num back)"
definition opNot where "opNot U = op_1 (u_Not U)"
definition opLt where "opLt U = op_2 (\<lambda>x y. u_bool U (u_Lt U x y))"
definition opGt where "opGt U = op_2 (\<lambda>x y. u_bool U (u_Gt U x y))"
definition opSlt where "opSlt U = op_2 (\<lambda>x y. u_bool U (u_Slt U x y))"
definition opSgt where "opSgt U = op_2 (\<lambda>x y. u_bool U (u_Sgt U x y))"
definition opEq where "opEq U = op_2 (\<lambda>x y. u_bool U (u_Eq U x y))"
definition opIszero where "opIszero U = op_1 (\<lambda>x. u_bool U (u_IsZero U x))"
definition opAnd where "opAnd U = op_2 (u_And U)"
definition opOr where "opOr U = op_2 (u_Or U)"
definition opXor where "opXor U = op_2 (u_Xor U)"
definition opByte where "opByte U = op_2 (\<lambda>th val. u_Byte U val th)"
definition opAddmod where "opAddmod U = op_3 (\<lambda>x y z. if u_IsZero U z then u_Clear U else u_AddMod U x y z)"
definition opMulmod where "opMulmod U = op_3 (u_MulMod U)"
definition opSHL where "opSHL U = op_2 (\<lambda>shift val. if u_LtUint64 U shift 256 then u_Lsh U val (u_Uint64 U shift) else u_Clear U)"
definition opSHR where "opSHR U = op_2 (\<lambda>shift val. if u_LtUint64 U shift 256 then u_Rsh U val (u_Uint64 U shift) else u_Clear U)"
definition opSAR where
  "opSAR U = op_2 (\<lambda>shift val. if u_GtUint64 U shift 256 then (if u_Sign U val \<ge> 0 then u_Clear U else u_SetAllOne U)
     else u_SRsh U val (u_Uint64 U shift))"

section \<open>Data of the call and the chain\<close>

text \<open>\<^verbatim>\<open>int64(offset.Uint64()), int64(size.Uint64())\<close>\<close>

definition get_ptr :: "uint256_lib \<Rightarrow> u256 \<Rightarrow> u256 \<Rightarrow> ('tr, byte list) frame_m" where
  "get_ptr U off sz = read_mem (Memory_GetPtr (sint (u_Uint64 U off)) (sint (u_Uint64 U sz)))"

definition get_copy :: "uint256_lib \<Rightarrow> u256 \<Rightarrow> u256 \<Rightarrow> ('tr, byte list) frame_m" where
  "get_copy U off sz = read_mem (Memory_GetCopy (sint (u_Uint64 U off)) (sint (u_Uint64 U sz)))"

definition opSha3 :: "'tr evm_env \<Rightarrow> 'tr exec" where
  "opSha3 E = bindM pop (\<lambda>off. bindM peek (\<lambda>sz. bindM (get_ptr (ev_u E) off sz) (\<lambda>data.
     let h = Keccak256Hash (db_crypto (ev_db E)) data in
     bindM (if EnablePreimageRecording E then state_op (AddPreimage h data) else returnM ()) (\<lambda>_.
     done_op (set_peek (u_SetBytes (ev_u E) (hash_bytes h)))))))"

definition opAddress :: "'tr evm_env \<Rightarrow> 'tr exec" where
  "opAddress E = done_op (bindM (contract_of c_self) (\<lambda>a. push (u_SetBytes (ev_u E) (address_bytes a))))"

definition opBalance :: "'tr evm_env \<Rightarrow> 'tr exec" where
  "opBalance E = done_op (bindM peek (\<lambda>slot. bindM (state_op (GetBalance (ev_db E) (u_Bytes20 (ev_u E) slot))) (\<lambda>b.
     set_peek (u_FromBig (ev_u E) b))))"

definition opOrigin :: "'tr evm_env \<Rightarrow> 'tr exec" where
  "opOrigin E = done_op (push (u_SetBytes (ev_u E) (address_bytes (ev_Origin E))))"

definition opCaller :: "'tr evm_env \<Rightarrow> 'tr exec" where
  "opCaller E = done_op (bindM (contract_of CallerAddress) (\<lambda>a. push (u_SetBytes (ev_u E) (address_bytes a))))"

definition opCallValue :: "'tr evm_env \<Rightarrow> 'tr exec" where
  "opCallValue E = done_op (bindM (contract_of c_value) (\<lambda>v. on_big v (\<lambda>n. push (u_FromBig (ev_u E) n))))"

definition opCallDataLoad :: "'tr evm_env \<Rightarrow> 'tr exec" where
  "opCallDataLoad E = done_op (bindM peek (\<lambda>x. bindM (contract_of c_Input) (\<lambda>inp.
     let (off, overflow) = u_Uint64WithOverflow (ev_u E) x in
     if \<not> overflow then bindM (liftM (getData inp off 32)) (\<lambda>data. set_peek (u_SetBytes (ev_u E) data))
     else set_peek (u_Clear (ev_u E)))))"

definition opCallDataSize :: "'tr evm_env \<Rightarrow> 'tr exec" where
  "opCallDataSize E = done_op (bindM (contract_of c_Input) (\<lambda>inp. push (u_SetUint64 (ev_u E) (word_of_nat (length inp)))))"

text \<open>The offset of a copy, cut to the largest number if it does not fit.\<close>

definition data_off :: "uint256_lib \<Rightarrow> u256 \<Rightarrow> u64" where
  "data_off U x = (case u_Uint64WithOverflow U x of (off, overflow) \<Rightarrow> if overflow then 0xffffffffffffffff else off)"

definition copy_data :: "uint256_lib \<Rightarrow> ('tr, byte list) frame_m \<Rightarrow> 'tr exec" where
  "copy_data U src = done_op (bindM pop (\<lambda>memOffset. bindM pop (\<lambda>dataOffset. bindM pop (\<lambda>len. bindM src (\<lambda>b.
     bindM (liftM (getData b (data_off U dataOffset) (u_Uint64 U len))) (\<lambda>data.
     on_mem (Memory_Set (u_Uint64 U memOffset) (u_Uint64 U len) data)))))))"

definition opCallDataCopy :: "'tr evm_env \<Rightarrow> 'tr exec" where
  "opCallDataCopy E = copy_data (ev_u E) (contract_of c_Input)"

definition opReturnDataSize :: "'tr evm_env \<Rightarrow> 'tr exec" where
  "opReturnDataSize E = done_op (bindM (readM (\<lambda>f. evm_returnData (fr_evm f))) (\<lambda>d. push (u_SetUint64 (ev_u E) (word_of_nat (length d)))))"

definition opReturnDataCopy :: "'tr evm_env \<Rightarrow> 'tr exec" where
  "opReturnDataCopy E = done_op (bindM pop (\<lambda>memOffset. bindM pop (\<lambda>dataOffset. bindM pop (\<lambda>len.
     let U = ev_u E; (offset64, overflow) = u_Uint64WithOverflow U dataOffset in
     if overflow then errM ErrReturnDataOutOfBounds
     else let (end64, overflow) = u_Uint64WithOverflow U (u_Add U dataOffset len) in
       bindM (readM (\<lambda>f. evm_returnData (fr_evm f))) (\<lambda>d.
         if overflow \<or> length d < unat end64 then errM ErrReturnDataOutOfBounds
         else bindM (liftM (slice d (uint offset64) (uint end64))) (\<lambda>b.
           on_mem (Memory_Set (u_Uint64 U memOffset) (u_Uint64 U len) b)))))))"

definition opExtCodeSize :: "'tr evm_env \<Rightarrow> 'tr exec" where
  "opExtCodeSize E = done_op (bindM peek (\<lambda>slot. bindM (state_op (GetCodeSize (ev_db E) (u_Bytes20 (ev_u E) slot))) (\<lambda>n.
     set_peek (u_SetUint64 (ev_u E) (word_of_nat n)))))"

definition opCodeSize :: "'tr evm_env \<Rightarrow> 'tr exec" where
  "opCodeSize E = done_op (bindM (contract_of c_Code) (\<lambda>code. push (u_SetUint64 (ev_u E) (word_of_nat (length code)))))"

definition opCodeCopy :: "'tr evm_env \<Rightarrow> 'tr exec" where
  "opCodeCopy E = copy_data (ev_u E) (contract_of c_Code)"

definition opExtCodeCopy :: "'tr evm_env \<Rightarrow> 'tr exec" where
  "opExtCodeCopy E = bindM pop (\<lambda>a. copy_data (ev_u E)
     (bindM (state_op (GetCode (ev_db E) (u_Bytes20 (ev_u E) a))) (\<lambda>c. returnM (nil_bytes c))))"

definition opExtCodeHash :: "'tr evm_env \<Rightarrow> 'tr exec" where
  "opExtCodeHash E = done_op (bindM peek (\<lambda>slot. let a = u_Bytes20 (ev_u E) slot in
     bindM (state_op (Empty (ev_db E) a)) (\<lambda>e.
       if e then set_peek (u_Clear (ev_u E))
       else bindM (state_op (GetCodeHash (ev_db E) a)) (\<lambda>h. set_peek (u_SetBytes (ev_u E) (hash_bytes h))))))"

definition opGasprice :: "'tr evm_env \<Rightarrow> 'tr exec" where
  "opGasprice E = done_op (push (u_FromBig (ev_u E) (ev_GasPrice E)))"

definition opBlockhash :: "'tr evm_env \<Rightarrow> 'tr exec" where
  "opBlockhash E = done_op (bindM peek (\<lambda>num.
     let U = ev_u E; (num64, overflow) = u_Uint64WithOverflow U num in
     if overflow then set_peek (u_Clear U)
     else let upper = big_Uint64 (ev_BlockNumber E); lower = if upper < 257 then 0 else upper - 256 in
       if num64 \<ge> lower \<and> num64 < upper then set_peek (u_SetBytes U (hash_bytes (ev_GetHash E num64)))
       else set_peek (u_Clear U)))"

definition opCoinbase :: "'tr evm_env \<Rightarrow> 'tr exec" where
  "opCoinbase E = done_op (push (u_SetBytes (ev_u E) (address_bytes (ev_Coinbase E))))"

definition opTimestamp :: "'tr evm_env \<Rightarrow> 'tr exec" where
  "opTimestamp E = done_op (push (u_FromBig (ev_u E) (ev_Time E)))"

definition opNumber :: "'tr evm_env \<Rightarrow> 'tr exec" where
  "opNumber E = done_op (push (u_FromBig (ev_u E) (ev_BlockNumber E)))"

definition opDifficulty :: "'tr evm_env \<Rightarrow> 'tr exec" where
  "opDifficulty E = done_op (push (u_FromBig (ev_u E) (ev_Difficulty E)))"

definition opGasLimit :: "'tr evm_env \<Rightarrow> 'tr exec" where
  "opGasLimit E = done_op (push (u_SetUint64 (ev_u E) (big_Uint64 (ev_GasLimit E))))"

definition opChainID :: "'tr evm_env \<Rightarrow> 'tr exec" where
  "opChainID E = done_op (on_big (ChainId (ev_config E)) (\<lambda>n. push (u_FromBig (ev_u E) n)))"

definition opSelfBalance :: "'tr evm_env \<Rightarrow> 'tr exec" where
  "opSelfBalance E = done_op (bindM (contract_of c_self) (\<lambda>a. bindM (state_op (GetBalance (ev_db E) a)) (\<lambda>b. push (u_FromBig (ev_u E) b))))"

section \<open>Stack, memory, storage and jumps\<close>

definition opPop :: "'tr exec" where
  "opPop = done_op (bindM pop (\<lambda>_. returnM ()))"

definition opMload :: "'tr evm_env \<Rightarrow> 'tr exec" where
  "opMload E = done_op (bindM peek (\<lambda>v. bindM (read_mem (Memory_GetPtr (sint (u_Uint64 (ev_u E) v)) 32)) (\<lambda>b.
     set_peek (u_SetBytes (ev_u E) b))))"

definition opMstore :: "'tr evm_env \<Rightarrow> 'tr exec" where
  "opMstore E = done_op (bindM pop (\<lambda>mStart. bindM pop (\<lambda>v. on_mem (Memory_Set32 (ev_u E) (u_Uint64 (ev_u E) mStart) v))))"

definition Memory_set_byte :: "u64 \<Rightarrow> byte \<Rightarrow> Memory \<Rightarrow> (evm_error, Memory) result" where
  "Memory_set_byte off b m = (if unat off < mem_len m then Inr (m\<lparr>mem_store := (mem_store m)[unat off := b]\<rparr>) else Inl (Panic ''index out of range''))"

definition opMstore8 :: "'tr evm_env \<Rightarrow> 'tr exec" where
  "opMstore8 E = done_op (bindM pop (\<lambda>off. bindM pop (\<lambda>v. on_mem (Memory_set_byte (u_Uint64 (ev_u E) off) (ucast (u_Uint64 (ev_u E) v))))))"

definition opSload :: "'tr evm_env \<Rightarrow> 'tr exec" where
  "opSload E = done_op (bindM peek (\<lambda>loc. bindM (contract_of c_self) (\<lambda>self.
     bindM (state_op (GetState (ev_db E) self (u_Bytes32 (ev_u E) loc))) (\<lambda>v. set_peek (u_SetBytes (ev_u E) (hash_bytes v))))))"

definition opSstore :: "'tr evm_env \<Rightarrow> 'tr exec" where
  "opSstore E = done_op (bindM pop (\<lambda>loc. bindM pop (\<lambda>v. bindM (contract_of c_self) (\<lambda>self.
     state_op (SetState (ev_db E) self (u_Bytes32 (ev_u E) loc) (u_Bytes32 (ev_u E) v))))))"

definition opJump :: "'tr evm_env \<Rightarrow> 'tr exec" where
  "opJump E = done_op (bindM pop (\<lambda>pos. bindM (validJumpdest (ev_u E) pos) (\<lambda>ok.
     if \<not> ok then errM ErrInvalidJump else set_pc (u_Uint64 (ev_u E) pos))))"

definition opJumpi :: "'tr evm_env \<Rightarrow> 'tr exec" where
  "opJumpi E = done_op (bindM pop (\<lambda>pos. bindM pop (\<lambda>cond.
     if \<not> u_IsZero (ev_u E) cond then bindM (validJumpdest (ev_u E) pos) (\<lambda>ok.
       if \<not> ok then errM ErrInvalidJump else set_pc (u_Uint64 (ev_u E) pos))
     else modifyM (\<lambda>f. f\<lparr>fr_pc := fr_pc f + 1\<rparr>))))"

definition opJumpdest :: "'tr exec" where
  "opJumpdest = returnM []"

definition opPc :: "'tr evm_env \<Rightarrow> 'tr exec" where
  "opPc E = done_op (bindM (readM fr_pc) (\<lambda>p. push (u_SetUint64 (ev_u E) p)))"

definition opMsize :: "'tr evm_env \<Rightarrow> 'tr exec" where
  "opMsize E = done_op (bindM (readM (\<lambda>f. mem_len (fr_mem f))) (\<lambda>n. push (u_SetUint64 (ev_u E) (word_of_nat n))))"

definition opGas :: "'tr evm_env \<Rightarrow> 'tr exec" where
  "opGas E = done_op (bindM (contract_of c_Gas) (\<lambda>g. push (u_SetUint64 (ev_u E) g)))"

definition opPush1 :: "'tr evm_env \<Rightarrow> 'tr exec" where
  "opPush1 E = done_op (bindM (modifyM (\<lambda>f. f\<lparr>fr_pc := fr_pc f + 1\<rparr>)) (\<lambda>_. bindM (readM fr_pc) (\<lambda>p. bindM (contract_of c_Code) (\<lambda>code.
     if unat p < length code then push (u_SetUint64 (ev_u E) (ucast (code ! unat p))) else push (u_Clear (ev_u E))))))"

definition makePush :: "'tr evm_env \<Rightarrow> nat \<Rightarrow> 'tr exec" where
  "makePush E n = done_op (bindM (contract_of c_Code) (\<lambda>code. bindM (readM fr_pc) (\<lambda>p.
     let codeLen = int (length code);
         startMin = min codeLen (sint (p + 1));
         endMin = min codeLen (startMin + int n) in
     bindM (liftM (slice code startMin endMin)) (\<lambda>b.
     bindM (push (u_SetBytes (ev_u E) (RightPadBytes b (int n)))) (\<lambda>_.
     modifyM (\<lambda>f. f\<lparr>fr_pc := fr_pc f + word_of_nat n\<rparr>))))))"

definition makeDup :: "nat \<Rightarrow> 'tr exec" where
  "makeDup n = done_op (on_stack (stack_dup n))"

definition makeSwap :: "nat \<Rightarrow> 'tr exec" where
  "makeSwap n = done_op (on_stack (stack_swap (n + 1)))"

fun pop_topics :: "'tr evm_env \<Rightarrow> nat \<Rightarrow> ('tr, hash list) frame_m" where
  "pop_topics E 0 = returnM []"
| "pop_topics E (Suc n) = bindM pop (\<lambda>a. bindM (pop_topics E n) (\<lambda>ts. returnM (u_Bytes32 (ev_u E) a # ts)))"

definition new_log :: "address \<Rightarrow> hash list \<Rightarrow> byte list \<Rightarrow> u64 \<Rightarrow> Log" where
  "new_log a topics d n = \<lparr>log_Address = a, log_Topics = topics, log_Data = d, log_BlockNumber = n, log_TxHash = 0, log_TxIndex = 0,
     log_BlockHash = 0, log_Index = 0\<rparr>"

definition makeLog :: "'tr evm_env \<Rightarrow> nat \<Rightarrow> 'tr exec" where
  "makeLog E n = done_op (bindM pop (\<lambda>mStart. bindM pop (\<lambda>mSize. bindM (pop_topics E n) (\<lambda>topics.
     bindM (get_copy (ev_u E) mStart mSize) (\<lambda>d. bindM (contract_of c_self) (\<lambda>self.
     state_op (AddLog (new_log self topics d (big_Uint64 (ev_BlockNumber E))))))))))"

section \<open>Calls\<close>

text \<open>What a call instruction does with the results of the call.\<close>

definition finish_call :: "'tr evm_env \<Rightarrow> u256 \<Rightarrow> u256 \<Rightarrow> byte list \<times> u64 \<times> evm_error option \<Rightarrow> 'tr exec" where
  "finish_call E retOffset retSize = (\<lambda>(ret, returnGas, err).
     bindM (push (if err \<noteq> None then u_Clear (ev_u E) else u_SetOne (ev_u E))) (\<lambda>_.
     bindM (if err = None \<or> err = Some ErrExecutionReverted
            then on_mem (Memory_Set (u_Uint64 (ev_u E) retOffset) (u_Uint64 (ev_u E) retSize) ret) else returnM ()) (\<lambda>_.
     bindM (on_contract (\<lambda>c. c\<lparr>c_Gas := c_Gas c + returnGas\<rparr>)) (\<lambda>_. returnM ret))))"

definition self_ref :: "('tr, ContractRef) frame_m" where
  "self_ref = contract_of ContractOf"

definition big_value :: "uint256_lib \<Rightarrow> u256 \<Rightarrow> int" where
  "big_value U v = (if \<not> u_IsZero U v then u_ToBig U v else 0)"

definition opCall :: "'tr evm_env \<Rightarrow> 'tr evm_calls \<Rightarrow> 'tr exec" where
  "opCall E C = bindM pop (\<lambda>temp. bindM (readM (\<lambda>f. callGasTemp (fr_evm f))) (\<lambda>gas.
     bindM pop (\<lambda>addr. bindM pop (\<lambda>v. bindM pop (\<lambda>inOffset. bindM pop (\<lambda>inSize. bindM pop (\<lambda>retOffset. bindM pop (\<lambda>retSize.
     bindM (get_ptr (ev_u E) inOffset inSize) (\<lambda>args. bindM self_ref (\<lambda>me.
     bindM (on_evm (cl_Call C me (u_Bytes20 (ev_u E) addr) args (if \<not> u_IsZero (ev_u E) v then gas + 2300 else gas) (big_value (ev_u E) v)))
       (finish_call E retOffset retSize)))))))))))"

definition opCallCode :: "'tr evm_env \<Rightarrow> 'tr evm_calls \<Rightarrow> 'tr exec" where
  "opCallCode E C = bindM pop (\<lambda>temp. bindM (readM (\<lambda>f. callGasTemp (fr_evm f))) (\<lambda>gas.
     bindM pop (\<lambda>addr. bindM pop (\<lambda>v. bindM pop (\<lambda>inOffset. bindM pop (\<lambda>inSize. bindM pop (\<lambda>retOffset. bindM pop (\<lambda>retSize.
     bindM (get_ptr (ev_u E) inOffset inSize) (\<lambda>args. bindM self_ref (\<lambda>me.
     bindM (on_evm (cl_CallCode C me (u_Bytes20 (ev_u E) addr) args (if \<not> u_IsZero (ev_u E) v then gas + 2300 else gas) (big_value (ev_u E) v)))
       (finish_call E retOffset retSize)))))))))))"

definition opDelegateCall :: "'tr evm_env \<Rightarrow> 'tr evm_calls \<Rightarrow> 'tr exec" where
  "opDelegateCall E C = bindM pop (\<lambda>temp. bindM (readM (\<lambda>f. callGasTemp (fr_evm f))) (\<lambda>gas.
     bindM pop (\<lambda>addr. bindM pop (\<lambda>inOffset. bindM pop (\<lambda>inSize. bindM pop (\<lambda>retOffset. bindM pop (\<lambda>retSize.
     bindM (get_ptr (ev_u E) inOffset inSize) (\<lambda>args. bindM self_ref (\<lambda>me.
     bindM (on_evm (cl_DelegateCall C me (u_Bytes20 (ev_u E) addr) args gas)) (finish_call E retOffset retSize))))))))))"

definition opStaticCall :: "'tr evm_env \<Rightarrow> 'tr evm_calls \<Rightarrow> 'tr exec" where
  "opStaticCall E C = bindM pop (\<lambda>temp. bindM (readM (\<lambda>f. callGasTemp (fr_evm f))) (\<lambda>gas.
     bindM pop (\<lambda>addr. bindM pop (\<lambda>inOffset. bindM pop (\<lambda>inSize. bindM pop (\<lambda>retOffset. bindM pop (\<lambda>retSize.
     bindM (get_ptr (ev_u E) inOffset inSize) (\<lambda>args. bindM self_ref (\<lambda>me.
     bindM (on_evm (cl_StaticCall C me (u_Bytes20 (ev_u E) addr) args gas)) (finish_call E retOffset retSize))))))))))"

text \<open>The gas of a creation is taken in advance; \<^verbatim>\<open>UseGas\<close> cannot fail here.\<close>

definition opCreate :: "'tr evm_env \<Rightarrow> 'tr evm_calls \<Rightarrow> 'tr exec" where
  "opCreate E C = bindM pop (\<lambda>v. bindM pop (\<lambda>off. bindM pop (\<lambda>sz. bindM (get_copy (ev_u E) off sz) (\<lambda>input. bindM (contract_of c_Gas) (\<lambda>g.
     let gas = if r_IsEIP150 (chainRules E) then g - g div 64 else g in
     bindM (on_contract (\<lambda>c. snd (UseGas gas c))) (\<lambda>_. bindM self_ref (\<lambda>me.
     bindM (on_evm (cl_Create C me input gas (big_value (ev_u E) v))) (\<lambda>(res, addr, returnGas, suberr).
     bindM (push (if r_IsHomestead (chainRules E) \<and> suberr = Some ErrCodeStoreOutOfGas then u_Clear (ev_u E)
                  else if suberr \<noteq> None \<and> suberr \<noteq> Some ErrCodeStoreOutOfGas then u_Clear (ev_u E)
                  else u_SetBytes (ev_u E) (address_bytes addr))) (\<lambda>_.
     bindM (on_contract (\<lambda>c. c\<lparr>c_Gas := c_Gas c + returnGas\<rparr>)) (\<lambda>_.
     returnM (if suberr = Some ErrExecutionReverted then res else [])))))))))))"

definition opCreate2 :: "'tr evm_env \<Rightarrow> 'tr evm_calls \<Rightarrow> 'tr exec" where
  "opCreate2 E C = bindM pop (\<lambda>endowment. bindM pop (\<lambda>off. bindM pop (\<lambda>sz. bindM pop (\<lambda>salt. bindM (get_copy (ev_u E) off sz) (\<lambda>input.
     bindM (contract_of c_Gas) (\<lambda>g. let gas = g - g div 64 in
     bindM (on_contract (\<lambda>c. snd (UseGas gas c))) (\<lambda>_. bindM self_ref (\<lambda>me.
     bindM (on_evm (cl_Create2 C me input gas (big_value (ev_u E) endowment) salt)) (\<lambda>(res, addr, returnGas, suberr).
     bindM (push (if suberr \<noteq> None then u_Clear (ev_u E) else u_SetBytes (ev_u E) (address_bytes addr))) (\<lambda>_.
     bindM (on_contract (\<lambda>c. c\<lparr>c_Gas := c_Gas c + returnGas\<rparr>)) (\<lambda>_.
     returnM (if suberr = Some ErrExecutionReverted then res else []))))))))))))"

definition opReturn :: "'tr evm_env \<Rightarrow> 'tr exec" where
  "opReturn E = bindM pop (\<lambda>off. bindM pop (\<lambda>sz. get_ptr (ev_u E) off sz))"

definition opRevert :: "'tr evm_env \<Rightarrow> 'tr exec" where
  "opRevert E = bindM pop (\<lambda>off. bindM pop (\<lambda>sz. get_ptr (ev_u E) off sz))"

definition opStop :: "'tr exec" where
  "opStop = returnM []"

definition opSuicide :: "'tr evm_env \<Rightarrow> 'tr exec" where
  "opSuicide E = bindM pop (\<lambda>beneficiary. bindM (contract_of c_self) (\<lambda>self. bindM (state_op (GetBalance (ev_db E) self)) (\<lambda>balance.
     bindM (state_op (AddBalance (ev_db E) (u_Bytes20 (ev_u E) beneficiary) balance)) (\<lambda>_.
     bindM (state_op (Suicide (ev_db E) self)) (\<lambda>_. returnM [])))))"

end
