(* ===== verification/EVM_Table.thy ===== *)
theory EVM_Table
  imports EVM_Ops
begin

text \<open>The instruction sets of the hard forks (\<^verbatim>\<open>core/vm/jump_table.go\<close>, \<^verbatim>\<open>core/vm/opcodes.go\<close>).\<close>

record 'tr operation =
  execute :: "'tr exec"
  constantGas :: u64
  dynamicGas :: "(u64 \<Rightarrow> ('tr, u64) frame_m) option"
  op_minStack :: nat
  op_maxStack :: nat
  memorySize :: "(Stack \<Rightarrow> (evm_error, u64 \<times> bool) result) option"
  halts :: bool
  jumps :: bool
  writes :: bool
  reverts :: bool
  returns :: bool

text \<open>\<^verbatim>\<open>&operation{execute: ex, constantGas: gas, minStack: minStack(pops, push), maxStack: maxStack(pops, push)}\<close>\<close>

definition new_op :: "'tr exec \<Rightarrow> u64 \<Rightarrow> nat \<Rightarrow> nat \<Rightarrow> 'tr operation" where
  "new_op ex gas pops pushes = \<lparr>execute = ex, constantGas = gas, dynamicGas = None, op_minStack = minStack pops pushes,
     op_maxStack = maxStack pops pushes, memorySize = None, halts = False, jumps = False, writes = False, reverts = False, returns = False\<rparr>"

text \<open>The same with a dynamic price, and with a memory size.\<close>

definition new_dyn :: "'tr exec \<Rightarrow> u64 \<Rightarrow> (u64 \<Rightarrow> ('tr, u64) frame_m) \<Rightarrow> nat \<Rightarrow> nat \<Rightarrow> 'tr operation" where
  "new_dyn ex gas dyn pops pushes = (new_op ex gas pops pushes)\<lparr>dynamicGas := Some dyn\<rparr>"

definition new_mem :: "'tr exec \<Rightarrow> u64 \<Rightarrow> (u64 \<Rightarrow> ('tr, u64) frame_m) \<Rightarrow> nat \<Rightarrow> nat \<Rightarrow>
    (Stack \<Rightarrow> (evm_error, u64 \<times> bool) result) \<Rightarrow> 'tr operation" where
  "new_mem ex gas dyn pops pushes msize = (new_dyn ex gas dyn pops pushes)\<lparr>memorySize := Some msize\<rparr>"

type_synonym 'tr JumpTable = "(byte \<times> 'tr operation) list"

definition CALL :: byte where "CALL = 0xf1"

definition arithmetic_ops :: "'tr evm_env \<Rightarrow> 'tr JumpTable" where
  "arithmetic_ops E = (let U = ev_u E in
    [(0x00, (new_op opStop 0 0 0)\<lparr>halts := True\<rparr>), \<comment> \<open>STOP\<close>
     (0x01, new_op (opAdd U) GasFastestStep 2 1), \<comment> \<open>ADD\<close>
     (0x02, new_op (opMul U) GasFastStep 2 1), \<comment> \<open>MUL\<close>
     (0x03, new_op (opSub U) GasFastestStep 2 1), \<comment> \<open>SUB\<close>
     (0x04, new_op (opDiv U) GasFastStep 2 1), \<comment> \<open>DIV\<close>
     (0x05, new_op (opSdiv U) GasFastStep 2 1), \<comment> \<open>SDIV\<close>
     (0x06, new_op (opMod U) GasFastStep 2 1), \<comment> \<open>MOD\<close>
     (0x07, new_op (opSmod U) GasFastStep 2 1), \<comment> \<open>SMOD\<close>
     (0x08, new_op (opAddmod U) GasMidStep 3 1), \<comment> \<open>ADDMOD\<close>
     (0x09, new_op (opMulmod U) GasMidStep 3 1), \<comment> \<open>MULMOD\<close>
     (0x0a, new_dyn (opExp U) 0 (gasExpFrontier U) 2 1), \<comment> \<open>EXP\<close>
     (0x0b, new_op (opSignExtend U) GasFastStep 2 1), \<comment> \<open>SIGNEXTEND\<close>
     (0x10, new_op (opLt U) GasFastestStep 2 1), \<comment> \<open>LT\<close>
     (0x11, new_op (opGt U) GasFastestStep 2 1), \<comment> \<open>GT\<close>
     (0x12, new_op (opSlt U) GasFastestStep 2 1), \<comment> \<open>SLT\<close>
     (0x13, new_op (opSgt U) GasFastestStep 2 1), \<comment> \<open>SGT\<close>
     (0x14, new_op (opEq U) GasFastestStep 2 1), \<comment> \<open>EQ\<close>
     (0x15, new_op (opIszero U) GasFastestStep 1 1), \<comment> \<open>ISZERO\<close>
     (0x16, new_op (opAnd U) GasFastestStep 2 1), \<comment> \<open>AND\<close>
     (0x17, new_op (opOr U) GasFastestStep 2 1), \<comment> \<open>OR\<close>
     (0x18, new_op (opXor U) GasFastestStep 2 1), \<comment> \<open>XOR\<close>
     (0x19, new_op (opNot U) GasFastestStep 1 1), \<comment> \<open>NOT\<close>
     (0x1a, new_op (opByte U) GasFastestStep 2 1), \<comment> \<open>BYTE\<close>
     (0x20, new_mem (opSha3 E) 30 (gasSha3 U) 2 1 (memorySha3 U))])" \<comment> \<open>SHA3\<close>

definition environment_ops :: "'tr evm_env \<Rightarrow> 'tr JumpTable" where
  "environment_ops E = (let U = ev_u E in
    [(0x30, new_op (opAddress E) GasQuickStep 0 1), \<comment> \<open>ADDRESS\<close>
     (0x31, new_op (opBalance E) 20 1 1), \<comment> \<open>BALANCE\<close>
     (0x32, new_op (opOrigin E) GasQuickStep 0 1), \<comment> \<open>ORIGIN\<close>
     (0x33, new_op (opCaller E) GasQuickStep 0 1), \<comment> \<open>CALLER\<close>
     (0x34, new_op (opCallValue E) GasQuickStep 0 1), \<comment> \<open>CALLVALUE\<close>
     (0x35, new_op (opCallDataLoad E) GasFastestStep 1 1), \<comment> \<open>CALLDATALOAD\<close>
     (0x36, new_op (opCallDataSize E) GasQuickStep 0 1), \<comment> \<open>CALLDATASIZE\<close>
     (0x37, new_mem (opCallDataCopy E) GasFastestStep (memoryCopierGas U 2) 3 0 (memoryCallDataCopy U)), \<comment> \<open>CALLDATACOPY\<close>
     (0x38, new_op (opCodeSize E) GasQuickStep 0 1), \<comment> \<open>CODESIZE\<close>
     (0x39, new_mem (opCodeCopy E) GasFastestStep (memoryCopierGas U 2) 3 0 (memoryCodeCopy U)), \<comment> \<open>CODECOPY\<close>
     (0x3a, new_op (opGasprice E) GasQuickStep 0 1), \<comment> \<open>GASPRICE\<close>
     (0x3b, new_op (opExtCodeSize E) 20 1 1), \<comment> \<open>EXTCODESIZE\<close>
     (0x3c, new_mem (opExtCodeCopy E) 20 (memoryCopierGas U 3) 4 0 (memoryExtCodeCopy U)), \<comment> \<open>EXTCODECOPY\<close>
     (0x40, new_op (opBlockhash E) GasExtStep 1 1), \<comment> \<open>BLOCKHASH\<close>
     (0x41, new_op (opCoinbase E) GasQuickStep 0 1), \<comment> \<open>COINBASE\<close>
     (0x42, new_op (opTimestamp E) GasQuickStep 0 1), \<comment> \<open>TIMESTAMP\<close>
     (0x43, new_op (opNumber E) GasQuickStep 0 1), \<comment> \<open>NUMBER\<close>
     (0x44, new_op (opDifficulty E) GasQuickStep 0 1), \<comment> \<open>DIFFICULTY\<close>
     (0x45, new_op (opGasLimit E) GasQuickStep 0 1)])" \<comment> \<open>GASLIMIT\<close>

definition storage_ops :: "'tr evm_env \<Rightarrow> 'tr JumpTable" where
  "storage_ops E = (let U = ev_u E in
    [(0x50, new_op opPop GasQuickStep 1 0), \<comment> \<open>POP\<close>
     (0x51, new_mem (opMload E) GasFastestStep pureMemoryGascost 1 1 (memoryMLoad U)), \<comment> \<open>MLOAD\<close>
     (0x52, new_mem (opMstore E) GasFastestStep pureMemoryGascost 2 0 (memoryMStore U)), \<comment> \<open>MSTORE\<close>
     (0x53, new_mem (opMstore8 E) GasFastestStep pureMemoryGascost 2 0 (memoryMStore8 U)), \<comment> \<open>MSTORE8\<close>
     (0x54, new_op (opSload E) 50 1 1), \<comment> \<open>SLOAD\<close>
     (0x55, (new_dyn (opSstore E) 0 (gasSStore E) 2 0)\<lparr>writes := True\<rparr>), \<comment> \<open>SSTORE\<close>
     (0x56, (new_op (opJump E) GasMidStep 1 0)\<lparr>jumps := True\<rparr>), \<comment> \<open>JUMP\<close>
     (0x57, (new_op (opJumpi E) GasSlowStep 2 0)\<lparr>jumps := True\<rparr>), \<comment> \<open>JUMPI\<close>
     (0x58, new_op (opPc E) GasQuickStep 0 1), \<comment> \<open>PC\<close>
     (0x59, new_op (opMsize E) GasQuickStep 0 1), \<comment> \<open>MSIZE\<close>
     (0x5a, new_op (opGas E) GasQuickStep 0 1), \<comment> \<open>GAS\<close>
     (0x5b, new_op opJumpdest 1 0 0), \<comment> \<open>JUMPDEST\<close>
     (0x60, new_op (opPush1 E) GasFastestStep 0 1)])" \<comment> \<open>PUSH1\<close>

definition dup_op :: "nat \<Rightarrow> 'tr operation" where
  "dup_op n = (new_op (makeDup n) GasFastestStep n (n + 1))\<lparr>op_minStack := minDupStack n, op_maxStack := maxDupStack n\<rparr>"

definition swap_op :: "nat \<Rightarrow> 'tr operation" where
  "swap_op n = (new_op (makeSwap n) GasFastestStep n n)\<lparr>op_minStack := minSwapStack (n + 1), op_maxStack := maxSwapStack (n + 1)\<rparr>"

definition log_op :: "'tr evm_env \<Rightarrow> nat \<Rightarrow> 'tr operation" where
  "log_op E n = (new_mem (makeLog E n) 0 (makeGasLog (ev_u E) (word_of_nat n)) (2 + n) 0 (memoryLog (ev_u E)))\<lparr>writes := True\<rparr>"

definition stack_ops :: "'tr evm_env \<Rightarrow> 'tr JumpTable" where
  "stack_ops E =
     map (\<lambda>n. (0x5f + word_of_nat n, new_op (makePush E n) GasFastestStep 0 1)) [2..<33] @ \<comment> \<open>PUSH2 .. PUSH32\<close>
     map (\<lambda>n. (0x7f + word_of_nat n, dup_op n)) [1..<17] @ \<comment> \<open>DUP1 .. DUP16\<close>
     map (\<lambda>n. (0x8f + word_of_nat n, swap_op n)) [1..<17] @ \<comment> \<open>SWAP1 .. SWAP16\<close>
     map (\<lambda>n. (0xa0 + word_of_nat n, log_op E n)) [0..<5]" \<comment> \<open>LOG0 .. LOG4\<close>

definition system_ops :: "'tr evm_env \<Rightarrow> 'tr evm_calls \<Rightarrow> 'tr JumpTable" where
  "system_ops E C = (let U = ev_u E in
    [(0xf0, (new_mem (opCreate E C) 32000 pureMemoryGascost 3 1 (memoryCreate U))\<lparr>writes := True, returns := True\<rparr>), \<comment> \<open>CREATE\<close>
     (CALL, (new_mem (opCall E C) 40 (gasCall E) 7 1 (memoryCall U))\<lparr>returns := True\<rparr>),
     (0xf2, (new_mem (opCallCode E C) 40 (gasCallCode E) 7 1 (memoryCall U))\<lparr>returns := True\<rparr>), \<comment> \<open>CALLCODE\<close>
     (0xf3, (new_mem (opReturn E) 0 pureMemoryGascost 2 0 (memoryReturn U))\<lparr>halts := True\<rparr>), \<comment> \<open>RETURN\<close>
     (0xff, (new_dyn (opSuicide E) 0 (gasSelfdestruct E) 1 0)\<lparr>halts := True, writes := True\<rparr>)])" \<comment> \<open>SELFDESTRUCT\<close>

definition NewFrontierInstructionSet :: "'tr evm_env \<Rightarrow> 'tr evm_calls \<Rightarrow> 'tr JumpTable" where
  "NewFrontierInstructionSet E C = arithmetic_ops E @ environment_ops E @ storage_ops E @ stack_ops E @ system_ops E C"

text \<open>\<^verbatim>\<open>instructionSet[op] = o\<close>, and a change of one field of an entry.\<close>

definition set_op :: "byte \<Rightarrow> 'tr operation \<Rightarrow> 'tr JumpTable \<Rightarrow> 'tr JumpTable" where
  "set_op op x t = (op, x) # t"

definition update_op :: "byte \<Rightarrow> ('tr operation \<Rightarrow> 'tr operation) \<Rightarrow> 'tr JumpTable \<Rightarrow> 'tr JumpTable" where
  "update_op op g t = map (\<lambda>(b, x). (b, if b = op then g x else x)) t"

definition NewHomesteadInstructionSet :: "'tr evm_env \<Rightarrow> 'tr evm_calls \<Rightarrow> 'tr JumpTable" where
  "NewHomesteadInstructionSet E C = set_op 0xf4 \<comment> \<open>DELEGATECALL\<close>
     ((new_mem (opDelegateCall E C) 40 (gasDelegateCall E) 6 1 (memoryDelegateCall (ev_u E)))\<lparr>returns := True\<rparr>)
     (NewFrontierInstructionSet E C)"

definition NewTangerineWhistleInstructionSet :: "'tr evm_env \<Rightarrow> 'tr evm_calls \<Rightarrow> 'tr JumpTable" where
  "NewTangerineWhistleInstructionSet E C =
     update_op 0xf4 (\<lambda>x. x\<lparr>constantGas := 700\<rparr>) ( \<comment> \<open>DELEGATECALL\<close>
     update_op 0xf2 (\<lambda>x. x\<lparr>constantGas := 700\<rparr>) ( \<comment> \<open>CALLCODE\<close>
     update_op CALL (\<lambda>x. x\<lparr>constantGas := 700\<rparr>) (
     update_op 0x3c (\<lambda>x. x\<lparr>constantGas := 700\<rparr>) ( \<comment> \<open>EXTCODECOPY\<close>
     update_op 0x54 (\<lambda>x. x\<lparr>constantGas := 200\<rparr>) ( \<comment> \<open>SLOAD\<close>
     update_op 0x3b (\<lambda>x. x\<lparr>constantGas := 700\<rparr>) ( \<comment> \<open>EXTCODESIZE\<close>
     update_op 0x31 (\<lambda>x. x\<lparr>constantGas := 400\<rparr>) ( \<comment> \<open>BALANCE\<close>
     NewHomesteadInstructionSet E C)))))))"

definition NewSpuriousDragonInstructionSet :: "'tr evm_env \<Rightarrow> 'tr evm_calls \<Rightarrow> 'tr JumpTable" where
  "NewSpuriousDragonInstructionSet E C = update_op 0x0a (\<lambda>x. x\<lparr>dynamicGas := Some (gasExpEIP158 (ev_u E))\<rparr>) \<comment> \<open>EXP\<close>
     (NewTangerineWhistleInstructionSet E C)"

definition NewByzantiumInstructionSet :: "'tr evm_env \<Rightarrow> 'tr evm_calls \<Rightarrow> 'tr JumpTable" where
  "NewByzantiumInstructionSet E C = (let U = ev_u E in
     set_op 0xfd ((new_mem (opRevert E) 0 pureMemoryGascost 2 0 (memoryRevert U))\<lparr>reverts := True, returns := True\<rparr>) ( \<comment> \<open>REVERT\<close>
     set_op 0x3e (new_mem (opReturnDataCopy E) GasFastestStep (memoryCopierGas U 2) 3 0 (memoryReturnDataCopy U)) ( \<comment> \<open>RETURNDATACOPY\<close>
     set_op 0x3d (new_op (opReturnDataSize E) GasQuickStep 0 1) ( \<comment> \<open>RETURNDATASIZE\<close>
     set_op 0xfa ((new_mem (opStaticCall E C) 700 (gasStaticCall E) 6 1 (memoryStaticCall U))\<lparr>returns := True\<rparr>) ( \<comment> \<open>STATICCALL\<close>
     NewSpuriousDragonInstructionSet E C)))))"

definition NewSip004InstructionSet :: "'tr evm_env \<Rightarrow> 'tr evm_calls \<Rightarrow> 'tr JumpTable" where
  "NewSip004InstructionSet E C = (let U = ev_u E in
     set_op 0x47 (new_op (opSelfBalance E) GasFastStep 0 1) ( \<comment> \<open>SELFBALANCE\<close>
     set_op 0x46 (new_op (opChainID E) GasQuickStep 0 1) ( \<comment> \<open>CHAINID\<close>
     set_op 0xf5 ((new_mem (opCreate2 E C) 32000 (gasCreate2 U) 4 1 (memoryCreate2 U))\<lparr>writes := True, returns := True\<rparr>) ( \<comment> \<open>CREATE2\<close>
     set_op 0x3f (new_op (opExtCodeHash E) 400 1 1) ( \<comment> \<open>EXTCODEHASH\<close>
     set_op 0x1d (new_op (opSAR U) GasFastestStep 2 1) ( \<comment> \<open>SAR\<close>
     set_op 0x1c (new_op (opSHR U) GasFastestStep 2 1) ( \<comment> \<open>SHR\<close>
     set_op 0x1b (new_op (opSHL U) GasFastestStep 2 1) ( \<comment> \<open>SHL\<close>
     NewByzantiumInstructionSet E C))))))))"

text \<open>The choice of \<^verbatim>\<open>NewInterpreter\<close>; no configuration of the repository sets a table of its own.\<close>

definition jump_table :: "'tr evm_env \<Rightarrow> 'tr evm_calls \<Rightarrow> 'tr JumpTable" where
  "jump_table E C = (let R = chainRules E in
     if IsSip004 (ev_config E) (Some (ev_BlockNumber E)) then NewSip004InstructionSet E C
     else if IsByzantium (ev_config E) (Some (ev_BlockNumber E)) then NewByzantiumInstructionSet E C
     else if r_IsEIP158 R then NewSpuriousDragonInstructionSet E C
     else if r_IsEIP150 R then NewTangerineWhistleInstructionSet E C
     else if IsHomestead (ev_config E) (Some (ev_BlockNumber E)) then NewHomesteadInstructionSet E C
     else NewFrontierInstructionSet E C)"

definition lookup_op :: "'tr JumpTable \<Rightarrow> byte \<Rightarrow> 'tr operation option" where
  "lookup_op t op = map_of t op"

end
