(* ===== verification/EVM_Precompiled.thy ===== *)
theory EVM_Precompiled
  imports EVM_Gas
begin

text \<open>
  The precompiled contracts (\<^verbatim>\<open>core/vm/contracts.go\<close>). SHA-256, RIPEMD-160 and the curve bn256 are the functions of
  \<open>native_lib\<close>, the recovery of public keys is that of \<open>crypto_lib\<close>.\<close>

datatype PrecompiledContract = ecrecover | sha256hash | ripemd160hash | dataCopy | bigModExp | bn256Add | bn256ScalarMul | bn256Pairing

definition PrecompiledContractsHomestead :: "address \<rightharpoonup> PrecompiledContract" where
  "PrecompiledContractsHomestead = map_of [(1, ecrecover), (2, sha256hash), (3, ripemd160hash), (4, dataCopy)]"

definition PrecompiledContractsByzantium :: "address \<rightharpoonup> PrecompiledContract" where
  "PrecompiledContractsByzantium = map_of [(1, ecrecover), (2, sha256hash), (3, ripemd160hash), (4, dataCopy),
     (5, bigModExp), (6, bn256Add), (7, bn256ScalarMul), (8, bn256Pairing)]"

definition allZero :: "byte list \<Rightarrow> bool" where
  "allZero b = list_all (\<lambda>x. x = 0) b"

definition LeftPadBytes :: "byte list \<Rightarrow> int \<Rightarrow> byte list" where
  "LeftPadBytes b l = (if l \<le> int (length b) then b else replicate (nat l - length b) 0 @ b)"

fun nat_bitlen :: "nat \<Rightarrow> nat" where
  "nat_bitlen n = (if n = 0 then 0 else 1 + nat_bitlen (n div 2))"

declare nat_bitlen.simps [simp del]

definition big_BitLen :: "int \<Rightarrow> nat" where
  "big_BitLen x = nat_bitlen (nat \<bar>x\<bar>)"

text \<open>\<^verbatim>\<open>new(big.Int).SetBytes(getData(input, start, size))\<close>\<close>

definition get_big :: "byte list \<Rightarrow> u64 \<Rightarrow> u64 \<Rightarrow> (evm_error, int) result" where
  "get_big input start sz = and_then (getData input start sz) (\<lambda>b. Inr (be_int b))"

section \<open>Gas\<close>

definition words_gas :: "byte list \<Rightarrow> u64 \<Rightarrow> u64 \<Rightarrow> u64" where
  "words_gas input perWord base = word_of_nat (length input + 31) div 32 * perWord + base"

text \<open>The first 32 bytes of the exponent.\<close>

definition modexp_head :: "byte list \<Rightarrow> int \<Rightarrow> int \<Rightarrow> (evm_error, int) result" where
  "modexp_head input baseLen expLen =
    (if int (length input) \<le> baseLen then Inr 0
     else if expLen > 32 then get_big input (big_Uint64 baseLen) 32
     else get_big input (big_Uint64 baseLen) (big_Uint64 expLen))"

definition modexp_adjExpLen :: "int \<Rightarrow> int \<Rightarrow> int" where
  "modexp_adjExpLen expLen expHead =
    (let bitlen = big_BitLen expHead; msb = if bitlen > 0 then int bitlen - 1 else 0
     in (if expLen > 32 then 8 * (expLen - 32) else 0) + msb)"

definition modexp_complexity :: "int \<Rightarrow> int" where
  "modexp_complexity x =
    (if x \<le> 64 then x * x
     else if x \<le> 1024 then x * x div 4 + (96 * x - 3072)
     else x * x div 16 + (480 * x - 199680))"

definition bigModExp_RequiredGas :: "byte list \<Rightarrow> (evm_error, u64) result" where
  "bigModExp_RequiredGas input =
    and_then (get_big input 0 32) (\<lambda>baseLen. and_then (get_big input 32 32) (\<lambda>expLen. and_then (get_big input 64 32) (\<lambda>modLen.
    and_then (modexp_head (drop 96 input) baseLen expLen) (\<lambda>expHead.
    let gas = modexp_complexity (max modLen baseLen) * max (modexp_adjExpLen expLen expHead) 1 div 20
    in Inr (if big_BitLen gas > 64 then - 1 else big_Uint64 gas)))))"

fun RequiredGas :: "PrecompiledContract \<Rightarrow> byte list \<Rightarrow> (evm_error, u64) result" where
  "RequiredGas ecrecover input = Inr 3000"
| "RequiredGas sha256hash input = Inr (words_gas input 12 60)"
| "RequiredGas ripemd160hash input = Inr (words_gas input 120 600)"
| "RequiredGas dataCopy input = Inr (words_gas input 3 15)"
| "RequiredGas bigModExp input = bigModExp_RequiredGas input"
| "RequiredGas bn256Add input = Inr 500"
| "RequiredGas bn256ScalarMul input = Inr 40000"
| "RequiredGas bn256Pairing input = Inr (100000 + word_of_nat (length input div 192) * 80000)"

section \<open>Running\<close>

definition ecrecover_Run :: "crypto_lib \<Rightarrow> byte list \<Rightarrow> (evm_error, byte list) result" where
  "ecrecover_Run K input =
    (let input = RightPadBytes input 128;
         r = be_int (take 32 (drop 64 input));
         s = be_int (take 32 (drop 96 input));
         v = input ! 63 - 27 in
     if \<not> allZero (take 31 (drop 32 input)) \<or> \<not> ValidateSignatureValues v r s False then Inr []
     else case Ecrecover K (BytesToHash (take 32 input)) (take 64 (drop 64 input) @ [v]) of
       None \<Rightarrow> Inr []
     | Some pubKey \<Rightarrow>
         if pubKey = [] then Inl (Panic ''slice bounds out of range'')
         else Inr (LeftPadBytes (drop 12 (hash_bytes (Keccak256 K (tl pubKey)))) 32))"

text \<open>\<^verbatim>\<open>x.Exp(x, y, m)\<close> for non-negative numbers, by repeated squaring.\<close>

fun mod_exp :: "int \<Rightarrow> nat \<Rightarrow> int \<Rightarrow> int" where
  "mod_exp b e m = (if e = 0 then 1 mod m
     else let h = mod_exp (b * b mod m) (e div 2) m in if e mod 2 = 1 then h * b mod m else h)"

declare mod_exp.simps [simp del]

definition bigModExp_Run :: "byte list \<Rightarrow> (evm_error, byte list) result" where
  "bigModExp_Run input =
    and_then (get_big input 0 32) (\<lambda>bl. and_then (get_big input 32 32) (\<lambda>el. and_then (get_big input 64 32) (\<lambda>ml.
    let baseLen = big_Uint64 bl; expLen = big_Uint64 el; modLen = big_Uint64 ml; input = drop 96 input in
    if baseLen = 0 \<and> modLen = 0 then Inr []
    else
      and_then (get_big input 0 baseLen) (\<lambda>base. and_then (get_big input baseLen expLen) (\<lambda>exp.
      and_then (get_big input (baseLen + expLen) modLen) (\<lambda>m.
      if big_BitLen m = 0 then Inr (LeftPadBytes [] (sint modLen))
      else Inr (LeftPadBytes (big_Bytes (mod_exp base (nat exp) m)) (sint modLen))))))))"

text \<open>An invalid point is an error of the library.\<close>

definition of_native :: "'a option \<Rightarrow> (evm_error, 'a) result" where
  "of_native x = (case x of None \<Rightarrow> Inl (Err errPrecompiled) | Some v \<Rightarrow> Inr v)"

definition bn256Add_Run :: "native_lib \<Rightarrow> byte list \<Rightarrow> (evm_error, byte list) result" where
  "bn256Add_Run N input = and_then (getData input 0 64) (\<lambda>x. and_then (getData input 64 64) (\<lambda>y. of_native (n_bn256Add N x y)))"

definition bn256ScalarMul_Run :: "native_lib \<Rightarrow> byte list \<Rightarrow> (evm_error, byte list) result" where
  "bn256ScalarMul_Run N input = and_then (getData input 0 64) (\<lambda>p. and_then (get_big input 64 32) (\<lambda>k. of_native (n_bn256ScalarMul N p k)))"

fun pairing_points :: "nat \<Rightarrow> byte list \<Rightarrow> (byte list \<times> byte list) list" where
  "pairing_points 0 input = []"
| "pairing_points (Suc n) input = (take 64 input, take 128 (drop 64 input)) # pairing_points n (drop 192 input)"

definition bn256Pairing_Run :: "native_lib \<Rightarrow> byte list \<Rightarrow> (evm_error, byte list) result" where
  "bn256Pairing_Run N input =
    (if length input mod 192 > 0 then Inl (Err errPrecompiled)
     else and_then (of_native (n_bn256Pairing N (pairing_points (length input div 192) input))) (\<lambda>ok.
       Inr (replicate 31 0 @ [if ok then 1 else 0])))"

fun Precompiled_Run :: "'tr evm_env \<Rightarrow> PrecompiledContract \<Rightarrow> byte list \<Rightarrow> (evm_error, byte list) result" where
  "Precompiled_Run E ecrecover input = ecrecover_Run (db_crypto (ev_db E)) input"
| "Precompiled_Run E sha256hash input = Inr (n_sha256 (ev_native E) input)"
| "Precompiled_Run E ripemd160hash input = Inr (LeftPadBytes (n_ripemd160 (ev_native E) input) 32)"
| "Precompiled_Run E dataCopy input = Inr input"
| "Precompiled_Run E bigModExp input = bigModExp_Run input"
| "Precompiled_Run E bn256Add input = bn256Add_Run (ev_native E) input"
| "Precompiled_Run E bn256ScalarMul input = bn256ScalarMul_Run (ev_native E) input"
| "Precompiled_Run E bn256Pairing input = bn256Pairing_Run (ev_native E) input"

text \<open>The results are the data, the error and the contract with the gas that is left.\<close>

definition RunPrecompiledContract ::
  "'tr evm_env \<Rightarrow> PrecompiledContract \<Rightarrow> byte list \<Rightarrow> Contract \<Rightarrow> (evm_error, byte list \<times> evm_error option \<times> Contract) result" where
  "RunPrecompiledContract E p input c =
    and_then (RequiredGas p input) (\<lambda>gas.
      let (ok, c') = UseGas gas c in
      if ok then
        case Precompiled_Run E p input of
          Inr ret \<Rightarrow> Inr (ret, None, c')
        | Inl (Err e) \<Rightarrow> Inr ([], Some e, c')
        | Inl (Panic m) \<Rightarrow> Inl (Panic m)
      else Inr ([], Some ErrOutOfGas, c'))"

lemma mod_exp_power: "mod_exp b e m = b ^ e mod m"
proof (induction b e m rule: mod_exp.induct)
  case (1 b e m)
  show ?case
  proof (cases "e = 0")
    case False
    have e: "e = 2 * (e div 2) + e mod 2" by simp
    have h: "mod_exp (b * b mod m) (e div 2) m = (b * b) ^ (e div 2) mod m" using 1 False by (simp add: power_mod)
    have s: "b ^ e = (b * b) ^ (e div 2) * b ^ (e mod 2)"
      by (metis e power_add power_mult power2_eq_square)
    show ?thesis using False h s by (subst mod_exp.simps) (auto simp: Let_def mod_mult_left_eq not_mod_2_eq_1_eq_0)
  qed (simp add: mod_exp.simps)
qed

end
