(* ===== verification/EVM_Run.thy ===== *)
theory EVM_Run
  imports EVM_Table EVM_Precompiled
begin

text \<open>
  The interpreter (\<^verbatim>\<open>core/vm/interpreter.go\<close>), calls and creations (\<^verbatim>\<open>core/vm/evm.go\<close>) and the functions of the context
  (\<^verbatim>\<open>core/evm.go\<close>). The loop takes fuel, of which every instruction uses one unit; a run that uses up its fuel ends
  in the panic \<open>out_of_fuel\<close>, which is not one of the code. Tracing (\<^verbatim>\<open>Debug\<close>) is off.\<close>

definition out_of_fuel :: string where
  "out_of_fuel = ''out of fuel''"

section \<open>One instruction\<close>

datatype step_result = Next | Done "byte list" "evm_error option"

definition validate_stack :: "'tr operation \<Rightarrow> ('tr, unit) frame_m" where
  "validate_stack x = bindM (readM (\<lambda>f. length (fr_stack f))) (\<lambda>sLen.
     if sLen < op_minStack x then errM (ErrStackUnderflow sLen (op_minStack x))
     else if sLen > op_maxStack x then errM (ErrStackOverflow sLen (op_maxStack x))
     else returnM ())"

definition check_writes :: "'tr evm_env \<Rightarrow> byte \<Rightarrow> 'tr operation \<Rightarrow> ('tr, unit) frame_m" where
  "check_writes E op x = bindM (readM (\<lambda>f. evm_readOnly (fr_evm f))) (\<lambda>ro.
     if ro \<and> r_IsByzantium (chainRules E) then
       if writes x then errM ErrWriteProtection
       else if op = CALL then bindM (Back 2) (\<lambda>v. if u_Sign (ev_u E) v \<noteq> 0 then errM ErrWriteProtection else returnM ())
       else returnM ()
     else returnM ())"

definition use_gas :: "u64 \<Rightarrow> ('tr, unit) frame_m" where
  "use_gas gas f = (case UseGas gas (fr_contract f) of (ok, c) \<Rightarrow>
     (if ok then Inr () else Inl (Err ErrOutOfGas), f\<lparr>fr_contract := c\<rparr>))"

definition metered :: "('tr, unit) frame_m \<Rightarrow> ('tr, unit) frame_m" where
  "metered m = bindM (readM (\<lambda>f. DisableGasMetering (fr_evm f))) (\<lambda>off. if \<not> off then m else returnM ())"

definition memory_size :: "'tr operation \<Rightarrow> ('tr, u64) frame_m" where
  "memory_size x = (case memorySize x of
     None \<Rightarrow> returnM 0
   | Some ms \<Rightarrow> bindM (readM fr_stack) (\<lambda>st. bindM (liftM (ms st)) (\<lambda>(memSize, overflow).
       if overflow then errM ErrGasUintOverflow else or_overflows (SafeMul (toWordSize memSize) 32))))"

text \<open>Any error of the price is reported as \<^verbatim>\<open>ErrOutOfGas\<close>.\<close>

definition dynamic_gas :: "'tr operation \<Rightarrow> u64 \<Rightarrow> ('tr, unit) frame_m" where
  "dynamic_gas x memSize = (case dynamicGas x of
     None \<Rightarrow> returnM ()
   | Some dyn \<Rightarrow> bindM (attemptM (dyn memSize)) (\<lambda>cost. case cost of None \<Rightarrow> errM ErrOutOfGas | Some g \<Rightarrow> use_gas g))"

definition resize_memory :: "u64 \<Rightarrow> ('tr, unit) frame_m" where
  "resize_memory memSize = (if memSize > 0 then on_mem (Memory_Resize memSize) else returnM ())"

definition prepare :: "'tr evm_env \<Rightarrow> byte \<Rightarrow> 'tr operation \<Rightarrow> ('tr, unit) frame_m" where
  "prepare E op x =
     bindM (validate_stack x) (\<lambda>_.
     bindM (check_writes E op x) (\<lambda>_.
     bindM (metered (use_gas (constantGas x))) (\<lambda>_.
     bindM (memory_size x) (\<lambda>memSize.
     bindM (metered (dynamic_gas x memSize)) (\<lambda>_.
     resize_memory memSize)))))"

definition set_returnData :: "'tr operation \<Rightarrow> byte list \<Rightarrow> 'tr frame \<Rightarrow> 'tr frame" where
  "set_returnData x res f = (if returns x then f\<lparr>fr_evm := (fr_evm f)\<lparr>evm_returnData := res\<rparr>\<rparr> else f)"

text \<open>An instruction that fails returns no data.\<close>

definition execute_op :: "'tr operation \<Rightarrow> ('tr, step_result) frame_m" where
  "execute_op x f =
    (case execute x f of
       (Inl (Panic m), f') \<Rightarrow> (Inl (Panic m), f')
     | (Inl (Err e), f') \<Rightarrow> (Inr (Done [] (Some e)), set_returnData x [] f')
     | (Inr res, f') \<Rightarrow>
         let f'' = set_returnData x res f' in
         if reverts x then (Inr (Done res (Some ErrExecutionReverted)), f'')
         else if halts x then (Inr (Done res None), f'')
         else if \<not> jumps x then (Inr Next, f''\<lparr>fr_pc := fr_pc f'' + 1\<rparr>)
         else (Inr Next, f''))"

definition interpreter_step :: "'tr evm_env \<Rightarrow> 'tr evm_calls \<Rightarrow> ('tr, step_result) frame_m" where
  "interpreter_step E C f =
    (let op = GetOp (fr_contract f) (fr_pc f) in
     case lookup_op (jump_table E C) op of
       None \<Rightarrow> (Inr (Done [] (Some (ErrInvalidOpCode op))), f)
     | Some x \<Rightarrow>
         case prepare E op x f of
           (Inl (Panic m), f') \<Rightarrow> (Inl (Panic m), f')
         | (Inl (Err e), f') \<Rightarrow> (Inr (Done [] (Some e)), f')
         | (Inr _, f') \<Rightarrow> execute_op x f')"

section \<open>The context\<close>

definition CanTransfer :: "'tr evm_env \<Rightarrow> address \<Rightarrow> int \<Rightarrow> ('tr, bool) evm_m" where
  "CanTransfer E addr amount = bindM (on_state (GetBalance (ev_db E) addr)) (\<lambda>b. returnM (b \<ge> amount))"

definition Transfer :: "'tr evm_env \<Rightarrow> address \<Rightarrow> address \<Rightarrow> int \<Rightarrow> ('tr, unit) evm_m" where
  "Transfer E sender recipient amount = bindM (on_state (SubBalance (ev_db E) sender amount)) (\<lambda>_.
     on_state (AddBalance (ev_db E) recipient amount))"

section \<open>Running a contract\<close>

type_synonym 'tr runner = "('tr, byte list \<times> evm_error option) frame_m"

definition new_frame :: "Contract \<Rightarrow> 'tr EVM \<Rightarrow> 'tr frame" where
  "new_frame c e = \<lparr>fr_pc = 0, fr_stack = [], fr_mem = NewMemory, fr_contract = c, fr_evm = e\<rparr>"

text \<open>The results are those of \<^verbatim>\<open>Run\<close> and the contract as it leaves it. \<open>L\<close> is the loop.\<close>

definition Interpreter_Run :: "'tr runner \<Rightarrow> Contract \<Rightarrow> byte list \<Rightarrow> ('tr, byte list \<times> evm_error option \<times> Contract) evm_m" where
  "Interpreter_Run L contract input e =
    (let e1 = e\<lparr>evm_depth := evm_depth e + 1, evm_returnData := []\<rparr>;
         leave = (\<lambda>e. e\<lparr>evm_depth := evm_depth e - 1\<rparr>) in
     if c_Code contract = [] then (Inr ([], None, contract), leave e1)
     else case L (new_frame (contract\<lparr>c_Input := input\<rparr>) e1) of
       (Inl x, f) \<Rightarrow> (Inl x, leave (fr_evm f))
     | (Inr (ret, err), f) \<Rightarrow> (Inr (ret, err, fr_contract f), leave (fr_evm f)))"

definition precompiles :: "'tr evm_env \<Rightarrow> address \<rightharpoonup> PrecompiledContract" where
  "precompiles E = (if IsByzantium (ev_config E) (Some (ev_BlockNumber E)) then PrecompiledContractsByzantium else PrecompiledContractsHomestead)"

definition precompile_of :: "'tr evm_env \<Rightarrow> Contract \<Rightarrow> PrecompiledContract option" where
  "precompile_of E c = (case CodeAddr c of None \<Rightarrow> None | Some a \<Rightarrow> precompiles E a)"

text \<open>\<^verbatim>\<open>params.IsChiefAddress\<close> reads the list of chief contracts, which it may have to build.\<close>

definition chief_address :: "'tr evm_env \<Rightarrow> address \<Rightarrow> ('tr, bool) evm_m" where
  "chief_address E a e = (case IsChiefAddress (db_getenv (ev_db E)) (chief_list (evm_sdb e)) a of
     (yes, l) \<Rightarrow> (Inr yes, e\<lparr>evm_sdb := (evm_sdb e)\<lparr>chief_list := l\<rparr>\<rparr>))"

definition choose_metering :: "'tr evm_env \<Rightarrow> Contract \<Rightarrow> ('tr, unit) evm_m" where
  "choose_metering E contract = bindM (readM createSync) (\<lambda>creating.
     let byCreate = CallerAddress contract \<noteq> 0 \<and> CallerAddress contract \<in> creating in
     if byCreate then modifyM (\<lambda>e. e\<lparr>DisableGasMetering := False\<rparr>)
     else bindM (chief_address E (c_self contract)) (\<lambda>chief.
       modifyM (\<lambda>e. e\<lparr>DisableGasMetering := chief \<or> IsChiefCalled (CallerAddress contract) (c_self contract)\<rparr>)))"

definition evm_run :: "'tr evm_env \<Rightarrow> 'tr runner \<Rightarrow> Contract \<Rightarrow> byte list \<Rightarrow> ('tr, byte list \<times> evm_error option \<times> Contract) evm_m" where
  "evm_run E L contract input =
    (case precompile_of E contract of
       Some p \<Rightarrow> liftM (RunPrecompiledContract E p input contract)
     | None \<Rightarrow> bindM (choose_metering E contract) (\<lambda>_. Interpreter_Run L contract input))"

text \<open>The address that is created is in \<^verbatim>\<open>createSync\<close> while its code runs; \<^verbatim>\<open>CodeAddr\<close> is never nil here.\<close>

definition createRun :: "'tr evm_env \<Rightarrow> 'tr runner \<Rightarrow> Contract \<Rightarrow> byte list \<Rightarrow> ('tr, byte list \<times> evm_error option \<times> Contract) evm_m" where
  "createRun E L contract input =
    (case precompile_of E contract of
       Some p \<Rightarrow> liftM (RunPrecompiledContract E p input contract)
     | None \<Rightarrow>
         case CodeAddr contract of
           None \<Rightarrow> panicM ''invalid memory address or nil pointer dereference''
         | Some a \<Rightarrow>
             bindM (modifyM (\<lambda>e. e\<lparr>createSync := insert a (createSync e)\<rparr>)) (\<lambda>_.
             bindM (Interpreter_Run L contract input) (\<lambda>r.
             bindM (modifyM (\<lambda>e. e\<lparr>createSync := createSync e - {a}\<rparr>)) (\<lambda>_. returnM r))))"

section \<open>Calls\<close>

text \<open>\<^verbatim>\<open>NewContract\<close>: a caller that is not a contract starts with no analysed code.\<close>

definition new_contract :: "ContractRef \<Rightarrow> address \<Rightarrow> int option \<Rightarrow> u64 \<Rightarrow> ('tr, Contract) evm_m" where
  "new_contract caller object val gas = bindM (case caller of
       AccountRef _ \<Rightarrow> modifyM (\<lambda>e. e\<lparr>jumpdests := Map.empty\<rparr>)
     | ContractOf _ \<Rightarrow> returnM ()) (\<lambda>_. returnM (NewContract caller object val gas))"

text \<open>\<^verbatim>\<open>contract.SetCallCode(&addr, evm.StateDB.GetCodeHash(addr), evm.StateDB.GetCode(addr))\<close>\<close>

definition load_code :: "'tr evm_env \<Rightarrow> address \<Rightarrow> Contract \<Rightarrow> ('tr, Contract) evm_m" where
  "load_code E addr c = bindM (on_state (GetCodeHash (ev_db E) addr)) (\<lambda>h. bindM (on_state (GetCode (ev_db E) addr)) (\<lambda>code.
     returnM (SetCallCode addr h (nil_bytes code) c)))"

text \<open>What all calls do when the contract has run.\<close>

definition end_call :: "'tr evm_env \<Rightarrow> int \<Rightarrow> byte list \<times> evm_error option \<times> Contract \<Rightarrow> ('tr, byte list \<times> u64 \<times> evm_error option) evm_m" where
  "end_call E snapshot = (\<lambda>(ret, err, c).
     if err \<noteq> None then bindM (on_state (RevertToSnapshot (ev_db E) snapshot)) (\<lambda>_.
       returnM (ret, c_Gas (if err \<noteq> Some ErrExecutionReverted then snd (UseGas (c_Gas c) c) else c), err))
     else returnM (ret, c_Gas c, err))"

text \<open>The checks before a call; \<open>limit\<close> is \<^verbatim>\<open>params.CallCreateDepth\<close>.\<close>

definition guarded :: "'tr evm_env \<Rightarrow> u64 \<Rightarrow> ('tr, byte list \<times> u64 \<times> evm_error option) evm_m \<Rightarrow> ('tr, byte list \<times> u64 \<times> evm_error option) evm_m" where
  "guarded E gas m = bindM (readM evm_depth) (\<lambda>depth.
     if NoRecursion E \<and> depth > 0 then returnM ([], gas, None)
     else if depth > 1024 then returnM ([], gas, Some ErrDepth)
     else m)"

definition evm_Call :: "'tr evm_env \<Rightarrow> 'tr runner \<Rightarrow> ContractRef \<Rightarrow> address \<Rightarrow> byte list \<Rightarrow> u64 \<Rightarrow> int \<Rightarrow>
    ('tr, byte list \<times> u64 \<times> evm_error option) evm_m" where
  "evm_Call E L caller addr input gas val = guarded E gas (
     bindM (CanTransfer E (ref_Address caller) val) (\<lambda>ok.
     if \<not> ok then returnM ([], gas, Some ErrInsufficientBalance)
     else
       bindM (on_state Snapshot) (\<lambda>snapshot.
       bindM (on_state (Exist (ev_db E) addr)) (\<lambda>exists.
       if \<not> exists \<and> precompiles E addr = None \<and> IsEIP158 (ev_config E) (Some (ev_BlockNumber E)) \<and> val = 0 then returnM ([], gas, None)
       else
         bindM (if \<not> exists then on_state (CreateAccount (ev_db E) addr) else returnM ()) (\<lambda>_.
         bindM (Transfer E (ref_Address caller) addr val) (\<lambda>_.
         bindM (new_contract caller addr (Some val) gas) (\<lambda>contract.
         bindM (load_code E addr contract) (\<lambda>contract.
         bindM (evm_run E L contract input) (end_call E snapshot)))))))))"

definition evm_CallCode :: "'tr evm_env \<Rightarrow> 'tr runner \<Rightarrow> ContractRef \<Rightarrow> address \<Rightarrow> byte list \<Rightarrow> u64 \<Rightarrow> int \<Rightarrow>
    ('tr, byte list \<times> u64 \<times> evm_error option) evm_m" where
  "evm_CallCode E L caller addr input gas val = guarded E gas (
     bindM (CanTransfer E (ref_Address caller) val) (\<lambda>ok.
     if \<not> ok then returnM ([], gas, Some ErrInsufficientBalance)
     else
       bindM (on_state Snapshot) (\<lambda>snapshot.
       bindM (new_contract caller (ref_Address caller) (Some val) gas) (\<lambda>contract.
       bindM (load_code E addr contract) (\<lambda>contract.
       bindM (evm_run E L contract input) (end_call E snapshot))))))"

definition evm_DelegateCall :: "'tr evm_env \<Rightarrow> 'tr runner \<Rightarrow> ContractRef \<Rightarrow> address \<Rightarrow> byte list \<Rightarrow> u64 \<Rightarrow>
    ('tr, byte list \<times> u64 \<times> evm_error option) evm_m" where
  "evm_DelegateCall E L caller addr input gas = guarded E gas (
     bindM (on_state Snapshot) (\<lambda>snapshot.
     bindM (new_contract caller (ref_Address caller) None gas) (\<lambda>contract.
     bindM (liftM (AsDelegate caller contract)) (\<lambda>contract.
     bindM (load_code E addr contract) (\<lambda>contract.
     bindM (evm_run E L contract input) (end_call E snapshot))))))"

definition evm_StaticCall :: "'tr evm_env \<Rightarrow> 'tr runner \<Rightarrow> ContractRef \<Rightarrow> address \<Rightarrow> byte list \<Rightarrow> u64 \<Rightarrow>
    ('tr, byte list \<times> u64 \<times> evm_error option) evm_m" where
  "evm_StaticCall E L caller addr input gas = guarded E gas (
     bindM (readM evm_readOnly) (\<lambda>ro.
     bindM (modifyM (\<lambda>e. e\<lparr>evm_readOnly := True\<rparr>)) (\<lambda>_.
     bindM (on_state Snapshot) (\<lambda>snapshot.
     bindM (new_contract caller addr (Some 0) gas) (\<lambda>contract.
     bindM (load_code E addr contract) (\<lambda>contract.
     bindM (evm_run E L contract input) (\<lambda>r.
     bindM (end_call E snapshot r) (\<lambda>res.
     bindM (modifyM (\<lambda>e. e\<lparr>evm_readOnly := ro\<rparr>)) (\<lambda>_. returnM res)))))))))"

section \<open>Creations\<close>

definition CreateAddress :: "crypto_lib \<Rightarrow> address \<Rightarrow> u64 \<Rightarrow> address" where
  "CreateAddress K b nonce = BytesToAddress (drop 12 (hash_bytes (Keccak256 K
     (case EncodeToBytes (RList [RBytes (address_bytes b), RUint nonce]) of Inl _ \<Rightarrow> [] | Inr data \<Rightarrow> data))))"

definition CreateAddress2 :: "crypto_lib \<Rightarrow> address \<Rightarrow> hash \<Rightarrow> byte list \<Rightarrow> address" where
  "CreateAddress2 K b salt inithash = BytesToAddress (drop 12 (hash_bytes (Keccak256 K ([0xff] @ address_bytes b @ hash_bytes salt @ inithash))))"

text \<open>Storing the code that the constructor returned; data of length zero is a nil slice here.\<close>

definition store_code :: "'tr evm_env \<Rightarrow> address \<Rightarrow> bool \<Rightarrow> byte list \<times> evm_error option \<times> Contract \<Rightarrow>
    ('tr, evm_error option \<times> Contract) evm_m" where
  "store_code E contractAddr maxCodeSizeExceeded = (\<lambda>(ret, err, c).
     if err = None \<and> \<not> maxCodeSizeExceeded then
       let (ok, c') = UseGas (word_of_nat (length ret) * 200) c in
       if ok then bindM (on_state (SetCode (ev_db E) contractAddr (if ret = [] then None else Some ret))) (\<lambda>_. returnM (err, c'))
       else returnM (Some ErrCodeStoreOutOfGas, c')
     else returnM (err, c))"

definition end_create :: "'tr evm_env \<Rightarrow> int \<Rightarrow> address \<Rightarrow> byte list \<times> evm_error option \<times> Contract \<Rightarrow>
    ('tr, byte list \<times> address \<times> u64 \<times> evm_error option) evm_m" where
  "end_create E snapshot contractAddr = (\<lambda>(ret, err, c).
     let maxCodeSizeExceeded = IsEIP158 (ev_config E) (Some (ev_BlockNumber E)) \<and> length ret > 24576 in
     bindM (store_code E contractAddr maxCodeSizeExceeded (ret, err, c)) (\<lambda>(err, c).
     bindM (if maxCodeSizeExceeded \<or> err \<noteq> None \<and> (IsHomestead (ev_config E) (Some (ev_BlockNumber E)) \<or> err \<noteq> Some ErrCodeStoreOutOfGas) then
              bindM (on_state (RevertToSnapshot (ev_db E) snapshot)) (\<lambda>_.
                returnM (if err \<noteq> Some ErrExecutionReverted then snd (UseGas (c_Gas c) c) else c))
            else returnM c) (\<lambda>c.
     returnM (ret, contractAddr, c_Gas c, if maxCodeSizeExceeded \<and> err = None then Some ErrMaxCodeSizeExceeded else err))))"

definition evm_create :: "'tr evm_env \<Rightarrow> 'tr runner \<Rightarrow> ContractRef \<Rightarrow> byte list \<Rightarrow> u64 \<Rightarrow> int \<Rightarrow> address \<Rightarrow>
    ('tr, byte list \<times> address \<times> u64 \<times> evm_error option) evm_m" where
  "evm_create E L caller code gas val contractAddr =
     bindM (readM evm_depth) (\<lambda>depth.
     if depth > 1024 then returnM ([], 0, gas, Some ErrDepth)
     else bindM (CanTransfer E (ref_Address caller) val) (\<lambda>ok.
     if \<not> ok then returnM ([], 0, gas, Some ErrInsufficientBalance)
     else
       bindM (on_state (GetNonce (ev_db E) (ref_Address caller))) (\<lambda>nonce.
       bindM (on_state (SetNonce (ev_db E) (ref_Address caller) (nonce + 1))) (\<lambda>_.
       bindM (on_state (GetCodeHash (ev_db E) contractAddr)) (\<lambda>contractHash.
       bindM (on_state (GetNonce (ev_db E) contractAddr)) (\<lambda>n.
       if n \<noteq> 0 \<or> contractHash \<noteq> 0 \<and> contractHash \<noteq> Keccak256Hash (db_crypto (ev_db E)) [] then
         returnM ([], 0, 0, Some ErrContractAddressCollision)
       else
         bindM (on_state Snapshot) (\<lambda>snapshot.
         bindM (on_state (CreateAccount (ev_db E) contractAddr)) (\<lambda>_.
         bindM (if IsEIP158 (ev_config E) (Some (ev_BlockNumber E)) then on_state (SetNonce (ev_db E) contractAddr 1) else returnM ()) (\<lambda>_.
         bindM (Transfer E (ref_Address caller) contractAddr val) (\<lambda>_.
         bindM (new_contract caller contractAddr (Some val) gas) (\<lambda>contract.
         let contract = SetCallCode contractAddr (Keccak256Hash (db_crypto (ev_db E)) code) code contract in
         if NoRecursion E \<and> depth > 0 then returnM ([], contractAddr, gas, None)
         else bindM (createRun E L contract []) (end_create E snapshot contractAddr))))))))))))"

definition evm_Create :: "'tr evm_env \<Rightarrow> 'tr runner \<Rightarrow> ContractRef \<Rightarrow> byte list \<Rightarrow> u64 \<Rightarrow> int \<Rightarrow>
    ('tr, byte list \<times> address \<times> u64 \<times> evm_error option) evm_m" where
  "evm_Create E L caller code gas val = bindM (on_state (GetNonce (ev_db E) (ref_Address caller))) (\<lambda>nonce.
     evm_create E L caller code gas val (CreateAddress (db_crypto (ev_db E)) (ref_Address caller) nonce))"

definition evm_Create2 :: "'tr evm_env \<Rightarrow> 'tr runner \<Rightarrow> ContractRef \<Rightarrow> byte list \<Rightarrow> u64 \<Rightarrow> int \<Rightarrow> u256 \<Rightarrow>
    ('tr, byte list \<times> address \<times> u64 \<times> evm_error option) evm_m" where
  "evm_Create2 E L caller code gas endowment salt = evm_create E L caller code gas endowment
     (CreateAddress2 (db_crypto (ev_db E)) (ref_Address caller) (u_Bytes32 (ev_u E) salt)
       (hash_bytes (Keccak256Hash (db_crypto (ev_db E)) code)))"

section \<open>The loop\<close>

definition calls :: "'tr evm_env \<Rightarrow> 'tr runner \<Rightarrow> 'tr evm_calls" where
  "calls E L = \<lparr>cl_Call = evm_Call E L, cl_CallCode = evm_CallCode E L, cl_DelegateCall = evm_DelegateCall E L,
     cl_StaticCall = evm_StaticCall E L, cl_Create = evm_Create E L, cl_Create2 = evm_Create2 E L\<rparr>"

primrec interpreter_loop :: "'tr evm_env \<Rightarrow> nat \<Rightarrow> nat \<Rightarrow> 'tr runner" where
  "interpreter_loop E 0 steps f = (Inl (Panic out_of_fuel), f)"
| "interpreter_loop E (Suc n) steps f =
    (if (steps + 1) mod 1000 = 0 \<and> evm_abort (fr_evm f) then (Inr ([], None), f)
     else case interpreter_step E (calls E (interpreter_loop E n 0)) f of
       (Inl x, f') \<Rightarrow> (Inl x, f')
     | (Inr (Done ret err), f') \<Rightarrow> (Inr (ret, err), f')
     | (Inr Next, f') \<Rightarrow> interpreter_loop E n (steps + 1) f')"

text \<open>The methods of a machine, with fuel \<open>n\<close>.\<close>

definition Call :: "'tr evm_env \<Rightarrow> nat \<Rightarrow> ContractRef \<Rightarrow> address \<Rightarrow> byte list \<Rightarrow> u64 \<Rightarrow> int \<Rightarrow> ('tr, byte list \<times> u64 \<times> evm_error option) evm_m" where
  "Call E n = evm_Call E (interpreter_loop E n 0)"

definition Create :: "'tr evm_env \<Rightarrow> nat \<Rightarrow> ContractRef \<Rightarrow> byte list \<Rightarrow> u64 \<Rightarrow> int \<Rightarrow> ('tr, byte list \<times> address \<times> u64 \<times> evm_error option) evm_m" where
  "Create E n = evm_Create E (interpreter_loop E n 0)"

definition Cancel :: "'tr EVM \<Rightarrow> 'tr EVM" where
  "Cancel e = e\<lparr>evm_abort := True\<rparr>"

text \<open>\<open>creating\<close> is the state of \<^verbatim>\<open>createSync\<close>, which all machines share.\<close>

definition NewEVM :: "'tr StateDB \<Rightarrow> bool \<Rightarrow> address set \<Rightarrow> 'tr EVM" where
  "NewEVM statedb disableGasMetering creating = \<lparr>evm_sdb = statedb, evm_depth = 0, evm_readOnly = False, evm_returnData = [],
     DisableGasMetering = disableGasMetering, callGasTemp = 0, createSync = creating, jumpdests = Map.empty, evm_abort = False\<rparr>"

end
