(* ===== verification/EVM_Stack.thy ===== *)
theory EVM_Stack
  imports EVM_Run
begin

text \<open>
  The stack discipline of the machine: the limits in the instruction sets are those of the instructions, so no
  instruction reads below the bottom of the stack or leaves more than 1024 items.\<close>

section \<open>Effects on the stack\<close>

definition no_fault :: "(evm_error, 'a) result \<Rightarrow> bool" where
  "no_fault r \<longleftrightarrow> r \<noteq> Inl (Panic stack_fault)"

definition quiet :: "('s, evm_error, 'a) go \<Rightarrow> bool" where
  "quiet m \<longleftrightarrow> (\<forall>s. no_fault (fst (m s)))"

text \<open>Of \<open>a\<close> items and those below them, \<open>b\<close> and those below are left.\<close>

definition effect :: "nat \<Rightarrow> nat \<Rightarrow> ('tr, 'a) frame_m \<Rightarrow> bool" where
  "effect a b m \<longleftrightarrow> (\<forall>f k. length (fr_stack f) = a + k \<longrightarrow>
     no_fault (fst (m f)) \<and> (\<forall>v. fst (m f) = Inr v \<longrightarrow> length (fr_stack (snd (m f))) = b + k))"

named_theorems effect_intros

lemma no_fault_simps [simp]:
  "no_fault (Inr v)" "no_fault (Inl x) \<longleftrightarrow> x \<noteq> Panic stack_fault"
  by (simp_all add: no_fault_def)

lemma bindM_cases: "bindM m k s = (case fst (m s) of Inl e \<Rightarrow> (Inl e, snd (m s)) | Inr v \<Rightarrow> k v (snd (m s)))"
  by (cases "m s"; cases "fst (m s)") (auto simp: bindM_def)

lemma no_fault_and_then: "no_fault r \<Longrightarrow> (\<And>v. r = Inr v \<Longrightarrow> no_fault (g v)) \<Longrightarrow> no_fault (and_then r g)"
  by (cases r) (auto simp: no_fault_def)

lemma effectD:
  assumes "effect a b m" "length (fr_stack f) = a + k" "m f = (r, f')"
  shows "no_fault r" "r = Inr v \<Longrightarrow> length (fr_stack f') = b + k"
  using assms unfolding effect_def by fastforce+

lemma effect_bind [effect_intros]:
  assumes "effect a b m" "\<And>v. effect b c (k v)"
  shows "effect a c (bindM m k)"
proof -
  have "no_fault (fst (bindM m k f)) \<and> (\<forall>v. fst (bindM m k f) = Inr v \<longrightarrow> length (fr_stack (snd (bindM m k f))) = c + j)"
    if l: "length (fr_stack f) = a + j" for f j
  proof -
    obtain r f1 where m: "m f = (r, f1)" by fastforce
    note e = effectD[OF assms(1) l m]
    show ?thesis
    proof (cases r)
      case (Inl x)
      then show ?thesis using e(1) m by (auto simp: bindM_def no_fault_def)
    next
      case (Inr v)
      then have "length (fr_stack f1) = b + j" using e(2) by simp
      moreover have "bindM m k f = k v f1" using Inr m by (simp add: bindM_def)
      ultimately show ?thesis using assms(2)[of v] by (simp add: effect_def)
    qed
  qed
  then show ?thesis by (auto simp: effect_def)
qed

lemma effect_shift:
  assumes "effect a b m"
  shows "effect (a + j) (b + j) m"
proof -
  have "no_fault (fst (m f)) \<and> (\<forall>v. fst (m f) = Inr v \<longrightarrow> length (fr_stack (snd (m f))) = b + j + k)"
    if "length (fr_stack f) = a + j + k" for f k
  proof -
    have "length (fr_stack f) = a + (j + k)" using that by simp
    from assms[unfolded effect_def, rule_format, OF this] show ?thesis by (simp add: add.assoc)
  qed
  then show ?thesis by (simp add: effect_def)
qed

text \<open>What does not change the stack and does not read it.\<close>

definition apart :: "('tr, 'a) frame_m \<Rightarrow> bool" where
  "apart m \<longleftrightarrow> (\<forall>f. no_fault (fst (m f)) \<and> fr_stack (snd (m f)) = fr_stack f)"

lemma effect_apart: "apart m \<Longrightarrow> effect a a m"
  by (auto simp: effect_def apart_def)

lemma apart_bind:
  assumes "apart m" "\<And>v. apart (k v)"
  shows "apart (bindM m k)"
proof -
  have "no_fault (fst (bindM m k f)) \<and> fr_stack (snd (bindM m k f)) = fr_stack f" for f
  proof (cases "fst (m f)")
    case (Inl x)
    then show ?thesis using assms(1)[unfolded apart_def, rule_format, of f] by (simp add: bindM_cases)
  next
    case (Inr v)
    then show ?thesis using assms by (simp add: apart_def bindM_cases)
  qed
  then show ?thesis by (simp add: apart_def)
qed

lemma no_fault_segment: "no_fault (codeSegment a p)"
  by (simp add: codeSegment_def stack_fault_def)

lemma apart_isCode [effect_intros]: "apart (isCode u)"
proof -
  have "no_fault (fst (isCode u f)) \<and> fr_stack (snd (isCode u f)) = fr_stack f" for f :: "'a frame"
  proof -
    obtain a where "codeBitmap (c_Code (fr_contract f)) = Inr a" using codeBitmap_ok by blast
    then show ?thesis using no_fault_segment by (simp add: isCode_def Let_def split: option.split)
  qed
  then show ?thesis by (simp add: apart_def)
qed

lemma apart_simps [effect_intros]:
  "apart (returnM v)" "apart (errM e)" "apart (readM g)" "apart (contract_of h)" "apart (on_contract g')" "apart (set_pc p)"
  "apart (or_overflows r)" "apart (mem_gas n)"
  by (auto simp: apart_def contract_of_def on_contract_def set_pc_def or_overflows_def mem_gas_def memoryGasCost_def Let_def
      split: sum.splits prod.splits if_splits)

lemma apart_lift: "no_fault r \<Longrightarrow> apart (liftM r)"
  by (simp add: apart_def)

lemma apart_on_evm [effect_intros]: "quiet m \<Longrightarrow> apart (on_evm m)"
  by (simp add: apart_def on_evm_def quiet_def case_prod_unfold)

lemma quiet_on_state [effect_intros]: "quiet (on_state m)"
  by (auto simp: quiet_def on_state_def stack_fault_def split: prod.split sum.split fault.split)

lemma apart_on_mem:
  assumes "\<And>m. no_fault (g m)"
  shows "apart (on_mem g)"
proof -
  have "no_fault (fst (on_mem g f)) \<and> fr_stack (snd (on_mem g f)) = fr_stack f" for f :: "'a frame"
    using assms[of "fr_mem f"] by (cases "g (fr_mem f)") (simp_all add: on_mem_def)
  then show ?thesis by (simp add: apart_def)
qed

lemma apart_read_mem: "(\<And>m. no_fault (g m)) \<Longrightarrow> apart (read_mem g)"
  by (auto simp: apart_def read_mem_def)

lemma effect_leaf [effect_intros]:
  "effect a a (returnM v)" "effect a a (readM g)" "effect a a (contract_of h)" "effect a a (on_contract g')" "effect a a (set_pc p)"
  "effect a a (or_overflows r)" "effect a a (mem_gas n)" "effect a a (isCode u)"
  by (rule effect_apart, rule apart_simps apart_isCode)+

lemma effect_on_evm [effect_intros]: "quiet m \<Longrightarrow> effect a a (on_evm m)"
  by (simp add: effect_apart apart_on_evm)

lemma effect_err [effect_intros]: "effect a b (errM e)"
  by (simp add: effect_def)

lemma effect_stack [effect_intros]:
  "effect (Suc a) a pop" "effect a (Suc a) (push x)" "effect (Suc a) (Suc a) peek" "effect (Suc a) (Suc a) (set_peek x)"
  by (auto simp: effect_def pop_def push_def peek_def set_peek_def stack_pop_def stack_push_def stack_peek_def stack_Back_def split: list.split)

lemma effect_Back [effect_intros]: "n < a \<Longrightarrow> effect a a (Back n)"
  by (auto simp: effect_def Back_def stack_Back_def)

lemma effect_dup: "0 < n \<Longrightarrow> n \<le> a \<Longrightarrow> effect a (Suc a) (on_stack (stack_dup n))"
  by (auto simp: effect_def on_stack_def stack_dup_def stack_push_def)

lemma effect_swap: "0 < n \<Longrightarrow> n \<le> a \<Longrightarrow> effect a a (on_stack (stack_swap n))"
  by (auto simp: effect_def on_stack_def stack_swap_def)

lemma effect_modify [effect_intros]: "effect a a (modifyM (\<lambda>f. f\<lparr>fr_pc := p f\<rparr>))"
  by (simp add: effect_def)

lemma effect_control [effect_intros]:
  "effect a b m \<Longrightarrow> effect a b m' \<Longrightarrow> effect a b (if c then m else m')"
  "(\<And>x. effect a b (g x)) \<Longrightarrow> effect a b (Let v g)"
  "(\<And>x y. effect a b (h x y)) \<Longrightarrow> effect a b (case p of (x, y) \<Rightarrow> h x y)"
  "(\<And>n. effect a b (j n)) \<Longrightarrow> effect a b (on_big q j)"
  by (auto simp: Let_def on_big_def panicM_def effect_def stack_fault_def split: prod.split option.split)

lemma no_fault_slice: "no_fault (slice b lo hi)"
  by (simp add: slice_def stack_fault_def)

lemma no_fault_data:
  "no_fault (getData b st n)" "no_fault (Memory_GetPtr i j m)" "no_fault (Memory_GetCopy i j m)" "no_fault (Memory_Set o1 n v m)"
  "no_fault (Memory_Set32 U o1 w m)" "no_fault (Memory_set_byte o1 y m)" "no_fault (Memory_Resize n m)"
  by (auto simp: getData_def Let_def Memory_GetPtr_def Memory_GetCopy_def Memory_Set_def Memory_Set32_def Memory_set_byte_def Memory_Resize_def
      stack_fault_def no_fault_slice intro!: no_fault_and_then)

lemma effect_data [effect_intros]:
  "effect a a (liftM (getData b st n))" "effect a a (liftM (slice b lo hi))" "effect a a (read_mem (Memory_GetPtr i j))"
  "effect a a (read_mem (Memory_GetCopy i j))" "effect a a (on_mem (Memory_Set o1 n v))" "effect a a (on_mem (Memory_Set32 U o1 w))"
  "effect a a (on_mem (Memory_set_byte o1 y))" "effect a a (on_mem (Memory_Resize n))"
  by (intro effect_apart apart_lift apart_read_mem apart_on_mem no_fault_data no_fault_slice)+

section \<open>The instructions\<close>

lemma effect_done: "effect a b m \<Longrightarrow> effect a b (done_op m)"
  unfolding done_op_def by (rule effect_bind, assumption, rule effect_leaf)

lemma effect_op [effect_intros]:
  "effect 2 1 (op_2 g2)" "effect 1 1 (op_1 g1)" "effect 3 1 (op_3 g3)"
  unfolding op_2_def op_1_def op_3_def numeral_2_eq_2 numeral_3_eq_3 One_nat_def by ((rule effect_done effect_intros)+)

lemmas arithmetic_defs = opAdd_def opSub_def opMul_def opDiv_def opSdiv_def opMod_def opSmod_def opExp_def opSignExtend_def opNot_def
  opLt_def opGt_def opSlt_def opSgt_def opEq_def opIszero_def opAnd_def opOr_def opXor_def opByte_def opAddmod_def opMulmod_def
  opSHL_def opSHR_def opSAR_def

lemma effect_push_ops:
  "effect 0 1 (opAddress E)" "effect 0 1 (opOrigin E)" "effect 0 1 (opCaller E)" "effect 0 1 (opCallValue E)" "effect 0 1 (opCallDataSize E)"
  "effect 0 1 (opReturnDataSize E)" "effect 0 1 (opCodeSize E)" "effect 0 1 (opGasprice E)" "effect 0 1 (opCoinbase E)" "effect 0 1 (opTimestamp E)"
  "effect 0 1 (opNumber E)" "effect 0 1 (opDifficulty E)" "effect 0 1 (opGasLimit E)" "effect 0 1 (opChainID E)" "effect 0 1 (opSelfBalance E)"
  "effect 0 1 (opPc E)" "effect 0 1 (opMsize E)" "effect 0 1 (opGas E)" "effect 0 1 (opPush1 E)" "effect 0 1 (makePush E n)"
  unfolding opAddress_def opOrigin_def opCaller_def opCallValue_def opCallDataSize_def opReturnDataSize_def opCodeSize_def opGasprice_def opCoinbase_def
    opTimestamp_def opNumber_def opDifficulty_def opGasLimit_def opChainID_def opSelfBalance_def opPc_def opMsize_def opGas_def opPush1_def makePush_def
    One_nat_def
  by ((rule effect_done effect_intros)+)

lemma effect_validJumpdest [effect_intros]: "effect a a (validJumpdest U d)"
  unfolding validJumpdest_def by ((rule effect_intros)+)

lemma effect_get [effect_intros]: "effect a a (get_ptr U x y)" "effect a a (get_copy U x y)"
  unfolding get_ptr_def get_copy_def by ((rule effect_intros)+)

lemma effect_read_ops:
  "effect 1 1 (opBalance E)" "effect 1 1 (opCallDataLoad E)" "effect 1 1 (opExtCodeSize E)" "effect 1 1 (opExtCodeHash E)"
  "effect 1 1 (opBlockhash E)" "effect 1 1 (opMload E)" "effect 1 1 (opSload E)"
  unfolding opBalance_def opCallDataLoad_def opExtCodeSize_def opExtCodeHash_def opBlockhash_def opMload_def opSload_def One_nat_def
  by ((rule effect_done effect_intros quiet_on_state)+)

lemma effect_copy: "effect a a src \<Longrightarrow> effect (Suc (Suc (Suc a))) a (copy_data U src)"
  unfolding copy_data_def by ((assumption | rule effect_done effect_intros)+)

lemma effect_other_ops:
  "effect 3 0 (opCallDataCopy E)" "effect 3 0 (opCodeCopy E)" "effect 3 0 (opReturnDataCopy E)" "effect 4 0 (opExtCodeCopy E)"
  "effect 2 1 (opSha3 E)" "effect 1 0 opPop" "effect 2 0 (opMstore E)" "effect 2 0 (opMstore8 E)" "effect 2 0 (opSstore E)"
  "effect 1 0 (opJump E)" "effect 2 0 (opJumpi E)" "effect 0 0 opJumpdest" "effect 0 0 opStop" "effect 1 0 (opSuicide E)"
  "effect 2 0 (opReturn E)" "effect 2 0 (opRevert E)"
  unfolding opCallDataCopy_def opCodeCopy_def opReturnDataCopy_def opExtCodeCopy_def opSha3_def opPop_def opMstore_def opMstore8_def opSstore_def
    opJump_def opJumpi_def opJumpdest_def opStop_def opSuicide_def opReturn_def opRevert_def
  by (simp only: eval_nat_numeral BitM.simps One_nat_def, (rule effect_copy effect_done effect_intros quiet_on_state)+)+

lemma effect_topics: "effect (n + a) a (pop_topics E n)"
proof (induction n)
  case 0
  show ?case unfolding pop_topics.simps add_0 by (rule effect_leaf)
next
  case (Suc n)
  show ?case unfolding pop_topics.simps add_Suc by ((rule Suc effect_intros)+)
qed

lemma effect_stack_ops: "0 < n \<Longrightarrow> effect n (n + 1) (makeDup n)" "effect (n + 1) (n + 1) (makeSwap n)" "effect (2 + n) 0 (makeLog E n)"
proof -
  show "0 < n \<Longrightarrow> effect n (n + 1) (makeDup n)" unfolding makeDup_def Suc_eq_plus1[symmetric] by (rule effect_done, rule effect_dup) simp_all
  show "effect (n + 1) (n + 1) (makeSwap n)" unfolding makeSwap_def by (rule effect_done, rule effect_swap) simp_all
  show "effect (2 + n) 0 (makeLog E n)" using effect_topics[of n 0 E] unfolding makeLog_def numeral_2_eq_2 add_Suc add_0 add_0_right
    by - ((assumption | rule effect_done effect_intros quiet_on_state)+)
qed

definition quiet_calls :: "'tr evm_calls \<Rightarrow> bool" where
  "quiet_calls C \<longleftrightarrow> (\<forall>r a i g v. quiet (cl_Call C r a i g v)) \<and> (\<forall>r a i g v. quiet (cl_CallCode C r a i g v)) \<and>
     (\<forall>r a i g. quiet (cl_DelegateCall C r a i g)) \<and> (\<forall>r a i g. quiet (cl_StaticCall C r a i g)) \<and>
     (\<forall>r c g v. quiet (cl_Create C r c g v)) \<and> (\<forall>r c g v t. quiet (cl_Create2 C r c g v t))"

lemma effect_finish_call [effect_intros]: "effect a (Suc a) (finish_call E x y r)"
  unfolding finish_call_def by ((rule effect_intros)+)

lemma effect_self_ref [effect_intros]: "effect a a self_ref"
  unfolding self_ref_def by (rule effect_intros)

lemma effect_calls:
  assumes "quiet_calls C"
  shows "effect 7 1 (opCall E C)" "effect 7 1 (opCallCode E C)" "effect 6 1 (opDelegateCall E C)" "effect 6 1 (opStaticCall E C)"
    "effect 3 1 (opCreate E C)" "effect 4 1 (opCreate2 E C)"
proof -
  have q: "quiet (cl_Call C r a i g v)" "quiet (cl_CallCode C r a i g v)" "quiet (cl_DelegateCall C r a i g)" "quiet (cl_StaticCall C r a i g)"
      "quiet (cl_Create C r i g v)" "quiet (cl_Create2 C r i g v t)" for r a i g v t
    using assms by (simp_all add: quiet_calls_def)
  show "effect 7 1 (opCall E C)" "effect 7 1 (opCallCode E C)" "effect 6 1 (opDelegateCall E C)" "effect 6 1 (opStaticCall E C)"
    "effect 3 1 (opCreate E C)" "effect 4 1 (opCreate2 E C)"
    unfolding opCall_def opCallCode_def opDelegateCall_def opStaticCall_def opCreate_def opCreate2_def
    by (simp only: eval_nat_numeral BitM.simps One_nat_def, (rule effect_intros q)+)+
qed

section \<open>Prices and memory sizes\<close>

lemma effect_gas:
  "2 < a \<Longrightarrow> effect a a (memoryCopierGas U 2 n)" "3 < a \<Longrightarrow> effect a a (memoryCopierGas U 3 n)"
  "effect a a (pureMemoryGascost n)"
  "1 < a \<Longrightarrow> effect a a (gasSStore E n)" "1 < a \<Longrightarrow> effect a a (makeGasLog U k n)" "1 < a \<Longrightarrow> effect a a (gasSha3 U n)"
  "2 < a \<Longrightarrow> effect a a (gasCreate2 U n)" "1 < a \<Longrightarrow> effect a a (gasExpFrontier U n)" "1 < a \<Longrightarrow> effect a a (gasExpEIP158 U n)"
  "0 < a \<Longrightarrow> effect a a (gasSelfdestruct E n)"
  unfolding memoryCopierGas_def pureMemoryGascost_def gasSStore_def makeGasLog_def gasSha3_def gasCreate2_def gasExpFrontier_def gasExpEIP158_def
    gas_exp_def gasSelfdestruct_def
  by ((rule effect_intros quiet_on_state | linarith)+)

lemma effect_call_gas [effect_intros]:
  assumes "0 < a"
  shows "effect a a (call_gas E g)"
proof -
  have "effect a a (\<lambda>f. case callGas U b av g c of Inl e \<Rightarrow> (Inl e, f\<lparr>fr_evm := (fr_evm f)\<lparr>callGasTemp := 0\<rparr>\<rparr>)
      | Inr g \<Rightarrow> (Inr g, f\<lparr>fr_evm := (fr_evm f)\<lparr>callGasTemp := g\<rparr>\<rparr>))" for U b av c and a
    by (auto simp: effect_def callGas_def Let_def split: sum.split)
  then show ?thesis using assms unfolding call_gas_def by - ((assumption | rule effect_intros)+)
qed

lemma effect_gas_calls:
  "2 < a \<Longrightarrow> effect a a (gasCall E n)" "2 < a \<Longrightarrow> effect a a (gasCallCode E n)" "0 < a \<Longrightarrow> effect a a (gasDelegateCall E n)"
  "0 < a \<Longrightarrow> effect a a (gasStaticCall E n)"
  unfolding gasCall_def gasCallCode_def gasDelegateCall_def gasStaticCall_def by ((rule effect_intros quiet_on_state | linarith)+)

lemma no_fault_mem:
  "i < length st \<Longrightarrow> j < length st \<Longrightarrow> no_fault (mem_range U i j st)" "0 < length st \<Longrightarrow> no_fault (mem_fixed U n st)"
  by (simp_all add: mem_range_def mem_fixed_def stack_Back_def)

lemma no_fault_max: "no_fault r1 \<Longrightarrow> no_fault r2 \<Longrightarrow> no_fault (mem_max r1 r2)"
  unfolding mem_max_def by (auto intro!: no_fault_and_then)

lemmas memory_size_defs = memorySha3_def memoryCallDataCopy_def memoryReturnDataCopy_def memoryCodeCopy_def memoryExtCodeCopy_def memoryMLoad_def
  memoryMStore8_def memoryMStore_def memoryCreate_def memoryCreate2_def memoryCall_def memoryDelegateCall_def memoryStaticCall_def memoryReturn_def
  memoryRevert_def memoryLog_def

section \<open>The instruction sets\<close>

text \<open>The limits of an entry are those of its functions.\<close>

definition sized :: "nat \<Rightarrow> nat \<Rightarrow> 'tr operation \<Rightarrow> bool" where
  "sized p q x \<longleftrightarrow> op_minStack x = p \<and> op_maxStack x = StackLimit + p - q \<and> q \<le> StackLimit \<and> effect p q (execute x) \<and>
     (\<forall>g n. dynamicGas x = Some g \<longrightarrow> effect p p (g n)) \<and> (\<forall>ms st. memorySize x = Some ms \<longrightarrow> p \<le> length st \<longrightarrow> no_fault (ms st))"

text \<open>The interpreter reads the value of \<^verbatim>\<open>CALL\<close> itself, and the price of \<^verbatim>\<open>EXP\<close> is replaced by one that reads two items.\<close>

definition least_items :: "byte \<Rightarrow> nat" where
  "least_items b = (if b = CALL then 3 else if b = 0x0a then 2 else 0)"

definition entry_ok :: "byte \<times> 'tr operation \<Rightarrow> bool" where
  "entry_ok r \<longleftrightarrow> (\<exists>p q. sized p q (snd r) \<and> least_items (fst r) \<le> p)"

lemma entry_intro: "sized p q x \<Longrightarrow> least_items b \<le> p \<Longrightarrow> entry_ok (b, x)"
  by (auto simp: entry_ok_def)

lemma sized_new_op: "effect p q ex \<Longrightarrow> q \<le> StackLimit \<Longrightarrow> sized p q (new_op ex g p q)"
  by (simp add: sized_def new_op_def minStack_def maxStack_def)

lemma sized_new_dyn: "effect p q ex \<Longrightarrow> q \<le> StackLimit \<Longrightarrow> (\<And>n. effect p p (dyn n)) \<Longrightarrow> sized p q (new_dyn ex g dyn p q)"
  by (simp add: sized_def new_dyn_def new_op_def minStack_def maxStack_def)

lemma sized_new_mem: "effect p q ex \<Longrightarrow> q \<le> StackLimit \<Longrightarrow> (\<And>n. effect p p (dyn n)) \<Longrightarrow>
    (\<And>st. p \<le> length st \<Longrightarrow> no_fault (ms st)) \<Longrightarrow> sized p q (new_mem ex g dyn p q ms)"
  by (simp add: sized_def new_mem_def new_dyn_def new_op_def minStack_def maxStack_def)

lemma sized_flags [simp]:
  "sized p q (x\<lparr>halts := b\<rparr>) = sized p q x" "sized p q (x\<lparr>jumps := b\<rparr>) = sized p q x" "sized p q (x\<lparr>writes := b\<rparr>) = sized p q x"
  "sized p q (x\<lparr>reverts := b\<rparr>) = sized p q x" "sized p q (x\<lparr>returns := b\<rparr>) = sized p q x" "sized p q (x\<lparr>constantGas := g\<rparr>) = sized p q x"
  by (simp_all add: sized_def)

lemma effect_arithmetic:
  "effect 2 1 (opAdd U)" "effect 2 1 (opSub U)" "effect 2 1 (opMul U)" "effect 2 1 (opDiv U)" "effect 2 1 (opSdiv U)" "effect 2 1 (opMod U)"
  "effect 2 1 (opSmod U)" "effect 2 1 (opExp U)" "effect 2 1 (opSignExtend U)" "effect 1 1 (opNot U)" "effect 2 1 (opLt U)" "effect 2 1 (opGt U)"
  "effect 2 1 (opSlt U)" "effect 2 1 (opSgt U)" "effect 2 1 (opEq U)" "effect 1 1 (opIszero U)" "effect 2 1 (opAnd U)" "effect 2 1 (opOr U)"
  "effect 2 1 (opXor U)" "effect 2 1 (opByte U)" "effect 3 1 (opAddmod U)" "effect 3 1 (opMulmod U)" "effect 2 1 (opSHL U)" "effect 2 1 (opSHR U)"
  "effect 2 1 (opSAR U)"
  unfolding arithmetic_defs by (rule effect_op)+

lemmas effect_ops = effect_arithmetic effect_push_ops effect_read_ops effect_other_ops effect_stack_ops

lemmas sized_new = sized_new_op sized_new_dyn sized_new_mem

lemmas entry_simps = StackLimit_def least_items_def CALL_def memory_size_defs

lemma arithmetic_ok: "list_all entry_ok (arithmetic_ops E)"
  unfolding arithmetic_ops_def Let_def list.pred_inject
  by (intro conjI list.pred_inject(1); rule entry_intro, (simp only: sized_flags)?, rule sized_new, rule effect_ops)
    (auto simp: entry_simps intro: effect_gas no_fault_mem)

lemma environment_ok: "list_all entry_ok (environment_ops E)"
  unfolding environment_ops_def Let_def list.pred_inject
  by (intro conjI list.pred_inject(1); rule entry_intro, (simp only: sized_flags)?, rule sized_new, rule effect_ops)
    (auto simp: entry_simps intro: effect_gas no_fault_mem)

lemma storage_ok: "list_all entry_ok (storage_ops E)"
  unfolding storage_ops_def Let_def list.pred_inject
  by (intro conjI list.pred_inject(1); rule entry_intro, (simp only: sized_flags)?, rule sized_new, rule effect_ops)
    (auto simp: entry_simps intro: effect_gas no_fault_mem)

lemma system_ok:
  assumes "quiet_calls C"
  shows "list_all entry_ok (system_ops E C)"
  unfolding system_ops_def Let_def list.pred_inject
  by (intro conjI list.pred_inject(1); rule entry_intro, (simp only: sized_flags)?, rule sized_new, rule effect_ops effect_calls[OF assms])
    (auto simp: entry_simps intro: effect_gas effect_gas_calls intro!: no_fault_mem no_fault_max)

lemma high_opcode:
  assumes "10 < unat c" "unat c + k < 241"
  shows "c + word_of_nat k \<noteq> CALL" "c + word_of_nat k \<noteq> (0x0a :: byte)"
proof -
  have "unat (c + word_of_nat k) = unat c + k" using assms by (simp add: unat_word_ariths unat_of_nat)
  then show "c + word_of_nat k \<noteq> CALL" "c + word_of_nat k \<noteq> 0x0a" using assms by (auto simp: CALL_def)
qed

lemma stack_ok: "list_all entry_ok (stack_ops E)"
proof -
  have p: "entry_ok (b, new_op (makePush E n) g 0 1)" if "least_items b = 0" for b n g
    using that by (intro entry_intro[where p = 0 and q = 1] sized_new_op effect_ops) (auto simp: StackLimit_def)
  have d: "entry_ok (b, dup_op n)" if "0 < n" "n < 17" "least_items b = 0" for b n
    using that effect_stack_ops(1)[of n] by (intro entry_intro[where p = n and q = "n + 1"])
      (auto simp: dup_op_def sized_def new_op_def minDupStack_def maxDupStack_def minStack_def maxStack_def StackLimit_def)
  have w: "entry_ok (b, swap_op n)" if "n < 17" "least_items b = 0" for b n
    using that effect_stack_ops(2)[of n] by (intro entry_intro[where p = "n + 1" and q = "n + 1"])
      (auto simp: swap_op_def sized_def new_op_def minSwapStack_def maxSwapStack_def minStack_def maxStack_def StackLimit_def)
  have l: "entry_ok (b, log_op E n)" if "least_items b = 0" for b n
    unfolding log_op_def using that effect_stack_ops(3)[of n E]
    by (intro entry_intro[where p = "2 + n" and q = 0]) (auto simp: StackLimit_def memoryLog_def intro!: sized_new_mem effect_gas no_fault_mem)
  have n: "least_items (c + word_of_nat k) = 0" if "10 < unat c" "unat c + k < 241" for c k
    using high_opcode[OF that] by (simp add: least_items_def)
  show ?thesis unfolding stack_ops_def list_all_append list_all_iff set_map
    by (auto simp del: upt_rec_numeral intro!: p[unfolded One_nat_def] d w l n)
qed

lemma entry_set_op: "entry_ok (b, x) \<Longrightarrow> list_all entry_ok t \<Longrightarrow> list_all entry_ok (set_op b x t)"
  by (simp add: set_op_def)

lemma entry_update_op: "(\<And>x. entry_ok (b, x) \<Longrightarrow> entry_ok (b, g x)) \<Longrightarrow> list_all entry_ok t \<Longrightarrow> list_all entry_ok (update_op b g t)"
  by (auto simp: update_op_def list_all_iff)

lemma entry_constantGas: "entry_ok (b, x) \<Longrightarrow> entry_ok (b, x\<lparr>constantGas := g\<rparr>)"
  by (simp add: entry_ok_def)

lemma frontier_ok: "quiet_calls C \<Longrightarrow> list_all entry_ok (NewFrontierInstructionSet E C)"
  by (simp add: NewFrontierInstructionSet_def arithmetic_ok environment_ok storage_ok stack_ok system_ok)

lemma tangerine_ok:
  assumes "quiet_calls C"
  shows "list_all entry_ok (NewHomesteadInstructionSet E C)" "list_all entry_ok (NewTangerineWhistleInstructionSet E C)"
proof -
  show h: "list_all entry_ok (NewHomesteadInstructionSet E C)" unfolding NewHomesteadInstructionSet_def
    by (intro entry_set_op frontier_ok assms entry_intro, simp only: sized_flags, rule sized_new, rule effect_calls[OF assms])
      (auto simp: entry_simps intro: effect_gas effect_gas_calls intro!: no_fault_mem no_fault_max)
  show "list_all entry_ok (NewTangerineWhistleInstructionSet E C)" unfolding NewTangerineWhistleInstructionSet_def
    by (intro entry_update_op entry_constantGas h)
qed

lemma exp_price_ok: "entry_ok (0x0a, x) \<Longrightarrow> entry_ok (0x0a, x\<lparr>dynamicGas := Some (gasExpEIP158 U)\<rparr>)"
  by (auto simp: entry_ok_def sized_def least_items_def CALL_def intro!: effect_gas)

lemma jump_table_ok:
  assumes "quiet_calls C"
  shows "list_all entry_ok (jump_table E C)"
proof -
  note t = tangerine_ok[OF assms, of E] frontier_ok[OF assms, of E]
  have s: "list_all entry_ok (NewSpuriousDragonInstructionSet E C)" unfolding NewSpuriousDragonInstructionSet_def
    by (rule entry_update_op, rule exp_price_ok, assumption, rule t)
  have b: "list_all entry_ok (NewByzantiumInstructionSet E C)" unfolding NewByzantiumInstructionSet_def Let_def
    by (intro entry_set_op s; rule entry_intro, (simp only: sized_flags)?, rule sized_new, rule effect_ops effect_calls[OF assms])
      (auto simp: entry_simps intro: effect_gas effect_gas_calls intro!: no_fault_mem no_fault_max)
  have "list_all entry_ok (NewSip004InstructionSet E C)" unfolding NewSip004InstructionSet_def Let_def
    by (intro entry_set_op b; rule entry_intro, (simp only: sized_flags)?, rule sized_new, rule effect_ops effect_calls[OF assms])
      (auto simp: entry_simps intro: effect_gas effect_gas_calls intro!: no_fault_mem no_fault_max)
  then show ?thesis using s b t by (simp add: jump_table_def Let_def)
qed

section \<open>One step\<close>

lemma effect_cond [effect_intros]: "effect a a m \<Longrightarrow> effect a a (metered m)"
  unfolding metered_def by ((assumption | rule effect_intros)+)

lemma effect_use_gas [effect_intros]: "effect a a (use_gas g)"
  by (auto simp: effect_def use_gas_def split: prod.split)

lemma effect_price:
  assumes "effect a a m"
  shows "effect a a (bindM (attemptM m) (\<lambda>cost. case cost of None \<Rightarrow> errM e | Some g \<Rightarrow> use_gas g))"
proof -
  have "no_fault (fst (bindM (attemptM m) k f)) \<and> (\<forall>v. fst (bindM (attemptM m) k f) = Inr v \<longrightarrow> length (fr_stack (snd (bindM (attemptM m) k f))) = a + j)"
    if l: "length (fr_stack f) = a + j" and k: "k = (\<lambda>cost. case cost of None \<Rightarrow> errM e | Some g \<Rightarrow> use_gas g)" for f j k
  proof -
    obtain r f1 where m: "m f = (r, f1)" by fastforce
    note e = effectD[OF assms l m]
    consider x where "r = Inl (Panic x)" | x where "r = Inl (Err x)" | g where "r = Inr g" by (metis fault.exhaust sum.exhaust)
    then show ?thesis
    proof cases
      case 1
      then show ?thesis using e(1) m by (simp add: bindM_def attemptM_def)
    next
      case 2
      then show ?thesis using m k by (simp add: bindM_def attemptM_def)
    next
      case 3
      then have "bindM (attemptM m) k f = use_gas g f1" using m k by (simp add: bindM_def attemptM_def)
      then show ?thesis using e(2) 3 effect_use_gas[of a g, unfolded effect_def, rule_format, of f1 j] by simp
    qed
  qed
  then show ?thesis by (auto simp: effect_def)
qed

lemma prepare_stack:
  assumes "sized p q x" "least_items op \<le> p" "prepare E op x f = (r, f')"
  shows "no_fault r" "r = Inr v \<Longrightarrow> p \<le> length (fr_stack f) \<and> length (fr_stack f) \<le> StackLimit + p - q \<and> length (fr_stack f') = length (fr_stack f)"
proof -
  define rest :: "('a, unit) frame_m" where "rest = bindM (check_writes E op x) (\<lambda>_. bindM (metered (use_gas (constantGas x))) (\<lambda>_.
     bindM (memory_size x) (\<lambda>memSize. bindM (metered (dynamic_gas x memSize)) (\<lambda>_. resize_memory memSize))))"
  have c: "effect p p (check_writes E op x)"
  proof (cases "op = CALL")
    case True
    then have "2 < p" using assms(2) by (simp add: least_items_def)
    then show ?thesis unfolding check_writes_def by - ((assumption | rule effect_intros)+)
  next
    case False
    then show ?thesis unfolding check_writes_def by (simp only: if_False) ((rule effect_intros)+)
  qed
  have m: "effect p p (memory_size x)"
  proof (cases "memorySize x")
    case (Some ms)
    then have n: "p \<le> length st \<Longrightarrow> no_fault (ms st)" for st using assms(1) by (simp add: sized_def)
    have "no_fault (fst (memory_size x f)) \<and> fr_stack (snd (memory_size x f)) = fr_stack f" if "length (fr_stack f) = p + k" for f k
      using n[of "fr_stack f"] that by (cases "ms (fr_stack f)") (auto simp: memory_size_def Some bindM_def or_overflows_def)
    then show ?thesis unfolding effect_def by auto
  next
    case None
    then show ?thesis by (simp add: memory_size_def effect_def)
  qed
  have d: "effect p p (metered (dynamic_gas x n))" for n
    using assms(1) unfolding dynamic_gas_def sized_def by (cases "dynamicGas x") (auto intro!: effect_cond effect_leaf effect_price)
  have e: "effect p p rest" unfolding rest_def resize_memory_def by ((rule effect_intros c m d)+)
  have v: "prepare E op x f = bindM (validate_stack x) (\<lambda>_. rest) f" by (simp add: prepare_def rest_def)
  show "no_fault r" "r = Inr v \<Longrightarrow> p \<le> length (fr_stack f) \<and> length (fr_stack f) \<le> StackLimit + p - q \<and> length (fr_stack f') = length (fr_stack f)"
  proof -
    have u: "no_fault r \<and> (r = Inr v \<longrightarrow> p \<le> length (fr_stack f) \<and> length (fr_stack f) \<le> StackLimit + p - q \<and> length (fr_stack f') = length (fr_stack f))"
    proof (cases "p \<le> length (fr_stack f) \<and> length (fr_stack f) \<le> StackLimit + p - q")
      case True
      then obtain k where k: "length (fr_stack f) = p + k" using le_Suc_ex by blast
      have "rest f = (r, f')" using assms v True by (simp add: sized_def validate_stack_def bindM_def)
      from effectD[OF e k this] True k show ?thesis by simp
    next
      case False
      then show ?thesis using assms v by (auto simp: sized_def validate_stack_def bindM_def split: if_splits)
    qed
    then show "no_fault r" "r = Inr v \<Longrightarrow> p \<le> length (fr_stack f) \<and> length (fr_stack f) \<le> StackLimit + p - q \<and> length (fr_stack f') = length (fr_stack f)"
      by simp_all
  qed
qed

lemma fr_stack_returnData [simp]: "fr_stack (set_returnData x d f) = fr_stack f"
  by (simp add: set_returnData_def)

lemma step_stack:
  assumes "quiet_calls C" "interpreter_step E C f = (r, f')"
  shows "no_fault r" "r = Inr Next \<Longrightarrow> length (fr_stack f') \<le> StackLimit"
proof -
  let ?op = "GetOp (fr_contract f) (fr_pc f)"
  have "no_fault r \<and> (r = Inr Next \<longrightarrow> length (fr_stack f') \<le> StackLimit)"
  proof (cases "lookup_op (jump_table E C) ?op")
    case (Some x)
    then have "(?op, x) \<in> set (jump_table E C)" by (simp add: lookup_op_def map_of_SomeD)
    then obtain p q where s: "sized p q x" "least_items ?op \<le> p"
      using jump_table_ok[OF assms(1), of E] by (fastforce simp: list_all_iff entry_ok_def)
    obtain r1 f1 where p: "prepare E ?op x f = (r1, f1)" by fastforce
    note st = prepare_stack[OF s p]
    show ?thesis
    proof (cases r1)
      case (Inl e)
      then show ?thesis using assms(2) Some p st(1) by (auto simp: interpreter_step_def Let_def split: fault.splits)
    next
      case (Inr u)
      note l = st(2)[OF Inr]
      then obtain k where k: "length (fr_stack f1) = p + k" "p + k \<le> StackLimit + p - q" using le_Suc_ex by metis
      obtain r2 f2 where x: "execute x f1 = (r2, f2)" by fastforce
      have "effect p q (execute x)" "q \<le> StackLimit" using s(1) by (simp_all add: sized_def)
      note e = effectD[OF this(1) k(1) x] this(2)
      have "interpreter_step E C f = execute_op x f1" using Some p Inr by (simp add: interpreter_step_def Let_def)
      then show ?thesis using assms(2) e k(2) x by (auto simp: execute_op_def Let_def split: sum.splits fault.splits if_splits)
    qed
  qed (use assms(2) in \<open>auto simp: interpreter_step_def Let_def\<close>)
  then show "no_fault r" "r = Inr Next \<Longrightarrow> length (fr_stack f') \<le> StackLimit" by simp_all
qed

section \<open>Runs\<close>

lemma quiet_then: "quiet m \<Longrightarrow> (\<And>v. quiet (k v)) \<Longrightarrow> quiet (bindM m k)"
  unfolding quiet_def bindM_cases by (auto split: sum.split) (metis no_fault_simps(2))

named_theorems quiet_intros_evm

lemma quiet_leaf [quiet_intros_evm]:
  "quiet (returnM v)" "quiet (errM e)" "quiet (readM g)" "quiet (modifyM h)" "quiet (on_state m)"
  by (auto simp: quiet_def on_state_def stack_fault_def split: prod.split sum.split fault.split)

lemma quiet_control [quiet_intros_evm]:
  "quiet m \<Longrightarrow> quiet m' \<Longrightarrow> quiet (if c then m else m')"
  "(\<And>x. quiet (g x)) \<Longrightarrow> quiet (Let v g)"
  "(\<And>x y. quiet (h x y)) \<Longrightarrow> quiet (case p of (x, y) \<Rightarrow> h x y)"
  "no_fault r \<Longrightarrow> quiet (liftM r)"
  by (auto simp: quiet_def split: prod.split)

lemma quiet_new_contract [quiet_intros_evm]: "quiet (new_contract r a v g)"
  by (auto simp: quiet_def new_contract_def bindM_def split: ContractRef.split)

lemma no_fault_precompiled:
  "no_fault (RequiredGas p input)" "no_fault (Precompiled_Run E p input)" "no_fault (RunPrecompiledContract E p input c)"
proof -
  have b: "no_fault (get_big i s n)" for i s n unfolding get_big_def by (intro no_fault_and_then no_fault_data) simp
  have h: "no_fault (modexp_head i k l)" for i k l by (simp add: modexp_head_def b)
  have n: "no_fault (of_native z)" for z :: "'z option" by (simp add: of_native_def split: option.split)
  show g: "no_fault (RequiredGas p input)" for p
    by (cases p) (auto simp: bigModExp_RequiredGas_def Let_def intro!: no_fault_and_then b h)
  show r: "no_fault (Precompiled_Run E p input)" for p
    by (cases p) (auto simp: ecrecover_Run_def bigModExp_Run_def bn256Add_Run_def bn256ScalarMul_Run_def bn256Pairing_Run_def Let_def stack_fault_def
        intro!: no_fault_and_then b n no_fault_data split: option.split)
  show "no_fault (RunPrecompiledContract E p input c)" using r[of p]
    by (auto simp: RunPrecompiledContract_def Let_def intro!: no_fault_and_then g split: prod.split sum.split fault.split)
qed

lemma quiet_Run: "quiet L \<Longrightarrow> quiet (Interpreter_Run L c input)"
  unfolding quiet_def Interpreter_Run_def Let_def by (auto split: prod.split sum.split) (metis fst_conv no_fault_simps(2))+

lemma quiet_choose [quiet_intros_evm]: "quiet (choose_metering E c)"
  unfolding choose_metering_def by (auto simp: quiet_def chief_address_def Let_def bindM_def split: prod.split)

lemma quiet_run: "quiet L \<Longrightarrow> quiet (evm_run E L c input)" "quiet L \<Longrightarrow> quiet (createRun E L c input)"
  unfolding evm_run_def createRun_def
  by (auto intro!: quiet_then quiet_Run quiet_intros_evm no_fault_precompiled split: option.split simp: stack_fault_def quiet_def[of "panicM m" for m])

lemma quiet_parts [quiet_intros_evm]:
  "quiet (CanTransfer E a v)" "quiet (Transfer E a b v)" "quiet (load_code E a c)" "quiet (end_call E s r)" "quiet (store_code E a w r)"
  "quiet (end_create E s a r)" "quiet m \<Longrightarrow> quiet (guarded E g m)"
  unfolding CanTransfer_def Transfer_def load_code_def end_call_def store_code_def end_create_def guarded_def
  by ((assumption | rule quiet_then quiet_intros_evm)+)

lemma quiet_calls_of:
  assumes "quiet L"
  shows "quiet_calls (calls E L)"
proof -
  have d: "no_fault (AsDelegate r c)" for r c by (simp add: AsDelegate_def stack_fault_def split: ContractRef.split)
  have c: "quiet (evm_create E L r code g v a)" for r code g v a
    unfolding evm_create_def by ((rule quiet_then quiet_intros_evm quiet_run[OF assms])+)
  show ?thesis unfolding quiet_calls_def calls_def evm_calls.simps evm_Call_def evm_CallCode_def evm_DelegateCall_def evm_StaticCall_def
      evm_Create_def evm_Create2_def
    by (intro conjI allI; (rule quiet_then quiet_intros_evm quiet_run[OF assms] d c)+)
qed

lemma quiet_loop: "quiet (interpreter_loop E n steps)"
proof (induction n arbitrary: steps)
  case (Suc n)
  have "no_fault (fst (interpreter_loop E (Suc n) steps f))" for f
  proof -
    obtain r f' where s: "interpreter_step E (calls E (interpreter_loop E n 0)) f = (r, f')" by fastforce
    from step_stack(1)[OF quiet_calls_of[OF Suc] s] Suc[of "steps + 1"] s show ?thesis
      by (auto simp: quiet_def split: sum.split step_result.split)
  qed
  then show ?case by (simp add: quiet_def)
qed (simp add: quiet_def out_of_fuel_def stack_fault_def)

text \<open>
  C33: in no run of any code does the interpreter, or one that it calls, read below the bottom of its stack, and
  every instruction after which it goes on leaves at most 1024 items.\<close>

theorem stack_discipline:
  "fst (interpreter_loop E n steps f) \<noteq> Inl (Panic stack_fault) \<and>
   (case interpreter_step E (calls E (interpreter_loop E n 0)) f of
      (Inr Next, f') \<Rightarrow> length (fr_stack f') \<le> StackLimit
    | _ \<Rightarrow> True)"
  using quiet_loop[of E n steps] step_stack(2)[OF quiet_calls_of[OF quiet_loop[of E n 0]], where E = E and f = f]
  by (auto simp: quiet_def no_fault_def split: prod.split sum.split step_result.split)

end
