(* ===== verification/EVM_Metering.thy ===== *)
theory EVM_Metering
  imports EVM_Stack
begin

text \<open>
  Gas bounds every run: as long as metering is on, each instruction that does not end the run costs gas, and a call
  returns no more gas than it was given.\<close>

section \<open>What does not touch the gas\<close>

definition gas_of :: "'tr frame \<Rightarrow> nat" where
  "gas_of f = unat (c_Gas (fr_contract f))"

definition fuelled :: "(evm_error, 'a) result \<Rightarrow> bool" where
  "fuelled r \<longleftrightarrow> r \<noteq> Inl (Panic out_of_fuel)"

lemma fuelled_simps [simp]: "fuelled (Inr v)" "fuelled (Inl x) \<longleftrightarrow> x \<noteq> Panic out_of_fuel"
  by (simp_all add: fuelled_def)

lemma fuelled_and_then: "fuelled r \<Longrightarrow> (\<And>v. r = Inr v \<Longrightarrow> fuelled (g v)) \<Longrightarrow> fuelled (and_then r g)"
  by (cases r) (auto simp: fuelled_def)

definition calm :: "('tr, 'a) frame_m \<Rightarrow> bool" where
  "calm m \<longleftrightarrow> (\<forall>f. fuelled (fst (m f)) \<and> gas_of (snd (m f)) = gas_of f)"

definition fuelledM :: "('s, evm_error, 'a) go \<Rightarrow> bool" where
  "fuelledM m \<longleftrightarrow> (\<forall>s. fuelled (fst (m s)))"

named_theorems calm_intros

lemma calm_bind [calm_intros]:
  assumes "calm m" "\<And>v. calm (k v)"
  shows "calm (bindM m k)"
proof -
  have "fuelled (fst (bindM m k f)) \<and> gas_of (snd (bindM m k f)) = gas_of f" for f
  proof (cases "fst (m f)")
    case (Inl x)
    then show ?thesis using assms(1)[unfolded calm_def, rule_format, of f] by (simp add: bindM_cases)
  next
    case (Inr v)
    then show ?thesis using assms by (simp add: calm_def bindM_cases)
  qed
  then show ?thesis by (simp add: calm_def)
qed

lemma calm_isCode [calm_intros]: "calm (isCode u)"
proof -
  have s: "fuelled (codeSegment a p)" for a p by (simp add: codeSegment_def out_of_fuel_def)
  have "fuelled (fst (isCode u f)) \<and> gas_of (snd (isCode u f)) = gas_of f" for f :: "'a frame"
  proof -
    obtain a where "codeBitmap (c_Code (fr_contract f)) = Inr a" using codeBitmap_ok by blast
    then show ?thesis using s by (simp add: isCode_def Let_def gas_of_def split: option.split)
  qed
  then show ?thesis by (simp add: calm_def)
qed

lemma fuelled_slice: "fuelled (slice b lo hi)"
  by (simp add: slice_def out_of_fuel_def)

lemma fuelled_data:
  "fuelled (getData b st n)" "fuelled (Memory_GetPtr i j m)" "fuelled (Memory_GetCopy i j m)" "fuelled (Memory_Set o1 n v m)"
  "fuelled (Memory_Set32 U o1 w m)" "fuelled (Memory_set_byte o1 y m)" "fuelled (Memory_Resize n m)"
  by (auto simp: getData_def Let_def Memory_GetPtr_def Memory_GetCopy_def Memory_Set_def Memory_Set32_def Memory_set_byte_def Memory_Resize_def
      out_of_fuel_def fuelled_slice intro!: fuelled_and_then)

lemma calm_on_mem:
  assumes "\<And>m. fuelled (g m)"
  shows "calm (on_mem g)"
proof -
  have "fuelled (fst (on_mem g f)) \<and> gas_of (snd (on_mem g f)) = gas_of f" for f :: "'a frame"
    using assms[of "fr_mem f"] by (cases "g (fr_mem f)") (simp_all add: on_mem_def gas_of_def)
  then show ?thesis by (simp add: calm_def)
qed

lemma calm_leaf [calm_intros]:
  "calm (returnM v)" "calm (errM e)" "calm (readM g)" "calm (contract_of h)" "calm (set_pc p)" "calm (or_overflows r)" "calm (mem_gas n)"
  "calm (modifyM (\<lambda>f. f\<lparr>fr_pc := q f\<rparr>))" "calm pop" "calm (push x)" "calm peek" "calm (set_peek x)" "calm (Back i)"
  "calm (on_stack (stack_dup i))" "calm (on_stack (stack_swap i))" "calm (state_op m)"
  by (auto simp: calm_def contract_of_def set_pc_def or_overflows_def mem_gas_def memoryGasCost_def Let_def gas_of_def pop_def push_def peek_def
      set_peek_def Back_def on_stack_def stack_pop_def stack_push_def stack_peek_def stack_Back_def stack_dup_def stack_swap_def stack_fault_def
      out_of_fuel_def on_evm_def on_state_def
      split: sum.splits prod.splits if_splits list.splits fault.splits)

lemma calm_data [calm_intros]:
  "calm (liftM (getData b st n))" "calm (liftM (slice b lo hi))" "calm (read_mem (Memory_GetPtr i j))"
  "calm (read_mem (Memory_GetCopy i j))" "calm (on_mem (Memory_Set o1 n v))" "calm (on_mem (Memory_Set32 U o1 w))"
  "calm (on_mem (Memory_set_byte o1 y))" "calm (on_mem (Memory_Resize n))"
  by (auto simp: calm_def read_mem_def fuelled_data fuelled_slice intro!: calm_on_mem[unfolded calm_def, rule_format])

lemma calm_control [calm_intros]:
  "calm m \<Longrightarrow> calm m' \<Longrightarrow> calm (if c then m else m')"
  "(\<And>x. calm (g x)) \<Longrightarrow> calm (Let v g)"
  "(\<And>x y. calm (h x y)) \<Longrightarrow> calm (case p of (x, y) \<Rightarrow> h x y)"
  "(\<And>n. calm (j n)) \<Longrightarrow> calm (on_big q j)"
  by (auto simp: Let_def on_big_def panicM_def calm_def out_of_fuel_def split: prod.split option.split)

lemma calm_ops [calm_intros]:
  "calm (validJumpdest U d)" "calm (get_ptr U x y)" "calm (get_copy U x y)" "calm m \<Longrightarrow> calm (done_op m)"
  unfolding validJumpdest_def get_ptr_def get_copy_def done_op_def by ((assumption | rule calm_intros)+)

lemma calm_topics [calm_intros]: "calm (pop_topics E n)"
  by (induction n) (simp_all only: pop_topics.simps, (assumption | rule calm_intros)+)

lemma calm_arithmetic:
  "calm (opAdd U)" "calm (opSub U)" "calm (opMul U)" "calm (opDiv U)" "calm (opSdiv U)" "calm (opMod U)"
  "calm (opSmod U)" "calm (opExp U)" "calm (opSignExtend U)" "calm (opNot U)" "calm (opLt U)" "calm (opGt U)"
  "calm (opSlt U)" "calm (opSgt U)" "calm (opEq U)" "calm (opIszero U)" "calm (opAnd U)" "calm (opOr U)"
  "calm (opXor U)" "calm (opByte U)" "calm (opAddmod U)" "calm (opMulmod U)" "calm (opSHL U)" "calm (opSHR U)" "calm (opSAR U)"
  unfolding arithmetic_defs op_1_def op_2_def op_3_def by ((rule calm_intros)+)

lemma calm_environment:
  "calm (opAddress E)" "calm (opOrigin E)" "calm (opCaller E)" "calm (opCallValue E)" "calm (opCallDataSize E)"
  "calm (opReturnDataSize E)" "calm (opCodeSize E)" "calm (opGasprice E)" "calm (opCoinbase E)" "calm (opTimestamp E)"
  "calm (opNumber E)" "calm (opDifficulty E)" "calm (opGasLimit E)" "calm (opChainID E)" "calm (opSelfBalance E)"
  "calm (opPc E)" "calm (opMsize E)" "calm (opGas E)" "calm (opPush1 E)" "calm (makePush E n)"
  "calm (opBalance E)" "calm (opCallDataLoad E)" "calm (opExtCodeSize E)" "calm (opExtCodeHash E)"
  "calm (opBlockhash E)" "calm (opMload E)" "calm (opSload E)"
  unfolding opAddress_def opOrigin_def opCaller_def opCallValue_def opCallDataSize_def opReturnDataSize_def opCodeSize_def opGasprice_def opCoinbase_def
    opTimestamp_def opNumber_def opDifficulty_def opGasLimit_def opChainID_def opSelfBalance_def opPc_def opMsize_def opGas_def opPush1_def makePush_def
    opBalance_def opCallDataLoad_def opExtCodeSize_def opExtCodeHash_def opBlockhash_def opMload_def opSload_def
  by ((rule calm_intros)+)

lemma calm_other:
  "calm (opCallDataCopy E)" "calm (opCodeCopy E)" "calm (opReturnDataCopy E)" "calm (opExtCodeCopy E)"
  "calm (opSha3 E)" "calm opPop" "calm (opMstore E)" "calm (opMstore8 E)" "calm (opSstore E)"
  "calm (opJump E)" "calm (opJumpi E)" "calm opJumpdest" "calm opStop" "calm (opSuicide E)"
  "calm (opReturn E)" "calm (opRevert E)" "calm (makeDup n)" "calm (makeSwap n)" "calm (makeLog E n)"
  unfolding opCallDataCopy_def opCodeCopy_def opReturnDataCopy_def opExtCodeCopy_def opSha3_def opPop_def opMstore_def opMstore8_def opSstore_def
    opJump_def opJumpi_def opJumpdest_def opStop_def opSuicide_def opReturn_def opRevert_def copy_data_def makeDup_def makeSwap_def makeLog_def
  by ((rule calm_intros)+)

lemmas calm_instructions = calm_arithmetic calm_environment calm_other

section \<open>Prices\<close>

text \<open>A price leaves the gas and the stack.\<close>

definition still :: "('tr, 'a) frame_m \<Rightarrow> bool" where
  "still m \<longleftrightarrow> calm m \<and> (\<forall>f. fr_stack (snd (m f)) = fr_stack f)"

named_theorems still_intros

lemma still_bind [still_intros]:
  assumes "still m" "\<And>v. still (k v)"
  shows "still (bindM m k)"
  using assms calm_bind[of m k] unfolding still_def by (auto simp: bindM_cases split: sum.split)

lemma still_leaf [still_intros]:
  "still (returnM v)" "still (errM e)" "still (readM g)" "still (contract_of h)" "still (or_overflows r)" "still (mem_gas n)"
  "still (Back i)" "still (state_op m)"
  using calm_leaf unfolding still_def
  by (auto simp: contract_of_def or_overflows_def mem_gas_def memoryGasCost_def Let_def Back_def on_evm_def split: sum.splits prod.splits if_splits)

lemma still_control [still_intros]:
  "still m \<Longrightarrow> still m' \<Longrightarrow> still (if c then m else m')"
  "(\<And>x. still (g x)) \<Longrightarrow> still (Let v g)"
  "(\<And>x y. still (h x y)) \<Longrightarrow> still (case p of (x, y) \<Rightarrow> h x y)"
  by (auto simp: Let_def split: prod.split)

lemma still_call_gas [still_intros]: "still (call_gas E g)"
proof -
  have "still (\<lambda>f. case callGas U b av g c of Inl e \<Rightarrow> (Inl e, f\<lparr>fr_evm := (fr_evm f)\<lparr>callGasTemp := 0\<rparr>\<rparr>)
      | Inr g \<Rightarrow> (Inr g, f\<lparr>fr_evm := (fr_evm f)\<lparr>callGasTemp := g\<rparr>\<rparr>))" for U b av c
    by (auto simp: still_def calm_def gas_of_def callGas_def Let_def split: sum.split)
  then show ?thesis unfolding call_gas_def by - ((assumption | rule still_intros)+)
qed

lemma still_prices:
  "still (memoryCopierGas U i n)" "still (pureMemoryGascost n)" "still (gasSStore E n)" "still (makeGasLog U k n)" "still (gasSha3 U n)"
  "still (gasCreate2 U n)" "still (gasExpFrontier U n)" "still (gasExpEIP158 U n)" "still (gasSelfdestruct E n)"
  "still (gasCall E n)" "still (gasCallCode E n)" "still (gasDelegateCall E n)" "still (gasStaticCall E n)"
  unfolding memoryCopierGas_def pureMemoryGascost_def gasSStore_def makeGasLog_def gasSha3_def gasCreate2_def gasExpFrontier_def gasExpEIP158_def
    gas_exp_def gasSelfdestruct_def gasCall_def gasCallCode_def gasDelegateCall_def gasStaticCall_def
  by ((rule still_intros)+)

text \<open>Lower bounds of prices.\<close>

lemma SafeAdd_sum:
  assumes "\<not> snd (SafeAdd x y)"
  shows "unat (fst (SafeAdd x y)) = unat x + unat y"
proof -
  have "y \<le> - 1 - x" using assms by (simp add: SafeAdd_def not_less)
  then have "unat y \<le> unat (- 1 - x)" by (simp add: word_le_nat_alt)
  also have "\<dots> = unat (- 1 :: u64) - unat x" by (rule unat_sub) simp
  also have "unat (- 1 :: u64) = 2 ^ 64 - 1" by (simp add: unsigned_minus_1_eq_mask mask_eq_exp_minus_1)
  finally have "unat y \<le> 2 ^ 64 - 1 - unat x" .
  moreover have "unat x < 2 ^ LENGTH(64)" by (rule unsigned_less)
  ultimately have "unat x + unat y < 2 ^ 64" by simp
  then show ?thesis by (simp add: SafeAdd_def unat_word_ariths)
qed

definition at_least :: "nat \<Rightarrow> ('tr, u64) frame_m \<Rightarrow> bool" where
  "at_least k m \<longleftrightarrow> (\<forall>f v f'. m f = (Inr v, f') \<longrightarrow> k \<le> unat v)"

lemma at_least_skip: "(\<And>v. at_least k (K v)) \<Longrightarrow> at_least k (bindM m K)"
  unfolding at_least_def bindM_def by (auto split: prod.splits sum.splits)

lemma at_least_bind: "at_least j m \<Longrightarrow> (\<And>v. j \<le> unat v \<Longrightarrow> at_least k (K v)) \<Longrightarrow> at_least k (bindM m K)"
  unfolding at_least_def bindM_def by (fastforce split: prod.splits sum.splits)

lemma at_least_add: "k \<le> unat x + unat y \<Longrightarrow> at_least k (or_overflows (SafeAdd x y))"
  using SafeAdd_sum[of x y] by (auto simp: at_least_def or_overflows_def split: if_splits)

lemma at_least_prices: "at_least 1 (gasExpFrontier U n)" "at_least 1 (gasExpEIP158 U n)" "at_least 1 (gasSStore E n)" "at_least 1 (makeGasLog U k n)"
proof -
  show "at_least 1 (gasExpFrontier U n)" "at_least 1 (gasExpEIP158 U n)"
    unfolding gasExpFrontier_def gasExpEIP158_def gas_exp_def Let_def by (rule at_least_skip, rule at_least_add, simp)+
  show "at_least 1 (gasSStore E n)" unfolding gasSStore_def
    by (rule at_least_skip)+ (auto simp: at_least_def bindM_def split: prod.splits sum.splits)
  show "at_least 1 (makeGasLog U k n)" unfolding makeGasLog_def
    by (rule at_least_skip, rule at_least_skip, rule at_least_skip, rule at_least_bind[where j = 1], rule at_least_add, simp, rule at_least_bind[where j = 1],
        rule at_least_add, simp, rule at_least_skip, rule at_least_add, simp)
qed

text \<open>What a call costs beyond the gas it passes on.\<close>

definition beyond :: "nat \<Rightarrow> ('tr, u64) frame_m \<Rightarrow> bool" where
  "beyond k m \<longleftrightarrow> (\<forall>f v f'. m f = (Inr v, f') \<longrightarrow> unat (callGasTemp (fr_evm f')) + k \<le> unat v)"

lemma beyond_skip: "(\<And>v. beyond k (K v)) \<Longrightarrow> beyond k (bindM m K)"
  unfolding beyond_def bindM_def by (auto split: prod.splits sum.splits)

lemma beyond_bind: "at_least j m \<Longrightarrow> (\<And>v. j \<le> unat v \<Longrightarrow> beyond k (K v)) \<Longrightarrow> beyond k (bindM m K)"
  unfolding beyond_def at_least_def bindM_def by (fastforce split: prod.splits sum.splits)

lemma beyond_gives: "(\<And>f v f'. m f = (Inr v, f') \<Longrightarrow> P v) \<Longrightarrow> (\<And>v. P v \<Longrightarrow> beyond k (K v)) \<Longrightarrow> beyond k (bindM m K)"
  unfolding beyond_def bindM_def by (fastforce split: prod.splits sum.splits)

lemma beyond_call_gas: "k \<le> unat g \<Longrightarrow> beyond k (call_gas E g)"
  unfolding call_gas_def beyond_def bindM_def or_overflows_def
  by (auto dest!: SafeAdd_sum simp: contract_of_def Back_def split: prod.splits sum.splits if_splits)

definition uint256_zero :: "uint256_lib \<Rightarrow> bool" where
  "uint256_zero U \<longleftrightarrow> (\<forall>x. u_Sign U x = 0 \<longrightarrow> u_IsZero U x)"

lemma beyond_calls:
  assumes "uint256_zero (ev_u E)"
  shows "gasCall E n f = (Inr d, f') \<Longrightarrow> unat (callGasTemp (fr_evm f')) + (if u_IsZero (ev_u E) (fr_stack f ! 2) then 0 else 9000) \<le> unat d"
    "gasCallCode E n f = (Inr d, f') \<Longrightarrow> unat (callGasTemp (fr_evm f')) + (if u_IsZero (ev_u E) (fr_stack f ! 2) then 0 else 9000) \<le> unat d"
    "gasDelegateCall E n f = (Inr d, f') \<Longrightarrow> unat (callGasTemp (fr_evm f')) \<le> unat d"
    "gasStaticCall E n f = (Inr d, f') \<Longrightarrow> unat (callGasTemp (fr_evm f')) \<le> unat d"
proof -
  let ?k = "if u_IsZero (ev_u E) (fr_stack f ! 2) then 0 else 9000 :: nat"
  assume a: "gasCall E n f = (Inr d, f')"
  define v where "v = fr_stack f ! 2"
  have l: "2 < length (fr_stack f)" using a by (auto simp: gasCall_def bindM_def Back_def stack_Back_def split: if_splits)
  define m1 :: "('a, u64) frame_m" where "m1 = (if r_IsEIP158 (chainRules E) then
              if \<not> u_IsZero (ev_u E) v then bindM (state_op (Empty (ev_db E) (u_Bytes20 (ev_u E) (fr_stack f ! 1)))) (\<lambda>e. returnM (if e then 25000 else 0)) else returnM 0
            else bindM (state_op (Exist (ev_db E) (u_Bytes20 (ev_u E) (fr_stack f ! 1)))) (\<lambda>e. returnM (if \<not> e then 25000 else 0)))"
  define K where "K = (\<lambda>gas. let gas = if \<not> u_IsZero (ev_u E) v then gas + 9000 else gas in
     bindM (mem_gas n) (\<lambda>memoryGas. bindM (or_overflows (SafeAdd gas memoryGas)) (call_gas E)))"
  have "bindM m1 K f = (Inr d, f')" using a l unfolding m1_def K_def gasCall_def bindM_def[of "Back 2"] bindM_def[of "Back 1"] v_def One_nat_def
    by (simp add: Back_def stack_Back_def Let_def split del: if_split)
  moreover have "beyond ?k (bindM m1 K)"
  proof (rule beyond_gives[where P = "\<lambda>v. v = 0 \<or> v = 25000"])
    show "m1 f = (Inr v, f') \<Longrightarrow> v = 0 \<or> v = 25000" for f v f'
      by (auto simp: m1_def bindM_def split: if_splits prod.splits sum.splits)
    fix g :: u64 assume "g = 0 \<or> g = 25000"
    then have k: "?k \<le> unat (if \<not> u_IsZero (ev_u E) v then g + 9000 else g)" by (auto simp: v_def)
    show "beyond ?k (K g)" unfolding K_def Let_def
      by (rule beyond_skip, rule beyond_bind[where j = ?k], rule at_least_add, use k in linarith, rule beyond_call_gas)
  qed
  ultimately show "unat (callGasTemp (fr_evm f')) + ?k \<le> unat d" by (simp add: beyond_def)
next
  let ?k = "if u_IsZero (ev_u E) (fr_stack f ! 2) then 0 else 9000 :: nat"
  assume a: "gasCallCode E n f = (Inr d, f')"
  obtain mg f1 where m: "mem_gas n f = (Inr mg, f1)" using a by (auto simp: gasCallCode_def bindM_def split: prod.splits sum.splits)
  have s: "fr_stack f1 = fr_stack f" using still_leaf(6)[of n] m by (metis snd_conv still_def)
  define v where "v = fr_stack f ! 2"
  have k: "?k \<le> unat (if u_Sign (ev_u E) v \<noteq> 0 then 9000 else 0 :: u64)" using assms by (auto simp: uint256_zero_def v_def)
  have "bindM (or_overflows (SafeAdd (if u_Sign (ev_u E) v \<noteq> 0 then 9000 else 0) mg)) (call_gas E) f1 = (Inr d, f')"
    using a m s by (auto simp: gasCallCode_def bindM_def[of "Back 2"] Back_def stack_Back_def v_def Let_def split: if_splits)
  moreover have "beyond ?k (bindM (or_overflows (SafeAdd (if u_Sign (ev_u E) v \<noteq> 0 then 9000 else 0) mg)) (call_gas E))"
    by (rule beyond_bind[where j = ?k], rule at_least_add, use k in linarith, rule beyond_call_gas)
  ultimately show "unat (callGasTemp (fr_evm f')) + ?k \<le> unat d" by (simp add: beyond_def)
next
  have "beyond 0 (gasDelegateCall E n)" unfolding gasDelegateCall_def by (rule beyond_skip, rule beyond_call_gas) simp
  then show "gasDelegateCall E n f = (Inr d, f') \<Longrightarrow> unat (callGasTemp (fr_evm f')) \<le> unat d" by (auto simp: beyond_def)
next
  have "beyond 0 (gasStaticCall E n)" unfolding gasStaticCall_def by (rule beyond_skip, rule beyond_call_gas) simp
  then show "gasStaticCall E n f = (Inr d, f') \<Longrightarrow> unat (callGasTemp (fr_evm f')) \<le> unat d" by (auto simp: beyond_def)
qed

section \<open>What an instruction costs\<close>

text \<open>An instruction that passes on gas: what it returns is covered by what its price has taken.\<close>

definition pays_back :: "nat \<Rightarrow> 'tr operation \<Rightarrow> bool" where
  "pays_back n x \<longleftrightarrow> (\<forall>dyn mem fa d fb f1 r f2. dynamicGas x = Some dyn \<longrightarrow> dyn mem fa = (Inr d, fb) \<longrightarrow> fr_stack f1 = fr_stack fa \<longrightarrow>
     callGasTemp (fr_evm f1) = callGasTemp (fr_evm fb) \<longrightarrow> gas_of f1 + unat d = gas_of fa \<longrightarrow> op_minStack x \<le> length (fr_stack fa) \<longrightarrow>
     gas_of fa < n \<longrightarrow> execute x f1 = (r, f2) \<longrightarrow> fuelled r \<and> ((\<forall>m. r \<noteq> Inl (Panic m)) \<longrightarrow> gas_of f2 \<le> gas_of fa))"

definition charges :: "'tr operation \<Rightarrow> bool" where
  "charges x \<longleftrightarrow> halts x \<or> reverts x \<or> 0 < constantGas x \<or> (\<exists>dyn. dynamicGas x = Some dyn \<and> (\<forall>mem. at_least 1 (dyn mem)))"

definition priced :: "nat \<Rightarrow> 'tr operation \<Rightarrow> bool" where
  "priced n x \<longleftrightarrow> (\<forall>dyn mem. dynamicGas x = Some dyn \<longrightarrow> still (dyn mem)) \<and> (\<forall>ms st. memorySize x = Some ms \<longrightarrow> fuelled (ms st)) \<and>
     (calm (execute x) \<and> charges x \<or> 0 < constantGas x \<and> dynamicGas x \<noteq> None \<and> pays_back n x)"

lemma use_gas_run: "use_gas g f = (r, f') \<Longrightarrow>
    (r = Inr () \<and> fr_stack f' = fr_stack f \<and> fr_evm f' = fr_evm f \<and> gas_of f' + unat g = gas_of f) \<or> (r = Inl (Err ErrOutOfGas) \<and> f' = f)"
  by (auto simp: use_gas_def UseGas_def gas_of_def unat_sub word_le_nat_alt not_less word_less_nat_alt split: if_splits)

lemma check_run: "validate_stack x f = (r, f') \<Longrightarrow> f' = f \<and> fuelled r" "check_writes E op x f = (r', f') \<Longrightarrow> f' = f \<and> fuelled r'"
  "\<forall>ms st. memorySize x = Some ms \<longrightarrow> fuelled (ms st) \<Longrightarrow> memory_size x f = (r'', f') \<Longrightarrow> f' = f \<and> fuelled r''"
proof -
  show "validate_stack x f = (r, f') \<Longrightarrow> f' = f \<and> fuelled r"
    by (auto simp: validate_stack_def bindM_def split: if_splits)
  show "check_writes E op x f = (r', f') \<Longrightarrow> f' = f \<and> fuelled r'"
    by (auto simp: check_writes_def bindM_def Back_def stack_Back_def stack_fault_def out_of_fuel_def split: if_splits)
  assume m: "\<forall>ms st. memorySize x = Some ms \<longrightarrow> fuelled (ms st)" and r: "memory_size x f = (r'', f')"
  show "f' = f \<and> fuelled r''"
  proof (cases "memorySize x")
    case (Some ms)
    then show ?thesis using r m[rule_format, OF Some, of "fr_stack f"]
      by (cases "ms (fr_stack f)") (auto simp: memory_size_def bindM_def or_overflows_def split: if_splits)
  qed (use r in \<open>auto simp: memory_size_def\<close>)
qed

lemma dynamic_run:
  assumes "dynamicGas x = Some dyn" "still (dyn mem)" "dynamic_gas x mem f = (r, f')"
  shows "fuelled r" "(\<forall>m. r \<noteq> Inl (Panic m)) \<Longrightarrow> gas_of f' \<le> gas_of f"
    "r = Inr u \<Longrightarrow> \<exists>d fb. dyn mem f = (Inr d, fb) \<and> fr_stack f' = fr_stack f \<and> fr_evm f' = fr_evm fb \<and> gas_of f' + unat d = gas_of f"
proof -
  obtain r1 f1 where d: "dyn mem f = (r1, f1)" by fastforce
  have s: "fuelled r1" "gas_of f1 = gas_of f" "fr_stack f1 = fr_stack f"
    using assms(2)[unfolded still_def calm_def, THEN conjunct1, rule_format, of f] assms(2)[unfolded still_def, THEN conjunct2, rule_format, of f] d by simp_all
  consider x where "r1 = Inl (Panic x)" | x where "r1 = Inl (Err x)" | g where "r1 = Inr g" by (metis fault.exhaust sum.exhaust)
  then have "fuelled r \<and> ((\<forall>m. r \<noteq> Inl (Panic m)) \<longrightarrow> gas_of f' \<le> gas_of f) \<and>
    (r = Inr u \<longrightarrow> (\<exists>d fb. dyn mem f = (Inr d, fb) \<and> fr_stack f' = fr_stack f \<and> fr_evm f' = fr_evm fb \<and> gas_of f' + unat d = gas_of f))"
  proof cases
    case 3
    then have "use_gas g f1 = (r, f')" using assms(1,3) d by (simp add: dynamic_gas_def bindM_def attemptM_def)
    from use_gas_run[OF this] s d 3 show ?thesis by auto
  qed (use assms(1,3) d s in \<open>auto simp: dynamic_gas_def bindM_def attemptM_def\<close>)
  then show "fuelled r" "(\<forall>m. r \<noteq> Inl (Panic m)) \<Longrightarrow> gas_of f' \<le> gas_of f"
    "r = Inr u \<Longrightarrow> \<exists>d fb. dyn mem f = (Inr d, fb) \<and> fr_stack f' = fr_stack f \<and> fr_evm f' = fr_evm fb \<and> gas_of f' + unat d = gas_of f"
    by simp_all
qed

text \<open>What the checks before an instruction leave when they succeed.\<close>

definition paid :: "'tr operation \<Rightarrow> 'tr frame \<Rightarrow> 'tr frame \<Rightarrow> bool" where
  "paid x f f' \<longleftrightarrow> fr_stack f' = fr_stack f \<and> (\<exists>fa. fr_stack fa = fr_stack f \<and> gas_of fa + unat (constantGas x) = gas_of f \<and>
     (case dynamicGas x of
        None \<Rightarrow> gas_of f' = gas_of fa
      | Some dyn \<Rightarrow> \<exists>mem d fb. dyn mem fa = (Inr d, fb) \<and> callGasTemp (fr_evm f') = callGasTemp (fr_evm fb) \<and> gas_of f' + unat d = gas_of fa))"

lemma paid_tail:
  assumes "priced n x" "\<not> DisableGasMetering (fr_evm f)" "bindM (metered (dynamic_gas x mem)) (\<lambda>_. resize_memory mem) f = (r, f')"
  shows "fuelled r" "(\<forall>m. r \<noteq> Inl (Panic m)) \<Longrightarrow> gas_of f' \<le> gas_of f"
    "r = Inr u \<Longrightarrow> fr_stack f' = fr_stack f \<and> (case dynamicGas x of None \<Rightarrow> gas_of f' = gas_of f
      | Some dyn \<Rightarrow> \<exists>d fb. dyn mem f = (Inr d, fb) \<and> callGasTemp (fr_evm f') = callGasTemp (fr_evm fb) \<and> gas_of f' + unat d = gas_of f)"
proof -
  obtain r1 f1 where d: "dynamic_gas x mem f = (r1, f1)" by fastforce
  have b: "(case r1 of Inl e \<Rightarrow> (Inl e, f1) | Inr _ \<Rightarrow> resize_memory mem f1) = (r, f')"
    using assms(2,3) d by (auto simp: bindM_def metered_def split: sum.splits)
  have m: "resize_memory mem f1 = (r, f') \<Longrightarrow> fuelled r \<and> fr_stack f' = fr_stack f1 \<and> fr_evm f' = fr_evm f1 \<and> gas_of f' = gas_of f1"
    using fuelled_data(7)[of mem "fr_mem f1"] by (auto simp: resize_memory_def on_mem_def gas_of_def split: if_splits sum.splits)
  have "fuelled r \<and> ((\<forall>m. r \<noteq> Inl (Panic m)) \<longrightarrow> gas_of f' \<le> gas_of f) \<and> (r = Inr u \<longrightarrow> fr_stack f' = fr_stack f \<and>
      (case dynamicGas x of None \<Rightarrow> gas_of f' = gas_of f
      | Some dyn \<Rightarrow> \<exists>d fb. dyn mem f = (Inr d, fb) \<and> callGasTemp (fr_evm f') = callGasTemp (fr_evm fb) \<and> gas_of f' + unat d = gas_of f))"
  proof (cases "dynamicGas x")
    case None
    then have "f1 = f" "r1 = Inr ()" using d by (simp_all add: dynamic_gas_def)
    then show ?thesis using b m None by auto
  next
    case (Some dyn)
    then have "still (dyn mem)" using assms(1) by (simp add: priced_def)
    note y = dynamic_run[OF Some this d]
    show ?thesis
    proof (cases r1)
      case (Inl e)
      then show ?thesis using b y by (cases e) auto
    next
      case (Inr v)
      from y(3)[OF Inr] obtain g fb where "dyn mem f = (Inr g, fb)" "fr_stack f1 = fr_stack f" "fr_evm f1 = fr_evm fb" "gas_of f1 + unat g = gas_of f"
        by blast
      moreover from b Inr have "resize_memory mem f1 = (r, f')" by simp
      ultimately show ?thesis using m Some by auto
    qed
  qed
  then show "fuelled r" "(\<forall>m. r \<noteq> Inl (Panic m)) \<Longrightarrow> gas_of f' \<le> gas_of f"
    "r = Inr u \<Longrightarrow> fr_stack f' = fr_stack f \<and> (case dynamicGas x of None \<Rightarrow> gas_of f' = gas_of f
      | Some dyn \<Rightarrow> \<exists>d fb. dyn mem f = (Inr d, fb) \<and> callGasTemp (fr_evm f') = callGasTemp (fr_evm fb) \<and> gas_of f' + unat d = gas_of f)"
    by simp_all
qed

lemma bindM_split:
  assumes "bindM m k s = (r, s')"
  obtains e where "m s = (Inl e, s')" "r = Inl e" | v s1 where "m s = (Inr v, s1)" "k v s1 = (r, s')"
  using assms by (auto simp: bindM_def split: prod.splits sum.splits)

lemma prepare_gas:
  assumes "priced n x" "\<not> DisableGasMetering (fr_evm f)" "prepare E op x f = (r, f')"
  shows "fuelled r \<and> ((\<forall>m. r \<noteq> Inl (Panic m)) \<longrightarrow> gas_of f' \<le> gas_of f) \<and> (r = Inr u \<longrightarrow> paid x f f')"
proof -
  have ms: "\<forall>ms st. memorySize x = Some ms \<longrightarrow> fuelled (ms st)" using assms(1) by (simp add: priced_def)
  from assms(3)[unfolded prepare_def] show ?thesis
  proof (cases rule: bindM_split)
    case (1 e)
    then show ?thesis using check_run(1)[OF 1(1)] by (auto simp: fuelled_def)
  next
    case (2 v s1)
    have s1: "s1 = f" using check_run(1)[OF 2(1)] by simp
    from 2(2)[unfolded s1] show ?thesis
    proof (cases rule: bindM_split)
      case (1 e)
      then show ?thesis using check_run(2)[OF 1(1)] by (auto simp: fuelled_def)
    next
      case (2 v s2)
      have s2: "s2 = f" using check_run(2)[OF 2(1)] by simp
      from 2(2)[unfolded s2] show ?thesis
      proof (cases rule: bindM_split)
        case (1 e)
        then have "use_gas (constantGas x) f = (Inl e, f')" using assms(2) by (simp add: metered_def bindM_def)
        from use_gas_run[OF this] 1 show ?thesis by auto
      next
        case (2 v fa)
        then have "use_gas (constantGas x) f = (Inr v, fa)" using assms(2) by (simp add: metered_def bindM_def)
        from use_gas_run[OF this] have fa: "fr_stack fa = fr_stack f" "fr_evm fa = fr_evm f" "gas_of fa + unat (constantGas x) = gas_of f" by auto
        from 2(2) show ?thesis
        proof (cases rule: bindM_split)
          case (1 e)
          then show ?thesis using check_run(3)[OF ms 1(1)] fa by (auto simp: fuelled_def)
        next
          case (2 mem s4)
          have s4: "s4 = fa" using check_run(3)[OF ms 2(1)] by simp
          have off: "\<not> DisableGasMetering (fr_evm fa)" using assms(2) fa by simp
          note t = paid_tail[OF assms(1) off 2(2)[unfolded s4]]
          have "paid x f f'" if "r = Inr u" unfolding paid_def using t(3)[OF that] fa
            by (intro conjI exI[of _ fa]) (simp_all split: option.splits, blast)
          then show ?thesis using t(1,2) fa by auto
        qed
      qed
    qed
  qed
qed

lemma gas_returnData [simp]: "gas_of (set_returnData x d f) = gas_of f"
  by (simp add: set_returnData_def gas_of_def)

lemma execute_gas:
  assumes "priced n x" "paid x f f1" "op_minStack x \<le> length (fr_stack f)" "gas_of f \<le> n" "execute x f1 = (r, f2)"
  shows "fuelled r \<and> ((\<forall>m. r \<noteq> Inl (Panic m)) \<longrightarrow> gas_of f2 \<le> gas_of f \<and> (halts x \<or> reverts x \<or> gas_of f2 < gas_of f))"
proof -
  obtain fa where fa: "fr_stack fa = fr_stack f" "gas_of fa + unat (constantGas x) = gas_of f" "fr_stack f1 = fr_stack f"
    and d: "case dynamicGas x of None \<Rightarrow> gas_of f1 = gas_of fa
      | Some dyn \<Rightarrow> \<exists>mem d fb. dyn mem fa = (Inr d, fb) \<and> callGasTemp (fr_evm f1) = callGasTemp (fr_evm fb) \<and> gas_of f1 + unat d = gas_of fa"
    using assms(2) by (auto simp: paid_def)
  have c: "0 < constantGas x \<Longrightarrow> gas_of fa < gas_of f" using fa(2) by (simp add: word_less_nat_alt)
  have le: "gas_of f1 \<le> gas_of fa" using d by (auto split: option.splits)
  from assms(1) consider "calm (execute x)" "charges x" | dyn where "0 < constantGas x" "dynamicGas x = Some dyn" "pays_back n x"
    by (auto simp: priced_def)
  then show ?thesis
  proof cases
    case 1
    then have "fuelled r" "gas_of f2 = gas_of f1" using assms(5) by (auto simp: calm_def dest!: spec[of _ f1])
    moreover have "halts x \<or> reverts x \<or> gas_of f1 < gas_of f"
    proof (cases "\<exists>dyn. dynamicGas x = Some dyn \<and> (\<forall>mem. at_least 1 (dyn mem))")
      case True
      then obtain dyn where y: "dynamicGas x = Some dyn" "\<And>mem. at_least 1 (dyn mem)" by blast
      then obtain mem g fb where "dyn mem fa = (Inr g, fb)" "gas_of f1 + unat g = gas_of fa" using d by auto
      moreover have "1 \<le> unat g" using y(2)[of mem] calculation(1) by (auto simp: at_least_def)
      ultimately show ?thesis using fa(2) by linarith
    qed (use 1 c le in \<open>auto simp: charges_def\<close>)
    ultimately show ?thesis using le fa(2) by auto
  next
    case 2
    then obtain mem g fb where y: "dyn mem fa = (Inr g, fb)" "callGasTemp (fr_evm f1) = callGasTemp (fr_evm fb)" "gas_of f1 + unat g = gas_of fa"
      using d by auto
    have n: "gas_of fa < n" using c 2(1) assms(4) by simp
    have st: "fr_stack f1 = fr_stack fa" "op_minStack x \<le> length (fr_stack fa)" using fa assms(3) by simp_all
    from 2(3)[unfolded pays_back_def, rule_format, OF 2(2) y(1) st(1) y(2,3) st(2) n assms(5)] c 2(1) show ?thesis by auto
  qed
qed

lemma step_gas:
  assumes "quiet_calls C" "\<And>op x. lookup_op (jump_table E C) op = Some x \<Longrightarrow> priced n x" "\<not> DisableGasMetering (fr_evm f)"
    "gas_of f \<le> n" "interpreter_step E C f = (r, f')"
  shows "fuelled r \<and> (\<forall>v. r = Inr v \<longrightarrow> gas_of f' \<le> gas_of f \<and> (v = Next \<longrightarrow> gas_of f' < gas_of f))"
proof (cases "lookup_op (jump_table E C) (GetOp (fr_contract f) (fr_pc f))")
  case None
  then show ?thesis using assms(5) by (auto simp: interpreter_step_def)
next
  case (Some x)
  let ?op = "GetOp (fr_contract f) (fr_pc f)"
  note pr = assms(2)[OF Some]
  obtain r1 f1 where p: "prepare E ?op x f = (r1, f1)" by fastforce
  note g = prepare_gas[OF pr assms(3) p]
  show ?thesis
  proof (cases r1)
    case (Inl e)
    then show ?thesis using assms(5) Some p g by (auto simp: interpreter_step_def Let_def split: fault.splits)
  next
    case (Inr u)
    have s: "execute_op x f1 = (r, f')" using assms(5) Some p Inr by (simp add: interpreter_step_def Let_def)
    obtain r2 f2 where x: "execute x f1 = (r2, f2)" by fastforce
    have "fuelled r2 \<and> ((\<forall>m. r2 \<noteq> Inl (Panic m)) \<longrightarrow> gas_of f2 \<le> gas_of f \<and> (halts x \<or> reverts x \<or> gas_of f2 < gas_of f))"
    proof (rule execute_gas[OF pr _ _ assms(4) x])
      show "paid x f f1" using g Inr by auto
      have "(?op, x) \<in> set (jump_table E C)" using Some by (simp add: lookup_op_def map_of_SomeD)
      then obtain p q where "sized p q x" "least_items ?op \<le> p"
        using jump_table_ok[OF assms(1), of E] by (fastforce simp: list_all_iff entry_ok_def)
      from prepare_stack(2)[OF this p Inr] this(1) show "op_minStack x \<le> length (fr_stack f)" by (simp add: sized_def)
    qed
    then show ?thesis using s x by (auto simp: execute_op_def Let_def gas_of_def[of "f\<lparr>fr_pc := p\<rparr>" for f p] gas_of_def[symmetric] split: sum.splits fault.splits if_splits)
  qed
qed

section \<open>Instructions that pass on gas\<close>

definition left_over :: "nat \<Rightarrow> u64 \<Rightarrow> (evm_error, byte list \<times> u64 \<times> evm_error option) result \<Rightarrow> bool" where
  "left_over n g res \<longleftrightarrow> (unat g < n \<longrightarrow> fuelled res \<and> (\<forall>ret g' err. res = Inr (ret, g', err) \<longrightarrow> g' \<le> g))"

definition left_over_create :: "nat \<Rightarrow> u64 \<Rightarrow> (evm_error, byte list \<times> address \<times> u64 \<times> evm_error option) result \<Rightarrow> bool" where
  "left_over_create n g res \<longleftrightarrow> (unat g < n \<longrightarrow> fuelled res \<and> (\<forall>ret a g' err. res = Inr (ret, a, g', err) \<longrightarrow> g' \<le> g))"

definition frugal :: "nat \<Rightarrow> 'tr evm_calls \<Rightarrow> bool" where
  "frugal n C \<longleftrightarrow> (\<forall>r a i g v e. left_over n g (fst (cl_Call C r a i g v e))) \<and> (\<forall>r a i g v e. left_over n g (fst (cl_CallCode C r a i g v e))) \<and>
     (\<forall>r a i g e. left_over n g (fst (cl_DelegateCall C r a i g e))) \<and> (\<forall>r a i g e. left_over n g (fst (cl_StaticCall C r a i g e))) \<and>
     (\<forall>r c g v e. left_over_create n g (fst (cl_Create C r c g v e))) \<and> (\<forall>r c g v t e. left_over_create n g (fst (cl_Create2 C r c g v t e)))"

lemma frugalD:
  assumes "frugal n C"
  shows "left_over n g (fst (cl_Call C r a i g v e))" "left_over n g (fst (cl_CallCode C r a i g v e))"
    "left_over n g (fst (cl_DelegateCall C r a i g e))" "left_over n g (fst (cl_StaticCall C r a i g e))"
    "left_over_create n g (fst (cl_Create C r i g v e))" "left_over_create n g (fst (cl_Create2 C r i g v t e))"
  using assms by (simp_all add: frugal_def)

lemma unat_add_le: "unat (x + y :: 'a::len word) \<le> unat x + unat y"
  by (simp add: unat_word_ariths)

lemma finish_call_gas:
  assumes "finish_call E x y (ret, g, err) f = (r, f')"
  shows "fuelled r \<and> ((\<forall>m. r \<noteq> Inl (Panic m)) \<longrightarrow> gas_of f' \<le> gas_of f + unat g)"
proof -
  have "calm (bindM (push z) (\<lambda>_. if c then on_mem (Memory_Set a b ret) else returnM ()))" for z c a b by ((rule calm_intros)+)
  note c = this[unfolded calm_def, rule_format]
  let ?m = "bindM (push (if err \<noteq> None then u_Clear (ev_u E) else u_SetOne (ev_u E))) (\<lambda>_. if err = None \<or> err = Some ErrExecutionReverted
      then on_mem (Memory_Set (u_Uint64 (ev_u E) x) (u_Uint64 (ev_u E) y) ret) else returnM ())"
  have e: "finish_call E x y (ret, g, err) f = bindM ?m (\<lambda>_. bindM (on_contract (\<lambda>c. c\<lparr>c_Gas := c_Gas c + g\<rparr>)) (\<lambda>_. returnM ret)) f"
    by (simp add: finish_call_def bindM_def split: sum.split prod.split)
  obtain r1 f1 where m: "?m f = (r1, f1)" by fastforce
  then have c1: "fuelled r1" "gas_of f1 = gas_of f" using c[of _ _ _ _ f] by (metis fst_conv snd_conv)+
  show ?thesis
  proof (cases r1)
    case (Inl z)
    then show ?thesis using assms e m c1 by (auto simp: bindM_def)
  next
    case (Inr v)
    then have "f' = f1\<lparr>fr_contract := (fr_contract f1)\<lparr>c_Gas := c_Gas (fr_contract f1) + g\<rparr>\<rparr>" "r = Inr ret"
      using assms e m by (simp_all add: bindM_def on_contract_def)
    then show ?thesis using c1 unat_add_le[of "c_Gas (fr_contract f1)" g] by (simp add: gas_of_def)
  qed
qed

lemma passed_on:
  assumes "\<And>e. left_over n g (fst (call e))" "unat g < n" "bindM (on_evm call) (finish_call E x y) f = (r, f')"
  shows "fuelled r \<and> ((\<forall>m. r \<noteq> Inl (Panic m)) \<longrightarrow> gas_of f' \<le> gas_of f + unat g)"
proof -
  obtain res e' where c: "call (fr_evm f) = (res, e')" by fastforce
  have l: "fuelled res" "\<And>ret g' err. res = Inr (ret, g', err) \<Longrightarrow> g' \<le> g" using assms(1)[of "fr_evm f"] assms(2) c by (auto simp: left_over_def)
  show ?thesis
  proof (cases res)
    case (Inl z)
    then show ?thesis using assms(3) c l(1) by (auto simp: bindM_def on_evm_def gas_of_def)
  next
    case (Inr v)
    obtain ret g' err where v: "v = (ret, g', err)" by (cases v) auto
    have "finish_call E x y (ret, g', err) (f\<lparr>fr_evm := e'\<rparr>) = (r, f')" using assms(3) c Inr v by (simp add: bindM_def on_evm_def)
    from finish_call_gas[OF this] l(2)[of ret g' err] Inr v show ?thesis by (auto simp: gas_of_def word_le_nat_alt)
  qed
qed

lemma pays_args:
  assumes "\<And>args me e. left_over n g (fst (call args me e))" "unat g < n"
    "bindM (get_ptr U i j) (\<lambda>args. bindM self_ref (\<lambda>me. bindM (on_evm (call args me)) (finish_call E x y))) f = (r, f')"
  shows "fuelled r \<and> ((\<forall>m. r \<noteq> Inl (Panic m)) \<longrightarrow> gas_of f' \<le> gas_of f + unat g)"
  using assms(3)
proof (cases rule: bindM_split)
  case (1 e)
  then show ?thesis using calm_ops(2)[of U i j, unfolded calm_def, rule_format, of f] by (auto simp: fuelled_def)
next
  case (2 args f1)
  have f1: "f1 = f" using 2(1) by (auto simp: get_ptr_def read_mem_def)
  have "bindM (on_evm (call args (ContractOf (fr_contract f)))) (finish_call E x y) f = (r, f')"
    using 2(2) f1 by (simp add: bindM_def[of self_ref] self_ref_def contract_of_def)
  from passed_on[OF assms(1,2) this] show ?thesis .
qed

lemma list_7: "7 \<le> length xs \<Longrightarrow> \<exists>a b c d e f g ys. xs = a # b # c # d # e # f # g # ys"
  by (cases xs; cases "tl xs"; cases "tl (tl xs)"; cases "drop 3 xs"; cases "drop 4 xs"; cases "drop 5 xs"; cases "drop 6 xs") auto

lemma pop_run [simp]: "fr_stack f = x # st \<Longrightarrow> pop f = (Inr x, f\<lparr>fr_stack := st\<rparr>)"
  by (simp add: pop_def stack_pop_def)

lemma opCall_gas:
  assumes "frugal n C" "fr_stack f = t # a # v # i # j # x # y # st"
    "unat (callGasTemp (fr_evm f)) + (if u_IsZero (ev_u E) v then 0 else 9000) \<le> d" "d < n"
    "opCall E C f = (r, f') \<or> opCallCode E C f = (r, f')"
  shows "fuelled r \<and> ((\<forall>m. r \<noteq> Inl (Panic m)) \<longrightarrow> gas_of f' \<le> gas_of f + d)"
proof -
  let ?g = "if \<not> u_IsZero (ev_u E) v then callGasTemp (fr_evm f) + 2300 else callGasTemp (fr_evm f)"
  have g: "unat ?g \<le> d" using assms(3) unat_add_le[of "callGasTemp (fr_evm f)" 2300] by (auto split: if_splits)
  note l = frugalD(1)[OF assms(1), of ?g] frugalD(2)[OF assms(1), of ?g]
  have "bindM (get_ptr (ev_u E) i j) (\<lambda>args. bindM self_ref (\<lambda>me.
      bindM (on_evm (cl_Call C me (u_Bytes20 (ev_u E) a) args ?g (big_value (ev_u E) v))) (finish_call E x y))) (f\<lparr>fr_stack := st\<rparr>) = (r, f') \<or>
    bindM (get_ptr (ev_u E) i j) (\<lambda>args. bindM self_ref (\<lambda>me.
      bindM (on_evm (cl_CallCode C me (u_Bytes20 (ev_u E) a) args ?g (big_value (ev_u E) v))) (finish_call E x y))) (f\<lparr>fr_stack := st\<rparr>) = (r, f')"
    using assms(2,5) by (simp add: opCall_def opCallCode_def)
  then have "fuelled r \<and> ((\<forall>m. r \<noteq> Inl (Panic m)) \<longrightarrow> gas_of f' \<le> gas_of (f\<lparr>fr_stack := st\<rparr>) + unat ?g)"
    using pays_args[OF l(1)] pays_args[OF l(2)] g assms(4) by (meson le_less_trans)
  then show ?thesis using g by (auto simp: gas_of_def)
qed

lemma opDelegateCall_gas:
  assumes "frugal n C" "fr_stack f = t # a # i # j # x # y # st" "unat (callGasTemp (fr_evm f)) \<le> d" "d < n"
    "opDelegateCall E C f = (r, f') \<or> opStaticCall E C f = (r, f')"
  shows "fuelled r \<and> ((\<forall>m. r \<noteq> Inl (Panic m)) \<longrightarrow> gas_of f' \<le> gas_of f + d)"
proof -
  let ?g = "callGasTemp (fr_evm f)"
  note l = frugalD(3)[OF assms(1), of ?g] frugalD(4)[OF assms(1), of ?g]
  have "bindM (get_ptr (ev_u E) i j) (\<lambda>args. bindM self_ref (\<lambda>me.
      bindM (on_evm (cl_DelegateCall C me (u_Bytes20 (ev_u E) a) args ?g)) (finish_call E x y))) (f\<lparr>fr_stack := st\<rparr>) = (r, f') \<or>
    bindM (get_ptr (ev_u E) i j) (\<lambda>args. bindM self_ref (\<lambda>me.
      bindM (on_evm (cl_StaticCall C me (u_Bytes20 (ev_u E) a) args ?g)) (finish_call E x y))) (f\<lparr>fr_stack := st\<rparr>) = (r, f')"
    using assms(2,5) by (simp add: opDelegateCall_def opStaticCall_def)
  then have "fuelled r \<and> ((\<forall>m. r \<noteq> Inl (Panic m)) \<longrightarrow> gas_of f' \<le> gas_of (f\<lparr>fr_stack := st\<rparr>) + unat ?g)"
    using pays_args[OF l(1)] pays_args[OF l(2)] assms(3,4) by (meson le_less_trans)
  then show ?thesis using assms(3) by (auto simp: gas_of_def)
qed

lemma create_tail:
  assumes "\<And>me e. left_over_create n g (fst (call me e))" "gas_of f < n" "g \<le> c_Gas (fr_contract f)"
    "bindM (on_contract (\<lambda>c. snd (UseGas g c))) (\<lambda>_. bindM self_ref (\<lambda>me. bindM (on_evm (call me)) (\<lambda>(res, addr, rg, err).
       bindM (push (W addr err)) (\<lambda>_. bindM (on_contract (\<lambda>c. c\<lparr>c_Gas := c_Gas c + rg\<rparr>)) (\<lambda>_. returnM (Z res err)))))) f = (r, f')"
  shows "fuelled r \<and> gas_of f' \<le> gas_of f"
proof -
  let ?c = "snd (UseGas g (fr_contract f))"
  have u: "c_Gas ?c = c_Gas (fr_contract f) - g" using leD[OF assms(3)] by (simp add: UseGas_def)
  have g: "unat g < n" using assms(2,3) by (simp add: gas_of_def word_le_nat_alt)
  obtain res e where c: "call (ContractOf ?c) (fr_evm f) = (res, e)" by fastforce
  have l: "fuelled res" "\<And>ret a g' err. res = Inr (ret, a, g', err) \<Longrightarrow> g' \<le> g"
    using assms(1)[of "ContractOf ?c" "fr_evm f"] g c by (auto simp: left_over_create_def)
  show ?thesis
  proof (cases res)
    case (Inl z)
    then have "r = Inl z" "f' = f\<lparr>fr_contract := ?c, fr_evm := e\<rparr>" using assms(4) c by (simp_all add: bindM_def on_contract_def self_ref_def contract_of_def on_evm_def)
    then show ?thesis using l(1) Inl assms(3) by (simp add: gas_of_def u unat_sub word_le_nat_alt)
  next
    case (Inr v)
    obtain ret a rg err where v: "v = (ret, a, rg, err)" by (cases v) auto
    have f': "r = Inr (Z ret err)" "c_Gas (fr_contract f') = c_Gas ?c + rg"
      using assms(4) c Inr v by (auto simp: bindM_def on_contract_def self_ref_def contract_of_def on_evm_def push_def)
    have "unat rg \<le> unat g" using l(2) Inr v by (simp add: word_le_nat_alt)
    moreover have "unat (c_Gas ?c) + unat g = gas_of f" using assms(3) by (simp add: u gas_of_def unat_sub word_le_nat_alt)
    ultimately have "gas_of f' \<le> gas_of f" using unat_add_le[of "c_Gas ?c" rg] by (simp add: gas_of_def f'(2))
    then show ?thesis using f'(1) by simp
  qed
qed

lemma opCreate_gas:
  assumes "frugal n C" "gas_of f < n"
    "fr_stack f = v # x # y # st \<and> opCreate E C f = (r, f') \<or> fr_stack f = v # x # y # z # st \<and> opCreate2 E C f = (r, f')"
  shows "fuelled r \<and> gas_of f' \<le> gas_of f"
proof -
  have sub: "w - w div 64 \<le> (w :: u64)" for w by (metis word_sub_le div_le_dividend word_le_nat_alt unat_div_distrib)
  have k: "calm (get_copy (ev_u E) x y)" "\<And>f res f1. get_copy (ev_u E) x y f = (res, f1) \<Longrightarrow> f1 = f"
    by (auto simp: get_copy_def read_mem_def intro: calm_intros)
  let ?f = "f\<lparr>fr_stack := st\<rparr>"
  have sf: "gas_of ?f = gas_of f" "c_Gas (fr_contract ?f) = c_Gas (fr_contract f)" by (simp_all add: gas_of_def)
  obtain res f1 where m: "get_copy (ev_u E) x y ?f = (res, f1)" by fastforce
  have f1: "f1 = ?f" "fuelled res" using k(2)[OF m] k(1)[unfolded calm_def, rule_format, of ?f] m by auto
  show ?thesis
  proof (cases res)
    case (Inl e)
    then have "r = Inl e" "f' = ?f" using assms(3) m f1 by (auto simp: opCreate_def opCreate2_def)
    then show ?thesis using f1(2) Inl sf by simp
  next
    case (Inr input)
    note l = frugalD(5)[OF assms(1)] frugalD(6)[OF assms(1)]
    from assms(3) show ?thesis
    proof
      let ?g = "if r_IsEIP150 (chainRules E) then c_Gas (fr_contract f) - c_Gas (fr_contract f) div 64 else c_Gas (fr_contract f)"
      assume o: "fr_stack f = v # x # y # st \<and> opCreate E C f = (r, f')"
      let ?W = "\<lambda>addr err. if r_IsHomestead (chainRules E) \<and> err = Some ErrCodeStoreOutOfGas then u_Clear (ev_u E)
         else if err \<noteq> None \<and> err \<noteq> Some ErrCodeStoreOutOfGas then u_Clear (ev_u E) else u_SetBytes (ev_u E) (address_bytes addr)"
      have "bindM (on_contract (\<lambda>c. snd (UseGas ?g c))) (\<lambda>_. bindM self_ref (\<lambda>me.
          bindM (on_evm (cl_Create C me input ?g (big_value (ev_u E) v))) (\<lambda>(res, addr, rg, err).
          bindM (push (?W addr err)) (\<lambda>_. bindM (on_contract (\<lambda>c. c\<lparr>c_Gas := c_Gas c + rg\<rparr>)) (\<lambda>_.
          returnM (if err = Some ErrExecutionReverted then res else [])))))) ?f = (r, f')"
        using conjunct1[OF o] conjunct2[OF o] m f1 Inr by (simp add: opCreate_def contract_of_def Let_def split del: if_split)
      from create_tail[OF l(1) _ _ this] show ?thesis using assms(2) sub sf by auto
    next
      let ?g = "c_Gas (fr_contract f) - c_Gas (fr_contract f) div 64"
      assume o: "fr_stack f = v # x # y # z # st \<and> opCreate2 E C f = (r, f')"
      have "bindM (on_contract (\<lambda>c. snd (UseGas ?g c))) (\<lambda>_. bindM self_ref (\<lambda>me.
          bindM (on_evm (cl_Create2 C me input ?g (big_value (ev_u E) v) z)) (\<lambda>(res, addr, rg, err).
          bindM (push (if err \<noteq> None then u_Clear (ev_u E) else u_SetBytes (ev_u E) (address_bytes addr))) (\<lambda>_.
          bindM (on_contract (\<lambda>c. c\<lparr>c_Gas := c_Gas c + rg\<rparr>)) (\<lambda>_.
          returnM (if err = Some ErrExecutionReverted then res else [])))))) ?f = (r, f')"
        using conjunct1[OF o] conjunct2[OF o] m f1 Inr by (simp add: opCreate2_def contract_of_def Let_def split del: if_split)
      from create_tail[OF l(2) _ _ this] show ?thesis using assms(2) sub sf by auto
    qed
  qed
qed

section \<open>The instruction sets\<close>

definition entry_priced :: "nat \<Rightarrow> byte \<times> 'tr operation \<Rightarrow> bool" where
  "entry_priced n r \<longleftrightarrow> priced n (snd r) \<and> (fst r = 0x0a \<longrightarrow> calm (execute (snd r)))"

lemma fuelled_mem: "fuelled (mem_range U i j st)" "fuelled (mem_fixed U k st)" "fuelled r1 \<Longrightarrow> fuelled r2 \<Longrightarrow> fuelled (mem_max r1 r2)"
  by (auto simp: mem_range_def mem_fixed_def mem_max_def stack_Back_def stack_fault_def out_of_fuel_def intro!: fuelled_and_then)

lemma priced_flags [simp]:
  "priced n (x\<lparr>writes := b\<rparr>) = priced n x" "priced n (x\<lparr>jumps := b\<rparr>) = priced n x" "priced n (x\<lparr>returns := b\<rparr>) = priced n x"
  "pays_back n (x\<lparr>constantGas := g\<rparr>) = pays_back n x"
  by (simp_all add: priced_def charges_def pays_back_def)

lemma execute_new [simp]:
  "execute (new_op ex g p q) = ex" "execute (new_dyn ex g dyn p q) = ex" "execute (new_mem ex g dyn p q ms) = ex"
  by (simp_all add: new_mem_def new_dyn_def new_op_def)

lemma priced_new_op: "calm ex \<Longrightarrow> 0 < g \<Longrightarrow> priced n (new_op ex g p q)" "calm ex \<Longrightarrow> priced n ((new_op ex g p q)\<lparr>halts := True\<rparr>)"
  by (simp_all add: priced_def charges_def new_op_def)

lemma priced_new_dyn:
  "calm ex \<Longrightarrow> (\<And>m. still (dyn m)) \<Longrightarrow> (\<And>m. at_least 1 (dyn m)) \<Longrightarrow> priced n (new_dyn ex g dyn p q)"
  "calm ex \<Longrightarrow> (\<And>m. still (dyn m)) \<Longrightarrow> priced n ((new_dyn ex g dyn p q)\<lparr>halts := True\<rparr>)"
  by (simp_all add: priced_def charges_def new_dyn_def new_op_def)

lemma priced_new_mem:
  "calm ex \<Longrightarrow> (\<And>m. still (dyn m)) \<Longrightarrow> (\<And>st. fuelled (ms st)) \<Longrightarrow> 0 < g \<Longrightarrow> priced n (new_mem ex g dyn p q ms)"
  "calm ex \<Longrightarrow> (\<And>m. still (dyn m)) \<Longrightarrow> (\<And>st. fuelled (ms st)) \<Longrightarrow> (\<And>m. at_least 1 (dyn m)) \<Longrightarrow> priced n (new_mem ex g dyn p q ms)"
  "calm ex \<Longrightarrow> (\<And>m. still (dyn m)) \<Longrightarrow> (\<And>st. fuelled (ms st)) \<Longrightarrow> priced n ((new_mem ex g dyn p q ms)\<lparr>halts := True\<rparr>)"
  "calm ex \<Longrightarrow> (\<And>m. still (dyn m)) \<Longrightarrow> (\<And>st. fuelled (ms st)) \<Longrightarrow> priced n ((new_mem ex g dyn p q ms)\<lparr>reverts := True\<rparr>)"
  by (simp_all add: priced_def charges_def new_mem_def new_dyn_def new_op_def)

lemma priced_call:
  "pays_back n (new_mem ex g dyn p q ms) \<Longrightarrow> (\<And>m. still (dyn m)) \<Longrightarrow> (\<And>st. fuelled (ms st)) \<Longrightarrow> 0 < g \<Longrightarrow> priced n (new_mem ex g dyn p q ms)"
  by (simp add: priced_def new_mem_def new_dyn_def new_op_def)

lemma priced_constantGas: "priced n x \<Longrightarrow> 0 < g \<Longrightarrow> priced n (x\<lparr>constantGas := g\<rparr>)"
  by (auto simp: priced_def charges_def)

lemmas gas_steps = GasQuickStep_def GasFastestStep_def GasFastStep_def GasMidStep_def GasSlowStep_def GasExtStep_def

lemmas priced_intros = priced_new_op priced_new_dyn priced_new_mem(1) calm_instructions still_prices fuelled_mem at_least_prices

lemma arithmetic_priced: "list_all (entry_priced n) (arithmetic_ops E)"
  by (simp add: arithmetic_ops_def Let_def entry_priced_def gas_steps memory_size_defs priced_intros del: One_nat_def)

lemma environment_priced: "list_all (entry_priced n) (environment_ops E)"
  by (simp add: environment_ops_def Let_def entry_priced_def gas_steps memory_size_defs priced_intros del: One_nat_def)

lemma storage_priced: "list_all (entry_priced n) (storage_ops E)"
  by (simp add: storage_ops_def Let_def entry_priced_def gas_steps memory_size_defs priced_intros del: One_nat_def)

lemma stack_priced: "list_all (entry_priced n) (stack_ops E)"
proof -
  have l: "priced n (log_op E k)" for k unfolding log_op_def by (simp add: priced_new_mem(2) priced_intros memory_size_defs del: One_nat_def)
  have d: "priced n (dup_op k)" "priced n (swap_op k)" for k
    by (simp_all add: priced_def charges_def dup_op_def swap_op_def new_op_def calm_instructions gas_steps)
  have x: "calm (execute (dup_op k))" "calm (execute (swap_op k))" "calm (execute (log_op E k))" for k
    by (simp_all add: dup_op_def swap_op_def log_op_def calm_instructions)
  show ?thesis unfolding stack_ops_def list_all_append list_all_iff set_map
    by (auto simp del: upt_rec_numeral One_nat_def simp: entry_priced_def l d x priced_intros gas_steps)
qed

lemma pays_backI:
  assumes "\<And>mem fa d fb f1 r f2. dyn mem fa = (Inr d, fb) \<Longrightarrow> fr_stack f1 = fr_stack fa \<Longrightarrow> callGasTemp (fr_evm f1) = callGasTemp (fr_evm fb) \<Longrightarrow>
    gas_of f1 + unat d = gas_of fa \<Longrightarrow> p \<le> length (fr_stack fa) \<Longrightarrow> gas_of fa < n \<Longrightarrow> ex f1 = (r, f2) \<Longrightarrow>
    fuelled r \<and> ((\<forall>m. r \<noteq> Inl (Panic m)) \<longrightarrow> gas_of f2 \<le> gas_of fa)"
  shows "pays_back n (new_mem ex g dyn p q ms)"
  unfolding pays_back_def using assms by (simp add: new_mem_def new_dyn_def new_op_def minStack_def)

lemma pays_back_calls:
  fixes C :: "'tr evm_calls"
  assumes "frugal n C" "uint256_zero (ev_u E)"
  shows "pays_back n (new_mem (opCall E C) g (gasCall E) 7 1 ms)" "pays_back n (new_mem (opCallCode E C) g (gasCallCode E) 7 1 ms)"
    "pays_back n (new_mem (opDelegateCall E C) g (gasDelegateCall E) 6 1 ms)" "pays_back n (new_mem (opStaticCall E C) g (gasStaticCall E) 6 1 ms)"
    "pays_back n (new_mem (opCreate E C) g dyn 3 1 ms)" "pays_back n (new_mem (opCreate2 E C) g dyn 4 1 ms)"
proof -
  have c7: "fuelled r \<and> ((\<forall>m. r \<noteq> Inl (Panic m)) \<longrightarrow> gas_of f2 \<le> gas_of fa)"
    if "unat (callGasTemp (fr_evm fb)) + (if u_IsZero (ev_u E) (fr_stack fa ! 2) then 0 else 9000) \<le> unat d" "fr_stack f1 = fr_stack fa"
      "callGasTemp (fr_evm f1) = callGasTemp (fr_evm fb)" "gas_of f1 + unat d = gas_of fa" "7 \<le> length (fr_stack fa)" "gas_of fa < n"
      "opCall E C f1 = (r, f2) \<or> opCallCode E C f1 = (r, f2)" for fa fb f1 f2 :: "'tr frame" and d :: u64 and r
  proof -
    note u = that
    obtain t a v i j x y st where l: "fr_stack f1 = t # a # v # i # j # x # y # st" using list_7[of "fr_stack fa"] u(2,5) by auto
    have "unat (callGasTemp (fr_evm f1)) + (if u_IsZero (ev_u E) v then 0 else 9000) \<le> unat d" using u(1,2,3) l by (metis nth_Cons_0 nth_Cons_numeral nth_Cons_Suc numeral_2_eq_2)
    from opCall_gas[OF assms(1) l this _ u(7)] u(4,6) show ?thesis by auto
  qed
  show "pays_back n (new_mem (opCall E C) g (gasCall E) 7 1 ms)"
    by (rule pays_backI, rule c7[OF beyond_calls(1)[OF assms(2)]], assumption+, blast)
  show "pays_back n (new_mem (opCallCode E C) g (gasCallCode E) 7 1 ms)"
    by (rule pays_backI, rule c7[OF beyond_calls(2)[OF assms(2)]], assumption+, blast)
  have c6: "fuelled r \<and> ((\<forall>m. r \<noteq> Inl (Panic m)) \<longrightarrow> gas_of f2 \<le> gas_of fa)"
    if "unat (callGasTemp (fr_evm fb)) \<le> unat d" "fr_stack f1 = fr_stack fa"
      "callGasTemp (fr_evm f1) = callGasTemp (fr_evm fb)" "gas_of f1 + unat d = gas_of fa" "6 \<le> length (fr_stack fa)" "gas_of fa < n"
      "opDelegateCall E C f1 = (r, f2) \<or> opStaticCall E C f1 = (r, f2)" for fa fb f1 f2 :: "'tr frame" and d :: u64 and r
  proof -
    note u = that
    obtain t a i j x y st where l: "fr_stack f1 = t # a # i # j # x # y # st" using list_7[of "0 # fr_stack fa"] u(2,5) by auto
    from opDelegateCall_gas[OF assms(1) l _ _ u(7), of "unat d"] u(1,3,4,6) show ?thesis by auto
  qed
  show "pays_back n (new_mem (opDelegateCall E C) g (gasDelegateCall E) 6 1 ms)"
    by (rule pays_backI, rule c6[OF beyond_calls(3)[OF assms(2)]], assumption+, blast)
  show "pays_back n (new_mem (opStaticCall E C) g (gasStaticCall E) 6 1 ms)"
    by (rule pays_backI, rule c6[OF beyond_calls(4)[OF assms(2)]], assumption+, blast)
  have c3: "\<exists>v x y z st. fr_stack f = v # x # y # z # st" if "4 \<le> length (fr_stack f)" for f :: "'tr frame"
    using list_7[of "0 # 0 # 0 # fr_stack f"] that by auto
  have c2: "\<exists>v x y st. fr_stack f = v # x # y # st" if "3 \<le> length (fr_stack f)" for f :: "'tr frame"
    using list_7[of "0 # 0 # 0 # 0 # fr_stack f"] that by auto
  show "pays_back n (new_mem (opCreate E C) g dyn 3 1 ms)"
  proof (rule pays_backI)
    fix mem d fb f1 r f2 and fa :: "'tr frame"
    assume a: "fr_stack f1 = fr_stack fa" "gas_of f1 + unat (d :: u64) = gas_of fa" "3 \<le> length (fr_stack fa)" "gas_of fa < n" "opCreate E C f1 = (r, f2)"
    then obtain v x y st where "fr_stack f1 = v # x # y # st" using c2[of fa] by auto
    with a opCreate_gas[OF assms(1), of f1 v x y st E r f2 0] show "fuelled r \<and> ((\<forall>m. r \<noteq> Inl (Panic m)) \<longrightarrow> gas_of f2 \<le> gas_of fa)" by auto
  qed
  show "pays_back n (new_mem (opCreate2 E C) g dyn 4 1 ms)"
  proof (rule pays_backI)
    fix mem d fb f1 r f2 and fa :: "'tr frame"
    assume a: "fr_stack f1 = fr_stack fa" "gas_of f1 + unat (d :: u64) = gas_of fa" "4 \<le> length (fr_stack fa)" "gas_of fa < n" "opCreate2 E C f1 = (r, f2)"
    then obtain v x y z st where "fr_stack f1 = v # x # y # z # st" using c3[of fa] by auto
    with a opCreate_gas[OF assms(1), of f1 v x y st E r f2 z] show "fuelled r \<and> ((\<forall>m. r \<noteq> Inl (Panic m)) \<longrightarrow> gas_of f2 \<le> gas_of fa)" by auto
  qed
qed

lemma priced_set_op: "entry_priced n (b, x) \<Longrightarrow> list_all (entry_priced n) t \<Longrightarrow> list_all (entry_priced n) (set_op b x t)"
  by (simp add: set_op_def)

lemma priced_update_op: "(\<And>x. entry_priced n (b, x) \<Longrightarrow> entry_priced n (b, g x)) \<Longrightarrow> list_all (entry_priced n) t \<Longrightarrow>
    list_all (entry_priced n) (update_op b g t)"
  by (auto simp: update_op_def list_all_iff)

lemma entry_priced_constantGas: "entry_priced n (b, x) \<Longrightarrow> 0 < g \<Longrightarrow> entry_priced n (b, x\<lparr>constantGas := g\<rparr>)"
  by (simp add: entry_priced_def priced_constantGas)

lemma entry_priced_exp: "entry_priced n (0x0a, x) \<Longrightarrow> entry_priced n (0x0a, x\<lparr>dynamicGas := Some (gasExpEIP158 U)\<rparr>)"
  using at_least_prices(2)[of U] still_prices(8)[of U] by (auto simp: entry_priced_def priced_def charges_def)

lemma jump_table_priced:
  assumes "frugal n C" "uint256_zero (ev_u E)"
  shows "list_all (entry_priced n) (jump_table E C)"
proof -
  note c = pays_back_calls[OF assms]
  have e: "entry_priced n (b, x)" if "priced n x" "b \<noteq> 0x0a" for b x using that by (simp add: entry_priced_def)
  note p = priced_call c priced_intros priced_new_mem
  have "list_all (entry_priced n) (system_ops E C)" unfolding system_ops_def Let_def
    by (simp add: e CALL_def p memory_size_defs del: One_nat_def)
  then have f: "list_all (entry_priced n) (NewFrontierInstructionSet E C)"
    by (simp add: NewFrontierInstructionSet_def arithmetic_priced environment_priced storage_priced stack_priced)
  have h: "list_all (entry_priced n) (NewHomesteadInstructionSet E C)" unfolding NewHomesteadInstructionSet_def
    by (rule priced_set_op[OF _ f]) (simp add: e p memory_size_defs del: One_nat_def)
  have t: "list_all (entry_priced n) (NewTangerineWhistleInstructionSet E C)" unfolding NewTangerineWhistleInstructionSet_def
    by (intro priced_update_op entry_priced_constantGas h) simp_all
  have s: "list_all (entry_priced n) (NewSpuriousDragonInstructionSet E C)" unfolding NewSpuriousDragonInstructionSet_def
    by (intro priced_update_op entry_priced_exp t)
  have b: "list_all (entry_priced n) (NewByzantiumInstructionSet E C)" unfolding NewByzantiumInstructionSet_def Let_def
    by (intro priced_set_op s) (simp_all add: e p memory_size_defs gas_steps del: One_nat_def)
  have "list_all (entry_priced n) (NewSip004InstructionSet E C)" unfolding NewSip004InstructionSet_def Let_def
    by (intro priced_set_op b) (simp_all add: e p memory_size_defs gas_steps del: One_nat_def)
  then show ?thesis using f h t s b by (simp add: jump_table_def Let_def)
qed

section \<open>Calls\<close>

definition gives :: "('a \<Rightarrow> bool) \<Rightarrow> ('s, evm_error, 'a) go \<Rightarrow> bool" where
  "gives P m \<longleftrightarrow> (\<forall>s. fuelled (fst (m s)) \<and> (\<forall>v. fst (m s) = Inr v \<longrightarrow> P v))"

lemma gives_bind:
  assumes "gives P m" "\<And>v. P v \<Longrightarrow> gives Q (k v)"
  shows "gives Q (bindM m k)"
proof -
  have "fuelled (fst (bindM m k s)) \<and> (\<forall>v. fst (bindM m k s) = Inr v \<longrightarrow> Q v)" for s
  proof (cases "fst (m s)")
    case (Inl x)
    then show ?thesis using assms(1)[unfolded gives_def, rule_format, of s] by (simp add: bindM_cases)
  next
    case (Inr v)
    then have "P v" using assms(1) by (auto simp: gives_def)
    from assms(2)[OF this] Inr show ?thesis by (simp add: gives_def bindM_cases)
  qed
  then show ?thesis by (simp add: gives_def)
qed

lemma gives_any: "gives (\<lambda>_. True) m \<Longrightarrow> (\<And>v. gives Q (k v)) \<Longrightarrow> gives Q (bindM m k)"
  by (rule gives_bind)

named_theorems gives_intros

lemma gives_leaf [gives_intros]:
  "gives (\<lambda>_. True) (on_state m)" "gives (\<lambda>_. True) (modifyM h)" "gives (\<lambda>_. True) (readM g)" "gives (\<lambda>_. True) (chief_address E a)"
  by (auto simp: gives_def on_state_def chief_address_def out_of_fuel_def split: prod.split sum.split fault.split)

lemma gives_return: "P v \<Longrightarrow> gives P (returnM v)"
  by (simp add: gives_def)

lemma gives_if: "gives P m \<Longrightarrow> gives P m' \<Longrightarrow> gives P (if c then m else m')"
  by simp

lemma gives_parts [gives_intros]:
  "gives (\<lambda>_. True) (CanTransfer E a v)" "gives (\<lambda>_. True) (Transfer E a b v)" "gives (\<lambda>_. True) (choose_metering E c)"
  unfolding CanTransfer_def Transfer_def choose_metering_def Let_def
  by ((rule gives_any gives_intros gives_return gives_if TrueI)+)

lemma gives_new_contract [gives_intros]: "gives (\<lambda>c. c_Gas c = g) (new_contract r a v g)"
  by (auto simp: gives_def new_contract_def NewContract_def bindM_def split: ContractRef.split)

lemma gives_load_code [gives_intros]: "c_Gas c = g \<Longrightarrow> gives (\<lambda>c'. c_Gas c' = g) (load_code E a c)"
  unfolding load_code_def by (rule gives_any, rule gives_intros, rule gives_any, rule gives_intros, rule gives_return) (simp add: SetCallCode_def)

text \<open>A runner, and a contract that has been run.\<close>

definition thrifty :: "nat \<Rightarrow> 'tr runner \<Rightarrow> bool" where
  "thrifty n L \<longleftrightarrow> (\<forall>f. gas_of f < n \<longrightarrow> fuelled (fst (L f)) \<and> (\<forall>v. fst (L f) = Inr v \<longrightarrow> gas_of (snd (L f)) \<le> gas_of f))"

definition has_run :: "u64 \<Rightarrow> byte list \<times> evm_error option \<times> Contract \<Rightarrow> bool" where
  "has_run g = (\<lambda>(ret, err, c). c_Gas c \<le> g)"

lemma fuelled_precompiled: "fuelled (RequiredGas p input)" "fuelled (Precompiled_Run E p input)" "fuelled (RunPrecompiledContract E p input c)"
proof -
  have b: "fuelled (get_big i s n)" for i s n unfolding get_big_def by (intro fuelled_and_then fuelled_data) simp
  have h: "fuelled (modexp_head i k l)" for i k l by (simp add: modexp_head_def b)
  have n: "fuelled (of_native z)" for z :: "'z option" by (simp add: of_native_def split: option.split)
  show g: "fuelled (RequiredGas p input)" for p
    by (cases p) (auto simp: bigModExp_RequiredGas_def Let_def intro!: fuelled_and_then b h)
  show r: "fuelled (Precompiled_Run E p input)" for p
    by (cases p) (auto simp: ecrecover_Run_def bigModExp_Run_def bn256Add_Run_def bn256ScalarMul_Run_def bn256Pairing_Run_def Let_def out_of_fuel_def
        intro!: fuelled_and_then b n fuelled_data split: option.split)
  show "fuelled (RunPrecompiledContract E p input c)" using r[of p]
    by (auto simp: RunPrecompiledContract_def Let_def intro!: fuelled_and_then g split: prod.split sum.split fault.split)
qed

lemma UseGas_le: "c_Gas (snd (UseGas g c)) \<le> c_Gas c"
  by (simp add: UseGas_def word_sub_le not_less)

lemma gives_precompiled: "gives (has_run (c_Gas c)) (liftM (RunPrecompiledContract E p input c))"
proof -
  have "has_run (c_Gas c) v" if "RunPrecompiledContract E p input c = Inr v" for v
  proof (cases "RequiredGas p input")
    case (Inr g)
    then show ?thesis using that UseGas_le[of g c]
      by (auto simp: RunPrecompiledContract_def Let_def has_run_def split: prod.splits sum.splits fault.splits if_splits)
  qed (use that in \<open>auto simp: RunPrecompiledContract_def\<close>)
  then show ?thesis by (simp add: gives_def fuelled_precompiled)
qed

lemma gives_Run:
  assumes "thrifty n L" "unat (c_Gas c) < n"
  shows "gives (has_run (c_Gas c)) (Interpreter_Run L c input)"
proof -
  have "fuelled (fst (Interpreter_Run L c input e)) \<and> (\<forall>v. fst (Interpreter_Run L c input e) = Inr v \<longrightarrow> has_run (c_Gas c) v)" for e
  proof -
    let ?f = "new_frame (c\<lparr>c_Input := input\<rparr>) (e\<lparr>evm_depth := evm_depth e + 1, evm_returnData := []\<rparr>)"
    have g: "gas_of ?f = unat (c_Gas c)" by (simp add: gas_of_def new_frame_def)
    obtain r f' where l: "L ?f = (r, f')" by fastforce
    have "fuelled r" "\<And>v. r = Inr v \<Longrightarrow> gas_of f' \<le> unat (c_Gas c)"
      using assms(1)[unfolded thrifty_def, rule_format, of ?f] assms(2) g l by auto
    then show ?thesis using l by (auto simp: Interpreter_Run_def Let_def has_run_def gas_of_def word_le_nat_alt split: sum.split)
  qed
  then show ?thesis by (simp add: gives_def)
qed

lemma gives_run:
  assumes "thrifty n L" "unat (c_Gas c) < n"
  shows "gives (has_run (c_Gas c)) (evm_run E L c input)" "gives (has_run (c_Gas c)) (createRun E L c input)"
proof -
  note r = gives_Run[OF assms]
  show "gives (has_run (c_Gas c)) (evm_run E L c input)"
  proof (cases "precompile_of E c")
    case None
    have "gives (has_run (c_Gas c)) (bindM (choose_metering E c) (\<lambda>_. Interpreter_Run L c input))" by (rule gives_any, rule gives_intros, rule r)
    then show ?thesis using None by (simp add: evm_run_def)
  qed (simp add: evm_run_def gives_precompiled)
  show "gives (has_run (c_Gas c)) (createRun E L c input)"
  proof (cases "precompile_of E c")
    case None
    have "gives (has_run (c_Gas c)) (bindM (modifyM h) (\<lambda>_. bindM (Interpreter_Run L c input) (\<lambda>r. bindM (modifyM h') (\<lambda>_. returnM r))))" for h h'
      by (rule gives_any, rule gives_intros, rule gives_bind[OF r], rule gives_any, rule gives_intros, rule gives_return)
    then show ?thesis using None by (simp add: createRun_def gives_def[of _ "panicM m" for m] out_of_fuel_def split: option.split)
  qed (simp add: createRun_def gives_precompiled)
qed

lemma gives_end_call:
  assumes "has_run g r"
  shows "gives (\<lambda>(ret, g', err). g' \<le> g) (end_call E s r)"
proof -
  obtain ret err c where r: "r = (ret, err, c)" by (cases r) auto
  have "c_Gas c \<le> g" using assms r by (simp add: has_run_def)
  then have "c_Gas (if err \<noteq> Some ErrExecutionReverted then snd (UseGas (c_Gas c) c) else c) \<le> g" using order_trans[OF UseGas_le, of c g] by simp
  then show ?thesis using \<open>c_Gas c \<le> g\<close> unfolding r end_call_def by (auto intro!: gives_any gives_intros gives_return)
qed

lemma gives_end_create:
  assumes "has_run g r"
  shows "gives (\<lambda>(ret, a, g', err). g' \<le> g) (end_create E s a0 r)"
proof -
  obtain ret err c where r: "r = (ret, err, c)" by (cases r) auto
  have c: "c_Gas c \<le> g" using assms r by (simp add: has_run_def)
  have st: "gives (\<lambda>(err, c'). c_Gas c' \<le> g) (store_code E a0 b (ret, err, c))" for b
  proof -
    have "c_Gas c' \<le> g" if "UseGas w c = (ok, c')" for w ok c' using UseGas_le[of w c] that c by simp
    then show ?thesis using c unfolding store_code_def Let_def
      by (auto intro!: gives_any gives_intros gives_return split: prod.split)
  qed
  have u: "c_Gas (snd (UseGas (c_Gas c') c')) \<le> g" if "c_Gas c' \<le> g" for c' using UseGas_le that order_trans by blast
  show ?thesis unfolding r end_create_def Let_def prod.case
    by (rule gives_bind[OF st], simp only: case_prod_unfold, rule gives_bind[where P = "\<lambda>c. c_Gas c \<le> g"])
      (auto intro!: gives_any gives_intros gives_return u)
qed

lemma gives_guarded: "gives (\<lambda>(ret, g', err). g' \<le> g) m \<Longrightarrow> gives (\<lambda>(ret, g', err). g' \<le> g) (guarded E g m)"
  unfolding guarded_def by (rule gives_any, rule gives_intros) (auto intro!: gives_return)

lemma gives_ran:
  assumes "thrifty n L" "unat g < n" "c_Gas c = g"
  shows "gives (\<lambda>(ret, g', err). g' \<le> g) (bindM (evm_run E L c input) (end_call E s))"
proof -
  have "gives (has_run g) (evm_run E L c input)" using gives_run(1)[OF assms(1), of c] assms(2,3) by simp
  then show ?thesis by (rule gives_bind) (rule gives_end_call)
qed

lemma gives_calls:
  assumes "thrifty n L" "unat g < n"
  shows "gives (\<lambda>(ret, g', err). g' \<le> g) (evm_Call E L r a i g v)" "gives (\<lambda>(ret, g', err). g' \<le> g) (evm_CallCode E L r a i g v)"
    "gives (\<lambda>(ret, g', err). g' \<le> g) (evm_DelegateCall E L r a i g)" "gives (\<lambda>(ret, g', err). g' \<le> g) (evm_StaticCall E L r a i g)"
proof -
  note x = gives_ran[OF assms]
  have q: "gives (\<lambda>(ret, g', err). g' \<le> g) (returnM ([], g, err))" for err by (rule gives_return) simp
  have l: "gives (\<lambda>(ret, g', err). g' \<le> g) (bindM (load_code E a c) (\<lambda>c. bindM (evm_run E L c i) (end_call E s)))" if "c_Gas c = g" for c s
    by (rule gives_bind[OF gives_load_code[OF that]], rule x)
  have nc: "gives (\<lambda>(ret, g', err). g' \<le> g) (bindM (new_contract r b w g) (\<lambda>c. bindM (load_code E a c) (\<lambda>c. bindM (evm_run E L c i) (end_call E s))))" for b w s
    by (rule gives_bind[OF gives_new_contract], rule l)
  show "gives (\<lambda>(ret, g', err). g' \<le> g) (evm_Call E L r a i g v)" "gives (\<lambda>(ret, g', err). g' \<le> g) (evm_CallCode E L r a i g v)"
    unfolding evm_Call_def evm_CallCode_def
    by (auto intro!: gives_guarded gives_any gives_intros nc q[of "Some ErrInsufficientBalance"] q[of None] gives_if gives_return)
  have d: "gives (\<lambda>c'. c_Gas c' = g) (liftM (AsDelegate r c))" if "c_Gas c = g" for c
    using that by (auto simp: gives_def AsDelegate_def out_of_fuel_def split: ContractRef.splits)
  show "gives (\<lambda>(ret, g', err). g' \<le> g) (evm_DelegateCall E L r a i g)" unfolding evm_DelegateCall_def
    by (rule gives_guarded, rule gives_any, rule gives_intros, rule gives_bind[OF gives_new_contract], rule gives_bind[OF d], assumption, rule l)
  have "gives (\<lambda>(ret, g', err). g' \<le> g) (bindM (evm_run E L c i) (\<lambda>r. bindM (end_call E s r) (\<lambda>res. bindM (modifyM h) (\<lambda>_. returnM res))))"
    if "c_Gas c = g" for c s h
  proof -
    have "gives (has_run g) (evm_run E L c i)" using gives_run(1)[OF assms(1), of c] assms(2) that by simp
    then show ?thesis
      by (rule gives_bind) (rule gives_bind[OF gives_end_call], assumption, rule gives_any, rule gives_intros, rule gives_return)
  qed
  note st = this
  show "gives (\<lambda>(ret, g', err). g' \<le> g) (evm_StaticCall E L r a i g)" unfolding evm_StaticCall_def
    by (rule gives_guarded, rule gives_any, rule gives_intros, rule gives_any, rule gives_intros, rule gives_any, rule gives_intros,
        rule gives_bind[OF gives_new_contract], rule gives_bind[OF gives_load_code], assumption, rule st)
qed

lemma gives_create:
  assumes "thrifty n L" "unat g < n"
  shows "gives (\<lambda>(ret, a, g', err). g' \<le> g) (evm_create E L r code g v a0)"
proof -
  have q: "gives (\<lambda>(ret, a, g', err). g' \<le> g) (returnM ([], b, w, err))" if "w \<le> g" for b w err by (rule gives_return) (use that in simp)
  have c: "gives (\<lambda>(ret, a, g', err). g' \<le> g) (bindM (createRun E L (SetCallCode a0 h code c) []) (end_create E s a0))" if "c_Gas c = g" for c h s
  proof -
    have "gives (has_run g) (createRun E L (SetCallCode a0 h code c) [])"
      using gives_run(2)[OF assms(1), of "SetCallCode a0 h code c"] assms(2) that by (simp add: SetCallCode_def)
    then show ?thesis by (rule gives_bind) (rule gives_end_create)
  qed
  note p = gives_any gives_intros q[OF order_refl] q[OF word_zero_le] gives_return[where P = "\<lambda>_. True", OF TrueI]
  have n: "gives (\<lambda>(ret, a, g', err). g' \<le> g) (bindM (new_contract r a0 (Some v) g) (\<lambda>contract.
         let contract = SetCallCode a0 (Keccak256Hash (db_crypto (ev_db E)) code) code contract in
         if b then returnM ([], a0, g, None) else bindM (createRun E L contract []) (end_create E s a0)))" for b s
    by (rule gives_bind[OF gives_new_contract], unfold Let_def, rule gives_if, rule q, simp, rule c)
  show ?thesis unfolding evm_create_def by ((rule n gives_if p)+)
qed

lemma frugal_calls:
  assumes "thrifty n L"
  shows "frugal n (calls E L)"
proof -
  have l: "left_over n g (fst (m e))" if "unat g < n \<Longrightarrow> gives (\<lambda>(ret, g', err). g' \<le> g) m" for g m and e :: 'e
    using that by (fastforce simp: left_over_def gives_def)
  have lc: "left_over_create n g (fst (m e))" if "unat g < n \<Longrightarrow> gives (\<lambda>(ret, a, g', err). g' \<le> g) m" for g m and e :: 'e
    using that by (fastforce simp: left_over_create_def gives_def)
  have c: "gives (\<lambda>(ret, a, g', err). g' \<le> g) (evm_Create E L r code g v)" "gives (\<lambda>(ret, a, g', err). g' \<le> g) (evm_Create2 E L r code g v t)"
    if "unat g < n" for r code g v t
    unfolding evm_Create_def evm_Create2_def by (rule gives_any, rule gives_intros, rule gives_create[OF assms that], rule gives_create[OF assms that])
  show ?thesis unfolding frugal_def calls_def evm_calls.simps
    by (intro conjI allI l lc gives_calls[OF assms] c)
qed

section \<open>Metered runs\<close>

text \<open>
  The loop with a monitor: it stops with the panic \<open>unmetered\<close> when an instruction is about to be executed while
  metering is off.\<close>

definition unmetered :: string where
  "unmetered = ''gas metering is off''"

primrec metered_loop :: "'tr evm_env \<Rightarrow> nat \<Rightarrow> nat \<Rightarrow> 'tr runner" where
  "metered_loop E 0 steps f = (Inl (Panic out_of_fuel), f)"
| "metered_loop E (Suc n) steps f =
    (if DisableGasMetering (fr_evm f) then (Inl (Panic unmetered), f)
     else if (steps + 1) mod 1000 = 0 \<and> evm_abort (fr_evm f) then (Inr ([], None), f)
     else case interpreter_step E (calls E (metered_loop E n 0)) f of
       (Inl x, f') \<Rightarrow> (Inl x, f')
     | (Inr (Done ret err), f') \<Rightarrow> (Inr (ret, err), f')
     | (Inr Next, f') \<Rightarrow> metered_loop E n (steps + 1) f')"

lemma quiet_metered_loop: "quiet (metered_loop E n steps)"
proof (induction n arbitrary: steps)
  case (Suc n)
  have "no_fault (fst (metered_loop E (Suc n) steps f))" for f
  proof -
    obtain r f' where s: "interpreter_step E (calls E (metered_loop E n 0)) f = (r, f')" by fastforce
    from step_stack(1)[OF quiet_calls_of[OF Suc] s] Suc[of "steps + 1"] s show ?thesis
      by (auto simp: quiet_def unmetered_def stack_fault_def split: sum.split step_result.split)
  qed
  then show ?case by (simp add: quiet_def)
qed (simp add: quiet_def out_of_fuel_def stack_fault_def)

lemma thrifty_metered_loop:
  assumes "uint256_zero (ev_u E)"
  shows "thrifty n (metered_loop E n steps)"
proof (induction n arbitrary: steps)
  case (Suc n)
  let ?C = "calls E (metered_loop E n 0)"
  have pr: "priced n x" if "lookup_op (jump_table E ?C) op = Some x" for op x
    using jump_table_priced[OF frugal_calls[OF Suc[of 0], of E] assms] that by (auto simp: list_all_iff entry_priced_def lookup_op_def dest!: map_of_SomeD)
  have "fuelled (fst (metered_loop E (Suc n) steps f)) \<and> (\<forall>v. fst (metered_loop E (Suc n) steps f) = Inr v \<longrightarrow> gas_of (snd (metered_loop E (Suc n) steps f)) \<le> gas_of f)"
    if g: "gas_of f < Suc n" for f
  proof (cases "DisableGasMetering (fr_evm f)")
    case False
    obtain r f' where s: "interpreter_step E ?C f = (r, f')" by fastforce
    have sg: "fuelled r \<and> (\<forall>v. r = Inr v \<longrightarrow> gas_of f' \<le> gas_of f \<and> (v = Next \<longrightarrow> gas_of f' < gas_of f))"
      by (rule step_gas[OF quiet_calls_of[OF quiet_metered_loop] pr False _ s]) (use g in auto)
    show ?thesis
    proof (cases "r = Inr Next")
      case True
      then have "gas_of f' < gas_of f" using sg by auto
      then show ?thesis using Suc[of "steps + 1", unfolded thrifty_def, rule_format, of f'] g s True False by auto
    next
      case c: False
      then show ?thesis using sg s False by (auto split: sum.split step_result.split)
    qed
  qed (simp add: unmetered_def out_of_fuel_def)
  then show ?case by (simp add: thrifty_def del: metered_loop.simps)
qed (simp add: thrifty_def)

end
