(* ===== verification/Spec2Isabelle.thy ===== *)
theory Spec2Isabelle
  imports Tribe_Chain EVM_Stack EVM_Metering
begin

text \<open>
  MeshBox: a development of the consensus core.
\<close>

end
